(* ===== verification/Prelude.thy ===== *)
theory Prelude
  imports Main "HOL-Library.Sublist" "HOL-Library.AList"
begin

text \<open>
  Shared vocabulary of the Redline development: Go's fixed-width integers and truncating
  division, Go's byte strings and the functions of the package \<^verbatim>\<open>strings\<close> the
  gateway uses, decimal printing and parsing, and the model of one network round trip to a
  service the gateway talks to (Redis, Postgres, Nomad).

  Strings are lists of bytes. \<open>to_lower\<close> is Go's \<^verbatim>\<open>strings.ToLower\<close> on ASCII input (the
  fast path of the Go library); bytes above 127 are left alone.
  Durations and points in time are mathematical integers (nanoseconds, or milliseconds where
  the code uses milliseconds); \<open>i64\<close> marks every place where a 64-bit result can wrap.
\<close>

named_theorems go_simps \<open>unfolding rules for the Go library functions\<close>

section \<open>Integers\<close>

text \<open>Wrap-around of Go's \<^verbatim>\<open>int64\<close> (two's complement).\<close>

definition i64 :: "int \<Rightarrow> int" where
  "i64 x = (x + 2 ^ 63) mod 2 ^ 64 - 2 ^ 63"

definition is_i64 :: "int \<Rightarrow> bool" where
  "is_i64 x \<longleftrightarrow> - (2 ^ 63) \<le> x \<and> x < 2 ^ 63"

lemma i64_id [simp]: "is_i64 x \<Longrightarrow> i64 x = x"
  by (simp add: is_i64_def i64_def)

lemma is_i64_i64 [simp]: "is_i64 (i64 x)"
  by (simp add: is_i64_def i64_def)

lemma i64_bounds: "- (2 ^ 63) \<le> i64 x" "i64 x < 2 ^ 63"
  using is_i64_i64 [of x] unfolding is_i64_def by blast+

lemma i64_id_nonneg: "0 \<le> x \<Longrightarrow> x < 2 ^ 63 \<Longrightarrow> i64 x = x"
  by (rule i64_id) (simp add: is_i64_def)

text \<open>Go's integer division truncates towards zero.\<close>

definition tdiv :: "int \<Rightarrow> int \<Rightarrow> int" where
  "tdiv a b = sgn a * sgn b * (\<bar>a\<bar> div \<bar>b\<bar>)"

lemma tdiv_nonneg [simp]: "0 \<le> a \<Longrightarrow> 0 < b \<Longrightarrow> tdiv a b = a div b"
  by (cases "a = 0") (simp_all add: tdiv_def)

section \<open>Byte strings\<close>

definition has_prefix :: "string \<Rightarrow> string \<Rightarrow> bool" where
  "has_prefix s p \<longleftrightarrow> take (length p) s = p"

definition cut_prefix :: "string \<Rightarrow> string \<Rightarrow> string option" where
  "cut_prefix s p = (if has_prefix s p then Some (drop (length p) s) else None)"

definition has_suffix :: "string \<Rightarrow> string \<Rightarrow> bool" where
  "has_suffix s p \<longleftrightarrow> length p \<le> length s \<and> drop (length s - length p) s = p"

definition cut_suffix :: "string \<Rightarrow> string \<Rightarrow> string option" where
  "cut_suffix s p = (if has_suffix s p then Some (take (length s - length p) s) else None)"

fun contains_sub :: "string \<Rightarrow> string \<Rightarrow> bool" where
  "contains_sub [] p \<longleftrightarrow> p = []"
| "contains_sub (c # s) p \<longleftrightarrow> has_prefix (c # s) p \<or> contains_sub s p"

definition lower_char :: "char \<Rightarrow> char" where
  "lower_char c = (let n = of_char c :: nat in if 65 \<le> n \<and> n \<le> 90 then char_of (n + 32) else c)"

definition to_lower :: "string \<Rightarrow> string" where
  "to_lower s = map lower_char s"

text \<open>\<^verbatim>\<open>strings.Cut\<close> and \<^verbatim>\<open>strings.Split\<close> with a one-byte separator.\<close>

fun go_cut :: "string \<Rightarrow> char \<Rightarrow> (string \<times> string) option" where
  "go_cut [] c = None"
| "go_cut (x # s) c = (if x = c then Some ([], s)
     else map_option (\<lambda>(a, b). (x # a, b)) (go_cut s c))"

fun go_split :: "string \<Rightarrow> char \<Rightarrow> string list" where
  "go_split [] c = [[]]"
| "go_split (x # s) c = (if x = c then [] # go_split s c
     else (case go_split s c of [] \<Rightarrow> [[x]] | p # ps \<Rightarrow> (x # p) # ps))"

lemma has_prefix_append [simp]: "has_prefix (p @ s) p"
  by (simp add: has_prefix_def)

lemma has_prefix_iff: "has_prefix s p \<longleftrightarrow> (\<exists>r. s = p @ r)"
  by (metis append_eq_conv_conj append_take_drop_id has_prefix_def)

lemma cut_prefix_append [simp]: "cut_prefix (p @ s) p = Some s"
  by (simp add: cut_prefix_def)

lemma cut_prefix_Some: "cut_prefix s p = Some r \<longleftrightarrow> s = p @ r"
  by (auto simp: cut_prefix_def has_prefix_iff)

lemma contains_sub_iff: "contains_sub s p \<longleftrightarrow> (\<exists>a b. s = a @ p @ b)"
proof (induction s)
  case Nil
  then show ?case by simp
next
  case (Cons c s)
  show ?case
  proof
    assume "contains_sub (c # s) p"
    then consider "has_prefix (c # s) p" | "contains_sub s p" by auto
    then show "\<exists>a b. c # s = a @ p @ b"
    proof cases
      case 1
      then show ?thesis by (auto simp: has_prefix_iff intro: exI [of _ "[]"])
    next
      case 2
      then show ?thesis using Cons.IH by (metis append_Cons)
    qed
  next
    assume "\<exists>a b. c # s = a @ p @ b"
    then obtain a b where ab: "c # s = a @ p @ b" by blast
    show "contains_sub (c # s) p"
    proof (cases a)
      case Nil
      with ab have "has_prefix (c # s) p" by (simp add: has_prefix_iff)
      then show ?thesis by simp
    next
      case (Cons x a')
      with ab Cons.IH show ?thesis by auto
    qed
  qed
qed

lemma go_split_not_Nil [simp]: "go_split s c \<noteq> []"
  by (induction s) (auto split: list.splits)

lemma go_split_simple: "c \<notin> set s \<Longrightarrow> go_split s c = [s]"
  by (induction s) auto

lemma go_split_append: "c \<notin> set s \<Longrightarrow> go_split (s @ c # t) c = s # go_split t c"
  by (induction s) auto

lemma go_split_no_sep: "p \<in> set (go_split s c) \<Longrightarrow> c \<notin> set p"
  by (induction s arbitrary: p) (auto split: if_splits list.splits)

lemma go_cut_Some: "go_cut s c = Some (a, b) \<longleftrightarrow> s = a @ c # b \<and> c \<notin> set a"
proof (induction s arbitrary: a)
  case Nil
  then show ?case by simp
next
  case (Cons x s)
  then show ?case by (cases a) auto
qed

section \<open>Decimal numbers\<close>

definition digit :: "nat \<Rightarrow> char" where
  "digit n = char_of (48 + n)"

definition digit_val :: "char \<Rightarrow> nat option" where
  "digit_val c = (let n = of_char c :: nat in if 48 \<le> n \<and> n \<le> 57 then Some (n - 48) else None)"

fun show_nat :: "nat \<Rightarrow> string" where
  "show_nat n = (if n < 10 then [digit n] else show_nat (n div 10) @ [digit (n mod 10)])"

declare show_nat.simps [simp del]

definition itoa :: "int \<Rightarrow> string" where
  "itoa n = (if n < 0 then CHR ''-'' # show_nat (nat (- n)) else show_nat (nat n))"

fun parse_digits_acc :: "nat \<Rightarrow> string \<Rightarrow> nat option" where
  "parse_digits_acc a [] = Some a"
| "parse_digits_acc a (c # s) =
     (case digit_val c of None \<Rightarrow> None | Some d \<Rightarrow> parse_digits_acc (10 * a + d) s)"

definition parse_digits :: "string \<Rightarrow> nat option" where
  "parse_digits s = (if s = [] then None else parse_digits_acc 0 s)"

text \<open>\<^verbatim>\<open>strconv.ParseInt (s, 10, 64)\<close> and \<^verbatim>\<open>strconv.Atoi\<close>: an optional sign, then digits, within range.\<close>

definition parse_int :: "string \<Rightarrow> int option" where
  "parse_int s =
     (let v = (case s of
          [] \<Rightarrow> None
        | c # r \<Rightarrow> if c = CHR ''-'' then map_option (\<lambda>n. - int n) (parse_digits r)
                   else if c = CHR ''+'' then map_option int (parse_digits r)
                   else map_option int (parse_digits s))
      in case v of None \<Rightarrow> None | Some n \<Rightarrow> if is_i64 n then Some n else None)"

text \<open>\<^verbatim>\<open>strconv.ParseUint (s, 10, w)\<close>: digits only, below \<open>2 ^ w\<close>.\<close>

definition parse_uint :: "nat \<Rightarrow> string \<Rightarrow> nat option" where
  "parse_uint w s = (case parse_digits s of None \<Rightarrow> None | Some n \<Rightarrow> if n < 2 ^ w then Some n else None)"

lemma digit_val_digit [simp]: "n < 10 \<Longrightarrow> digit_val (digit n) = Some n"
  by (simp add: digit_val_def digit_def Let_def)

lemma parse_digits_acc_append:
  "parse_digits_acc a (s @ t) = (case parse_digits_acc a s of None \<Rightarrow> None | Some b \<Rightarrow> parse_digits_acc b t)"
  by (induction s arbitrary: a) (auto split: option.splits)

lemma show_nat_not_Nil [simp]: "show_nat n \<noteq> []"
  by (subst show_nat.simps) simp

lemma parse_digits_acc_show_nat: "parse_digits_acc 0 (show_nat n) = Some n"
proof (induction n rule: show_nat.induct)
  case (1 n)
  show ?case
  proof (cases "n < 10")
    case True
    then show ?thesis by (simp add: show_nat.simps [of n])
  next
    case False
    with 1 have "parse_digits_acc 0 (show_nat (n div 10)) = Some (n div 10)" by simp
    with False show ?thesis
      by (simp add: show_nat.simps [of n] parse_digits_acc_append)
  qed
qed

lemma parse_digits_show_nat [simp]: "parse_digits (show_nat n) = Some n"
  by (simp add: parse_digits_def parse_digits_acc_show_nat)

lemma digits_of_show_nat: "c \<in> set (show_nat n) \<Longrightarrow> digit_val c \<noteq> None"
proof (induction n rule: show_nat.induct)
  case (1 n)
  then show ?case
    by (subst (asm) (2) show_nat.simps) (auto split: if_splits)
qed

lemma show_nat_no_char: "digit_val c = None \<Longrightarrow> c \<notin> set (show_nat n)"
  using digits_of_show_nat by blast

lemma digit_val_signs [simp]: "digit_val (CHR ''-'') = None" "digit_val (CHR ''+'') = None"
  by (simp_all add: digit_val_def)

lemma show_nat_hd: "show_nat n = c # r \<Longrightarrow> digit_val c \<noteq> None"
  using digits_of_show_nat [of c n] by simp

lemma parse_int_itoa [simp]: "is_i64 n \<Longrightarrow> parse_int (itoa n) = Some n"
proof (cases "n < 0")
  case True
  then show "is_i64 n \<Longrightarrow> ?thesis" by (simp add: itoa_def parse_int_def)
next
  case False
  assume n: "is_i64 n"
  obtain c r where cr: "show_nat (nat n) = c # r"
    by (cases "show_nat (nat n)") simp_all
  then have "digit_val c \<noteq> None" by (rule show_nat_hd)
  then have "c \<noteq> CHR ''-''" "c \<noteq> CHR ''+''" by auto
  moreover have "parse_digits (c # r) = Some (nat n)"
    using cr [symmetric] by simp
  ultimately show ?thesis
    using False n cr by (simp add: itoa_def parse_int_def)
qed

lemma parse_uint_show_nat [simp]: "n < 2 ^ w \<Longrightarrow> parse_uint w (show_nat n) = Some n"
  by (simp add: parse_uint_def)

section \<open>One round trip to a service\<close>

text \<open>
  A call to Redis, Postgres or Nomad either succeeds (\<open>Up\<close>), fails before the service
  executed it (\<open>Down\<close>), or is executed while its reply is lost (\<open>Lost\<close>). The caller
  sees the same error in the last two cases.
\<close>

datatype 'e link = Up | Down 'e | Lost 'e

definition roundtrip :: "'e link \<Rightarrow> ('s \<Rightarrow> 's \<times> 'a) \<Rightarrow> 's \<Rightarrow> 's \<times> ('e + 'a)" where
  "roundtrip l f s = (case l of
       Up \<Rightarrow> (case f s of (s', r) \<Rightarrow> (s', Inr r))
     | Down e \<Rightarrow> (s, Inl e)
     | Lost e \<Rightarrow> (fst (f s), Inl e))"

lemma roundtrip_simps [simp]:
  "roundtrip Up f s = (fst (f s), Inr (snd (f s)))"
  "roundtrip (Down e) f s = (s, Inl e)"
  "roundtrip (Lost e) f s = (fst (f s), Inl e)"
  by (simp_all add: roundtrip_def split: prod.splits)

lemma roundtrip_Inr: "roundtrip l f s = (s', Inr r) \<longleftrightarrow> l = Up \<and> f s = (s', r)"
  by (cases l) (auto simp: roundtrip_def split: prod.splits)

lemma roundtrip_state: "fst (roundtrip l f s) = s \<or> fst (roundtrip l f s) = fst (f s)"
  by (cases l) (auto simp: roundtrip_def split: prod.splits)

text \<open>Did the call reach the server?\<close>

definition reached :: "'e link \<Rightarrow> bool" where
  "reached l = (case l of Down _ \<Rightarrow> False | _ \<Rightarrow> True)"

lemma reached_simps [simp]: "reached Up" "\<not> reached (Down e)" "reached (Lost e)"
  by (simp_all add: reached_def)

lemma fst_roundtrip: "fst (roundtrip l f s) = (if reached l then fst (f s) else s)"
  by (cases l) simp_all

section \<open>Lists\<close>

lemma length_filter_weaken:
  "(\<And>x. x \<in> set xs \<Longrightarrow> P x \<Longrightarrow> Q x) \<Longrightarrow> length (filter P xs) \<le> length (filter Q xs)"
  by (induction xs) (auto simp: le_SucI)

end
