(* ===== verification/Redis.thy ===== *)
theory Redis
  imports Prelude "HOL-Library.Char_ord" "HOL-Library.List_Lexorder" "HOL-Library.Product_Lexorder"
begin

text \<open>
  The Redis server as a parameter of the model. The gateway's Lua scripts and client calls are
  translated over a record of server commands \<open>'s redis\<close> on an unknown server state
  \<open>'s\<close>; what the code relies on is stated in the locales \<open>redis_server\<close> (the documented
  effect of each command on the key space) and \<open>redis_expiry\<close> (keys with a time to live).
  \<open>VALUE\<close> is the observation the laws are written over: the value stored at a key, if any.
  A command on a key of another type is an error in Redis; the laws say nothing about it, and
  the components prove that their keys are always of the right type.

  \<open>mem_redis\<close> is a server in memory that satisfies every law: the interpretation at the end
  of the theory shows that the laws are consistent, and the concrete examples of the
  development are evaluated on it.
\<close>

section \<open>Values and read commands\<close>

datatype rvalue =
    RString string
  | RHash "(string \<times> string) list"
  | RList "string list"
  | RZset "(string \<times> int) list"

text \<open>A collection that becomes empty is removed together with its key.\<close>

fun norm_value :: "rvalue \<Rightarrow> rvalue option" where
  "norm_value (RHash []) = None"
| "norm_value (RList []) = None"
| "norm_value (RZset []) = None"
| "norm_value v = Some v"

lemma norm_value_Cons [simp]:
  "norm_value (RHash (x # h)) = Some (RHash (x # h))"
  "norm_value (RList (y # l)) = Some (RList (y # l))"
  "norm_value (RZset (z # zs)) = Some (RZset (z # zs))"
  by (cases x, simp) simp_all

record 's redis =
  VALUE :: "'s \<Rightarrow> string \<Rightarrow> rvalue option"
  HSET :: "string \<Rightarrow> (string \<times> string) list \<Rightarrow> 's \<Rightarrow> 's"
  HDEL :: "string \<Rightarrow> string list \<Rightarrow> 's \<Rightarrow> 's"
  HINCRBY :: "string \<Rightarrow> string \<Rightarrow> int \<Rightarrow> 's \<Rightarrow> 's"
  DEL :: "string \<Rightarrow> 's \<Rightarrow> 's"
  LPUSH :: "string \<Rightarrow> string \<Rightarrow> 's \<Rightarrow> 's"
  RPOPLPUSH :: "string \<Rightarrow> string \<Rightarrow> 's \<Rightarrow> 's \<times> string option"
  LREM :: "string \<Rightarrow> string \<Rightarrow> 's \<Rightarrow> 's"
  ZADD :: "string \<Rightarrow> int \<Rightarrow> string \<Rightarrow> 's \<Rightarrow> 's"
  ZREM :: "string \<Rightarrow> string \<Rightarrow> 's \<Rightarrow> 's"
  ZREMRANGEBYSCORE :: "string \<Rightarrow> int \<Rightarrow> 's \<Rightarrow> 's"
  SET :: "string \<Rightarrow> string \<Rightarrow> int \<Rightarrow> 's \<Rightarrow> 's"
  INCR :: "string \<Rightarrow> 's \<Rightarrow> 's"
  PEXPIRE :: "string \<Rightarrow> int \<Rightarrow> 's \<Rightarrow> 's"
  DEADLINE :: "'s \<Rightarrow> string \<Rightarrow> int option"
  CLOCK :: "'s \<Rightarrow> int"
  TICK :: "int \<Rightarrow> 's \<Rightarrow> 's"

definition hash_at :: "('s, 'x) redis_scheme \<Rightarrow> 's \<Rightarrow> string \<Rightarrow> (string \<times> string) list" where
  "hash_at R s k = (case VALUE R s k of Some (RHash h) \<Rightarrow> h | _ \<Rightarrow> [])"

definition list_at :: "('s, 'x) redis_scheme \<Rightarrow> 's \<Rightarrow> string \<Rightarrow> string list" where
  "list_at R s k = (case VALUE R s k of Some (RList l) \<Rightarrow> l | _ \<Rightarrow> [])"

definition zset_at :: "('s, 'x) redis_scheme \<Rightarrow> 's \<Rightarrow> string \<Rightarrow> (string \<times> int) list" where
  "zset_at R s k = (case VALUE R s k of Some (RZset z) \<Rightarrow> z | _ \<Rightarrow> [])"

definition string_at :: "('s, 'x) redis_scheme \<Rightarrow> 's \<Rightarrow> string \<Rightarrow> string option" where
  "string_at R s k = (case VALUE R s k of Some (RString v) \<Rightarrow> Some v | _ \<Rightarrow> None)"

definition HGET :: "('s, 'x) redis_scheme \<Rightarrow> 's \<Rightarrow> string \<Rightarrow> string \<Rightarrow> string option" where
  "HGET R s k f = map_of (hash_at R s k) f"

text \<open>The key holds a value of the command's type, or nothing.\<close>

definition hash_ok :: "('s, 'x) redis_scheme \<Rightarrow> 's \<Rightarrow> string \<Rightarrow> bool" where
  "hash_ok R s k \<longleftrightarrow> (case VALUE R s k of None \<Rightarrow> True | Some (RHash _) \<Rightarrow> True | _ \<Rightarrow> False)"

definition list_ok :: "('s, 'x) redis_scheme \<Rightarrow> 's \<Rightarrow> string \<Rightarrow> bool" where
  "list_ok R s k \<longleftrightarrow> (case VALUE R s k of None \<Rightarrow> True | Some (RList _) \<Rightarrow> True | _ \<Rightarrow> False)"

definition zset_ok :: "('s, 'x) redis_scheme \<Rightarrow> 's \<Rightarrow> string \<Rightarrow> bool" where
  "zset_ok R s k \<longleftrightarrow> (case VALUE R s k of None \<Rightarrow> True | Some (RZset _) \<Rightarrow> True | _ \<Rightarrow> False)"

definition string_ok :: "('s, 'x) redis_scheme \<Rightarrow> 's \<Rightarrow> string \<Rightarrow> bool" where
  "string_ok R s k \<longleftrightarrow> (case VALUE R s k of None \<Rightarrow> True | Some (RString _) \<Rightarrow> True | _ \<Rightarrow> False)"

lemmas redis_reads = hash_at_def list_at_def zset_at_def string_at_def HGET_def
lemmas redis_types = hash_ok_def list_ok_def zset_ok_def string_ok_def

text \<open>What a script returns to the client, and how the Go code reads the elements of an array.\<close>

datatype reply = NilReply | IntReply int | BulkReply string | ErrReply string | ArrReply "reply list"

fun reply_int :: "reply \<Rightarrow> int" where
  "reply_int (IntReply n) = n"
| "reply_int _ = 0"

fun reply_str :: "reply \<Rightarrow> string" where
  "reply_str (BulkReply t) = t"
| "reply_str _ = []"

definition opt_reply :: "string option \<Rightarrow> reply" where
  "opt_reply v = (case v of None \<Rightarrow> NilReply | Some t \<Rightarrow> BulkReply t)"

type_synonym rerr = string

text \<open>Reading back a collection that was written with \<open>norm_value\<close>.\<close>

lemma norm_value_read [simp]:
  "(case norm_value (RHash h) of Some (RHash h') \<Rightarrow> h' | _ \<Rightarrow> []) = h"
  "(case norm_value (RList l) of Some (RList l') \<Rightarrow> l' | _ \<Rightarrow> []) = l"
  "(case norm_value (RZset z) of Some (RZset z') \<Rightarrow> z' | _ \<Rightarrow> []) = z"
  by (cases h, simp, simp) (cases l, simp, simp, cases z, simp, simp)

lemma norm_value_type [simp]:
  "(case norm_value (RHash h) of None \<Rightarrow> True | Some (RHash _) \<Rightarrow> True | _ \<Rightarrow> False)"
  "(case norm_value (RList l) of None \<Rightarrow> True | Some (RList _) \<Rightarrow> True | _ \<Rightarrow> False)"
  "(case norm_value (RZset z) of None \<Rightarrow> True | Some (RZset _) \<Rightarrow> True | _ \<Rightarrow> False)"
  by (cases h, simp, simp) (cases l, simp, simp, cases z, simp, simp)

section \<open>Effects of the write commands\<close>

definition hset_all :: "(string \<times> string) list \<Rightarrow> (string \<times> string) list \<Rightarrow> (string \<times> string) list" where
  "hset_all h fs = fold (\<lambda>(f, v) h. AList.update f v h) fs h"

definition hdel_all :: "(string \<times> string) list \<Rightarrow> string list \<Rightarrow> (string \<times> string) list" where
  "hdel_all h fs = filter (\<lambda>p. fst p \<notin> set fs) h"

text \<open>Sorted sets are ordered by score, then by member.\<close>

definition zput :: "(string \<times> int) list \<Rightarrow> int \<Rightarrow> string \<Rightarrow> (string \<times> int) list" where
  "zput z sc m = insort_key (\<lambda>p. (snd p, fst p)) (m, sc) (filter (\<lambda>p. fst p \<noteq> m) z)"

definition zdrop :: "(string \<times> int) list \<Rightarrow> int \<Rightarrow> (string \<times> int) list" where
  "zdrop z mx = filter (\<lambda>p. mx < snd p) z"

definition int_of_value :: "string option \<Rightarrow> int option" where
  "int_of_value v = (case v of None \<Rightarrow> Some 0 | Some t \<Rightarrow> parse_int t)"

lemma map_of_hset_all: "map_of (hset_all h fs) = map_of h ++ map_of (rev fs)"
proof (induction fs arbitrary: h)
  case Nil
  then show ?case by (simp add: hset_all_def)
next
  case (Cons p fs)
  obtain f v where [simp]: "p = (f, v)" by (cases p)
  have "map_of (hset_all h (p # fs)) = map_of (hset_all (AList.update f v h) fs)"
    by (simp add: hset_all_def)
  then show ?case using Cons.IH by (simp add: update_conv' fun_eq_iff map_add_def split: option.splits)
qed

lemma hset_all_not_Nil: "fs \<noteq> [] \<Longrightarrow> hset_all h fs \<noteq> []"
proof -
  assume "fs \<noteq> []"
  then obtain f v where "(f, v) \<in> set fs" by (cases fs) auto
  then have "map_of (rev fs) f \<noteq> None" by (metis map_of_eq_None_iff set_rev image_eqI fst_conv)
  then have "map_of (hset_all h fs) f \<noteq> None" by (auto simp: map_of_hset_all map_add_def)
  then show ?thesis by auto
qed

lemma map_of_hdel_all: "map_of (hdel_all h fs) = (map_of h) |` (- set fs)"
  by (induction h) (auto simp: hdel_all_def restrict_map_def fun_eq_iff)

section \<open>The laws\<close>

locale redis_server =
  fixes R :: "('s, 'x) redis_scheme"
  assumes value_hset: "hash_ok R s k \<Longrightarrow> fs \<noteq> [] \<Longrightarrow>
      VALUE R (HSET R k fs s) = (VALUE R s)(k \<mapsto> RHash (hset_all (hash_at R s k) fs))"
    and value_hdel: "hash_ok R s k \<Longrightarrow>
      VALUE R (HDEL R k gs s) = (VALUE R s)(k := norm_value (RHash (hdel_all (hash_at R s k) gs)))"
    and value_hincrby: "hash_ok R s k \<Longrightarrow> int_of_value (HGET R s k f) = Some n \<Longrightarrow> is_i64 (n + d) \<Longrightarrow>
      VALUE R (HINCRBY R k f d s) = (VALUE R s)(k \<mapsto> RHash (hset_all (hash_at R s k) [(f, itoa (n + d))]))"
    and value_del: "VALUE R (DEL R k s) = (VALUE R s)(k := None)"
    and value_lpush: "list_ok R s k \<Longrightarrow>
      VALUE R (LPUSH R k x s) = (VALUE R s)(k \<mapsto> RList (x # list_at R s k))"
    and value_rpoplpush_empty: "list_ok R s k \<Longrightarrow> list_at R s k = [] \<Longrightarrow>
      snd (RPOPLPUSH R k k' s) = None \<and> VALUE R (fst (RPOPLPUSH R k k' s)) = VALUE R s"
    and value_rpoplpush: "list_ok R s k \<Longrightarrow> list_ok R s k' \<Longrightarrow> k \<noteq> k' \<Longrightarrow> list_at R s k = xs @ [x] \<Longrightarrow>
      snd (RPOPLPUSH R k k' s) = Some x \<and>
      VALUE R (fst (RPOPLPUSH R k k' s)) =
        (VALUE R s)(k := norm_value (RList xs), k' \<mapsto> RList (x # list_at R s k'))"
    and value_lrem: "list_ok R s k \<Longrightarrow>
      VALUE R (LREM R k x s) = (VALUE R s)(k := norm_value (RList (removeAll x (list_at R s k))))"
    and value_zadd: "zset_ok R s k \<Longrightarrow>
      VALUE R (ZADD R k sc m s) = (VALUE R s)(k \<mapsto> RZset (zput (zset_at R s k) sc m))"
    and value_zrem: "zset_ok R s k \<Longrightarrow>
      VALUE R (ZREM R k m s) = (VALUE R s)(k := norm_value (RZset (filter (\<lambda>p. fst p \<noteq> m) (zset_at R s k))))"
    and value_zremrange: "zset_ok R s k \<Longrightarrow>
      VALUE R (ZREMRANGEBYSCORE R k mx s) = (VALUE R s)(k := norm_value (RZset (zdrop (zset_at R s k) mx)))"
    and value_set: "VALUE R (SET R k v ttl s) = (VALUE R s)(k \<mapsto> RString v)"
    and value_incr: "string_ok R s k \<Longrightarrow> int_of_value (string_at R s k) = Some n \<Longrightarrow> is_i64 (n + 1) \<Longrightarrow>
      VALUE R (INCR R k s) = (VALUE R s)(k \<mapsto> RString (itoa (n + 1)))"
    and value_pexpire: "0 < ttl \<Longrightarrow> VALUE R (PEXPIRE R k ttl s) = VALUE R s"
begin

lemmas value_laws = value_hset value_hdel value_hincrby value_del value_lpush value_lrem
  value_zadd value_zrem value_zremrange value_set value_incr value_pexpire

text \<open>Hash commands as seen by \<open>HGET\<close>.\<close>

lemma hget_hset:
  "hash_ok R s k \<Longrightarrow> fs \<noteq> [] \<Longrightarrow> HGET R (HSET R k fs s) k' f =
     (if k' = k then (map_of (hash_at R s k) ++ map_of (rev fs)) f else HGET R s k' f)"
  by (simp add: HGET_def hash_at_def value_hset map_of_hset_all)

lemma hget_hdel:
  "hash_ok R s k \<Longrightarrow> HGET R (HDEL R k gs s) k' f =
     (if k' = k \<and> f \<in> set gs then None else HGET R s k' f)"
proof -
  assume "hash_ok R s k"
  then have v: "VALUE R (HDEL R k gs s) = (VALUE R s)(k := norm_value (RHash (hdel_all (hash_at R s k) gs)))"
    by (rule value_hdel)
  have "map_of (case norm_value (RHash h) of Some (RHash h) \<Rightarrow> h | _ \<Rightarrow> []) = map_of h" for h
    by (cases h) simp_all
  with v show ?thesis
    by (simp add: HGET_def hash_at_def map_of_hdel_all restrict_map_def)
qed

lemma hget_del: "HGET R (DEL R k s) k' f = (if k' = k then None else HGET R s k' f)"
  by (simp add: HGET_def hash_at_def value_del)

lemma hash_ok_hset: "hash_ok R s k \<Longrightarrow> fs \<noteq> [] \<Longrightarrow> hash_ok R s k' \<Longrightarrow> hash_ok R (HSET R k fs s) k'"
  by (simp add: hash_ok_def value_hset)

lemma hash_ok_norm: "case norm_value (RHash h) of None \<Rightarrow> True | Some (RHash h) \<Rightarrow> True | _ \<Rightarrow> False"
  by (cases h) simp_all

lemma hash_ok_hdel: "hash_ok R s k \<Longrightarrow> hash_ok R s k' \<Longrightarrow> hash_ok R (HDEL R k gs s) k'"
  using hash_ok_norm by (simp add: hash_ok_def value_hdel)

lemma hash_ok_del: "hash_ok R s k' \<Longrightarrow> hash_ok R (DEL R k s) k'"
  by (simp add: hash_ok_def value_del)

lemmas hash_laws = hget_hset hget_hdel hget_del hash_ok_hset hash_ok_hdel hash_ok_del

end

text \<open>Time to live: \<open>TICK t\<close> moves the server's clock to \<open>t\<close> (milliseconds) and drops every key
  whose deadline has passed.\<close>

locale redis_expiry = redis_server +
  assumes clock_zadd: "CLOCK R (ZADD R k sc m s) = CLOCK R s"
    and clock_zremrange: "CLOCK R (ZREMRANGEBYSCORE R k mx s) = CLOCK R s"
    and clock_pexpire: "CLOCK R (PEXPIRE R k ttl s) = CLOCK R s"
    and clock_set: "CLOCK R (SET R k v ttl s) = CLOCK R s"
    and clock_incr: "CLOCK R (INCR R k s) = CLOCK R s"
    and clock_tick: "CLOCK R (TICK R t s) = t"
    and deadline_absent: "VALUE R s k = None \<Longrightarrow> DEADLINE R s k = None"
    and deadline_zadd: "DEADLINE R (ZADD R k sc m s) = DEADLINE R s"
    and deadline_zremrange: "DEADLINE R (ZREMRANGEBYSCORE R k mx s) k' =
      (if VALUE R (ZREMRANGEBYSCORE R k mx s) k' = None then None else DEADLINE R s k')"
    and deadline_pexpire: "0 < ttl \<Longrightarrow> VALUE R s k \<noteq> None \<Longrightarrow>
      DEADLINE R (PEXPIRE R k ttl s) = (DEADLINE R s)(k \<mapsto> CLOCK R s + ttl)"
    and deadline_set: "DEADLINE R (SET R k v ttl s) =
      (DEADLINE R s)(k := (if ttl \<le> 0 then None else Some (CLOCK R s + ttl)))"
    and deadline_incr: "DEADLINE R (INCR R k s) = DEADLINE R s"
    and value_tick: "VALUE R (TICK R t s) k =
      (case DEADLINE R s k of Some d \<Rightarrow> if d \<le> t then None else VALUE R s k | None \<Rightarrow> VALUE R s k)"
    and deadline_tick: "DEADLINE R (TICK R t s) k =
      (case DEADLINE R s k of Some d \<Rightarrow> if d \<le> t then None else Some d | None \<Rightarrow> None)"

section \<open>A server in memory\<close>

record mem =
  mval :: "string \<Rightarrow> rvalue option"
  mdl :: "string \<Rightarrow> int option"
  mclk :: int

definition mem_at :: "mem \<Rightarrow> string \<Rightarrow> rvalue option" where
  "mem_at s k = mval s k"

definition mem_dl :: "mem \<Rightarrow> string \<Rightarrow> int option" where
  "mem_dl s k = (if mval s k = None then None else mdl s k)"

definition mem_put :: "string \<Rightarrow> rvalue option \<Rightarrow> mem \<Rightarrow> mem" where
  "mem_put k v s = s\<lparr>mval := (mval s)(k := v), mdl := (mdl s)(k := (if mval s k = None then None else mdl s k))\<rparr>"

definition m_hash :: "mem \<Rightarrow> string \<Rightarrow> (string \<times> string) list" where
  "m_hash s k = (case mval s k of Some (RHash h) \<Rightarrow> h | _ \<Rightarrow> [])"

definition m_list :: "mem \<Rightarrow> string \<Rightarrow> string list" where
  "m_list s k = (case mval s k of Some (RList h) \<Rightarrow> h | _ \<Rightarrow> [])"

definition m_zset :: "mem \<Rightarrow> string \<Rightarrow> (string \<times> int) list" where
  "m_zset s k = (case mval s k of Some (RZset h) \<Rightarrow> h | _ \<Rightarrow> [])"

definition m_str :: "mem \<Rightarrow> string \<Rightarrow> string option" where
  "m_str s k = (case mval s k of Some (RString h) \<Rightarrow> Some h | _ \<Rightarrow> None)"

definition m_num :: "string option \<Rightarrow> int" where
  "m_num v = (case int_of_value v of Some n \<Rightarrow> n | None \<Rightarrow> 0)"

definition mem_empty :: mem where
  "mem_empty = \<lparr>mval = (\<lambda>_. None), mdl = (\<lambda>_. None), mclk = 0\<rparr>"

definition mem_redis :: "mem redis" where
  "mem_redis = \<lparr>
     VALUE = mem_at,
     HSET = (\<lambda>k fs s. mem_put k (Some (RHash (hset_all (m_hash s k) fs))) s),
     HDEL = (\<lambda>k fs s. mem_put k (norm_value (RHash (hdel_all (m_hash s k) fs))) s),
     HINCRBY = (\<lambda>k f d s. mem_put k (Some (RHash (hset_all (m_hash s k)
        [(f, itoa (m_num (map_of (m_hash s k) f) + d))]))) s),
     DEL = (\<lambda>k s. mem_put k None s),
     LPUSH = (\<lambda>k x s. mem_put k (Some (RList (x # m_list s k))) s),
     RPOPLPUSH = (\<lambda>k k' s. if m_list s k = [] then (s, None)
        else (mem_put k' (Some (RList (last (m_list s k) # m_list s k')))
               (mem_put k (norm_value (RList (butlast (m_list s k)))) s), Some (last (m_list s k)))),
     LREM = (\<lambda>k x s. mem_put k (norm_value (RList (removeAll x (m_list s k)))) s),
     ZADD = (\<lambda>k sc m s. mem_put k (Some (RZset (zput (m_zset s k) sc m))) s),
     ZREM = (\<lambda>k m s. mem_put k (norm_value (RZset (filter (\<lambda>p. fst p \<noteq> m) (m_zset s k)))) s),
     ZREMRANGEBYSCORE = (\<lambda>k mx s. mem_put k (norm_value (RZset (zdrop (m_zset s k) mx))) s),
     SET = (\<lambda>k v ttl s. s\<lparr>mval := (mval s)(k := Some (RString v)),
        mdl := (mdl s)(k := (if ttl \<le> 0 then None else Some (mclk s + ttl)))\<rparr>),
     INCR = (\<lambda>k s. mem_put k (Some (RString (itoa (m_num (m_str s k) + 1)))) s),
     PEXPIRE = (\<lambda>k ttl s. s\<lparr>mdl := (mdl s)(k := Some (mclk s + ttl))\<rparr>),
     DEADLINE = mem_dl,
     CLOCK = mclk,
     TICK = (\<lambda>t s. s\<lparr>mval := (\<lambda>k. case mem_dl s k of Some d \<Rightarrow> if d \<le> t then None else mval s k | None \<Rightarrow> mval s k),
        mdl := mem_dl s, mclk := t\<rparr>)\<rparr>"

lemma mem_redis_sel [simp]:
  "VALUE mem_redis = mem_at"
  "HSET mem_redis = (\<lambda>k fs s. mem_put k (Some (RHash (hset_all (m_hash s k) fs))) s)"
  "HDEL mem_redis = (\<lambda>k fs s. mem_put k (norm_value (RHash (hdel_all (m_hash s k) fs))) s)"
  "HINCRBY mem_redis = (\<lambda>k f d s. mem_put k (Some (RHash (hset_all (m_hash s k)
        [(f, itoa (m_num (map_of (m_hash s k) f) + d))]))) s)"
  "DEL mem_redis = (\<lambda>k s. mem_put k None s)"
  "LPUSH mem_redis = (\<lambda>k x s. mem_put k (Some (RList (x # m_list s k))) s)"
  "RPOPLPUSH mem_redis = (\<lambda>k k' s. if m_list s k = [] then (s, None)
        else (mem_put k' (Some (RList (last (m_list s k) # m_list s k')))
               (mem_put k (norm_value (RList (butlast (m_list s k)))) s), Some (last (m_list s k))))"
  "LREM mem_redis = (\<lambda>k x s. mem_put k (norm_value (RList (removeAll x (m_list s k)))) s)"
  "ZADD mem_redis = (\<lambda>k sc m s. mem_put k (Some (RZset (zput (m_zset s k) sc m))) s)"
  "ZREM mem_redis = (\<lambda>k m s. mem_put k (norm_value (RZset (filter (\<lambda>p. fst p \<noteq> m) (m_zset s k)))) s)"
  "ZREMRANGEBYSCORE mem_redis = (\<lambda>k mx s. mem_put k (norm_value (RZset (zdrop (m_zset s k) mx))) s)"
  "SET mem_redis = (\<lambda>k v ttl s. s\<lparr>mval := (mval s)(k := Some (RString v)),
        mdl := (mdl s)(k := (if ttl \<le> 0 then None else Some (mclk s + ttl)))\<rparr>)"
  "INCR mem_redis = (\<lambda>k s. mem_put k (Some (RString (itoa (m_num (m_str s k) + 1)))) s)"
  "PEXPIRE mem_redis = (\<lambda>k ttl s. s\<lparr>mdl := (mdl s)(k := Some (mclk s + ttl))\<rparr>)"
  "DEADLINE mem_redis = mem_dl"
  "CLOCK mem_redis = mclk"
  "TICK mem_redis = (\<lambda>t s. s\<lparr>mval := (\<lambda>k. case mem_dl s k of Some d \<Rightarrow> if d \<le> t then None else mval s k | None \<Rightarrow> mval s k),
        mdl := mem_dl s, mclk := t\<rparr>)"
  by (simp_all add: mem_redis_def)

lemma mem_reads [simp]:
  "hash_at mem_redis s k = m_hash s k"
  "list_at mem_redis s k = m_list s k"
  "zset_at mem_redis s k = m_zset s k"
  "string_at mem_redis s k = m_str s k"
  by (simp_all add: redis_reads m_hash_def m_list_def m_zset_def m_str_def mem_at_def)

lemma mem_at_put [simp]: "mem_at (mem_put k v s) = (mem_at s)(k := v)"
  by (auto simp: mem_at_def mem_put_def)

lemma mem_at_cond [simp]:
  "m_list (mem_put k v s) k' = (if k' = k then (case v of Some (RList h) \<Rightarrow> h | _ \<Rightarrow> []) else m_list s k')"
  "mem_at (s\<lparr>mdl := d\<rparr>) = mem_at s"
  "mem_at (s\<lparr>mval := m, mdl := d\<rparr>) = m"
  by (auto simp: mem_at_def mem_put_def m_list_def)

interpretation mem: redis_server mem_redis
proof
  fix s k and fs :: "(string \<times> string) list"
  show "VALUE mem_redis (HSET mem_redis k fs s) = (VALUE mem_redis s)(k \<mapsto> RHash (hset_all (hash_at mem_redis s k) fs))"
    by simp
next
  fix s k f n d
  assume "int_of_value (HGET mem_redis s k f) = Some n"
  then show "VALUE mem_redis (HINCRBY mem_redis k f d s) =
      (VALUE mem_redis s)(k \<mapsto> RHash (hset_all (hash_at mem_redis s k) [(f, itoa (n + d))]))"
    by (simp add: m_num_def HGET_def)
next
  fix s k n
  assume "int_of_value (string_at mem_redis s k) = Some n"
  then show "VALUE mem_redis (INCR mem_redis k s) = (VALUE mem_redis s)(k \<mapsto> RString (itoa (n + 1)))"
    by (simp add: m_num_def)
next
  fix s k v ttl
  show "VALUE mem_redis (SET mem_redis k v ttl s) = (VALUE mem_redis s)(k \<mapsto> RString v)"
    by (simp add: mem_at_def fun_eq_iff)
qed simp_all

interpretation mem: redis_expiry mem_redis
proof
  fix s k mx k'
  show "DEADLINE mem_redis (ZREMRANGEBYSCORE mem_redis k mx s) k' =
     (if VALUE mem_redis (ZREMRANGEBYSCORE mem_redis k mx s) k' = None then None else DEADLINE mem_redis s k')"
    by (auto simp: mem_dl_def mem_put_def mem_at_def m_zset_def zdrop_def split: option.splits rvalue.splits)
qed (auto simp: mem_dl_def mem_put_def mem_at_def fun_eq_iff split: option.splits)

section \<open>Other keys\<close>

text \<open>A command leaves every other key alone, whatever the type of the value at its own key.\<close>

locale redis_frame = redis_expiry +
  assumes frame_zadd: "k' \<noteq> k \<Longrightarrow> VALUE R (ZADD R k sc m s) k' = VALUE R s k'"
    and frame_zremrange: "k' \<noteq> k \<Longrightarrow> VALUE R (ZREMRANGEBYSCORE R k mx s) k' = VALUE R s k'"
    and frame_incr: "k' \<noteq> k \<Longrightarrow> VALUE R (INCR R k s) k' = VALUE R s k'"
    and frame_pexpire: "k' \<noteq> k \<Longrightarrow> VALUE R (PEXPIRE R k ttl s) k' = VALUE R s k' \<and> DEADLINE R (PEXPIRE R k ttl s) k' = DEADLINE R s k'"

definition same_at :: "('s, 'x) redis_scheme \<Rightarrow> string \<Rightarrow> 's \<Rightarrow> 's \<Rightarrow> bool" where
  "same_at R k s s' \<longleftrightarrow> VALUE R s' k = VALUE R s k \<and> DEADLINE R s' k = DEADLINE R s k \<and> CLOCK R s' = CLOCK R s"

lemma same_at_refl [simp]: "same_at R k s s"
  by (simp add: same_at_def)

lemma same_at_trans: "same_at R k s s' \<Longrightarrow> same_at R k s' s'' \<Longrightarrow> same_at R k s s''"
  by (simp add: same_at_def)

context redis_frame
begin

lemma same_at_steps:
  assumes "k' \<noteq> k"
  shows "same_at R k' s (ZADD R k sc m s)" "same_at R k' s (ZREMRANGEBYSCORE R k mx s)" "same_at R k' s (INCR R k s)"
    "same_at R k' s (PEXPIRE R k ttl s)" "same_at R k' s (SET R k v ttl s)"
proof -
  show "same_at R k' s (ZADD R k sc m s)" by (simp add: same_at_def frame_zadd [OF assms] deadline_zadd clock_zadd)
  show "same_at R k' s (ZREMRANGEBYSCORE R k mx s)"
    by (simp add: same_at_def frame_zremrange [OF assms] deadline_zremrange clock_zremrange deadline_absent)
  show "same_at R k' s (INCR R k s)" by (simp add: same_at_def frame_incr [OF assms] deadline_incr clock_incr)
  show "same_at R k' s (PEXPIRE R k ttl s)" by (simp add: same_at_def frame_pexpire [OF assms] clock_pexpire)
  show "same_at R k' s (SET R k v ttl s)" using assms by (simp add: same_at_def value_set deadline_set clock_set)
qed

lemma same_at_roundtrip:
  assumes "same_at R k s (fst (f s))"
  shows "same_at R k s (fst (roundtrip l f s))"
  using assms by (cases l) (auto split: prod.splits)

end

interpretation mem: redis_frame mem_redis
  by unfold_locales (auto simp: mem_dl_def mem_at_def mem_put_def)

end
