(* ===== verification/GpuBinding.thy ===== *)
theory GpuBinding
  imports Redis
begin

text \<open>
  \<^verbatim>\<open>internal/scheduler/gpubinding.go\<close>: exclusive ownership of GPU devices, one tenant at a time,
  with a VRAM zeroing hold between tenants. The three Lua scripts are translated over the
  Redis parameter, the Go methods around them with every error branch. \<open>gpu_step\<close> runs any
  sequence of calls, by any tenants, over links that may fail; the ghost field \<open>dirty\<close> records
  whose data a device's memory holds.
\<close>

section \<open>The scripts\<close>

definition gpuBindingKey :: "string \<Rightarrow> string" where
  "gpuBindingKey deviceID = ''gpu:binding:'' @ deviceID"

definition bindScript ::
  "('s, 'x) redis_scheme \<Rightarrow> string \<Rightarrow> string \<Rightarrow> string \<Rightarrow> 's \<Rightarrow> 's \<times> reply" where
  "bindScript R key tenant_id allocation_id s =
     (if HGET R s key ''zeroing'' = Some ''1'' then
        (s, ArrReply [IntReply 0, BulkReply ''zeroing'', BulkReply ''''])
      else case HGET R s key ''tenant_id'' of
        Some existing \<Rightarrow>
          if existing \<noteq> tenant_id then
            (s, ArrReply [IntReply 0, BulkReply existing, opt_reply (HGET R s key ''allocation_id'')])
          else
            (HDEL R key [''zeroing''] (HSET R key [(''tenant_id'', tenant_id), (''allocation_id'', allocation_id)] s),
             ArrReply [IntReply 1, BulkReply tenant_id, BulkReply allocation_id])
      | None \<Rightarrow>
          (HDEL R key [''zeroing''] (HSET R key [(''tenant_id'', tenant_id), (''allocation_id'', allocation_id)] s),
           ArrReply [IntReply 1, BulkReply tenant_id, BulkReply allocation_id]))"

definition releaseScript :: "('s, 'x) redis_scheme \<Rightarrow> string \<Rightarrow> string \<Rightarrow> 's \<Rightarrow> 's \<times> reply" where
  "releaseScript R key allocation_id s =
     (if HGET R s key ''allocation_id'' = Some allocation_id then
        (HDEL R key [''tenant_id'', ''allocation_id''] (HSET R key [(''zeroing'', ''1'')] s), IntReply 1)
      else (s, IntReply 0))"

definition completeZeroScript :: "('s, 'x) redis_scheme \<Rightarrow> string \<Rightarrow> 's \<Rightarrow> 's \<times> reply" where
  "completeZeroScript R key s =
     (if HGET R s key ''zeroing'' = Some ''1'' then (DEL R key s, IntReply 1) else (s, IntReply 0))"

section \<open>The Go methods\<close>

datatype gpu_error =
    GpuCallFailed rerr
  | GpuUnexpectedResult reply
  | ErrGPUBoundToOtherTenant string string string
  | ErrGPUZeroingInProgress string
  | GpuZeroFailed string

definition bind_result :: "string \<Rightarrow> reply \<Rightarrow> gpu_error + unit" where
  "bind_result deviceID res = (case res of
       ArrReply [a, b, c] \<Rightarrow>
         if reply_int a = 1 then Inr ()
         else if reply_str b = ''zeroing'' then Inl (ErrGPUZeroingInProgress deviceID)
         else Inl (ErrGPUBoundToOtherTenant deviceID (reply_str b) (reply_str c))
     | _ \<Rightarrow> Inl (GpuUnexpectedResult res))"

definition Bind ::
  "('s, 'x) redis_scheme \<Rightarrow> rerr link \<Rightarrow> string \<Rightarrow> string \<Rightarrow> string \<Rightarrow> 's \<Rightarrow> 's \<times> (gpu_error + unit)" where
  "Bind R l deviceID tenantID allocationID s =
     (case roundtrip l (bindScript R (gpuBindingKey deviceID) tenantID allocationID) s of
        (s', Inl e) \<Rightarrow> (s', Inl (GpuCallFailed e))
      | (s', Inr res) \<Rightarrow> (s', bind_result deviceID res))"

definition Release ::
  "('s, 'x) redis_scheme \<Rightarrow> rerr link \<Rightarrow> string \<Rightarrow> string \<Rightarrow> 's \<Rightarrow> 's \<times> (gpu_error + unit)" where
  "Release R l deviceID allocationID s =
     (case roundtrip l (releaseScript R (gpuBindingKey deviceID) allocationID) s of
        (s', Inl e) \<Rightarrow> (s', Inl (GpuCallFailed e))
      | (s', Inr _) \<Rightarrow> (s', Inr ()))"

definition CompleteZero ::
  "('s, 'x) redis_scheme \<Rightarrow> rerr link \<Rightarrow> string \<Rightarrow> 's \<Rightarrow> 's \<times> (gpu_error + unit)" where
  "CompleteZero R l deviceID s =
     (case roundtrip l (completeZeroScript R (gpuBindingKey deviceID)) s of
        (s', Inl e) \<Rightarrow> (s', Inl (GpuCallFailed e))
      | (s', Inr _) \<Rightarrow> (s', Inr ()))"

text \<open>\<open>zero\<close> is the outcome of the injected zeroing pass: \<open>None\<close>, or its error.\<close>

definition ZeroDevice ::
  "('s, 'x) redis_scheme \<Rightarrow> rerr link \<Rightarrow> string \<Rightarrow> string option \<Rightarrow> 's \<Rightarrow> 's \<times> (gpu_error + unit)" where
  "ZeroDevice R l deviceID zero s =
     (case zero of
        Some e \<Rightarrow> (s, Inl (GpuZeroFailed e))
      | None \<Rightarrow> CompleteZero R l deviceID s)"

definition TenantFor ::
  "('s, 'x) redis_scheme \<Rightarrow> rerr link \<Rightarrow> string \<Rightarrow> 's \<Rightarrow> gpu_error + string option" where
  "TenantFor R l deviceID s =
     (case snd (roundtrip l (\<lambda>s. (s, HGET R s (gpuBindingKey deviceID) ''tenant_id'')) s) of
        Inl e \<Rightarrow> Inl (GpuCallFailed e) | Inr t \<Rightarrow> Inr t)"

definition IsZeroing ::
  "('s, 'x) redis_scheme \<Rightarrow> rerr link \<Rightarrow> string \<Rightarrow> 's \<Rightarrow> gpu_error + bool" where
  "IsZeroing R l deviceID s =
     (case snd (roundtrip l (\<lambda>s. (s, HGET R s (gpuBindingKey deviceID) ''zeroing'' = Some ''1'')) s) of
        Inl e \<Rightarrow> Inl (GpuCallFailed e) | Inr t \<Rightarrow> Inr t)"

section \<open>Runs of calls by several tenants\<close>

record 's gpu_world =
  srv :: 's
  dirty :: "string \<Rightarrow> string option"

datatype gpu_op =
    OpBind "rerr link" string string string
  | OpRelease "rerr link" string string
  | OpZero "rerr link" string "string option"
  | OpUse string

text \<open>
  \<open>OpUse d\<close>: the tenant bound to \<open>d\<close> writes to the device. A zeroing pass that succeeds clears the
  device's memory; everything else leaves it as it is.
\<close>

fun gpu_step :: "('s, 'x) redis_scheme \<Rightarrow> gpu_op \<Rightarrow> 's gpu_world \<Rightarrow> 's gpu_world" where
  "gpu_step R (OpBind l d t a) w = w\<lparr>srv := fst (Bind R l d t a (srv w))\<rparr>"
| "gpu_step R (OpRelease l d a) w = w\<lparr>srv := fst (Release R l d a (srv w))\<rparr>"
| "gpu_step R (OpZero l d z) w =
     w\<lparr>srv := fst (ZeroDevice R l d z (srv w)),
       dirty := (if z = None then (dirty w)(d := None) else dirty w)\<rparr>"
| "gpu_step R (OpUse d) w = (case HGET R (srv w) (gpuBindingKey d) ''tenant_id'' of
      None \<Rightarrow> w | Some t \<Rightarrow> w\<lparr>dirty := (dirty w)(d \<mapsto> t)\<rparr>)"

definition gpu_run :: "('s, 'x) redis_scheme \<Rightarrow> gpu_op list \<Rightarrow> 's gpu_world \<Rightarrow> 's gpu_world" where
  "gpu_run R ops w = fold (gpu_step R) ops w"

text \<open>A world in which no device is bound, on hold or dirty.\<close>

definition gpu_init :: "('s, 'x) redis_scheme \<Rightarrow> 's gpu_world \<Rightarrow> bool" where
  "gpu_init R w \<longleftrightarrow> (\<forall>d. VALUE R (srv w) (gpuBindingKey d) = None \<and> dirty w d = None)"

definition gpu_inv :: "('s, 'x) redis_scheme \<Rightarrow> 's gpu_world \<Rightarrow> bool" where
  "gpu_inv R w \<longleftrightarrow> (\<forall>d. let k = gpuBindingKey d in
     hash_ok R (srv w) k \<and>
     (HGET R (srv w) k ''zeroing'' = Some ''1'' \<longrightarrow> HGET R (srv w) k ''tenant_id'' = None) \<and>
     (\<forall>t. dirty w d = Some t \<longrightarrow>
        HGET R (srv w) k ''tenant_id'' = Some t \<or> HGET R (srv w) k ''zeroing'' = Some ''1''))"

section \<open>Facts about single calls\<close>

lemma gpuBindingKey_inject [simp]: "gpuBindingKey a = gpuBindingKey b \<longleftrightarrow> a = b"
  by (simp add: gpuBindingKey_def)

lemmas gpu_calls = Bind_def Release_def CompleteZero_def ZeroDevice_def

lemma Bind_state:
  "fst (Bind R l d t a s) = s \<or> fst (Bind R l d t a s) = fst (bindScript R (gpuBindingKey d) t a s)"
  by (cases l) (simp_all add: Bind_def)

lemma Release_state:
  "fst (Release R l d a s) = s \<or> fst (Release R l d a s) = fst (releaseScript R (gpuBindingKey d) a s)"
  by (cases l) (simp_all add: Release_def)

lemma ZeroDevice_state:
  "fst (ZeroDevice R l d z s) = s \<or>
   z = None \<and> fst (ZeroDevice R l d z s) = fst (completeZeroScript R (gpuBindingKey d) s)"
  by (cases l; cases z) (simp_all add: ZeroDevice_def CompleteZero_def)

lemma Bind_Inr:
  assumes "Bind R l d t a s = (s', Inr ())"
  shows "HGET R s (gpuBindingKey d) ''zeroing'' \<noteq> Some ''1''
    \<and> HGET R s (gpuBindingKey d) ''tenant_id'' \<in> {None, Some t}"
proof (cases l)
  case Up
  with assms show ?thesis
    by (auto simp: Bind_def bindScript_def bind_result_def split: if_splits option.splits)
qed (use assms in \<open>simp_all add: Bind_def\<close>)

context redis_server begin

lemma bindScript_reads:
  assumes ok: "hash_ok R s (gpuBindingKey d)"
    and free: "HGET R s (gpuBindingKey d) ''zeroing'' \<noteq> Some ''1''"
    and own: "HGET R s (gpuBindingKey d) ''tenant_id'' \<in> {None, Some t}"
  shows "HGET R (fst (bindScript R (gpuBindingKey d) t a s)) (gpuBindingKey d) ''tenant_id'' = Some t"
    "HGET R (fst (bindScript R (gpuBindingKey d) t a s)) (gpuBindingKey d) ''allocation_id'' = Some a"
    "HGET R (fst (bindScript R (gpuBindingKey d) t a s)) (gpuBindingKey d) ''zeroing'' = None"
  using assms by (auto simp: bindScript_def hash_laws)

lemma bindScript_other:
  "hash_ok R s (gpuBindingKey d) \<Longrightarrow> k \<noteq> gpuBindingKey d \<Longrightarrow>
   HGET R (fst (bindScript R (gpuBindingKey d) t a s)) k f = HGET R s k f"
  by (simp add: bindScript_def hash_laws split: option.splits)

lemma bindScript_ok:
  "hash_ok R s (gpuBindingKey d) \<Longrightarrow> hash_ok R s k \<Longrightarrow>
   hash_ok R (fst (bindScript R (gpuBindingKey d) t a s)) k"
  by (simp add: bindScript_def hash_laws split: option.splits)

lemma gpu_inv_D:
  assumes "gpu_inv R w"
  shows "hash_ok R (srv w) (gpuBindingKey d)"
    "HGET R (srv w) (gpuBindingKey d) ''zeroing'' = Some ''1'' \<Longrightarrow> HGET R (srv w) (gpuBindingKey d) ''tenant_id'' = None"
    "dirty w d = Some t \<Longrightarrow> HGET R (srv w) (gpuBindingKey d) ''tenant_id'' = Some t \<or>
       HGET R (srv w) (gpuBindingKey d) ''zeroing'' = Some ''1''"
  using assms by (auto simp: gpu_inv_def Let_def)

lemma gpu_inv_I:
  assumes "\<And>d. hash_ok R (srv w) (gpuBindingKey d)"
    "\<And>d. HGET R (srv w) (gpuBindingKey d) ''zeroing'' = Some ''1'' \<Longrightarrow> HGET R (srv w) (gpuBindingKey d) ''tenant_id'' = None"
    "\<And>d t. dirty w d = Some t \<Longrightarrow> HGET R (srv w) (gpuBindingKey d) ''tenant_id'' = Some t \<or>
       HGET R (srv w) (gpuBindingKey d) ''zeroing'' = Some ''1''"
  shows "gpu_inv R w"
  using assms by (auto simp: gpu_inv_def Let_def)

lemma gpu_inv_bindScript:
  assumes inv: "gpu_inv R w"
  shows "gpu_inv R (w\<lparr>srv := fst (bindScript R (gpuBindingKey d) t a (srv w))\<rparr>)"
proof -
  let ?s = "srv w" and ?k = "gpuBindingKey d"
  let ?s' = "fst (bindScript R ?k t a ?s)"
  have oks: "hash_ok R ?s (gpuBindingKey e)" for e
    using inv by (rule gpu_inv_D)
  show ?thesis
  proof (cases "HGET R ?s ?k ''zeroing'' = Some ''1'' \<or> HGET R ?s ?k ''tenant_id'' \<notin> {None, Some t}")
    case True
    then have "?s' = ?s" by (auto simp: bindScript_def split: option.splits)
    with inv show ?thesis by (simp only:) simp
  next
    case False
    then have own: "HGET R ?s ?k ''zeroing'' \<noteq> Some ''1''" "HGET R ?s ?k ''tenant_id'' \<in> {None, Some t}"
      by auto
    note new = bindScript_reads [OF oks own]
    have mine: "dirty w d = Some u \<Longrightarrow> u = t" for u
      using gpu_inv_D(3) [OF inv, of d u] own by auto
    have other: "HGET R ?s' (gpuBindingKey e) f = HGET R ?s (gpuBindingKey e) f" if "e \<noteq> d" for e f
      using bindScript_other [OF oks] that by simp
    show ?thesis
    proof (rule gpu_inv_I)
      fix e
      show "hash_ok R (srv (w\<lparr>srv := ?s'\<rparr>)) (gpuBindingKey e)"
        using bindScript_ok [OF oks oks] by simp
      show "HGET R (srv (w\<lparr>srv := ?s'\<rparr>)) (gpuBindingKey e) ''tenant_id'' = None"
        if "HGET R (srv (w\<lparr>srv := ?s'\<rparr>)) (gpuBindingKey e) ''zeroing'' = Some ''1''"
        using that new(3) other gpu_inv_D(2) [OF inv] by (cases "e = d") simp_all
      fix u
      assume "dirty (w\<lparr>srv := ?s'\<rparr>) e = Some u"
      then show "HGET R (srv (w\<lparr>srv := ?s'\<rparr>)) (gpuBindingKey e) ''tenant_id'' = Some u \<or>
          HGET R (srv (w\<lparr>srv := ?s'\<rparr>)) (gpuBindingKey e) ''zeroing'' = Some ''1''"
        using new(1) other mine gpu_inv_D(3) [OF inv] by (cases "e = d") simp_all
    qed
  qed
qed

lemma gpu_inv_releaseScript:
  assumes inv: "gpu_inv R w"
  shows "gpu_inv R (w\<lparr>srv := fst (releaseScript R (gpuBindingKey d) a (srv w))\<rparr>)"
  using gpu_inv_D(1) [OF inv] inv
  by (auto simp: gpu_inv_def Let_def releaseScript_def hash_laws)

lemma gpu_inv_zero:
  assumes inv: "gpu_inv R w"
  shows "gpu_inv R (w\<lparr>srv := fst (completeZeroScript R (gpuBindingKey d) (srv w)), dirty := (dirty w)(d := None)\<rparr>)"
    "gpu_inv R (w\<lparr>dirty := (dirty w)(d := None)\<rparr>)"
  using inv by (auto simp: gpu_inv_def Let_def completeZeroScript_def hash_laws)

lemma gpu_inv_step: "gpu_inv R w \<Longrightarrow> gpu_inv R (gpu_step R op w)"
proof (cases op)
  case (OpBind l d t a)
  assume "gpu_inv R w"
  with Bind_state [of R l d t a "srv w"] show ?thesis
    by (auto simp: OpBind gpu_inv_bindScript)
next
  case (OpRelease l d a)
  assume "gpu_inv R w"
  with Release_state [of R l d a "srv w"] show ?thesis
    by (auto simp: OpRelease gpu_inv_releaseScript)
next
  case (OpZero l d z)
  assume "gpu_inv R w"
  with ZeroDevice_state [of R l d z "srv w"] show ?thesis
    by (auto simp: OpZero gpu_inv_zero)
next
  case (OpUse d)
  assume "gpu_inv R w"
  then show ?thesis
    by (auto simp: OpUse gpu_inv_def Let_def split: option.splits)
qed

lemma gpu_inv_run: "gpu_inv R w \<Longrightarrow> gpu_inv R (gpu_run R ops w)"
  by (induction ops arbitrary: w) (auto simp: gpu_run_def gpu_inv_step)

lemma gpu_inv_init: "gpu_init R w \<Longrightarrow> gpu_inv R w"
  by (simp add: gpu_init_def gpu_inv_def Let_def hash_ok_def HGET_def hash_at_def)

lemma bind_never_dirty:
  assumes "gpu_init R w0" and "Bind R l d t a (srv (gpu_run R ops w0)) = (s', Inr ())"
  shows "dirty (gpu_run R ops w0) d \<in> {None, Some t}"
proof -
  have inv: "gpu_inv R (gpu_run R ops w0)"
    using assms(1) gpu_inv_init gpu_inv_run by blast
  show ?thesis
    using gpu_inv_D(3) [OF inv, of d] Bind_Inr [OF assms(2)]
    by (cases "dirty (gpu_run R ops w0) d") auto
qed

lemma release_then_hold:
  assumes ok: "hash_ok R s (gpuBindingKey d)"
    and held: "HGET R s (gpuBindingKey d) ''allocation_id'' = Some a"
    and rel: "Release R Up d a s = (s1, r)"
  shows "r = Inr ()" "hash_ok R s1 (gpuBindingKey d)"
    "HGET R s1 (gpuBindingKey d) ''zeroing'' = Some ''1''"
    "HGET R s1 (gpuBindingKey d) ''tenant_id'' = None"
  using assms by (auto simp: Release_def releaseScript_def hash_laws)


end

text \<open>While nobody releases the device, the tenant that holds it keeps it.\<close>

fun releases_device :: "string \<Rightarrow> gpu_op \<Rightarrow> bool" where
  "releases_device d (OpRelease l e a) \<longleftrightarrow> e = d"
| "releases_device d _ \<longleftrightarrow> False"

context redis_server begin

lemma tenant_kept_step:
  assumes inv: "gpu_inv R w" and held: "HGET R (srv w) (gpuBindingKey d) ''tenant_id'' = Some t"
    and no: "\<not> releases_device d op"
  shows "HGET R (srv (gpu_step R op w)) (gpuBindingKey d) ''tenant_id'' = Some t"
proof -
  note oks = gpu_inv_D(1) [OF inv]
  have free: "HGET R (srv w) (gpuBindingKey d) ''zeroing'' \<noteq> Some ''1''"
    using gpu_inv_D(2) [OF inv, of d] held by auto
  show ?thesis
  proof (cases op)
    case (OpBind l e u a)
    have "HGET R (fst (bindScript R (gpuBindingKey e) u a (srv w))) (gpuBindingKey d) ''tenant_id'' = Some t"
      using held oks by (cases "d = e") (auto simp: bindScript_def hash_laws split: option.splits)
    with Bind_state [of R l e u a "srv w"] held show ?thesis by (auto simp: OpBind)
  next
    case (OpRelease l e a)
    with no have "e \<noteq> d" by simp
    then have "HGET R (fst (releaseScript R (gpuBindingKey e) a (srv w))) (gpuBindingKey d) ''tenant_id'' = Some t"
      using held oks by (simp add: releaseScript_def hash_laws)
    with Release_state [of R l e a "srv w"] held show ?thesis by (auto simp: OpRelease)
  next
    case (OpZero l e z)
    have "HGET R (fst (completeZeroScript R (gpuBindingKey e) (srv w))) (gpuBindingKey d) ''tenant_id'' = Some t"
      using held free by (auto simp: completeZeroScript_def hash_laws)
    with ZeroDevice_state [of R l e z "srv w"] held show ?thesis by (auto simp: OpZero)
  next
    case (OpUse e)
    with held show ?thesis by (auto split: option.splits)
  qed
qed

lemma tenant_kept_run:
  assumes "gpu_inv R w" "HGET R (srv w) (gpuBindingKey d) ''tenant_id'' = Some t"
    and "list_all (\<lambda>op. \<not> releases_device d op) ops"
  shows "HGET R (srv (gpu_run R ops w)) (gpuBindingKey d) ''tenant_id'' = Some t"
  using assms
  by (induction ops arbitrary: w) (auto simp: gpu_run_def gpu_inv_step tenant_kept_step)

lemma bind_gives_tenant:
  assumes inv: "gpu_inv R w" and ok: "snd (Bind R l d t a (srv w)) = Inr ()"
  shows "HGET R (srv (gpu_step R (OpBind l d t a) w)) (gpuBindingKey d) ''tenant_id'' = Some t"
proof -
  have b: "Bind R l d t a (srv w) = (fst (Bind R l d t a (srv w)), Inr ())"
    using ok by (metis prod.collapse)
  then have "l = Up" by (cases l) (simp_all add: Bind_def)
  with Bind_Inr [OF b] show ?thesis
    using bindScript_reads(1) [OF gpu_inv_D(1) [OF inv]] by (simp add: Bind_def)
qed

lemma held_refuses:
  assumes inv: "gpu_inv R w" and held: "HGET R (srv w) (gpuBindingKey d) ''tenant_id'' = Some t"
    and ne: "u \<noteq> t"
  shows "snd (Bind R l d u b (srv w)) \<noteq> Inr () \<and> fst (Bind R l d u b (srv w)) = srv w"
proof -
  have "HGET R (srv w) (gpuBindingKey d) ''zeroing'' \<noteq> Some ''1''"
    using gpu_inv_D(2) [OF inv, of d] held by auto
  then show ?thesis
    using held ne by (cases l) (simp_all add: Bind_def bindScript_def bind_result_def)
qed

lemma exclusive_until_release:
  assumes init: "gpu_init R w0" and ok: "snd (Bind R l d t a (srv (gpu_run R ops w0))) = Inr ()"
    and no: "list_all (\<lambda>op. \<not> releases_device d op) ops'" and ne: "u \<noteq> t"
  shows "let w = gpu_run R ops' (gpu_step R (OpBind l d t a) (gpu_run R ops w0)) in
     snd (Bind R l' d u b (srv w)) \<noteq> Inr () \<and> fst (Bind R l' d u b (srv w)) = srv w"
proof -
  have inv: "gpu_inv R (gpu_run R ops w0)"
    using init gpu_inv_init gpu_inv_run by blast
  note inv1 = gpu_inv_step [OF inv, of "OpBind l d t a"]
  have "HGET R (srv (gpu_run R ops' (gpu_step R (OpBind l d t a) (gpu_run R ops w0))))
      (gpuBindingKey d) ''tenant_id'' = Some t"
    using tenant_kept_run [OF inv1 bind_gives_tenant [OF inv ok] no] .
  then show ?thesis
    using held_refuses [OF gpu_inv_run [OF inv1] _ ne] by (simp add: Let_def)
qed

lemma zero_cycle:
  assumes ok: "hash_ok R s (gpuBindingKey d)"
    and held: "HGET R s (gpuBindingKey d) ''allocation_id'' = Some a"
    and rel: "Release R Up d a s = (s1, r)"
  shows "IsZeroing R Up d s1 = Inr True \<and> TenantFor R Up d s1 = Inr None
    \<and> Bind R Up d u b s1 = (s1, Inl (ErrGPUZeroingInProgress d))
    \<and> ZeroDevice R l d (Some e) s1 = (s1, Inl (GpuZeroFailed e))
    \<and> (let s2 = fst (ZeroDevice R Up d None s1) in
        IsZeroing R Up d s2 = Inr False \<and> snd (Bind R Up d u b s2) = Inr ()
        \<and> TenantFor R Up d (fst (Bind R Up d u b s2)) = Inr (Some u))"
proof -
  note h = release_then_hold [OF assms]
  show ?thesis
    using h by (simp add: IsZeroing_def TenantFor_def Bind_def bindScript_def bind_result_def
        ZeroDevice_def CompleteZero_def completeZeroScript_def Let_def hash_laws)
qed

end

section \<open>Properties\<close>


definition gpu_example_ops :: "gpu_op list" where
  "gpu_example_ops = [OpBind Up ''g0'' ''A'' ''a1'', OpUse ''g0'', OpBind Up ''g0'' ''B'' ''b1'',
     OpRelease Up ''g0'' ''a1'', OpZero (Lost ''timeout'') ''g0'' None]"

definition gpu_example_world :: "mem gpu_world" where
  "gpu_example_world = \<lparr>srv = mem_empty, dirty = (\<lambda>_. None)\<rparr>"

lemma gpu_example_init: "gpu_init mem_redis gpu_example_world"
  by (simp add: gpu_init_def gpu_example_world_def mem_empty_def mem_at_def)


text \<open>
  Exclusive binding: once a bind succeeded for a tenant, every bind of the same device by
  another tenant is refused and changes nothing, whatever calls come in between, until somebody
  releases the device.
\<close>

lemma gpu_exclusive_until_release:
  assumes "redis_server R" and "gpu_init R w0"
    and "snd (Bind R l d t a (srv (gpu_run R ops w0))) = Inr ()"
    and "list_all (\<lambda>op. \<not> releases_device d op) ops'" and "u \<noteq> t"
  shows "let w = gpu_run R ops' (gpu_step R (OpBind l d t a) (gpu_run R ops w0)) in
     snd (Bind R l' d u b (srv w)) \<noteq> Inr () \<and> fst (Bind R l' d u b (srv w)) = srv w"
  using assms by (rule redis_server.exclusive_until_release)

lemma gpu_exclusive_until_release_witness:
  "let w = gpu_run mem_redis [OpUse ''g0'', OpBind Up ''g0'' ''A'' ''a9'', OpRelease Up ''g1'' ''a1'']
       (gpu_step mem_redis (OpBind Up ''g0'' ''A'' ''a1'') (gpu_run mem_redis [] gpu_example_world)) in
     snd (Bind mem_redis Up ''g0'' ''B'' ''b1'' (srv w)) \<noteq> Inr ()
     \<and> fst (Bind mem_redis Up ''g0'' ''B'' ''b1'' (srv w)) = srv w"
proof -
  have b: "snd (Bind mem_redis Up ''g0'' ''A'' ''a1'' (srv (gpu_run mem_redis [] gpu_example_world))) = Inr ()"
    by code_simp
  show ?thesis
    by (rule gpu_exclusive_until_release [OF mem.redis_server_axioms gpu_example_init b]) simp_all
qed

text \<open>
  The zeroing hold: when the holding allocation releases a device, every bind (the former
  tenant's included) is refused with the zeroing error, a failed zero pass keeps the hold, and
  after a zero pass that succeeded any tenant can bind the device.
\<close>

lemma gpu_release_zero_cycle:
  assumes "redis_server R" and "hash_ok R s (gpuBindingKey d)"
    and "HGET R s (gpuBindingKey d) ''allocation_id'' = Some a"
    and "Release R Up d a s = (s1, r)"
  shows "IsZeroing R Up d s1 = Inr True \<and> TenantFor R Up d s1 = Inr None
    \<and> Bind R Up d u b s1 = (s1, Inl (ErrGPUZeroingInProgress d))
    \<and> ZeroDevice R l d (Some e) s1 = (s1, Inl (GpuZeroFailed e))
    \<and> (let s2 = fst (ZeroDevice R Up d None s1) in
        IsZeroing R Up d s2 = Inr False \<and> snd (Bind R Up d u b s2) = Inr ()
        \<and> TenantFor R Up d (fst (Bind R Up d u b s2)) = Inr (Some u))"
  using assms by (rule redis_server.zero_cycle)

lemma gpu_release_zero_cycle_witness:
  "\<exists>s s1. Release mem_redis Up ''g0'' ''a1'' s = (s1, Inr ()) \<and>
     Bind mem_redis Up ''g0'' ''A'' ''a2'' s1 = (s1, Inl (ErrGPUZeroingInProgress ''g0''))"
proof -
  let ?s = "fst (Bind mem_redis Up ''g0'' ''A'' ''a1'' mem_empty)"
  have ok: "hash_ok mem_redis ?s (gpuBindingKey ''g0'')" by code_simp
  have held: "HGET mem_redis ?s (gpuBindingKey ''g0'') ''allocation_id'' = Some ''a1''" by code_simp
  have r: "snd (Release mem_redis Up ''g0'' ''a1'' ?s) = Inr ()" by code_simp
  have rel: "Release mem_redis Up ''g0'' ''a1'' ?s =
      (fst (Release mem_redis Up ''g0'' ''a1'' ?s), Inr ())" using r by (metis prod.collapse)
  show ?thesis
    using rel gpu_release_zero_cycle [OF mem.redis_server_axioms ok held rel, of "''A''" "''a2''" Up "[]"]
    by blast
qed

end
