(* ===== verification/Database.thy ===== *)
theory Database
  imports Prelude
begin

text \<open>
  \<^verbatim>\<open>internal/db\<close>: the repositories of the gateway. A table is the list of its rows; each
  SQL statement of the source is a function on that list, and each repository method is the
  statement plus the Go code around it (\<open>mapError\<close>, the affected-row count). A row's id and
  \<^verbatim>\<open>now()\<close> are chosen by the database and are arguments. \<open>l\<close> is the link the statement
  travels over. Rows of a multi-row query come newest first; the order of rows created at the
  same instant is not specified by SQL and is the reverse insertion order here.
\<close>

section \<open>Errors (\<^verbatim>\<open>errors.go\<close>)\<close>

datatype pgerr = ErrNoRows | PgError string | OtherPg string

datatype db_error = ErrNotFound | ErrConflict | DbFailure pgerr

definition uniqueViolationCode :: string where
  "uniqueViolationCode = ''23505''"

fun mapError :: "pgerr \<Rightarrow> db_error" where
  "mapError ErrNoRows = ErrNotFound"
| "mapError (PgError code) = (if code = uniqueViolationCode then ErrConflict else DbFailure (PgError code))"
| "mapError (OtherPg e) = DbFailure (OtherPg e)"

section \<open>Statements\<close>

text \<open>\<open>UPDATE ... WHERE p\<close>, returning the number of affected rows.\<close>

definition sql_update :: "('r \<Rightarrow> bool) \<Rightarrow> ('r \<Rightarrow> 'r) \<Rightarrow> 'r list \<Rightarrow> 'r list \<times> nat" where
  "sql_update p f t = (map (\<lambda>r. if p r then f r else r) t, length (filter p t))"

text \<open>The shape of most write methods: no affected row is \<open>ErrNotFound\<close>.\<close>

definition exec_update ::
  "pgerr link \<Rightarrow> ('r \<Rightarrow> bool) \<Rightarrow> ('r \<Rightarrow> 'r) \<Rightarrow> 'r list \<Rightarrow> 'r list \<times> (db_error + unit)" where
  "exec_update l p f t = (case roundtrip l (sql_update p f) t of
       (t', Inl e) \<Rightarrow> (t', Inl (mapError e))
     | (t', Inr n) \<Rightarrow> (t', if n = 0 then Inl ErrNotFound else Inr ()))"

definition query_row :: "pgerr link \<Rightarrow> ('r \<Rightarrow> bool) \<Rightarrow> 'r list \<Rightarrow> db_error + 'r" where
  "query_row l p t = (case snd (roundtrip l (\<lambda>t. (t, find p t)) t) of
       Inl e \<Rightarrow> Inl (mapError e)
     | Inr None \<Rightarrow> Inl (mapError ErrNoRows)
     | Inr (Some r) \<Rightarrow> Inr r)"

definition query_rows ::
  "pgerr link \<Rightarrow> ('r \<Rightarrow> bool) \<Rightarrow> ('r \<Rightarrow> int) \<Rightarrow> 'r list \<Rightarrow> db_error + 'r list" where
  "query_rows l p created t = (case snd (roundtrip l (\<lambda>t. (t, rev (sort_key created (filter p t)))) t) of
       Inl e \<Rightarrow> Inl (mapError e) | Inr rs \<Rightarrow> Inr rs)"

text \<open>\<open>INSERT ... RETURNING\<close>; \<open>clash\<close> holds for an existing row that violates a unique constraint.\<close>

definition insert_row ::
  "pgerr link \<Rightarrow> ('r \<Rightarrow> bool) \<Rightarrow> 'r \<Rightarrow> 'r list \<Rightarrow> 'r list \<times> (db_error + 'r)" where
  "insert_row l clash r t = (case roundtrip l (\<lambda>t. if list_ex clash t then (t, Inl (PgError uniqueViolationCode))
        else (t @ [r], Inr r)) t of
       (t', Inl e) \<Rightarrow> (t', Inl (mapError e))
     | (t', Inr (Inl e)) \<Rightarrow> (t', Inl (mapError e))
     | (t', Inr (Inr r)) \<Rightarrow> (t', Inr r))"

section \<open>Deployments (\<^verbatim>\<open>deployments.go\<close>)\<close>

record deployment =
  dep_ID :: string
  dep_ModelID :: string
  dep_UserID :: "string option"
  dep_AllocationID :: "string option"
  dep_State :: string
  dep_CreatedAt :: int
  dep_UpdatedAt :: int
  dep_GPUModel :: "string option"

type_synonym deployments = "deployment list"

definition DeploymentStateTerminated :: string where
  "DeploymentStateTerminated = ''terminated''"

definition Deployment_Create ::
  "pgerr link \<Rightarrow> string \<Rightarrow> int \<Rightarrow> string \<Rightarrow> string \<Rightarrow> deployments \<Rightarrow> deployments \<times> (db_error + deployment)" where
  "Deployment_Create l newid now modelID userID t =
     insert_row l (\<lambda>d. dep_ID d = newid)
       \<lparr>dep_ID = newid, dep_ModelID = modelID, dep_UserID = (if userID \<noteq> '''' then Some userID else None),
        dep_AllocationID = None, dep_State = ''queued'', dep_CreatedAt = now, dep_UpdatedAt = now,
        dep_GPUModel = None\<rparr> t"

definition Deployment_GetByID :: "pgerr link \<Rightarrow> string \<Rightarrow> deployments \<Rightarrow> db_error + deployment" where
  "Deployment_GetByID l i t = query_row l (\<lambda>d. dep_ID d = i) t"

definition Deployment_UpdateState ::
  "pgerr link \<Rightarrow> int \<Rightarrow> string \<Rightarrow> string \<Rightarrow> deployments \<Rightarrow> deployments \<times> (db_error + unit)" where
  "Deployment_UpdateState l now i st t =
     exec_update l (\<lambda>d. dep_ID d = i) (\<lambda>d. d\<lparr>dep_State := st, dep_UpdatedAt := now\<rparr>) t"

definition Deployment_Terminate ::
  "pgerr link \<Rightarrow> pgerr link \<Rightarrow> int \<Rightarrow> string \<Rightarrow> deployments \<Rightarrow> deployments \<times> (db_error + unit)" where
  "Deployment_Terminate l l2 now i t =
     (case roundtrip l (sql_update (\<lambda>d. dep_ID d = i \<and> dep_State d \<noteq> DeploymentStateTerminated)
          (\<lambda>d. d\<lparr>dep_State := DeploymentStateTerminated, dep_UpdatedAt := now\<rparr>)) t of
        (t', Inl e) \<Rightarrow> (t', Inl (mapError e))
      | (t', Inr n) \<Rightarrow>
          if n = 0 then (case Deployment_GetByID l2 i t' of Inl e \<Rightarrow> (t', Inl e) | Inr _ \<Rightarrow> (t', Inr ()))
          else (t', Inr ()))"

definition Deployment_SetAllocationID ::
  "pgerr link \<Rightarrow> int \<Rightarrow> string \<Rightarrow> string \<Rightarrow> deployments \<Rightarrow> deployments \<times> (db_error + unit)" where
  "Deployment_SetAllocationID l now i a t =
     exec_update l (\<lambda>d. dep_ID d = i) (\<lambda>d. d\<lparr>dep_AllocationID := Some a, dep_UpdatedAt := now\<rparr>) t"

definition Deployment_SetGPUModel ::
  "pgerr link \<Rightarrow> int \<Rightarrow> string \<Rightarrow> string \<Rightarrow> deployments \<Rightarrow> deployments \<times> (db_error + unit)" where
  "Deployment_SetGPUModel l now i g t =
     exec_update l (\<lambda>d. dep_ID d = i) (\<lambda>d. d\<lparr>dep_GPUModel := Some g, dep_UpdatedAt := now\<rparr>) t"

definition Deployment_ListByState :: "pgerr link \<Rightarrow> string \<Rightarrow> deployments \<Rightarrow> db_error + deployments" where
  "Deployment_ListByState l st t = query_rows l (\<lambda>d. dep_State d = st) dep_CreatedAt t"

definition live_state :: "deployment \<Rightarrow> bool" where
  "live_state d \<longleftrightarrow> dep_State d \<notin> {''terminated'', ''failed''}"

definition Deployment_ListActive :: "pgerr link \<Rightarrow> deployments \<Rightarrow> db_error + deployments" where
  "Deployment_ListActive l t = query_rows l live_state dep_CreatedAt t"

definition Deployment_ListByModel :: "pgerr link \<Rightarrow> string \<Rightarrow> deployments \<Rightarrow> db_error + deployments" where
  "Deployment_ListByModel l m t = query_rows l (\<lambda>d. dep_ModelID d = m) dep_CreatedAt t"

definition Deployment_ListLiveByUser :: "pgerr link \<Rightarrow> string \<Rightarrow> deployments \<Rightarrow> db_error + deployments" where
  "Deployment_ListLiveByUser l u t = query_rows l (\<lambda>d. dep_UserID d = Some u \<and> live_state d) dep_CreatedAt t"

section \<open>Users (\<^verbatim>\<open>users.go\<close>)\<close>

record user =
  usr_ID :: string
  usr_Email :: string
  usr_PasswordHash :: string
  usr_TOSAcceptedAt :: "int option"
  usr_SuspendedAt :: "int option"
  usr_CreatedAt :: int
  usr_UpdatedAt :: int

definition User_Suspended :: "user \<Rightarrow> bool" where
  "User_Suspended u \<longleftrightarrow> usr_SuspendedAt u \<noteq> None"

definition User_CreateWithPassword ::
  "pgerr link \<Rightarrow> string \<Rightarrow> int \<Rightarrow> string \<Rightarrow> string \<Rightarrow> user list \<Rightarrow> user list \<times> (db_error + user)" where
  "User_CreateWithPassword l newid now email passwordHash t =
     insert_row l (\<lambda>u. usr_ID u = newid \<or> usr_Email u = email)
       \<lparr>usr_ID = newid, usr_Email = email, usr_PasswordHash = passwordHash, usr_TOSAcceptedAt = None,
        usr_SuspendedAt = None, usr_CreatedAt = now, usr_UpdatedAt = now\<rparr> t"

text \<open>The column \<^verbatim>\<open>password_hash\<close> defaults to the empty string.\<close>

definition User_Create ::
  "pgerr link \<Rightarrow> string \<Rightarrow> int \<Rightarrow> string \<Rightarrow> user list \<Rightarrow> user list \<times> (db_error + user)" where
  "User_Create l newid now email t = User_CreateWithPassword l newid now email '''' t"

definition User_GetByID :: "pgerr link \<Rightarrow> string \<Rightarrow> user list \<Rightarrow> db_error + user" where
  "User_GetByID l i t = query_row l (\<lambda>u. usr_ID u = i) t"

definition User_GetByEmail :: "pgerr link \<Rightarrow> string \<Rightarrow> user list \<Rightarrow> db_error + user" where
  "User_GetByEmail l e t = query_row l (\<lambda>u. usr_Email u = e) t"

definition User_AcceptTOS ::
  "pgerr link \<Rightarrow> int \<Rightarrow> string \<Rightarrow> user list \<Rightarrow> user list \<times> (db_error + unit)" where
  "User_AcceptTOS l now i t =
     exec_update l (\<lambda>u. usr_ID u = i) (\<lambda>u. u\<lparr>usr_TOSAcceptedAt := Some now, usr_UpdatedAt := now\<rparr>) t"

definition User_Suspend ::
  "pgerr link \<Rightarrow> int \<Rightarrow> string \<Rightarrow> user list \<Rightarrow> user list \<times> (db_error + unit)" where
  "User_Suspend l now i t =
     exec_update l (\<lambda>u. usr_ID u = i)
       (\<lambda>u. u\<lparr>usr_SuspendedAt := (case usr_SuspendedAt u of Some x \<Rightarrow> Some x | None \<Rightarrow> Some now),
              usr_UpdatedAt := now\<rparr>) t"

section \<open>API keys (\<^verbatim>\<open>api_keys.go\<close>)\<close>

record apikey =
  key_ID :: string
  key_UserID :: string
  key_OrgID :: "string option"
  key_KeyHash :: string
  key_DisplayPrefix :: string
  key_Scopes :: "string list"
  key_LastUsedAt :: "int option"
  key_RevokedAt :: "int option"
  key_CreatedAt :: int

record new_apikey =
  nk_UserID :: string
  nk_OrgID :: "string option"
  nk_KeyHash :: string
  nk_DisplayPrefix :: string
  nk_Scopes :: "string list"

definition APIKey_Create ::
  "pgerr link \<Rightarrow> string \<Rightarrow> int \<Rightarrow> new_apikey \<Rightarrow> apikey list \<Rightarrow> apikey list \<times> (db_error + apikey)" where
  "APIKey_Create l newid now k t =
     insert_row l (\<lambda>r. key_ID r = newid \<or> key_DisplayPrefix r = nk_DisplayPrefix k)
       \<lparr>key_ID = newid, key_UserID = nk_UserID k, key_OrgID = nk_OrgID k, key_KeyHash = nk_KeyHash k,
        key_DisplayPrefix = nk_DisplayPrefix k, key_Scopes = nk_Scopes k, key_LastUsedAt = None,
        key_RevokedAt = None, key_CreatedAt = now\<rparr> t"

definition APIKey_GetByPrefix :: "pgerr link \<Rightarrow> string \<Rightarrow> apikey list \<Rightarrow> db_error + apikey" where
  "APIKey_GetByPrefix l p t = query_row l (\<lambda>k. key_DisplayPrefix k = p) t"

definition APIKey_ListByUser :: "pgerr link \<Rightarrow> string \<Rightarrow> apikey list \<Rightarrow> db_error + apikey list" where
  "APIKey_ListByUser l u t = query_rows l (\<lambda>k. key_UserID k = u) key_CreatedAt t"

definition APIKey_TouchLastUsed ::
  "pgerr link \<Rightarrow> int \<Rightarrow> string \<Rightarrow> apikey list \<Rightarrow> apikey list \<times> (db_error + unit)" where
  "APIKey_TouchLastUsed l now i t =
     exec_update l (\<lambda>k. key_ID k = i) (\<lambda>k. k\<lparr>key_LastUsedAt := Some now\<rparr>) t"

definition APIKey_RevokeAllByUser ::
  "pgerr link \<Rightarrow> int \<Rightarrow> string \<Rightarrow> apikey list \<Rightarrow> apikey list \<times> (db_error + nat)" where
  "APIKey_RevokeAllByUser l now u t =
     (case roundtrip l (sql_update (\<lambda>k. key_UserID k = u \<and> key_RevokedAt k = None)
          (\<lambda>k. k\<lparr>key_RevokedAt := Some now\<rparr>)) t of
        (t', Inl e) \<Rightarrow> (t', Inl (mapError e))
      | (t', Inr n) \<Rightarrow> (t', Inr n))"

definition APIKey_Revoke ::
  "pgerr link \<Rightarrow> int \<Rightarrow> string \<Rightarrow> apikey list \<Rightarrow> apikey list \<times> (db_error + unit)" where
  "APIKey_Revoke l now i t =
     exec_update l (\<lambda>k. key_ID k = i \<and> key_RevokedAt k = None) (\<lambda>k. k\<lparr>key_RevokedAt := Some now\<rparr>) t"

section \<open>Refresh tokens (\<^verbatim>\<open>refresh_tokens.go\<close>)\<close>

record refresh_token =
  rt_ID :: string
  rt_UserID :: string
  rt_TokenHash :: string
  rt_ExpiresAt :: int
  rt_RevokedAt :: "int option"
  rt_CreatedAt :: int

definition RefreshToken_Create ::
  "pgerr link \<Rightarrow> string \<Rightarrow> int \<Rightarrow> string \<Rightarrow> string \<Rightarrow> int \<Rightarrow> refresh_token list
   \<Rightarrow> refresh_token list \<times> (db_error + refresh_token)" where
  "RefreshToken_Create l newid now userID tokenHash expiresAt t =
     insert_row l (\<lambda>r. rt_ID r = newid \<or> rt_TokenHash r = tokenHash)
       \<lparr>rt_ID = newid, rt_UserID = userID, rt_TokenHash = tokenHash, rt_ExpiresAt = expiresAt,
        rt_RevokedAt = None, rt_CreatedAt = now\<rparr> t"

definition RefreshToken_GetByHash :: "pgerr link \<Rightarrow> string \<Rightarrow> refresh_token list \<Rightarrow> db_error + refresh_token" where
  "RefreshToken_GetByHash l h t = query_row l (\<lambda>r. rt_TokenHash r = h) t"

definition RefreshToken_Revoke ::
  "pgerr link \<Rightarrow> int \<Rightarrow> string \<Rightarrow> refresh_token list \<Rightarrow> refresh_token list \<times> (db_error + unit)" where
  "RefreshToken_Revoke l now i t =
     exec_update l (\<lambda>r. rt_ID r = i \<and> rt_RevokedAt r = None) (\<lambda>r. r\<lparr>rt_RevokedAt := Some now\<rparr>) t"

section \<open>Ingestion jobs (\<^verbatim>\<open>ingestion_jobs.go\<close>)\<close>

definition IngestionStateQueued :: string where "IngestionStateQueued = ''queued''"
definition IngestionStateDownloading :: string where "IngestionStateDownloading = ''downloading''"
definition IngestionStateVerifying :: string where "IngestionStateVerifying = ''verifying''"
definition IngestionStateCached :: string where "IngestionStateCached = ''cached''"
definition IngestionStateFailed :: string where "IngestionStateFailed = ''failed''"

lemmas ingestion_states = IngestionStateQueued_def IngestionStateDownloading_def
  IngestionStateVerifying_def IngestionStateCached_def IngestionStateFailed_def

record ingestion_job =
  job_ID :: string
  job_RepoURL :: string
  job_Revision :: string
  job_State :: string
  job_BytesTotal :: int
  job_BytesDownloaded :: int
  job_ErrorMessage :: "string option"
  job_ModelID :: "string option"
  job_CreatedAt :: int
  job_UpdatedAt :: int

type_synonym ingestion_jobs = "ingestion_job list"

definition IngestionJob_Create ::
  "pgerr link \<Rightarrow> string \<Rightarrow> int \<Rightarrow> string \<Rightarrow> string \<Rightarrow> ingestion_jobs \<Rightarrow> ingestion_jobs \<times> (db_error + ingestion_job)" where
  "IngestionJob_Create l newid now repoURL revision t =
     insert_row l (\<lambda>j. job_ID j = newid)
       \<lparr>job_ID = newid, job_RepoURL = repoURL, job_Revision = revision, job_State = IngestionStateQueued,
        job_BytesTotal = 0, job_BytesDownloaded = 0, job_ErrorMessage = None, job_ModelID = None,
        job_CreatedAt = now, job_UpdatedAt = now\<rparr> t"

definition IngestionJob_GetByID :: "pgerr link \<Rightarrow> string \<Rightarrow> ingestion_jobs \<Rightarrow> db_error + ingestion_job" where
  "IngestionJob_GetByID l i t = query_row l (\<lambda>j. job_ID j = i) t"

definition IngestionJob_UpdateState ::
  "pgerr link \<Rightarrow> int \<Rightarrow> string \<Rightarrow> string \<Rightarrow> ingestion_jobs \<Rightarrow> ingestion_jobs \<times> (db_error + unit)" where
  "IngestionJob_UpdateState l now i st t =
     exec_update l (\<lambda>j. job_ID j = i) (\<lambda>j. j\<lparr>job_State := st, job_UpdatedAt := now\<rparr>) t"

definition IngestionJob_UpdateProgress ::
  "pgerr link \<Rightarrow> int \<Rightarrow> string \<Rightarrow> int \<Rightarrow> int \<Rightarrow> ingestion_jobs \<Rightarrow> ingestion_jobs \<times> (db_error + unit)" where
  "IngestionJob_UpdateProgress l now i bytesTotal bytesDownloaded t =
     exec_update l (\<lambda>j. job_ID j = i)
       (\<lambda>j. j\<lparr>job_BytesTotal := bytesTotal, job_BytesDownloaded := bytesDownloaded,
              job_State := IngestionStateDownloading, job_UpdatedAt := now\<rparr>) t"

definition IngestionJob_Complete ::
  "pgerr link \<Rightarrow> int \<Rightarrow> string \<Rightarrow> string \<Rightarrow> ingestion_jobs \<Rightarrow> ingestion_jobs \<times> (db_error + unit)" where
  "IngestionJob_Complete l now i modelID t =
     exec_update l (\<lambda>j. job_ID j = i)
       (\<lambda>j. j\<lparr>job_State := IngestionStateCached, job_ModelID := Some modelID, job_UpdatedAt := now\<rparr>) t"

definition IngestionJob_Fail ::
  "pgerr link \<Rightarrow> int \<Rightarrow> string \<Rightarrow> string \<Rightarrow> ingestion_jobs \<Rightarrow> ingestion_jobs \<times> (db_error + unit)" where
  "IngestionJob_Fail l now i errMsg t =
     exec_update l (\<lambda>j. job_ID j = i)
       (\<lambda>j. j\<lparr>job_State := IngestionStateFailed, job_ErrorMessage := Some errMsg, job_UpdatedAt := now\<rparr>) t"

section \<open>Models (\<^verbatim>\<open>models.go\<close>)\<close>

record new_model =
  nm_RepoURL :: string
  nm_Revision :: string
  nm_RevisionSHA :: string
  nm_Architecture :: string
  nm_ParameterCount :: int
  nm_Dtype :: string
  nm_FP16Bytes :: int
  nm_FP8Bytes :: int
  nm_Int4Bytes :: int
  nm_KVCacheBytes :: int
  nm_License :: string

text \<open>A row: its id, its creation time, the registered fields, and \<^verbatim>\<open>revision_sha\<close> as stored
  (\<open>NULL\<close> when the field is empty; the reader turns \<open>NULL\<close> back into the empty string).\<close>

record model_row =
  mdl_ID :: string
  mdl_CreatedAt :: int
  mdl_fields :: new_model
  mdl_sha :: "string option"

definition Model_Create ::
  "pgerr link \<Rightarrow> string \<Rightarrow> int \<Rightarrow> new_model \<Rightarrow> model_row list \<Rightarrow> model_row list \<times> (db_error + model_row)" where
  "Model_Create l newid now m t =
     (let sha = (if nm_RevisionSHA m \<noteq> '''' then Some (nm_RevisionSHA m) else None) in
      insert_row l (\<lambda>r. mdl_ID r = newid \<or>
          nm_RepoURL (mdl_fields r) = nm_RepoURL m \<and> nm_Revision (mdl_fields r) = nm_Revision m \<or>
          sha \<noteq> None \<and> mdl_sha r = sha)
        \<lparr>mdl_ID = newid, mdl_CreatedAt = now, mdl_fields = m, mdl_sha = sha\<rparr> t)"

definition Model_GetByID :: "pgerr link \<Rightarrow> string \<Rightarrow> model_row list \<Rightarrow> db_error + model_row" where
  "Model_GetByID l i t = query_row l (\<lambda>r. mdl_ID r = i) t"

definition Model_GetByRepoRevision :: "pgerr link \<Rightarrow> string \<Rightarrow> string \<Rightarrow> model_row list \<Rightarrow> db_error + model_row" where
  "Model_GetByRepoRevision l u v t =
     query_row l (\<lambda>r. nm_RepoURL (mdl_fields r) = u \<and> nm_Revision (mdl_fields r) = v) t"

definition Model_GetByRevisionSHA :: "pgerr link \<Rightarrow> string \<Rightarrow> model_row list \<Rightarrow> db_error + model_row" where
  "Model_GetByRevisionSHA l sha t = query_row l (\<lambda>r. mdl_sha r = Some sha) t"

definition Model_List :: "pgerr link \<Rightarrow> model_row list \<Rightarrow> db_error + model_row list" where
  "Model_List l t = query_rows l (\<lambda>r. True) mdl_CreatedAt t"

section \<open>Facts shared by the clients\<close>

lemma find_map_keep:
  "(\<And>r. p (g r) = p r) \<Longrightarrow> find p (map g t) = map_option g (find p t)"
  by (induction t) auto

lemma find_SomeD: "find p t = Some r \<Longrightarrow> p r \<and> r \<in> set t"
  by (induction t) (auto split: if_splits)

lemma filter_empty_find: "filter p t = [] \<longleftrightarrow> find p t = None"
  by (induction t) auto

text \<open>A write that reaches the table applies the update; the others leave the table alone.\<close>

lemma exec_update_state:
  "fst (exec_update l p f t) = t \<or> fst (exec_update l p f t) = map (\<lambda>r. if p r then f r else r) t"
  by (cases l) (simp_all add: exec_update_def sql_update_def)

lemma exec_update_Up:
  "exec_update Up p f t = (map (\<lambda>r. if p r then f r else r) t, if find p t = None then Inl ErrNotFound else Inr ())"
  by (simp add: exec_update_def sql_update_def filter_empty_find)

lemma exec_update_Inr:
  "exec_update l p f t = (t', Inr ()) \<Longrightarrow> l = Up \<and> t' = map (\<lambda>r. if p r then f r else r) t \<and> find p t \<noteq> None"
  by (cases l) (auto simp: exec_update_def sql_update_def filter_empty_find split: if_splits)

lemma query_row_Inr: "query_row l p t = Inr r \<longleftrightarrow> l = Up \<and> find p t = Some r"
  by (cases l) (auto simp: query_row_def split: option.splits)

lemma query_row_Up: "query_row Up p t = (case find p t of None \<Rightarrow> Inl ErrNotFound | Some r \<Rightarrow> Inr r)"
  by (simp add: query_row_def split: option.splits)

lemma query_rows_Inr:
  "query_rows l p c t = Inr rs \<longleftrightarrow> l = Up \<and> rs = rev (sort_key c (filter p t))"
  by (cases l) (auto simp: query_rows_def)

lemma query_rows_set: "query_rows l p c t = Inr rs \<Longrightarrow> set rs = {r \<in> set t. p r}"
  by (auto simp: query_rows_Inr)

lemma filter_update_other:
  "(\<And>r. p r \<Longrightarrow> \<not> q r \<and> \<not> q (f r)) \<Longrightarrow> filter q (map (\<lambda>r. if p r then f r else r) t) = filter q t"
  by (induction t) auto

lemma update_post:
  "(\<And>r. p r \<Longrightarrow> Q (f r)) \<Longrightarrow> (\<And>r. \<not> p r \<Longrightarrow> Q r) \<Longrightarrow> \<forall>r \<in> set (map (\<lambda>r. if p r then f r else r) t). Q r"
  by (induction t) auto

lemma find_append: "find p (xs @ ys) = (case find p xs of None \<Rightarrow> find p ys | Some r \<Rightarrow> Some r)"
  by (induction xs) auto

lemma find_None_ex: "find p t = None \<longleftrightarrow> \<not> list_ex p t"
  by (induction t) auto

text \<open>An insertion that reports success appends its row; every other one appends it or changes nothing.\<close>

lemma insert_row_Inr:
  "insert_row l clash r t = (t', Inr r') \<longleftrightarrow> l = Up \<and> \<not> list_ex clash t \<and> t' = t @ [r] \<and> r' = r"
  by (cases l) (auto simp: insert_row_def split: if_splits)

lemma insert_row_state:
  "fst (insert_row l clash r t) = t \<or> fst (insert_row l clash r t) = t @ [r] \<and> \<not> list_ex clash t"
  by (cases l) (auto simp: insert_row_def)

end
