(* ===== verification/Lifecycle.thy ===== *)
theory Lifecycle
  imports Database
begin

text \<open>
  \<^verbatim>\<open>internal/scheduler\<close>: the deployment state machine (\<^verbatim>\<open>state.go\<close>), the consumer of Nomad's
  allocation events (\<^verbatim>\<open>statusstream.go\<close>), the warm-pool lookup (\<^verbatim>\<open>warmpool.go\<close>). The store the
  consumer writes to is a Go interface: a record of operations here, its contract the
  locale \<open>deployment_state_store\<close>, its provider the adapter over the repository.
\<close>

section \<open>The state machine (\<^verbatim>\<open>state.go\<close>)\<close>

type_synonym DeploymentState = string

definition StateQueued :: DeploymentState where "StateQueued = ''queued''"
definition StateProvisioning :: DeploymentState where "StateProvisioning = ''provisioning''"
definition StateWarming :: DeploymentState where "StateWarming = ''warming''"
definition StateReady :: DeploymentState where "StateReady = ''ready''"
definition StateDraining :: DeploymentState where "StateDraining = ''draining''"
definition StateTerminated :: DeploymentState where "StateTerminated = ''terminated''"
definition StateFailed :: DeploymentState where "StateFailed = ''failed''"

lemmas state_defs = StateQueued_def StateProvisioning_def StateWarming_def StateReady_def
  StateDraining_def StateTerminated_def StateFailed_def

definition legalTransitions :: "DeploymentState \<Rightarrow> DeploymentState list" where
  "legalTransitions st =
     (if st = StateQueued then [StateProvisioning, StateFailed]
      else if st = StateProvisioning then [StateWarming, StateReady, StateFailed]
      else if st = StateWarming then [StateReady, StateFailed]
      else if st = StateReady then [StateDraining, StateFailed]
      else if st = StateDraining then [StateTerminated, StateFailed]
      else [])"

datatype sched_error = ErrIllegalTransition DeploymentState DeploymentState

definition ValidateTransition :: "DeploymentState \<Rightarrow> DeploymentState \<Rightarrow> sched_error + unit" where
  "ValidateTransition from to =
     (if from = to then Inr ()
      else if to \<in> set (legalTransitions from) then Inr ()
      else Inl (ErrIllegalTransition from to))"

definition IsTerminal :: "DeploymentState \<Rightarrow> bool" where
  "IsTerminal st \<longleftrightarrow> length (legalTransitions st) = 0"

text \<open>The interface \<^verbatim>\<open>DeploymentStateStore\<close>. Each call carries the link it travels over.\<close>

record 's state_store =
  store_CurrentState :: "pgerr link \<Rightarrow> string \<Rightarrow> 's \<Rightarrow> db_error + DeploymentState"
  store_UpdateState :: "pgerr link \<Rightarrow> string \<Rightarrow> DeploymentState \<Rightarrow> 's \<Rightarrow> 's \<times> (db_error + unit)"
  store_SetAllocationID :: "pgerr link \<Rightarrow> string \<Rightarrow> string \<Rightarrow> 's \<Rightarrow> 's \<times> (db_error + unit)"

text \<open>\<^verbatim>\<open>DBDeploymentStore\<close>: the adapter over the repository; \<open>now\<close> is the database clock.\<close>

definition DB_CurrentState :: "pgerr link \<Rightarrow> string \<Rightarrow> deployments \<Rightarrow> db_error + DeploymentState" where
  "DB_CurrentState l i t = (case Deployment_GetByID l i t of Inl e \<Rightarrow> Inl e | Inr d \<Rightarrow> Inr (dep_State d))"

definition DBDeploymentStore :: "int \<Rightarrow> deployments state_store" where
  "DBDeploymentStore now = \<lparr>store_CurrentState = DB_CurrentState,
     store_UpdateState = (\<lambda>l i st. Deployment_UpdateState l now i st),
     store_SetAllocationID = (\<lambda>l i a. Deployment_SetAllocationID l now i a)\<rparr>"

section \<open>Allocation events (\<^verbatim>\<open>statusstream.go\<close>)\<close>

definition inferenceJobPrefix :: string where
  "inferenceJobPrefix = ''inference-''"

text \<open>\<^verbatim>\<open>nomadclient.InferenceJobID\<close>\<close>

definition InferenceJobID :: "string \<Rightarrow> string" where
  "InferenceJobID deploymentID = ''inference-'' @ deploymentID"

definition deploymentIDFromJobID :: "string \<Rightarrow> string option" where
  "deploymentIDFromJobID jobID = (case cut_prefix jobID inferenceJobPrefix of
      None \<Rightarrow> None
    | Some deploymentID \<Rightarrow> if deploymentID = '''' then None else Some deploymentID)"

definition mapAllocationState :: "string \<Rightarrow> DeploymentState" where
  "mapAllocationState clientStatus =
     (if clientStatus = ''pending'' then StateProvisioning
      else if clientStatus = ''running'' then StateReady
      else if clientStatus = ''complete'' then StateTerminated
      else if clientStatus = ''failed'' \<or> clientStatus = ''lost'' then StateFailed
      else '''')"

record allocation =
  al_ID :: string
  al_JobID :: string
  al_ClientStatus :: string

text \<open>An event as received: the decoded allocation (\<open>None\<close> when decoding fails or yields nil)
  and the links of the three store calls its handling may make.\<close>

record alloc_event =
  ev_alloc :: "allocation option"
  ev_links :: "pgerr link \<times> pgerr link \<times> pgerr link"

definition handleEvent :: "'s state_store \<Rightarrow> alloc_event \<Rightarrow> 's \<Rightarrow> 's" where
  "handleEvent S ev s = (case ev_links ev of (l1, l2, l3) \<Rightarrow> (case ev_alloc ev of
       None \<Rightarrow> s
     | Some alloc \<Rightarrow> (case deploymentIDFromJobID (al_JobID alloc) of
         None \<Rightarrow> s
       | Some deploymentID \<Rightarrow>
           (let s1 = fst (store_SetAllocationID S l1 deploymentID (al_ID alloc) s);
                next = mapAllocationState (al_ClientStatus alloc)
            in if next = '''' then s1
               else (case store_CurrentState S l2 deploymentID s1 of
                  Inl _ \<Rightarrow> s1
                | Inr current \<Rightarrow> (case ValidateTransition current next of
                    Inl _ \<Rightarrow> s1
                  | Inr _ \<Rightarrow> if current = next then s1
                      else fst (store_UpdateState S l3 deploymentID next s1)))))))"

datatype event_batch = NilBatch | ErrBatch string | EventBatch "alloc_event list"

fun handleBatch :: "'s state_store \<Rightarrow> event_batch \<Rightarrow> 's \<Rightarrow> 's" where
  "handleBatch S NilBatch s = s"
| "handleBatch S (ErrBatch e) s = s"
| "handleBatch S (EventBatch evs) s = fold (handleEvent S) evs s"

text \<open>\<^verbatim>\<open>Run\<close>: what the select statement receives, one item per iteration. A list that is used up
  is a stream the loop is still waiting on.\<close>

datatype stream_item = CtxDone | StreamClosed | Batch event_batch
datatype stream_result = StreamStartFailed | StoppedByCtx | EndOfStream | StillRunning

fun stream_loop :: "'s state_store \<Rightarrow> stream_item list \<Rightarrow> 's \<Rightarrow> 's \<times> stream_result" where
  "stream_loop S [] s = (s, StillRunning)"
| "stream_loop S (CtxDone # xs) s = (s, StoppedByCtx)"
| "stream_loop S (StreamClosed # xs) s = (s, EndOfStream)"
| "stream_loop S (Batch b # xs) s = stream_loop S xs (handleBatch S b s)"

definition StatusStreamer_Run :: "'s state_store \<Rightarrow> bool \<Rightarrow> stream_item list \<Rightarrow> 's \<Rightarrow> 's \<times> stream_result" where
  "StatusStreamer_Run S started items s = (if started then stream_loop S items s else (s, StreamStartFailed))"

section \<open>Warm pool (\<^verbatim>\<open>warmpool.go\<close>)\<close>

definition FindWarmDeployment :: "pgerr link \<Rightarrow> string \<Rightarrow> deployments \<Rightarrow> db_error + deployment option" where
  "FindWarmDeployment l modelID t = (case Deployment_ListByModel l modelID t of
       Inl e \<Rightarrow> Inl e
     | Inr ds \<Rightarrow> Inr (find (\<lambda>d. dep_State d = StateReady) ds))"

section \<open>Job identifiers\<close>

lemma InferenceJobID_prefix: "InferenceJobID d = inferenceJobPrefix @ d"
  by (simp add: InferenceJobID_def inferenceJobPrefix_def)

lemma deploymentIDFromJobID_prefix:
  "deploymentIDFromJobID (inferenceJobPrefix @ d) = (if d = '''' then None else Some d)"
  by (simp add: deploymentIDFromJobID_def)

lemma deploymentIDFromJobID_Some:
  "deploymentIDFromJobID j = Some e \<longleftrightarrow> j = inferenceJobPrefix @ e \<and> e \<noteq> ''''"
  by (auto simp: deploymentIDFromJobID_def cut_prefix_Some split: option.splits if_splits)

section \<open>The transition graph\<close>

definition legal_edge :: "DeploymentState \<Rightarrow> DeploymentState \<Rightarrow> bool" where
  "legal_edge a b \<longleftrightarrow> b \<in> set (legalTransitions a)"

text \<open>Progress through the lifecycle; an unknown state is past the end.\<close>

definition stage :: "DeploymentState \<Rightarrow> nat" where
  "stage st = (if st = StateQueued then 0 else if st = StateProvisioning then 1
     else if st = StateWarming then 2 else if st = StateReady then 3 else if st = StateDraining then 4
     else if st = StateTerminated then 5 else 6)"

lemma legal_edge_stage: "legal_edge a b \<Longrightarrow> stage a < stage b"
  by (auto simp: legal_edge_def legalTransitions_def stage_def state_defs split: if_splits)

lemma legal_edge_neq: "legal_edge a b \<Longrightarrow> a \<noteq> b"
  using legal_edge_stage by blast

lemma ValidateTransition_Inr: "ValidateTransition a b = Inr () \<longleftrightarrow> a = b \<or> legal_edge a b"
  by (auto simp: ValidateTransition_def legal_edge_def)

lemma terminal_no_edge: "IsTerminal a \<Longrightarrow> \<not> legal_edge a b"
  by (simp add: IsTerminal_def legal_edge_def)

lemma stage_bound: "stage a \<le> 6"
  by (simp add: stage_def)

lemma legal_path_stage: "legal_edge\<^sup>*\<^sup>* a b \<Longrightarrow> stage a \<le> stage b"
  by (induction rule: rtranclp_induct) (auto dest: legal_edge_stage)

lemma legal_path_terminal: "legal_edge\<^sup>*\<^sup>* a b \<Longrightarrow> IsTerminal a \<Longrightarrow> b = a"
  by (induction rule: rtranclp_induct) (auto dest: terminal_no_edge)

section \<open>The contract of the store and what the consumer guarantees over it\<close>

text \<open>\<open>cur s i\<close> is the state the store holds for deployment \<open>i\<close>.\<close>

locale deployment_state_store =
  fixes S :: "'s state_store" and cur :: "'s \<Rightarrow> string \<Rightarrow> DeploymentState option"
  assumes current_sound: "store_CurrentState S l i s = Inr st \<Longrightarrow> cur s i = Some st"
    and current_up: "cur s i = Some st \<Longrightarrow> store_CurrentState S Up i s = Inr st"
    and update_frame: "cur (fst (store_UpdateState S l i st s)) = cur s \<or>
          cur s i \<noteq> None \<and> cur (fst (store_UpdateState S l i st s)) = (cur s)(i \<mapsto> st)"
    and update_up: "cur s i \<noteq> None \<Longrightarrow> cur (fst (store_UpdateState S Up i st s)) = (cur s)(i \<mapsto> st)"
    and set_alloc_frame: "cur (fst (store_SetAllocationID S l i a s)) = cur s"
begin

lemma handleEvent_cases:
  "cur (handleEvent S ev s) = cur s \<or>
   (\<exists>i a b. cur s i = Some a \<and> legal_edge a b \<and> cur (handleEvent S ev s) = (cur s)(i \<mapsto> b))"
proof (cases "\<exists>alloc i. ev_alloc ev = Some alloc \<and> deploymentIDFromJobID (al_JobID alloc) = Some i")
  case False
  then show ?thesis
    by (auto simp: handleEvent_def split: option.splits prod.splits)
next
  case True
  then obtain alloc i l1 l2 l3 where ev: "ev_alloc ev = Some alloc"
      "deploymentIDFromJobID (al_JobID alloc) = Some i" "ev_links ev = (l1, l2, l3)"
    by (metis prod_cases3)
  let ?s1 = "fst (store_SetAllocationID S l1 i (al_ID alloc) s)"
  let ?next = "mapAllocationState (al_ClientStatus alloc)"
  have c1: "cur ?s1 = cur s" by (rule set_alloc_frame)
  show ?thesis
  proof (cases "\<exists>c. store_CurrentState S l2 i ?s1 = Inr c \<and> legal_edge c ?next")
    case True
    then obtain c where c: "store_CurrentState S l2 i ?s1 = Inr c" "legal_edge c ?next" by blast
    have ci: "cur s i = Some c" using current_sound [OF c(1)] c1 by simp
    have "handleEvent S ev s = ?s1 \<or> handleEvent S ev s = fst (store_UpdateState S l3 i ?next ?s1)"
      using ev c by (auto simp: handleEvent_def Let_def split: sum.splits)
    then show ?thesis
      using update_frame [of l3 i ?next ?s1] c(2) ci c1 by (elim disjE) auto
  next
    case False
    then have "handleEvent S ev s = ?s1"
      using ev by (auto simp: handleEvent_def Let_def ValidateTransition_def legal_edge_def split: sum.splits if_splits)
    then show ?thesis using c1 by simp
  qed
qed

lemma handleEvent_path:
  "cur s i = Some a \<Longrightarrow> \<exists>b. cur (handleEvent S ev s) i = Some b \<and> legal_edge\<^sup>*\<^sup>* a b"
  using handleEvent_cases [of ev s] by (auto split: if_splits)

lemma handleEvents_path:
  "cur s i = Some a \<Longrightarrow> \<exists>b. cur (fold (handleEvent S) evs s) i = Some b \<and> legal_edge\<^sup>*\<^sup>* a b"
proof (induction evs arbitrary: s a)
  case Nil
  then show ?case by simp
next
  case (Cons ev evs)
  from handleEvent_path [OF Cons.prems, of ev] obtain b where
    b: "cur (handleEvent S ev s) i = Some b" "legal_edge\<^sup>*\<^sup>* a b" by blast
  from Cons.IH [OF b(1)] b(2) show ?case by (auto intro: rtranclp_trans)
qed

lemma handleBatch_path:
  "cur s i = Some a \<Longrightarrow> \<exists>b. cur (handleBatch S eb s) i = Some b \<and> legal_edge\<^sup>*\<^sup>* a b"
  by (cases eb) (simp_all add: handleEvents_path)

lemma stream_path:
  "cur s i = Some a \<Longrightarrow> \<exists>b. cur (fst (stream_loop S items s)) i = Some b \<and> legal_edge\<^sup>*\<^sup>* a b"
proof (induction items arbitrary: s a)
  case Nil
  then show ?case by simp
next
  case (Cons it items)
  show ?case
  proof (cases it)
    case (Batch eb)
    from handleBatch_path [OF Cons.prems, of eb] obtain b where
      b: "cur (handleBatch S eb s) i = Some b" "legal_edge\<^sup>*\<^sup>* a b" by blast
    from Cons.IH [OF b(1)] b(2) show ?thesis by (auto simp: Batch intro: rtranclp_trans)
  qed (use Cons.prems in auto)
qed

lemma run_path:
  "cur s i = Some a \<Longrightarrow> \<exists>b. cur (fst (StatusStreamer_Run S started items s)) i = Some b \<and> legal_edge\<^sup>*\<^sup>* a b"
  by (simp add: StatusStreamer_Run_def stream_path)

lemma handleEvent_up:
  assumes "ev_alloc ev = Some alloc" "al_JobID alloc = InferenceJobID i" "i \<noteq> ''''"
    and "ev_links ev = (Up, Up, Up)" and c: "cur s i = Some a"
  shows "cur (handleEvent S ev s) i =
    (let b = mapAllocationState (al_ClientStatus alloc) in
     if legal_edge a b then Some b else Some a)"
proof -
  let ?s1 = "fst (store_SetAllocationID S Up i (al_ID alloc) s)"
  have c1: "cur ?s1 = cur s" by (rule set_alloc_frame)
  have cu: "store_CurrentState S Up i ?s1 = Inr a"
    using c c1 by (intro current_up) simp
  have j: "deploymentIDFromJobID (al_JobID alloc) = Some i"
    using assms(2,3) by (simp add: deploymentIDFromJobID_Some InferenceJobID_prefix)
  have ne: "legal_edge a b \<Longrightarrow> b \<noteq> ''''" for b
    by (auto simp: legal_edge_def legalTransitions_def state_defs split: if_splits)
  show ?thesis
    using assms(1,4) j cu c c1 update_up [of ?s1 i] ne
    by (auto simp: handleEvent_def Let_def ValidateTransition_def legal_edge_def
        dest: legal_edge_neq [unfolded legal_edge_def])
qed

end

section \<open>The repository satisfies the contract\<close>

definition table_state :: "deployments \<Rightarrow> string \<Rightarrow> DeploymentState option" where
  "table_state t i = map_option dep_State (find (\<lambda>d. dep_ID d = i) t)"

lemma table_state_update:
  assumes "\<And>d. dep_ID (f d) = dep_ID d" and "\<And>d. dep_State (f d) = st"
  shows "table_state (map (\<lambda>d. if dep_ID d = i then f d else d) t) =
     (if table_state t i = None then table_state t else (table_state t)(i \<mapsto> st))"
proof
  fix j
  have "find (\<lambda>d. dep_ID d = j) (map (\<lambda>d. if dep_ID d = i then f d else d) t) =
      map_option (\<lambda>d. if dep_ID d = i then f d else d) (find (\<lambda>d. dep_ID d = j) t)"
    using assms(1) by (intro find_map_keep) simp
  then show "table_state (map (\<lambda>d. if dep_ID d = i then f d else d) t) j =
     (if table_state t i = None then table_state t else (table_state t)(i \<mapsto> st)) j"
    using assms(2) by (cases "find (\<lambda>d. dep_ID d = j) t"; cases "j = i")
      (auto simp: table_state_def dest!: find_SomeD)
qed

lemma table_state_keep:
  assumes "\<And>d. dep_ID (f d) = dep_ID d" and "\<And>d. dep_State (f d) = dep_State d"
  shows "table_state (map (\<lambda>d. if p d then f d else d) t) = table_state t"
proof
  fix j
  have "find (\<lambda>d. dep_ID d = j) (map (\<lambda>d. if p d then f d else d) t) =
      map_option (\<lambda>d. if p d then f d else d) (find (\<lambda>d. dep_ID d = j) t)"
    using assms(1) by (intro find_map_keep) simp
  then show "table_state (map (\<lambda>d. if p d then f d else d) t) j = table_state t j"
    using assms(2) by (cases "find (\<lambda>d. dep_ID d = j) t") (auto simp: table_state_def)
qed

lemma UpdateState_table_Up:
  "table_state (fst (Deployment_UpdateState Up now i st t)) =
     (if table_state t i = None then table_state t else (table_state t)(i \<mapsto> st))"
  by (simp add: Deployment_UpdateState_def exec_update_Up table_state_update)

lemma UpdateState_table:
  "table_state (fst (Deployment_UpdateState l now i st t)) = table_state t \<or>
   table_state t i \<noteq> None \<and> table_state (fst (Deployment_UpdateState l now i st t)) = (table_state t)(i \<mapsto> st)"
  using exec_update_state [of l "\<lambda>d. dep_ID d = i" "\<lambda>d. d\<lparr>dep_State := st, dep_UpdatedAt := now\<rparr>" t]
  by (auto simp: Deployment_UpdateState_def table_state_update)

lemma SetAllocationID_table: "table_state (fst (Deployment_SetAllocationID l now i a t)) = table_state t"
  using exec_update_state [of l "\<lambda>d. dep_ID d = i" "\<lambda>d. d\<lparr>dep_AllocationID := Some a, dep_UpdatedAt := now\<rparr>" t]
  by (auto simp: Deployment_SetAllocationID_def table_state_keep)

interpretation dbstore: deployment_state_store "DBDeploymentStore now" table_state for now
proof
  fix l i s st
  show "store_CurrentState (DBDeploymentStore now) l i s = Inr st \<Longrightarrow> table_state s i = Some st"
    by (auto simp: DBDeploymentStore_def DB_CurrentState_def Deployment_GetByID_def query_row_Inr
        table_state_def split: sum.splits)
  show "table_state s i = Some st \<Longrightarrow> store_CurrentState (DBDeploymentStore now) Up i s = Inr st"
    by (auto simp: DBDeploymentStore_def DB_CurrentState_def Deployment_GetByID_def query_row_Up table_state_def)
  show "table_state (fst (store_UpdateState (DBDeploymentStore now) l i st s)) = table_state s \<or>
      table_state s i \<noteq> None \<and>
      table_state (fst (store_UpdateState (DBDeploymentStore now) l i st s)) = (table_state s)(i \<mapsto> st)"
    using UpdateState_table by (simp add: DBDeploymentStore_def)
  show "table_state s i \<noteq> None \<Longrightarrow>
      table_state (fst (store_UpdateState (DBDeploymentStore now) Up i st s)) = (table_state s)(i \<mapsto> st)"
    by (simp add: DBDeploymentStore_def UpdateState_table_Up del: not_None_eq)
next
  fix l i a s
  show "table_state (fst (store_SetAllocationID (DBDeploymentStore now) l i a s)) = table_state s"
    by (simp add: DBDeploymentStore_def SetAllocationID_table)
qed

section \<open>Properties\<close>

text \<open>
  Consuming any stream of Nomad events, over links that may fail, moves every deployment
  along legal transitions only: it never loses a deployment, never goes back to an earlier
  stage, and never leaves a terminal state.
\<close>

lemma stream_keeps_lifecycle:
  assumes "table_state t i = Some a"
  shows "\<exists>b. table_state (fst (StatusStreamer_Run (DBDeploymentStore now) started items t)) i = Some b
     \<and> legal_edge\<^sup>*\<^sup>* a b \<and> stage a \<le> stage b \<and> (IsTerminal a \<longrightarrow> b = a)"
  using dbstore.run_path [OF assms, of now started items] legal_path_stage legal_path_terminal by blast

definition example_table :: deployments where
  "example_table = [\<lparr>dep_ID = ''d1'', dep_ModelID = ''m'', dep_UserID = None, dep_AllocationID = None,
     dep_State = ''ready'', dep_CreatedAt = 1, dep_UpdatedAt = 1, dep_GPUModel = None\<rparr>]"

definition example_event :: "string \<Rightarrow> alloc_event" where
  "example_event status = \<lparr>ev_alloc = Some \<lparr>al_ID = ''a1'', al_JobID = ''inference-d1'',
     al_ClientStatus = status\<rparr>, ev_links = (Up, Up, Up)\<rparr>"

lemma stream_keeps_lifecycle_witness:
  "\<exists>b. table_state (fst (StatusStreamer_Run (DBDeploymentStore 7) True
       [Batch (EventBatch [example_event ''running'', example_event ''lost'', example_event ''pending'']), StreamClosed]
       example_table)) ''d1'' = Some b \<and> legal_edge\<^sup>*\<^sup>* ''ready'' b \<and> stage ''ready'' \<le> stage b"
proof -
  have "table_state example_table ''d1'' = Some ''ready''" by code_simp
  then show ?thesis using stream_keeps_lifecycle by blast
qed

text \<open>
  Job identifiers are inverted: the deployment id read back from the Nomad job id that the
  job builder derives from it is the same id, and every job id the consumer accepts was built
  from the id it returns.
\<close>

lemma job_id_round_trip:
  "deploymentIDFromJobID (InferenceJobID d) = (if d = '''' then None else Some d)
   \<and> (deploymentIDFromJobID j = Some e \<longleftrightarrow> j = InferenceJobID e \<and> e \<noteq> '''')"
  by (simp add: deploymentIDFromJobID_Some InferenceJobID_prefix deploymentIDFromJobID_prefix)

text \<open>
  A delivered event with working links takes effect exactly when its transition is legal. In
  particular a ready deployment whose allocation completes on its own is not moved to
  terminated: the state machine has no such edge, so the event is dropped and the deployment
  keeps claiming to be ready.
\<close>

lemma event_effect:
  assumes "table_state t i = Some a" and "i \<noteq> ''''"
    and "ev_alloc ev = Some alloc" and "al_JobID alloc = InferenceJobID i" and "ev_links ev = (Up, Up, Up)"
  shows "table_state (handleEvent (DBDeploymentStore now) ev t) i =
      (let b = mapAllocationState (al_ClientStatus alloc) in if legal_edge a b then Some b else Some a)
    \<and> (a = StateReady \<and> al_ClientStatus alloc = ''complete'' \<longrightarrow>
        table_state (handleEvent (DBDeploymentStore now) ev t) i = Some StateReady)"
proof -
  have "\<not> legal_edge StateReady (mapAllocationState ''complete'')"
    by (simp add: legal_edge_def legalTransitions_def mapAllocationState_def state_defs)
  then show ?thesis
    using dbstore.handleEvent_up [OF assms(3,4,2,5,1), of now] by (simp add: Let_def)
qed

lemma event_effect_witness:
  "table_state (handleEvent (DBDeploymentStore 7) (example_event ''complete'') example_table) ''d1'' = Some StateReady"
proof -
  have t: "table_state example_table ''d1'' = Some StateReady" by code_simp
  show ?thesis
    using event_effect [OF t, where ev = "example_event ''complete''" and now = 7
        and alloc = "\<lparr>al_ID = ''a1'', al_JobID = ''inference-d1'', al_ClientStatus = ''complete''\<rparr>", THEN conjunct2]
    by (simp add: example_event_def InferenceJobID_def)
qed

end
