(* ===== verification/Reapers.thy ===== *)
theory Reapers
  imports Lifecycle Redis
begin

text \<open>
  \<^verbatim>\<open>internal/scheduler\<close>: the idle tracker (\<^verbatim>\<open>idle.go\<close>), the reaper of idle allocations
  (\<^verbatim>\<open>reaper.go\<close>) and the reconciler of orphaned allocations (\<^verbatim>\<open>orphan.go\<close>). Nomad is a parameter:
  \<open>stop a\<close> is the outcome of \<^verbatim>\<open>StopAllocation\<close> (\<open>None\<close>, or its error), and every call made is
  returned in order. Durations are nanoseconds.
\<close>

section \<open>Idle tracker\<close>

datatype idle_error = ErrNoIdleRecord | IdleCallFailed rerr | IdleParse string

definition idleKey :: "string \<Rightarrow> string" where
  "idleKey allocationID = ''idle:'' @ allocationID"

definition Idle_Touch :: "('s, 'x) redis_scheme \<Rightarrow> rerr link \<Rightarrow> int \<Rightarrow> string \<Rightarrow> 's \<Rightarrow> 's \<times> (idle_error + unit)" where
  "Idle_Touch R l nowMs allocationID s =
     (case roundtrip l (\<lambda>s. (SET R (idleKey allocationID) (itoa nowMs) 0 s, ())) s of
        (s', Inl e) \<Rightarrow> (s', Inl (IdleCallFailed e)) | (s', Inr _) \<Rightarrow> (s', Inr ()))"

definition IdleDuration :: "('s, 'x) redis_scheme \<Rightarrow> rerr link \<Rightarrow> int \<Rightarrow> string \<Rightarrow> 's \<Rightarrow> idle_error + int" where
  "IdleDuration R l now allocationID s =
     (case snd (roundtrip l (\<lambda>s. (s, string_at R s (idleKey allocationID))) s) of
        Inl e \<Rightarrow> Inl (IdleCallFailed e)
      | Inr None \<Rightarrow> Inl ErrNoIdleRecord
      | Inr (Some val) \<Rightarrow> (case parse_int val of
            None \<Rightarrow> Inl (IdleParse val)
          | Some lastMs \<Rightarrow> Inr (now - lastMs * 1000000)))"

definition Idle_Forget :: "('s, 'x) redis_scheme \<Rightarrow> rerr link \<Rightarrow> string \<Rightarrow> 's \<Rightarrow> 's \<times> (idle_error + unit)" where
  "Idle_Forget R l allocationID s =
     (case roundtrip l (\<lambda>s. (DEL R (idleKey allocationID) s, ())) s of
        (s', Inl e) \<Rightarrow> (s', Inl (IdleCallFailed e)) | (s', Inr _) \<Rightarrow> (s', Inr ()))"

section \<open>Idle reaper\<close>

definition DefaultIdleThreshold :: int where
  "DefaultIdleThreshold = 300 * 1000000000"

text \<open>\<^verbatim>\<open>NewIdleReaper\<close>: the effective threshold.\<close>

definition NewIdleReaper :: "int \<Rightarrow> int" where
  "NewIdleReaper threshold = (if threshold \<le> 0 then DefaultIdleThreshold else threshold)"

text \<open>\<open>rr_Lifetime\<close> is the allocation's lifetime in nanoseconds, which the code reports in hours.\<close>

record reap_result =
  rr_DeploymentID :: string
  rr_AllocationID :: string
  rr_IdleFor :: int
  rr_Lifetime :: int

fun reap_loop ::
  "int \<Rightarrow> int \<Rightarrow> (string \<Rightarrow> idle_error + int) \<Rightarrow> (string \<Rightarrow> string option) \<Rightarrow> (string \<Rightarrow> pgerr link)
   \<Rightarrow> deployment list \<Rightarrow> deployments \<Rightarrow> deployments \<times> string list \<times> reap_result list" where
  "reap_loop threshold now idle stop lk [] t = (t, [], [])"
| "reap_loop threshold now idle stop lk (d # ds) t =
     (case dep_AllocationID d of
        None \<Rightarrow> reap_loop threshold now idle stop lk ds t
      | Some a \<Rightarrow>
          if a = '''' then reap_loop threshold now idle stop lk ds t
          else (case idle a of
             Inl _ \<Rightarrow> reap_loop threshold now idle stop lk ds t
           | Inr idleFor \<Rightarrow>
               if idleFor < threshold then reap_loop threshold now idle stop lk ds t
               else (case stop a of
                  Some _ \<Rightarrow> (case reap_loop threshold now idle stop lk ds t of (t', calls, rs) \<Rightarrow> (t', a # calls, rs))
                | None \<Rightarrow>
                    (let t1 = (case ValidateTransition StateReady StateDraining of
                          Inl _ \<Rightarrow> t
                        | Inr _ \<Rightarrow> fst (store_UpdateState (DBDeploymentStore now) (lk (dep_ID d)) (dep_ID d) StateDraining t))
                     in case reap_loop threshold now idle stop lk ds t1 of (t', calls, rs) \<Rightarrow>
                       (t', a # calls,
                        \<lparr>rr_DeploymentID = dep_ID d, rr_AllocationID = a, rr_IdleFor = idleFor,
                         rr_Lifetime = now - dep_CreatedAt d\<rparr> # rs)))))"

definition IdleReaper_Reap ::
  "int \<Rightarrow> int \<Rightarrow> (string \<Rightarrow> idle_error + int) \<Rightarrow> (string \<Rightarrow> string option) \<Rightarrow> pgerr link \<Rightarrow> (string \<Rightarrow> pgerr link)
   \<Rightarrow> deployments \<Rightarrow> deployments \<times> string list \<times> (db_error + reap_result list)" where
  "IdleReaper_Reap threshold now idle stop l lk t =
     (case Deployment_ListByState l StateReady t of
        Inl e \<Rightarrow> (t, [], Inl e)
      | Inr ready \<Rightarrow> (case reap_loop threshold now idle stop lk ready t of (t', calls, rs) \<Rightarrow> (t', calls, Inr rs)))"

section \<open>Orphan reconciler\<close>

definition liveAllocationStatuses :: "string \<Rightarrow> bool" where
  "liveAllocationStatuses st \<longleftrightarrow> st = ''pending'' \<or> st = ''running''"

definition known_allocations :: "deployment list \<Rightarrow> string list" where
  "known_allocations active =
     concat (map (\<lambda>d. case dep_AllocationID d of Some a \<Rightarrow> if a \<noteq> '''' then [a] else [] | None \<Rightarrow> []) active)"

fun reconcile_loop ::
  "string list \<Rightarrow> (string \<Rightarrow> string option) \<Rightarrow> allocation list \<Rightarrow> string list \<times> string list" where
  "reconcile_loop known stop [] = ([], [])"
| "reconcile_loop known stop (alloc # as) =
     (if deploymentIDFromJobID (al_JobID alloc) = None then reconcile_loop known stop as
      else if \<not> liveAllocationStatuses (al_ClientStatus alloc) then reconcile_loop known stop as
      else if al_ID alloc \<in> set known then reconcile_loop known stop as
      else case reconcile_loop known stop as of (calls, stopped) \<Rightarrow>
        (al_ID alloc # calls, if stop (al_ID alloc) = None then al_ID alloc # stopped else stopped))"

text \<open>Returns the \<^verbatim>\<open>StopAllocation\<close> calls made and the result.\<close>

definition Reconcile ::
  "(string + allocation list) \<Rightarrow> pgerr link \<Rightarrow> (string \<Rightarrow> string option) \<Rightarrow> deployments
   \<Rightarrow> string list \<times> ((string + db_error) + string list)" where
  "Reconcile allocs l stop t = (case allocs of
       Inl e \<Rightarrow> ([], Inl (Inl e))
     | Inr as \<Rightarrow> (case Deployment_ListActive l t of
         Inl e \<Rightarrow> ([], Inl (Inr e))
       | Inr active \<Rightarrow> (case reconcile_loop (known_allocations active) stop as of
           (calls, stopped) \<Rightarrow> (calls, Inr stopped))))"

section \<open>Specification of the reaper\<close>

text \<open>A deployment the pass must reap: it has an allocation, idle for at least the threshold.\<close>

definition idle_too_long :: "int \<Rightarrow> (string \<Rightarrow> idle_error + int) \<Rightarrow> deployment \<Rightarrow> bool" where
  "idle_too_long threshold idle d \<longleftrightarrow> (case dep_AllocationID d of
       Some a \<Rightarrow> a \<noteq> '''' \<and> (case idle a of Inr v \<Rightarrow> threshold \<le> v | Inl _ \<Rightarrow> False)
     | None \<Rightarrow> False)"

definition dep_alloc :: "deployment \<Rightarrow> string" where
  "dep_alloc d = (case dep_AllocationID d of Some a \<Rightarrow> a | None \<Rightarrow> '''')"

lemma drain_legal: "ValidateTransition StateReady StateDraining = Inr ()"
  by (simp add: ValidateTransition_def legalTransitions_def state_defs)

text \<open>One iteration of the loop, in terms of the specification.\<close>

lemma reap_loop_Cons:
  "reap_loop th now idle stop lk (d # ds) t =
    (if \<not> idle_too_long th idle d then reap_loop th now idle stop lk ds t
     else if stop (dep_alloc d) \<noteq> None then
       (case reap_loop th now idle stop lk ds t of (t', c, r) \<Rightarrow> (t', dep_alloc d # c, r))
     else (case reap_loop th now idle stop lk ds
             (fst (Deployment_UpdateState (lk (dep_ID d)) now (dep_ID d) StateDraining t)) of
         (t', c, r) \<Rightarrow> (t', dep_alloc d # c, \<lparr>rr_DeploymentID = dep_ID d, rr_AllocationID = dep_alloc d,
            rr_IdleFor = projr (idle (dep_alloc d)), rr_Lifetime = now - dep_CreatedAt d\<rparr> # r)))"
proof (cases "dep_AllocationID d")
  case None
  then show ?thesis by (simp add: idle_too_long_def)
next
  case (Some a)
  then show ?thesis
    by (cases "a = ''''"; cases "idle a")
       (simp_all add: idle_too_long_def dep_alloc_def drain_legal DBDeploymentStore_def Let_def split: option.splits)
qed

declare reap_loop.simps(2) [simp del]

lemma reap_loop_calls:
  "reap_loop th now idle stop lk ds t = (t', calls, rs) \<Longrightarrow>
   calls = map dep_alloc (filter (idle_too_long th idle) ds)"
  by (induction ds arbitrary: t t' calls rs) (auto simp: reap_loop_Cons split: if_splits prod.splits)

lemma reap_loop_results:
  "reap_loop th now idle stop lk ds t = (t', calls, rs) \<Longrightarrow> map rr_DeploymentID rs =
   map dep_ID (filter (\<lambda>d. idle_too_long th idle d \<and> stop (dep_alloc d) = None) ds)"
  by (induction ds arbitrary: t t' calls rs) (auto simp: reap_loop_Cons split: if_splits prod.splits)

lemma reap_loop_table:
  assumes "\<forall>i. lk i = Up" and "\<forall>d \<in> set ds. table_state t (dep_ID d) \<noteq> None"
    and "reap_loop th now idle stop lk ds t = (t', calls, rs)"
  shows "table_state t' = (\<lambda>j. if j \<in> set (map rr_DeploymentID rs) then Some StateDraining else table_state t j)"
  using assms(2,3)
proof (induction ds arbitrary: t t' calls rs)
  case Nil
  then show ?case by simp
next
  case (Cons d ds)
  show ?case
  proof (cases "idle_too_long th idle d \<and> stop (dep_alloc d) = None")
    case False
    then obtain c where "reap_loop th now idle stop lk ds t = (t', c, rs)"
      using Cons.prems(2) by (auto simp: reap_loop_Cons split: if_splits prod.splits)
    then show ?thesis using Cons.IH [of t t' c rs] Cons.prems(1) by (simp del: not_None_eq)
  next
    case True
    let ?t1 = "fst (Deployment_UpdateState Up now (dep_ID d) StateDraining t)"
    have t1: "table_state ?t1 = (table_state t)(dep_ID d \<mapsto> StateDraining)"
      using Cons.prems(1) by (simp add: UpdateState_table_Up del: not_None_eq)
    obtain c r rs' where l1: "reap_loop th now idle stop lk ds ?t1 = (t', c, rs')"
        and rs: "rs = r # rs'" "rr_DeploymentID r = dep_ID d"
      using True Cons.prems(2) spec [OF assms(1), of "dep_ID d"]
      by (auto simp: reap_loop_Cons split: prod.splits)
    have "\<forall>d' \<in> set ds. table_state ?t1 (dep_ID d') \<noteq> None"
      using Cons.prems(1) t1 by simp
    from Cons.IH [OF this l1] show ?thesis using t1 rs by (auto simp: fun_eq_iff)
  qed
qed

lemma table_state_mem: "d \<in> set t \<Longrightarrow> table_state t (dep_ID d) \<noteq> None"
  by (auto simp: table_state_def find_None_iff)

lemma reconcile_loop_calls:
  "reconcile_loop known stop as =
    (let orphans = filter (\<lambda>a. deploymentIDFromJobID (al_JobID a) \<noteq> None \<and>
         liveAllocationStatuses (al_ClientStatus a) \<and> al_ID a \<notin> set known) as
     in (map al_ID orphans, map al_ID (filter (\<lambda>a. stop (al_ID a) = None) orphans)))"
  by (induction as) (auto simp: Let_def)

lemma set_known_allocations:
  "set (known_allocations ds) = {a. a \<noteq> '''' \<and> (\<exists>d \<in> set ds. dep_AllocationID d = Some a)}"
  by (force simp: known_allocations_def split: option.splits if_splits)

text \<open>A whole pass, in terms of the specification.\<close>

lemma reap_pass:
  assumes "IdleReaper_Reap th now idle stop Up lk t = (t', calls, res)" and "\<forall>i. lk i = Up"
  shows "\<exists>ready rs. Deployment_ListByState Up StateReady t = Inr ready \<and> res = Inr rs
    \<and> calls = map dep_alloc (filter (idle_too_long th idle) ready)
    \<and> map rr_DeploymentID rs = map dep_ID (filter (\<lambda>d. idle_too_long th idle d \<and> stop (dep_alloc d) = None) ready)
    \<and> table_state t' = (\<lambda>j. if j \<in> set (map rr_DeploymentID rs) then Some StateDraining else table_state t j)"
proof -
  obtain ready where q: "Deployment_ListByState Up StateReady t = Inr ready"
    by (simp add: Deployment_ListByState_def query_rows_Inr)
  then have sub: "set ready \<subseteq> set t"
    by (auto simp: Deployment_ListByState_def dest: query_rows_set)
  obtain rs where loop: "reap_loop th now idle stop lk ready t = (t', calls, rs)" and res: "res = Inr rs"
    using assms(1) q by (auto simp: IdleReaper_Reap_def split: prod.splits)
  have known: "\<forall>d \<in> set ready. table_state t (dep_ID d) \<noteq> None"
    using sub table_state_mem by blast
  show ?thesis
    using q res reap_loop_calls [OF loop] reap_loop_results [OF loop]
      reap_loop_table [OF assms(2) known loop] by blast
qed

section \<open>Properties\<close>

text \<open>
  C6. One pass of the idle reaper: the allocations it asks Nomad to stop are exactly those of
  ready deployments idle for at least the threshold, in listing order; the deployments it
  reports are those whose stop succeeded, and exactly these are moved to draining while every
  other deployment keeps its state.
\<close>

theorem reap_exact:
  assumes "IdleReaper_Reap th now idle stop Up lk t = (t', calls, res)" and "\<forall>i. lk i = Up"
  shows "\<exists>ready rs. Deployment_ListByState Up StateReady t = Inr ready \<and> res = Inr rs
    \<and> calls = map dep_alloc (filter (idle_too_long th idle) ready)
    \<and> map rr_DeploymentID rs = map dep_ID (filter (\<lambda>d. idle_too_long th idle d \<and> stop (dep_alloc d) = None) ready)
    \<and> table_state t' = (\<lambda>j. if j \<in> set (map rr_DeploymentID rs) then Some StateDraining else table_state t j)"
  using assms by (rule reap_pass)

definition reaper_table :: deployments where
  "reaper_table =
    [\<lparr>dep_ID = ''d1'', dep_ModelID = ''m'', dep_UserID = None, dep_AllocationID = Some ''a1'',
      dep_State = ''ready'', dep_CreatedAt = 1, dep_UpdatedAt = 1, dep_GPUModel = None\<rparr>,
     \<lparr>dep_ID = ''d2'', dep_ModelID = ''m'', dep_UserID = None, dep_AllocationID = Some ''a2'',
      dep_State = ''ready'', dep_CreatedAt = 2, dep_UpdatedAt = 2, dep_GPUModel = None\<rparr>]"

theorem reap_exact_witness:
  "\<exists>t' calls rs. IdleReaper_Reap 10 100 (\<lambda>a. if a = ''a1'' then Inr 50 else Inr 3) (\<lambda>_. None) Up (\<lambda>_. Up) reaper_table
     = (t', calls, Inr rs)
   \<and> table_state t' = (\<lambda>j. if j \<in> set (map rr_DeploymentID rs) then Some StateDraining else table_state reaper_table j)"
proof -
  let ?i = "\<lambda>a. if a = ''a1'' then Inr 50 else Inr 3"
  obtain t' calls res where r: "IdleReaper_Reap 10 100 ?i (\<lambda>_. None) Up (\<lambda>_. Up) reaper_table = (t', calls, res)"
    by (metis prod_cases3)
  have "\<forall>i. (\<lambda>_. Up) i = (Up :: pgerr link)" by simp
  from reap_exact [OF r this] r show ?thesis by blast
qed

text \<open>
  C7. Reconciling at startup asks Nomad to stop exactly the live allocations of inference jobs
  that no active deployment records, and reports those whose stop succeeded: an allocation
  that backs an active deployment is never stopped, and none of the orphans is skipped.
\<close>

theorem reconcile_exact:
  "Reconcile (Inr as) Up stop t =
    (let orphans = filter (\<lambda>a. deploymentIDFromJobID (al_JobID a) \<noteq> None \<and> liveAllocationStatuses (al_ClientStatus a)
          \<and> \<not> (al_ID a \<noteq> '''' \<and> (\<exists>d \<in> set t. live_state d \<and> dep_AllocationID d = Some (al_ID a)))) as
     in (map al_ID orphans, Inr (map al_ID (filter (\<lambda>a. stop (al_ID a) = None) orphans))))"
proof -
  let ?act = "rev (sort_key dep_CreatedAt (filter live_state t))"
  have "Deployment_ListActive Up t = Inr ?act"
    by (simp add: Deployment_ListActive_def query_rows_Inr)
  then show ?thesis
    by (simp add: Reconcile_def reconcile_loop_calls Let_def set_known_allocations conj_ac Ball_def)
qed

text \<open>
  The idle tracker: after a touch at a given millisecond, the reported idle time is the time
  that has passed since, until the record is forgotten; a forgotten or never touched
  allocation has no record, and other allocations are not affected.
\<close>

lemma idle_tracker:
  assumes "redis_server R" and "is_i64 ms"
  shows "IdleDuration R Up now a (fst (Idle_Touch R Up ms a s)) = Inr (now - ms * 1000000)
    \<and> IdleDuration R Up now a (fst (Idle_Forget R Up a s)) = Inl ErrNoIdleRecord
    \<and> (b \<noteq> a \<longrightarrow> IdleDuration R l now b (fst (Idle_Touch R Up ms a s)) = IdleDuration R l now b s
        \<and> IdleDuration R l now b (fst (Idle_Forget R Up a s)) = IdleDuration R l now b s)"
proof -
  note laws = redis_server.value_set [OF assms(1)] redis_server.value_del [OF assms(1)]
  have k: "idleKey b = idleKey a \<longleftrightarrow> b = a" for a b by (simp add: idleKey_def)
  show ?thesis
    using assms(2) by (cases l) (simp_all add: IdleDuration_def Idle_Touch_def Idle_Forget_def string_at_def laws k)
qed

lemma idle_tracker_witness:
  "IdleDuration mem_redis Up 9000000 ''a1'' (fst (Idle_Touch mem_redis Up 4 ''a1'' mem_empty)) = Inr 5000000"
proof -
  have "is_i64 4" by (simp add: is_i64_def)
  from idle_tracker [OF mem.redis_server_axioms this] show ?thesis by simp
qed

end
