(* ===== verification/JobQueue.thy ===== *)
theory JobQueue
  imports Redis "HOL-Library.Multiset"
begin

text \<open>
  \<^verbatim>\<open>internal/queue\<close>: the durable job queue on Redis. The three Lua scripts and the Go methods
  around them (\<^verbatim>\<open>queue.go\<close>, \<^verbatim>\<open>ops.go\<close>) and the worker (\<^verbatim>\<open>workerpool.go\<close>). Times are nanoseconds on the
  Go side and milliseconds in Redis. The blocking loop of \<^verbatim>\<open>Dequeue\<close> runs over the list of its
  polls; what other clients did to the server in between is part of a poll.
\<close>

section \<open>Configuration and keys (\<^verbatim>\<open>queue.go\<close>)\<close>

record queue_options =
  MaxAttempts :: int
  VisibilityTimeout :: int
  PollInterval :: int

definition options_normalize :: "queue_options \<Rightarrow> queue_options" where
  "options_normalize o1 =
     (let o2 = (if MaxAttempts o1 \<le> 0 then o1\<lparr>MaxAttempts := 5\<rparr> else o1);
          o3 = (if VisibilityTimeout o2 \<le> 0 then o2\<lparr>VisibilityTimeout := 30 * 1000000000\<rparr> else o2)
      in if PollInterval o3 \<le> 0 then o3\<lparr>PollInterval := 200 * 1000000\<rparr> else o3)"

record queue =
  q_name :: string
  q_opts :: queue_options

definition New_Queue :: "string \<Rightarrow> queue_options \<Rightarrow> queue" where
  "New_Queue nm opts = \<lparr>q_name = nm, q_opts = options_normalize opts\<rparr>"

record queue_job =
  qj_ID :: string
  qj_Payload :: string
  qj_Attempts :: int

definition pendingKey :: "queue \<Rightarrow> string" where
  "pendingKey q = ''queue:'' @ q_name q @ '':pending''"

definition processingKey :: "queue \<Rightarrow> string" where
  "processingKey q = ''queue:'' @ q_name q @ '':processing''"

definition visibilityKey :: "queue \<Rightarrow> string" where
  "visibilityKey q = ''queue:'' @ q_name q @ '':visibility''"

definition deadLetterKey :: "queue \<Rightarrow> string" where
  "deadLetterKey q = ''queue:'' @ q_name q @ '':deadletter''"

definition jobKeyPrefix :: "queue \<Rightarrow> string" where
  "jobKeyPrefix q = ''queue:'' @ q_name q @ '':job:''"

definition jobKey :: "queue \<Rightarrow> string \<Rightarrow> string" where
  "jobKey q i = jobKeyPrefix q @ i"

datatype queue_error =
    QueueCallFailed rerr
  | ErrEmpty
  | QueueParseAttempts string
  | QueueUnexpectedResult

text \<open>\<^verbatim>\<open>Enqueue\<close>: two separate round trips.\<close>

definition Enqueue ::
  "('s, 'x) redis_scheme \<Rightarrow> queue \<Rightarrow> rerr link \<Rightarrow> rerr link \<Rightarrow> string \<Rightarrow> string \<Rightarrow> 's \<Rightarrow> 's \<times> (queue_error + unit)" where
  "Enqueue R q l1 l2 i payload s =
     (case roundtrip l1 (\<lambda>s. (HSET R (jobKey q i) [(''payload'', payload), (''attempts'', itoa 0)] s, ())) s of
        (s1, Inl e) \<Rightarrow> (s1, Inl (QueueCallFailed e))
      | (s1, Inr _) \<Rightarrow> (case roundtrip l2 (\<lambda>s. (LPUSH R (pendingKey q) i s, ())) s1 of
          (s2, Inl e) \<Rightarrow> (s2, Inl (QueueCallFailed e))
        | (s2, Inr _) \<Rightarrow> (s2, Inr ())))"

definition queue_llen :: "('s, 'x) redis_scheme \<Rightarrow> rerr link \<Rightarrow> string \<Rightarrow> 's \<Rightarrow> queue_error + nat" where
  "queue_llen R l key s = (case snd (roundtrip l (\<lambda>s. (s, length (list_at R s key))) s) of
      Inl e \<Rightarrow> Inl (QueueCallFailed e) | Inr n \<Rightarrow> Inr n)"

definition PendingLen :: "('s, 'x) redis_scheme \<Rightarrow> queue \<Rightarrow> rerr link \<Rightarrow> 's \<Rightarrow> queue_error + nat" where
  "PendingLen R q l s = queue_llen R l (pendingKey q) s"

definition ProcessingLen :: "('s, 'x) redis_scheme \<Rightarrow> queue \<Rightarrow> rerr link \<Rightarrow> 's \<Rightarrow> queue_error + nat" where
  "ProcessingLen R q l s = queue_llen R l (processingKey q) s"

definition DeadLetterLen :: "('s, 'x) redis_scheme \<Rightarrow> queue \<Rightarrow> rerr link \<Rightarrow> 's \<Rightarrow> queue_error + nat" where
  "DeadLetterLen R q l s = queue_llen R l (deadLetterKey q) s"

section \<open>Scripts (\<^verbatim>\<open>ops.go\<close>)\<close>

definition dequeueScript :: "('s, 'x) redis_scheme \<Rightarrow> queue \<Rightarrow> int \<Rightarrow> 's \<Rightarrow> 's \<times> reply" where
  "dequeueScript R q deadline s =
     (case RPOPLPUSH R (pendingKey q) (processingKey q) s of
        (s1, None) \<Rightarrow> (s1, NilReply)
      | (s1, Some i) \<Rightarrow>
          (let s2 = ZADD R (visibilityKey q) deadline i s1;
               jk = jobKeyPrefix q @ i
           in (s2, ArrReply [BulkReply i, opt_reply (HGET R s2 jk ''payload''), opt_reply (HGET R s2 jk ''attempts'')])))"

definition ackScript :: "('s, 'x) redis_scheme \<Rightarrow> queue \<Rightarrow> string \<Rightarrow> 's \<Rightarrow> 's \<times> reply" where
  "ackScript R q i s =
     (DEL R (jobKeyPrefix q @ i) (ZREM R (visibilityKey q) i (LREM R (processingKey q) i s)), IntReply 1)"

definition nackScript :: "('s, 'x) redis_scheme \<Rightarrow> queue \<Rightarrow> string \<Rightarrow> int \<Rightarrow> 's \<Rightarrow> 's \<times> reply" where
  "nackScript R q i mx s =
     (let s2 = ZREM R (visibilityKey q) i (LREM R (processingKey q) i s);
          jk = jobKeyPrefix q @ i
      in case int_of_value (HGET R s2 jk ''attempts'') of
           None \<Rightarrow> (s2, ErrReply ''hash value is not an integer'')
         | Some n \<Rightarrow>
             (let s3 = HINCRBY R jk ''attempts'' 1 s2; attempts = n + 1
              in if mx \<le> attempts
                 then (LPUSH R (deadLetterKey q) i s3, ArrReply [BulkReply ''deadletter'', IntReply attempts])
                 else (LPUSH R (pendingKey q) i s3, ArrReply [BulkReply ''retry'', IntReply attempts])))"

section \<open>Methods (\<^verbatim>\<open>ops.go\<close>)\<close>

text \<open>\<^verbatim>\<open>fmt.Sprint\<close> of a reply element.\<close>

fun sprint_reply :: "reply \<Rightarrow> string" where
  "sprint_reply (BulkReply t) = t"
| "sprint_reply (IntReply n) = itoa n"
| "sprint_reply (ErrReply e) = e"
| "sprint_reply (ArrReply _) = ''[]''"
| "sprint_reply NilReply = ''<nil>''"

definition dequeue_result :: "reply \<Rightarrow> queue_error + queue_job option" where
  "dequeue_result res = (case res of
       ErrReply e \<Rightarrow> Inl (QueueCallFailed e)
     | ArrReply [a, b, c] \<Rightarrow> (case parse_int (sprint_reply c) of
           None \<Rightarrow> Inl (QueueParseAttempts (reply_str a))
         | Some n \<Rightarrow> Inr (Some \<lparr>qj_ID = reply_str a, qj_Payload = reply_str b, qj_Attempts = n\<rparr>))
     | _ \<Rightarrow> Inr None)"

definition visibility_deadline :: "queue \<Rightarrow> int \<Rightarrow> int" where
  "visibility_deadline q now = (now + VisibilityTimeout (q_opts q)) div 1000000"

definition tryDequeue ::
  "('s, 'x) redis_scheme \<Rightarrow> queue \<Rightarrow> rerr link \<Rightarrow> int \<Rightarrow> 's \<Rightarrow> 's \<times> (queue_error + queue_job option)" where
  "tryDequeue R q l now s =
     (case roundtrip l (dequeueScript R q (visibility_deadline q now)) s of
        (s', Inl e) \<Rightarrow> (s', Inl (QueueCallFailed e))
      | (s', Inr res) \<Rightarrow> (s', dequeue_result res))"

text \<open>One iteration of the loop of \<^verbatim>\<open>Dequeue\<close>: what the context and the environment did.\<close>

record 's poll =
  poll_env :: "'s \<Rightarrow> 's"
  poll_done :: bool
  poll_link :: "rerr link"
  poll_now :: int
  poll_ctx_err :: bool
  poll_done_wait :: bool

datatype dequeue_outcome = Dequeued queue_job | DequeueFailed queue_error | Waiting

fun Dequeue :: "('s, 'x) redis_scheme \<Rightarrow> queue \<Rightarrow> 's poll list \<Rightarrow> 's \<Rightarrow> 's \<times> dequeue_outcome" where
  "Dequeue R q [] s = (s, Waiting)"
| "Dequeue R q (p # ps) s =
     (if poll_done p then (poll_env p s, DequeueFailed ErrEmpty)
      else case tryDequeue R q (poll_link p) (poll_now p) (poll_env p s) of
          (s', Inl e) \<Rightarrow> (s', DequeueFailed (if poll_ctx_err p then ErrEmpty else e))
        | (s', Inr (Some job)) \<Rightarrow> (s', Dequeued job)
        | (s', Inr None) \<Rightarrow> if poll_done_wait p then (s', DequeueFailed ErrEmpty) else Dequeue R q ps s')"

definition Ack :: "('s, 'x) redis_scheme \<Rightarrow> queue \<Rightarrow> rerr link \<Rightarrow> string \<Rightarrow> 's \<Rightarrow> 's \<times> (queue_error + unit)" where
  "Ack R q l i s = (case roundtrip l (ackScript R q i) s of
      (s', Inl e) \<Rightarrow> (s', Inl (QueueCallFailed e)) | (s', Inr _) \<Rightarrow> (s', Inr ()))"

record nack_result =
  nr_DeadLettered :: bool
  nr_Attempts :: int

definition nack_reply :: "reply \<Rightarrow> queue_error + nack_result" where
  "nack_reply res = (case res of
       ErrReply e \<Rightarrow> Inl (QueueCallFailed e)
     | ArrReply [a, b] \<Rightarrow> Inr \<lparr>nr_DeadLettered = (reply_str a = ''deadletter''),
          nr_Attempts = (case parse_int (sprint_reply b) of Some n \<Rightarrow> n | None \<Rightarrow> 0)\<rparr>
     | _ \<Rightarrow> Inl QueueUnexpectedResult)"

definition Nack ::
  "('s, 'x) redis_scheme \<Rightarrow> queue \<Rightarrow> rerr link \<Rightarrow> string \<Rightarrow> 's \<Rightarrow> 's \<times> (queue_error + nack_result)" where
  "Nack R q l i s = (case roundtrip l (nackScript R q i (MaxAttempts (q_opts q))) s of
      (s', Inl e) \<Rightarrow> (s', Inl (QueueCallFailed e)) | (s', Inr res) \<Rightarrow> (s', nack_reply res))"

fun nack_all ::
  "('s, 'x) redis_scheme \<Rightarrow> queue \<Rightarrow> (string \<Rightarrow> rerr link) \<Rightarrow> string list \<Rightarrow> 's \<Rightarrow> 's \<times> (queue_error + unit)" where
  "nack_all R q lk [] s = (s, Inr ())"
| "nack_all R q lk (i # is) s = (case Nack R q (lk i) i s of
      (s', Inl e) \<Rightarrow> (s', Inl e) | (s', Inr _) \<Rightarrow> nack_all R q lk is s')"

definition Queue_Reap ::
  "('s, 'x) redis_scheme \<Rightarrow> queue \<Rightarrow> rerr link \<Rightarrow> (string \<Rightarrow> rerr link) \<Rightarrow> int \<Rightarrow> 's \<Rightarrow> 's \<times> (queue_error + nat)" where
  "Queue_Reap R q l lk now s =
     (case roundtrip l (\<lambda>s. (s, map fst (filter (\<lambda>p. snd p \<le> now div 1000000) (zset_at R s (visibilityKey q))))) s of
        (s1, Inl e) \<Rightarrow> (s1, Inl (QueueCallFailed e))
      | (s1, Inr expired) \<Rightarrow> (case nack_all R q lk expired s1 of
          (s2, Inl e) \<Rightarrow> (s2, Inl e) | (s2, Inr _) \<Rightarrow> (s2, Inr (length expired))))"

section \<open>Worker (\<^verbatim>\<open>workerpool.go\<close>)\<close>

text \<open>\<open>handler job\<close> is the handler's error, if any; \<open>la\<close> and \<open>ln\<close> are the links of the final call.\<close>

definition worker_process ::
  "('s, 'x) redis_scheme \<Rightarrow> queue \<Rightarrow> (queue_job \<Rightarrow> string option) \<Rightarrow> rerr link \<Rightarrow> queue_job \<Rightarrow> 's \<Rightarrow> 's" where
  "worker_process R q handler l job s =
     (case handler job of
        None \<Rightarrow> fst (Ack R q l (qj_ID job) s)
      | Some _ \<Rightarrow> fst (Nack R q l (qj_ID job) s))"

datatype worker_exit = WorkerStopped | WorkerDequeueError queue_error | WorkerBusy

fun workerLoop ::
  "('s, 'x) redis_scheme \<Rightarrow> queue \<Rightarrow> (queue_job \<Rightarrow> string option) \<Rightarrow> ('s poll list \<times> rerr link) list \<Rightarrow> 's \<Rightarrow> 's \<times> worker_exit" where
  "workerLoop R q handler [] s = (s, WorkerBusy)"
| "workerLoop R q handler ((ps, l) # rounds) s = (case Dequeue R q ps s of
      (s', Waiting) \<Rightarrow> (s', WorkerBusy)
    | (s', DequeueFailed e) \<Rightarrow> (s', if e = ErrEmpty then WorkerStopped else WorkerDequeueError e)
    | (s', Dequeued job) \<Rightarrow> workerLoop R q handler rounds (worker_process R q handler l job s'))"

definition NewWorkerPool :: "int \<Rightarrow> int" where
  "NewWorkerPool concurrency = (if concurrency \<le> 0 then 1 else concurrency)"

section \<open>Views and well-formedness\<close>

definition q_pending :: "('s, 'x) redis_scheme \<Rightarrow> queue \<Rightarrow> 's \<Rightarrow> string list" where
  "q_pending R q s = list_at R s (pendingKey q)"

definition q_processing :: "('s, 'x) redis_scheme \<Rightarrow> queue \<Rightarrow> 's \<Rightarrow> string list" where
  "q_processing R q s = list_at R s (processingKey q)"

definition q_dead :: "('s, 'x) redis_scheme \<Rightarrow> queue \<Rightarrow> 's \<Rightarrow> string list" where
  "q_dead R q s = list_at R s (deadLetterKey q)"

definition q_visible :: "('s, 'x) redis_scheme \<Rightarrow> queue \<Rightarrow> 's \<Rightarrow> (string \<times> int) list" where
  "q_visible R q s = zset_at R s (visibilityKey q)"

definition q_record :: "('s, 'x) redis_scheme \<Rightarrow> queue \<Rightarrow> 's \<Rightarrow> string \<Rightarrow> string \<Rightarrow> string option" where
  "q_record R q s i f = HGET R s (jobKey q i) f"

definition q_attempts :: "('s, 'x) redis_scheme \<Rightarrow> queue \<Rightarrow> 's \<Rightarrow> string \<Rightarrow> int option" where
  "q_attempts R q s i = (case q_record R q s i ''attempts'' of None \<Rightarrow> None | Some v \<Rightarrow> parse_int v)"

definition q_typed :: "('s, 'x) redis_scheme \<Rightarrow> queue \<Rightarrow> 's \<Rightarrow> bool" where
  "q_typed R q s \<longleftrightarrow> list_ok R s (pendingKey q) \<and> list_ok R s (processingKey q) \<and>
     list_ok R s (deadLetterKey q) \<and> zset_ok R s (visibilityKey q) \<and> (\<forall>i. hash_ok R s (jobKey q i))"

lemmas queue_views = q_pending_def q_processing_def q_dead_def q_visible_def q_record_def

lemma queue_keys [simp]:
  "pendingKey q \<noteq> processingKey q" "pendingKey q \<noteq> visibilityKey q" "pendingKey q \<noteq> deadLetterKey q"
  "processingKey q \<noteq> pendingKey q" "processingKey q \<noteq> visibilityKey q" "processingKey q \<noteq> deadLetterKey q"
  "visibilityKey q \<noteq> pendingKey q" "visibilityKey q \<noteq> processingKey q" "visibilityKey q \<noteq> deadLetterKey q"
  "deadLetterKey q \<noteq> pendingKey q" "deadLetterKey q \<noteq> processingKey q" "deadLetterKey q \<noteq> visibilityKey q"
  "pendingKey q \<noteq> jobKey q i" "processingKey q \<noteq> jobKey q i" "visibilityKey q \<noteq> jobKey q i" "deadLetterKey q \<noteq> jobKey q i"
  "jobKey q i \<noteq> pendingKey q" "jobKey q i \<noteq> processingKey q" "jobKey q i \<noteq> visibilityKey q" "jobKey q i \<noteq> deadLetterKey q"
  "jobKey q i = jobKey q j \<longleftrightarrow> i = j" "jobKeyPrefix q @ i = jobKey q i"
  by (simp_all add: pendingKey_def processingKey_def visibilityKey_def deadLetterKey_def jobKey_def jobKeyPrefix_def)


section \<open>The queue as an abstract data type\<close>

text \<open>What the four containers and the job records hold, and the operations on that view.\<close>

record qview =
  v_pending :: "string list"
  v_processing :: "string list"
  v_dead :: "string list"
  v_visible :: "(string \<times> int) list"
  v_jobs :: "string \<Rightarrow> string \<Rightarrow> string option"

definition q_view :: "('s, 'x) redis_scheme \<Rightarrow> queue \<Rightarrow> 's \<Rightarrow> qview" where
  "q_view R q s = \<lparr>v_pending = q_pending R q s, v_processing = q_processing R q s, v_dead = q_dead R q s,
     v_visible = q_visible R q s, v_jobs = q_record R q s\<rparr>"

definition v_record :: "string \<Rightarrow> string \<Rightarrow> qview \<Rightarrow> qview" where
  "v_record i payload v = v\<lparr>v_jobs := (v_jobs v)(i := (v_jobs v i)(''payload'' \<mapsto> payload, ''attempts'' \<mapsto> ''0''))\<rparr>"

definition v_push :: "string \<Rightarrow> qview \<Rightarrow> qview" where
  "v_push i v = v\<lparr>v_pending := i # v_pending v\<rparr>"

definition v_dequeue :: "int \<Rightarrow> qview \<Rightarrow> qview" where
  "v_dequeue deadline v = (if v_pending v = [] then v else
     v\<lparr>v_pending := butlast (v_pending v), v_processing := last (v_pending v) # v_processing v,
       v_visible := zput (v_visible v) deadline (last (v_pending v))\<rparr>)"

definition v_drop :: "string \<Rightarrow> qview \<Rightarrow> qview" where
  "v_drop i v = v\<lparr>v_processing := removeAll i (v_processing v), v_visible := filter (\<lambda>p. fst p \<noteq> i) (v_visible v)\<rparr>"

definition v_ack :: "string \<Rightarrow> qview \<Rightarrow> qview" where
  "v_ack i v = (v_drop i v)\<lparr>v_jobs := (v_jobs v)(i := (\<lambda>_. None))\<rparr>"

definition v_nack :: "int \<Rightarrow> string \<Rightarrow> int \<Rightarrow> qview \<Rightarrow> qview" where
  "v_nack mx i n v =
     (let w = (v_drop i v)\<lparr>v_jobs := (v_jobs v)(i := (v_jobs v i)(''attempts'' \<mapsto> itoa (n + 1)))\<rparr>
      in if mx \<le> n + 1 then w\<lparr>v_dead := i # v_dead w\<rparr> else w\<lparr>v_pending := i # v_pending w\<rparr>)"

lemma q_view_eq_iff: "q_view R q s = v \<longleftrightarrow>
   q_pending R q s = v_pending v \<and> q_processing R q s = v_processing v \<and> q_dead R q s = v_dead v \<and>
   q_visible R q s = v_visible v \<and> q_record R q s = v_jobs v"
  by (auto simp: q_view_def)

lemma q_view_sel [simp]:
  "v_pending (q_view R q s) = q_pending R q s" "v_processing (q_view R q s) = q_processing R q s"
  "v_dead (q_view R q s) = q_dead R q s" "v_visible (q_view R q s) = q_visible R q s"
  "v_jobs (q_view R q s) = q_record R q s"
  by (simp_all add: q_view_def)

lemma itoa_0 [simp]: "itoa 0 = ''0''"
  by code_simp

context redis_server
begin

text \<open>Each script refines its abstract operation and keeps the types of the keys.\<close>

lemma enqueue_record:
  assumes "q_typed R q s"
  shows "q_view R q (HSET R (jobKey q i) [(''payload'', p), (''attempts'', itoa 0)] s) = v_record i p (q_view R q s)"
    and "q_typed R q (HSET R (jobKey q i) [(''payload'', p), (''attempts'', itoa 0)] s)"
proof -
  have h: "hash_ok R s (jobKey q i)" using assms by (simp add: q_typed_def)
  note v = value_hset [OF h, of "[(''payload'', p), (''attempts'', itoa 0)]", simplified]
  show "q_view R q (HSET R (jobKey q i) [(''payload'', p), (''attempts'', itoa 0)] s) = v_record i p (q_view R q s)"
    by (auto simp: q_view_eq_iff v_record_def queue_views redis_reads v map_of_hset_all fun_eq_iff)
  show "q_typed R q (HSET R (jobKey q i) [(''payload'', p), (''attempts'', itoa 0)] s)"
    using assms by (simp add: q_typed_def redis_types v)
qed

lemma enqueue_push:
  assumes "q_typed R q s"
  shows "q_view R q (LPUSH R (pendingKey q) i s) = v_push i (q_view R q s)"
    and "q_typed R q (LPUSH R (pendingKey q) i s)"
  using assms
  by (auto simp: q_view_eq_iff v_push_def queue_views redis_reads value_lpush fun_eq_iff q_typed_def redis_types)

lemma lpush_dead:
  assumes "q_typed R q s"
  shows "q_view R q (LPUSH R (deadLetterKey q) i s) = (q_view R q s)\<lparr>v_dead := i # q_dead R q s\<rparr>"
    and "q_typed R q (LPUSH R (deadLetterKey q) i s)"
  using assms
  by (auto simp: q_view_eq_iff queue_views redis_reads value_lpush fun_eq_iff q_typed_def redis_types)

lemma dequeue_empty:
  assumes "q_typed R q s" and "q_pending R q s = []"
  shows "q_view R q (fst (dequeueScript R q d s)) = q_view R q s"
    and "q_typed R q (fst (dequeueScript R q d s))" and "snd (dequeueScript R q d s) = NilReply"
proof -
  have v: "snd (RPOPLPUSH R (pendingKey q) (processingKey q) s) = None"
    "VALUE R (fst (RPOPLPUSH R (pendingKey q) (processingKey q) s)) = VALUE R s"
    using value_rpoplpush_empty [of s "pendingKey q"] assms by (auto simp: q_typed_def q_pending_def)
  have e: "dequeueScript R q d s = (fst (RPOPLPUSH R (pendingKey q) (processingKey q) s), NilReply)"
    using v(1) by (simp add: dequeueScript_def prod_eq_iff split: prod.split)
  show "q_view R q (fst (dequeueScript R q d s)) = q_view R q s"
    and "q_typed R q (fst (dequeueScript R q d s))" and "snd (dequeueScript R q d s) = NilReply"
    using assms(1) unfolding e
    by (auto simp: q_view_eq_iff queue_views redis_reads v(2) fun_eq_iff q_typed_def redis_types)
qed

lemma dequeue_job:
  assumes ty: "q_typed R q s" and p: "q_pending R q s = xs @ [i]"
  shows "q_view R q (fst (dequeueScript R q d s)) = v_dequeue d (q_view R q s)"
    and "q_typed R q (fst (dequeueScript R q d s))"
    and "snd (dequeueScript R q d s) =
      ArrReply [BulkReply i, opt_reply (q_record R q s i ''payload''), opt_reply (q_record R q s i ''attempts'')]"
proof -
  let ?s1 = "fst (RPOPLPUSH R (pendingKey q) (processingKey q) s)"
  have v: "snd (RPOPLPUSH R (pendingKey q) (processingKey q) s) = Some i"
    "VALUE R ?s1 = (VALUE R s)(pendingKey q := norm_value (RList xs), processingKey q \<mapsto> RList (i # list_at R s (processingKey q)))"
    using value_rpoplpush [of s "pendingKey q" "processingKey q" xs i] ty p by (auto simp: q_typed_def q_pending_def)
  have z: "zset_ok R ?s1 (visibilityKey q)" using ty by (simp add: zset_ok_def v(2) q_typed_def)
  note w = value_zadd [OF z, of d i]
  have e: "dequeueScript R q d s = (ZADD R (visibilityKey q) d i ?s1,
     ArrReply [BulkReply i, opt_reply (HGET R (ZADD R (visibilityKey q) d i ?s1) (jobKey q i) ''payload''),
       opt_reply (HGET R (ZADD R (visibilityKey q) d i ?s1) (jobKey q i) ''attempts'')])"
    using v(1) by (cases "RPOPLPUSH R (pendingKey q) (processingKey q) s") (simp add: dequeueScript_def Let_def)
  show "q_view R q (fst (dequeueScript R q d s)) = v_dequeue d (q_view R q s)"
    using p unfolding e
    by (simp add: q_view_eq_iff v_dequeue_def p) (simp add: queue_views redis_reads w v(2) fun_eq_iff)
  show "q_typed R q (fst (dequeueScript R q d s))"
    using ty unfolding e by (simp add: q_typed_def redis_types w v(2))
  show "snd (dequeueScript R q d s) =
      ArrReply [BulkReply i, opt_reply (q_record R q s i ''payload''), opt_reply (q_record R q s i ''attempts'')]"
    unfolding e by (simp add: q_record_def HGET_def hash_at_def w v(2))
qed

lemma drop_view:
  assumes "q_typed R q s"
  shows "q_view R q (ZREM R (visibilityKey q) i (LREM R (processingKey q) i s)) = v_drop i (q_view R q s)"
    and "q_typed R q (ZREM R (visibilityKey q) i (LREM R (processingKey q) i s))"
proof -
  let ?s1 = "LREM R (processingKey q) i s"
  have l: "VALUE R ?s1 = (VALUE R s)(processingKey q := norm_value (RList (removeAll i (list_at R s (processingKey q)))))"
    using assms by (simp add: value_lrem q_typed_def)
  have z: "zset_ok R ?s1 (visibilityKey q)" using assms by (simp add: zset_ok_def l q_typed_def)
  note w = value_zrem [OF z, of i]
  show "q_view R q (ZREM R (visibilityKey q) i ?s1) = v_drop i (q_view R q s)"
    by (simp add: q_view_eq_iff v_drop_def) (simp add: queue_views redis_reads w l fun_eq_iff)
  show "q_typed R q (ZREM R (visibilityKey q) i ?s1)"
    using assms by (simp add: q_typed_def redis_types w l)
qed

lemma ack_view:
  assumes "q_typed R q s"
  shows "q_view R q (fst (ackScript R q i s)) = v_ack i (q_view R q s)"
    and "q_typed R q (fst (ackScript R q i s))"
proof -
  let ?s2 = "ZREM R (visibilityKey q) i (LREM R (processingKey q) i s)"
  have e: "fst (ackScript R q i s) = DEL R (jobKey q i) ?s2" by (simp add: ackScript_def)
  have "q_view R q (DEL R (jobKey q i) ?s2) =
      (q_view R q ?s2)\<lparr>v_jobs := (q_record R q ?s2)(i := (\<lambda>_. None))\<rparr>"
    by (simp add: q_view_eq_iff) (simp add: queue_views redis_reads value_del fun_eq_iff)
  moreover have "q_record R q ?s2 = q_record R q s"
    using arg_cong [OF drop_view(1) [OF assms], of v_jobs] by (simp add: v_drop_def)
  ultimately show "q_view R q (fst (ackScript R q i s)) = v_ack i (q_view R q s)"
    unfolding e by (simp add: drop_view(1) [OF assms] v_ack_def)
  show "q_typed R q (fst (ackScript R q i s))"
    using drop_view(2) [OF assms] unfolding e by (simp add: q_typed_def redis_types value_del)
qed

lemma nack_view:
  assumes ty: "q_typed R q s" and n: "int_of_value (q_record R q s i ''attempts'') = Some n" and b: "is_i64 (n + 1)"
  shows "q_view R q (fst (nackScript R q i mx s)) = v_nack mx i n (q_view R q s)"
    and "q_typed R q (fst (nackScript R q i mx s))"
    and "snd (nackScript R q i mx s) =
      ArrReply [BulkReply (if mx \<le> n + 1 then ''deadletter'' else ''retry''), IntReply (n + 1)]"
proof -
  let ?s2 = "ZREM R (visibilityKey q) i (LREM R (processingKey q) i s)"
  let ?s3 = "HINCRBY R (jobKey q i) ''attempts'' 1 ?s2"
  note d = drop_view [OF ty, of i]
  have r: "q_record R q ?s2 = q_record R q s"
    using arg_cong [OF d(1), of v_jobs] by (simp add: v_drop_def)
  have n2: "int_of_value (HGET R ?s2 (jobKey q i) ''attempts'') = Some n"
    using n r by (metis q_record_def)
  have h: "hash_ok R ?s2 (jobKey q i)" using d(2) by (simp add: q_typed_def)
  note w = value_hincrby [OF h n2 b]
  have v3: "q_view R q ?s3 = (v_drop i (q_view R q s))\<lparr>v_jobs :=
      (q_record R q s)(i := (q_record R q s i)(''attempts'' \<mapsto> itoa (n + 1)))\<rparr>"
    unfolding d(1) [symmetric] r [symmetric]
    by (simp add: q_view_eq_iff) (auto simp: queue_views redis_reads w map_of_hset_all fun_eq_iff)
  have t3: "q_typed R q ?s3" using d(2) by (simp add: q_typed_def redis_types w)
  have e: "nackScript R q i mx s = (if mx \<le> n + 1
       then (LPUSH R (deadLetterKey q) i ?s3, ArrReply [BulkReply ''deadletter'', IntReply (n + 1)])
       else (LPUSH R (pendingKey q) i ?s3, ArrReply [BulkReply ''retry'', IntReply (n + 1)]))"
    by (simp add: nackScript_def Let_def n2)
  have dd: "q_dead R q ?s3 = q_dead R q s" using arg_cong [OF v3, of v_dead] by (simp add: v_drop_def)
  have pp: "v_pending (v_drop i (q_view R q s)) = q_pending R q s" by (simp add: v_drop_def)
  show "q_view R q (fst (nackScript R q i mx s)) = v_nack mx i n (q_view R q s)"
    by (simp add: e enqueue_push(1) [OF t3] lpush_dead(1) [OF t3] v3 dd v_nack_def v_push_def v_drop_def Let_def)
  show "q_typed R q (fst (nackScript R q i mx s))"
    by (simp add: e enqueue_push(2) [OF t3] lpush_dead(2) [OF t3])
  show "snd (nackScript R q i mx s) =
      ArrReply [BulkReply (if mx \<le> n + 1 then ''deadletter'' else ''retry''), IntReply (n + 1)]"
    by (simp add: e)
qed

end

end
