(* ===== verification/QueueProtocol.thy ===== *)
theory QueueProtocol
  imports JobQueue
begin

text \<open>
  The job queue under any sequence of calls of its producers, workers and reaper, with lost
  and failed round trips: the invariant of its containers, conservation of accepted jobs,
  FIFO delivery, the bound on attempts, and what a late acknowledgement does.
\<close>

section \<open>The invariant of the view\<close>

definition v_live :: "int \<Rightarrow> qview \<Rightarrow> string \<Rightarrow> bool" where
  "v_live mx v i \<longleftrightarrow> v_jobs v i ''payload'' \<noteq> None \<and>
     (\<exists>n. v_jobs v i ''attempts'' = Some (itoa n) \<and> 0 \<le> n \<and> n < mx)"

definition v_inv :: "int \<Rightarrow> qview \<Rightarrow> bool" where
  "v_inv mx v \<longleftrightarrow> distinct (v_pending v @ v_processing v @ v_dead v) \<and> distinct (map fst (v_visible v)) \<and>
     fst ` set (v_visible v) = set (v_processing v) \<and>
     (\<forall>i \<in> set (v_pending v) \<union> set (v_processing v). v_live mx v i) \<and>
     (\<forall>i \<in> set (v_dead v). v_jobs v i ''attempts'' = Some (itoa mx))"

definition v_all :: "qview \<Rightarrow> string multiset" where
  "v_all v = mset (v_pending v) + mset (v_processing v) + mset (v_dead v)"

definition v_known :: "qview \<Rightarrow> string set" where
  "v_known v = set (v_pending v) \<union> set (v_processing v) \<union> set (v_dead v)"

lemmas view_ops = v_record_def v_push_def v_dequeue_def v_drop_def v_ack_def v_nack_def Let_def

lemma fst_filter_neq [simp]: "fst ` {p \<in> set z. fst p \<noteq> m} = fst ` set z - {m}"
  by auto

lemma fst_set_zput: "fst ` set (zput z sc m) = insert m (fst ` set z)"
  by (simp add: zput_def set_insort_key)

lemma distinct_zput: "distinct (map fst z) \<Longrightarrow> distinct (map fst (zput z sc m))"
proof -
  let ?z = "filter (\<lambda>p. fst p \<noteq> m) z"
  assume d: "distinct (map fst z)"
  have "mset (map fst (zput z sc m)) = mset (m # map fst ?z)"
    by (simp add: zput_def)
  then have "distinct (map fst (zput z sc m)) = distinct (m # map fst ?z)"
    by (rule mset_eq_imp_distinct_iff)
  then show ?thesis using d by (simp add: distinct_map_filter)
qed

lemma v_inv_record:
  "v_inv mx v \<Longrightarrow> i \<notin> v_known v \<Longrightarrow> v_inv mx (v_record i p v) \<and> v_all (v_record i p v) = v_all v"
  by (auto simp: v_inv_def v_known_def v_all_def v_live_def view_ops)

lemma v_inv_pending:
  assumes "v_inv mx v" "i \<notin> v_known v" "v_live mx v i"
  shows "v_inv mx (v\<lparr>v_pending := i # v_pending v\<rparr>)"
  using assms by (auto simp: v_inv_def v_known_def v_live_def)

lemma v_inv_dead:
  assumes "v_inv mx v" "i \<notin> v_known v" "v_jobs v i ''attempts'' = Some (itoa mx)"
  shows "v_inv mx (v\<lparr>v_dead := i # v_dead v\<rparr>)"
  using assms by (auto simp: v_inv_def v_known_def v_live_def)

lemma v_inv_push:
  assumes "v_inv mx v" "i \<notin> v_known v" "0 < mx"
  shows "v_inv mx (v_push i (v_record i p v)) \<and> v_all (v_push i (v_record i p v)) = add_mset i (v_all v)"
proof -
  have "v_live mx (v_record i p v) i"
    using assms(3) by (auto simp: v_live_def v_record_def intro!: exI [of _ 0])
  moreover have "i \<notin> v_known (v_record i p v)" using assms(2) by (simp add: v_known_def v_record_def)
  ultimately have "v_inv mx (v_push i (v_record i p v))"
    unfolding v_push_def using v_inv_record [OF assms(1,2)] v_inv_pending by blast
  then show ?thesis by (simp add: v_all_def view_ops)
qed

lemma v_live_cong: "v_jobs w = v_jobs v \<Longrightarrow> v_live mx w i = v_live mx v i"
  by (simp add: v_live_def)

lemma v_inv_dequeue: "v_inv mx v \<Longrightarrow> v_inv mx (v_dequeue d v) \<and> v_all (v_dequeue d v) = v_all v"
proof (cases "v_pending v" rule: rev_cases)
  case Nil
  then show "v_inv mx v \<Longrightarrow> ?thesis" by (simp add: v_dequeue_def)
next
  case (snoc xs i)
  assume inv: "v_inv mx v"
  have j: "v_live mx (v_dequeue d v) k = v_live mx v k" for k
    by (rule v_live_cong) (simp add: view_ops)
  show ?thesis using inv snoc
    unfolding v_inv_def j v_all_def by (simp add: v_dequeue_def distinct_zput fst_set_zput)
qed

lemma v_drop_facts:
  assumes "v_inv mx v" "i \<in> set (v_processing v)"
  shows "add_mset i (v_all (v_drop i v)) = v_all v" "i \<notin> v_known (v_drop i v)" "v_inv mx (v_drop i v)"
    "v_jobs (v_drop i v) = v_jobs v"
proof -
  have d: "distinct (v_processing v)" using assms(1) by (simp add: v_inv_def)
  then have "mset (removeAll i (v_processing v)) = mset (v_processing v) - {#i#}"
    by (simp add: distinct_remove1_removeAll [symmetric])
  then show "add_mset i (v_all (v_drop i v)) = v_all v"
    using assms(2) by (simp add: v_all_def v_drop_def insert_DiffM2)
  show "i \<notin> v_known (v_drop i v)" using assms by (auto simp: v_inv_def v_known_def v_drop_def)
  have l: "v_live mx (v_drop i v) k = v_live mx v k" for k by (rule v_live_cong) (simp add: v_drop_def)
  show "v_inv mx (v_drop i v)" using assms(1)
    unfolding v_inv_def l by (simp add: v_drop_def distinct_removeAll distinct_map_filter) blast
  show "v_jobs (v_drop i v) = v_jobs v" by (simp add: v_drop_def)
qed

text \<open>Changing the record of a job that is in none of the containers keeps the invariant.\<close>

lemma v_inv_jobs:
  assumes "v_inv mx v" "i \<notin> v_known v"
  shows "v_inv mx (v\<lparr>v_jobs := (v_jobs v)(i := r)\<rparr>)" "v_all (v\<lparr>v_jobs := f\<rparr>) = v_all v"
  using assms by (auto simp: v_inv_def v_known_def v_live_def v_all_def)

lemma v_inv_ack:
  assumes "v_inv mx v" "i \<in> set (v_processing v)"
  shows "v_inv mx (v_ack i v) \<and> add_mset i (v_all (v_ack i v)) = v_all v"
  using v_drop_facts [OF assms] v_inv_jobs(1) [of mx "v_drop i v" i "\<lambda>_. None"]
    v_inv_jobs(2) [of mx "v_drop i v" i]
  by (simp add: v_ack_def)

lemma v_inv_nack:
  assumes inv: "v_inv mx v" and i: "i \<in> set (v_processing v)"
    and n: "v_jobs v i ''attempts'' = Some (itoa n)" "0 \<le> n" "n < mx"
  shows "v_inv mx (v_nack mx i n v)" and "v_all (v_nack mx i n v) = v_all v"
    and "set (v_processing (v_nack mx i n v)) = set (v_processing v) - {i}"
proof -
  let ?w = "(v_drop i v)\<lparr>v_jobs := (v_jobs v)(i := (v_jobs v i)(''attempts'' \<mapsto> itoa (n + 1)))\<rparr>"
  note d = v_drop_facts [OF inv i]
  have w: "v_inv mx ?w" "v_all ?w = v_all (v_drop i v)" "i \<notin> v_known ?w"
    using v_inv_jobs [OF d(3,2)] d(2) by (simp_all add: d(4) v_known_def)
  have p: "v_jobs v i ''payload'' \<noteq> None" using inv i by (auto simp: v_inv_def v_live_def)
  have e: "v_nack mx i n v = (if mx \<le> n + 1 then ?w\<lparr>v_dead := i # v_dead ?w\<rparr> else ?w\<lparr>v_pending := i # v_pending ?w\<rparr>)"
    by (simp add: v_nack_def Let_def)
  have a: "v_jobs ?w i ''attempts'' = Some (itoa (n + 1))" "v_jobs ?w i ''payload'' = v_jobs v i ''payload''" by simp_all
  show "v_inv mx (v_nack mx i n v)"
  proof (cases "mx \<le> n + 1")
    case True
    with n(3) have "n + 1 = mx" by simp
    with a(1) have "v_jobs ?w i ''attempts'' = Some (itoa mx)" by simp
    then show ?thesis using v_inv_dead [OF w(1,3)] True by (simp add: e)
  next
    case False
    then have "v_live mx ?w i" using p a n(2) unfolding v_live_def by (intro conjI exI [of _ "n + 1"]) simp_all
    then show ?thesis using v_inv_pending [OF w(1,3)] False by (simp add: e)
  qed
  show "v_all (v_nack mx i n v) = v_all v"
    unfolding e d(1) [symmetric] w(2) [symmetric] by (simp add: v_all_def)
  show "set (v_processing (v_nack mx i n v)) = set (v_processing v) - {i}"
    by (simp add: e v_drop_def)
qed

section \<open>Calls\<close>

definition q_ok :: "('s, 'x) redis_scheme \<Rightarrow> queue \<Rightarrow> 's \<Rightarrow> bool" where
  "q_ok R q s \<longleftrightarrow> q_typed R q s \<and> v_inv (MaxAttempts (q_opts q)) (q_view R q s)"

text \<open>A Go \<open>int\<close> that \<open>options.normalize\<close> made positive.\<close>

definition q_config :: "queue \<Rightarrow> bool" where
  "q_config q \<longleftrightarrow> 0 < MaxAttempts (q_opts q) \<and> is_i64 (MaxAttempts (q_opts q))"

lemma q_ok_live:
  assumes "q_ok R q s" "i \<in> set (q_pending R q s) \<union> set (q_processing R q s)"
  obtains p n where "q_record R q s i ''payload'' = Some p" "q_record R q s i ''attempts'' = Some (itoa n)"
    "0 \<le> n" "n < MaxAttempts (q_opts q)"
proof -
  have "v_live (MaxAttempts (q_opts q)) (q_view R q s) i" using assms by (simp add: q_ok_def v_inv_def)
  then show ?thesis using that by (auto simp: v_live_def)
qed

context redis_server
begin

lemma enqueue_ok:
  fixes l1 l2 :: "rerr link" and p :: string
  assumes ok: "q_ok R q s" and q: "q_config q" and i: "i \<notin> v_known (q_view R q s)"
  defines "s' \<equiv> fst (Enqueue R q l1 l2 i p s)"
  shows "q_ok R q s' \<and> v_all (q_view R q s') =
    (if l1 = Up \<and> reached l2 then add_mset i (v_all (q_view R q s)) else v_all (q_view R q s))"
proof -
  let ?s1 = "HSET R (jobKey q i) [(''payload'', p), (''attempts'', itoa 0)] s"
  let ?s2 = "LPUSH R (pendingKey q) i ?s1"
  have t: "q_typed R q s" and v: "v_inv (MaxAttempts (q_opts q)) (q_view R q s)"
    using ok by (simp_all add: q_ok_def)
  have mx: "0 < MaxAttempts (q_opts q)" using q by (simp add: q_config_def)
  note r = enqueue_record [OF t, of i p] and w = enqueue_push [OF enqueue_record(2) [OF t, of i p], of i]
  have 1: "q_ok R q ?s1 \<and> v_all (q_view R q ?s1) = v_all (q_view R q s)"
    using v_inv_record [OF v i, of p] r by (simp add: q_ok_def)
  have 2: "q_ok R q ?s2 \<and> v_all (q_view R q ?s2) = add_mset i (v_all (q_view R q s))"
    using v_inv_push [OF v i mx, of p] r w by (simp add: q_ok_def)
  show ?thesis unfolding s'_def Enqueue_def using ok 1 2 by (cases l1; cases l2) auto
qed

lemma tryDequeue_ok:
  fixes l :: "rerr link" and now :: int
  assumes ok: "q_ok R q s"
  defines "s' \<equiv> fst (tryDequeue R q l now s)"
  shows "q_ok R q s' \<and> v_all (q_view R q s') = v_all (q_view R q s)"
proof -
  let ?s1 = "fst (dequeueScript R q (visibility_deadline q now) s)"
  have t: "q_typed R q s" and v: "v_inv (MaxAttempts (q_opts q)) (q_view R q s)"
    using ok by (simp_all add: q_ok_def)
  have 1: "q_ok R q ?s1 \<and> v_all (q_view R q ?s1) = v_all (q_view R q s)"
  proof (cases "q_pending R q s" rule: rev_cases)
    case Nil
    then show ?thesis using dequeue_empty [OF t Nil] v by (simp add: q_ok_def)
  next
    case (snoc xs i)
    then show ?thesis using dequeue_job [OF t snoc] v_inv_dequeue [OF v] by (simp add: q_ok_def)
  qed
  have "s' = (if reached l then ?s1 else s)"
    unfolding s'_def tryDequeue_def by (cases l) simp_all
  then show ?thesis using ok 1 by simp
qed

lemma ack_ok:
  fixes l :: "rerr link"
  assumes ok: "q_ok R q s" and i: "i \<in> set (q_processing R q s)"
  defines "s' \<equiv> fst (Ack R q l i s)"
  shows "q_ok R q s' \<and> v_all (q_view R q s) = (if reached l then add_mset i (v_all (q_view R q s')) else v_all (q_view R q s'))"
proof -
  have t: "q_typed R q s" and v: "v_inv (MaxAttempts (q_opts q)) (q_view R q s)"
    using ok by (simp_all add: q_ok_def)
  have "s' = (if reached l then fst (ackScript R q i s) else s)"
    unfolding s'_def Ack_def by (cases l) simp_all
  then show ?thesis using ok ack_view [OF t, of i] v_inv_ack [OF v, of i] i by (simp add: q_ok_def)
qed

text \<open>A live job is nacked: the state, the reply, and what the Go method returns.\<close>

lemma nack_live:
  assumes ok: "q_ok R q s" and q: "q_config q" and i: "i \<in> set (q_processing R q s)"
    and n: "q_record R q s i ''attempts'' = Some (itoa n)" "0 \<le> n" "n < MaxAttempts (q_opts q)"
  defines "mx \<equiv> MaxAttempts (q_opts q)"
  shows "q_view R q (fst (Nack R q l i s)) = (if reached l then v_nack mx i n (q_view R q s) else q_view R q s)"
    and "q_ok R q (fst (Nack R q l i s))"
    and "v_all (q_view R q (fst (Nack R q l i s))) = v_all (q_view R q s)"
    and "l = Up \<Longrightarrow> snd (Nack R q l i s) = Inr \<lparr>nr_DeadLettered = (mx \<le> n + 1), nr_Attempts = n + 1\<rparr>"
proof -
  have t: "q_typed R q s" and v: "v_inv mx (q_view R q s)" using ok by (simp_all add: q_ok_def mx_def)
  have "is_i64 (MaxAttempts (q_opts q))" using q by (simp add: q_config_def)
  with n(2,3) have b: "is_i64 n" "is_i64 (n + 1)" by (simp_all add: is_i64_def)
  have nn: "int_of_value (q_record R q s i ''attempts'') = Some n" by (simp add: n(1) b int_of_value_def)
  note k = nack_view [OF t nn b(2), of mx]
  note w = v_inv_nack [OF v, of i n]
  have f: "fst (Nack R q l i s) = (if reached l then fst (nackScript R q i mx s) else s)"
    unfolding Nack_def mx_def by (cases l) simp_all
  show "q_view R q (fst (Nack R q l i s)) = (if reached l then v_nack mx i n (q_view R q s) else q_view R q s)"
    using k(1) by (simp add: f)
  show "q_ok R q (fst (Nack R q l i s))"
    using k(1,2) w i n ok by (simp add: f q_ok_def mx_def)
  show "v_all (q_view R q (fst (Nack R q l i s))) = v_all (q_view R q s)"
    using k(1) w i n by (simp add: f mx_def)
  show "l = Up \<Longrightarrow> snd (Nack R q l i s) = Inr \<lparr>nr_DeadLettered = (mx \<le> n + 1), nr_Attempts = n + 1\<rparr>"
    using k(3) b by (simp add: Nack_def mx_def [symmetric] nack_reply_def)
qed

lemma nack_ok:
  fixes l :: "rerr link"
  assumes "q_ok R q s" "q_config q" "i \<in> set (q_processing R q s)"
  defines "s' \<equiv> fst (Nack R q l i s)"
  shows "q_ok R q s' \<and> v_all (q_view R q s') = v_all (q_view R q s)
    \<and> set (q_processing R q s') = (if reached l then set (q_processing R q s) - {i} else set (q_processing R q s))"
proof -
  obtain p n where n: "q_record R q s i ''attempts'' = Some (itoa n)" "0 \<le> n" "n < MaxAttempts (q_opts q)"
    using q_ok_live [OF assms(1)] assms(3) by blast
  note k = nack_live [OF assms(1-3) n, of l]
  have "set (v_processing (v_nack (MaxAttempts (q_opts q)) i n (q_view R q s))) = set (q_processing R q s) - {i}"
    using v_inv_nack(3) [of _ "q_view R q s" i n] assms(1,3) n by (simp add: q_ok_def)
  then have "set (q_processing R q s') = (if reached l then set (q_processing R q s) - {i} else set (q_processing R q s))"
    using arg_cong [OF k(1), of v_processing] unfolding s'_def by (simp split: if_splits)
  then show ?thesis using k(2,3) unfolding s'_def by simp
qed

lemma nack_all_ok:
  fixes lk :: "string \<Rightarrow> rerr link"
  assumes "q_ok R q s" "q_config q" "distinct js" "set js \<subseteq> set (q_processing R q s)"
  defines "s' \<equiv> fst (nack_all R q lk js s)"
  shows "q_ok R q s' \<and> v_all (q_view R q s') = v_all (q_view R q s)"
  using assms(1,3,4) unfolding s'_def
proof (induction js arbitrary: s)
  case Nil
  then show ?case by simp
next
  case (Cons j js)
  let ?s1 = "fst (Nack R q (lk j) j s)"
  have j: "j \<in> set (q_processing R q s)" using Cons.prems by simp
  have k: "q_ok R q ?s1" "v_all (q_view R q ?s1) = v_all (q_view R q s)"
    "set js \<subseteq> set (q_processing R q ?s1)"
    using nack_ok [OF Cons.prems(1) assms(2) j, of "lk j"] Cons.prems by auto
  show ?case using k Cons.IH [OF k(1) _ k(3)] Cons.prems(2)
    by (cases "Nack R q (lk j) j s") (auto split: sum.split)
qed

lemma reap_ok:
  fixes l :: "rerr link" and lk :: "string \<Rightarrow> rerr link" and now :: int
  assumes ok: "q_ok R q s" and q: "q_config q"
  defines "s' \<equiv> fst (Queue_Reap R q l lk now s)"
  shows "q_ok R q s' \<and> v_all (q_view R q s') = v_all (q_view R q s)"
proof -
  let ?js = "map fst (filter (\<lambda>p. snd p \<le> now div 1000000) (zset_at R s (visibilityKey q)))"
  have "distinct (map fst (q_visible R q s))" "fst ` set (q_visible R q s) = set (q_processing R q s)"
    using ok by (simp_all add: q_ok_def v_inv_def)
  then have "distinct ?js" "set ?js \<subseteq> set (q_processing R q s)"
    by (auto simp: q_visible_def distinct_map_filter)
  note k = nack_all_ok [OF ok q this]
  have "s' = (if l = Up then fst (nack_all R q lk ?js s) else s)"
    unfolding s'_def Queue_Reap_def
    by (cases l; cases "nack_all R q lk ?js s") (simp_all split: sum.split)
  then show ?thesis using k [of lk] ok by simp
qed

end

section \<open>Runs\<close>

text \<open>The server, the ids whose push onto the queue took effect and the ids whose
  acknowledgement took effect.\<close>

record 's queue_world =
  qw_server :: 's
  qw_accepted :: "string multiset"
  qw_acked :: "string multiset"

datatype queue_op =
    QEnqueue "rerr link" "rerr link" string string
  | QDequeue "rerr link" int
  | QAck "rerr link" string
  | QNack "rerr link" string
  | QReap "rerr link" "string \<Rightarrow> rerr link" int

fun queue_step :: "('s, 'x) redis_scheme \<Rightarrow> queue \<Rightarrow> queue_op \<Rightarrow> 's queue_world \<Rightarrow> 's queue_world" where
  "queue_step R q (QEnqueue l1 l2 i p) w = w\<lparr>qw_server := fst (Enqueue R q l1 l2 i p (qw_server w)),
     qw_accepted := (if l1 = Up \<and> reached l2 then add_mset i (qw_accepted w) else qw_accepted w)\<rparr>"
| "queue_step R q (QDequeue l now) w = w\<lparr>qw_server := fst (tryDequeue R q l now (qw_server w))\<rparr>"
| "queue_step R q (QAck l i) w = w\<lparr>qw_server := fst (Ack R q l i (qw_server w)),
     qw_acked := (if reached l then add_mset i (qw_acked w) else qw_acked w)\<rparr>"
| "queue_step R q (QNack l i) w = w\<lparr>qw_server := fst (Nack R q l i (qw_server w))\<rparr>"
| "queue_step R q (QReap l lk now) w = w\<lparr>qw_server := fst (Queue_Reap R q l lk now (qw_server w))\<rparr>"

text \<open>Producers use new ids, and a job is acked or nacked while it is in processing.\<close>

fun queue_allowed :: "('s, 'x) redis_scheme \<Rightarrow> queue \<Rightarrow> queue_op \<Rightarrow> 's \<Rightarrow> bool" where
  "queue_allowed R q (QEnqueue l1 l2 i p) s \<longleftrightarrow> i \<notin> v_known (q_view R q s)"
| "queue_allowed R q (QAck l i) s \<longleftrightarrow> i \<in> set (q_processing R q s)"
| "queue_allowed R q (QNack l i) s \<longleftrightarrow> i \<in> set (q_processing R q s)"
| "queue_allowed R q _ s \<longleftrightarrow> True"

definition queue_empty :: "('s, 'x) redis_scheme \<Rightarrow> queue \<Rightarrow> 's \<Rightarrow> bool" where
  "queue_empty R q s \<longleftrightarrow> q_typed R q s \<and> q_pending R q s = [] \<and> q_processing R q s = [] \<and> q_dead R q s = [] \<and>
     q_visible R q s = []"

inductive queue_reach :: "('s, 'x) redis_scheme \<Rightarrow> queue \<Rightarrow> 's queue_world \<Rightarrow> bool" for R q where
  start: "queue_empty R q s \<Longrightarrow> queue_reach R q \<lparr>qw_server = s, qw_accepted = {#}, qw_acked = {#}\<rparr>"
| step: "queue_reach R q w \<Longrightarrow> queue_allowed R q op (qw_server w) \<Longrightarrow> queue_reach R q (queue_step R q op w)"

context redis_server
begin

lemma queue_step_ok:
  assumes "q_ok R q (qw_server w)" "q_config q" "queue_allowed R q op (qw_server w)"
    and "qw_accepted w = v_all (q_view R q (qw_server w)) + qw_acked w"
  shows "q_ok R q (qw_server (queue_step R q op w)) \<and>
    qw_accepted (queue_step R q op w) = v_all (q_view R q (qw_server (queue_step R q op w))) + qw_acked (queue_step R q op w)"
proof (cases op)
  case (QEnqueue l1 l2 i p)
  then show ?thesis using assms enqueue_ok [OF assms(1,2), of i l1 l2 p] by simp
next
  case (QDequeue l now)
  then show ?thesis using assms tryDequeue_ok [OF assms(1), of l now] by simp
next
  case (QAck l i)
  then show ?thesis using assms ack_ok [OF assms(1), of i l] by simp
next
  case (QNack l i)
  then show ?thesis using assms nack_ok [OF assms(1,2), of i l] by simp
next
  case (QReap l lk now)
  then show ?thesis using assms reap_ok [OF assms(1,2), of l lk now] by simp
qed

lemma queue_reach_ok:
  assumes "queue_reach R q w" "q_config q"
  shows "q_ok R q (qw_server w) \<and> qw_accepted w = v_all (q_view R q (qw_server w)) + qw_acked w"
  using assms(1)
proof induction
  case (start s)
  then show ?case by (simp add: queue_empty_def q_ok_def v_inv_def v_all_def)
next
  case (step w op)
  then show ?case using queue_step_ok [OF _ assms(2)] by blast
qed

lemma q_attempts_itoa:
  "q_record R q s i ''attempts'' = Some (itoa n) \<Longrightarrow> is_i64 n \<Longrightarrow> q_attempts R q s i = Some n"
  by (simp add: q_attempts_def)

text \<open>All calls of a reap get through.\<close>

lemma nack_all_up:
  assumes "q_ok R q s" "q_config q" "distinct js" "set js \<subseteq> set (q_processing R q s)" "\<And>j. lk j = Up"
    and m: "mx = MaxAttempts (q_opts q)"
  shows "snd (nack_all R q lk js s) = Inr () \<and> (let s' = fst (nack_all R q lk js s) in
    set (q_processing R q s') = set (q_processing R q s) - set js \<and>
    set (q_dead R q s') = set (q_dead R q s) \<union> {j \<in> set js. mx \<le> the (q_attempts R q s j) + 1} \<and>
    set (q_pending R q s') = set (q_pending R q s) \<union> {j \<in> set js. the (q_attempts R q s j) + 1 < mx} \<and>
    (\<forall>j. j \<notin> set js \<longrightarrow> q_attempts R q s' j = q_attempts R q s j))"
  using assms(1,3,4)
proof (induction js arbitrary: s)
  case Nil
  then show ?case by simp
next
  case (Cons j js)
  obtain s1 r where s1: "Nack R q Up j s = (s1, r)" by fastforce
  have j: "j \<in> set (q_processing R q s)" using Cons.prems by simp
  obtain p n where n: "q_record R q s j ''attempts'' = Some (itoa n)" "0 \<le> n" "n < MaxAttempts (q_opts q)"
    using q_ok_live [OF Cons.prems(1)] j by blast
  have b: "is_i64 n" using assms(2) n by (simp add: q_config_def is_i64_def)
  have a: "q_attempts R q s j = Some n" using n(1) b by (rule q_attempts_itoa)
  note k = nack_live [OF Cons.prems(1) assms(2) j n, of Up, unfolded s1, simplified]
  have v: "q_processing R q s1 = removeAll j (q_processing R q s)"
    "q_dead R q s1 = (if mx \<le> n + 1 then j # q_dead R q s else q_dead R q s)"
    "q_pending R q s1 = (if mx \<le> n + 1 then q_pending R q s else j # q_pending R q s)"
    "q_record R q s1 = (q_record R q s)(j := (q_record R q s j)(''attempts'' \<mapsto> itoa (n + 1)))"
    using k(1) unfolding q_view_eq_iff by (simp_all add: v_nack_def v_drop_def Let_def m)
  have at: "q_attempts R q s1 i = q_attempts R q s i" if "i \<noteq> j" for i
    using that by (simp add: q_attempts_def v(4))
  have sub: "set js \<subseteq> set (q_processing R q s1)" using Cons.prems by (auto simp: v(1))
  have jj: "j \<notin> set js" "distinct js" using Cons.prems by simp_all
  have e: "nack_all R q lk (j # js) s = nack_all R q lk js s1" using k(4) by (simp add: assms(5) s1)
  have at': "q_attempts R q s1 i = q_attempts R q s i" if "i \<in> set js" for i
    using that at jj(1) by metis
  have c: "{i \<in> set js. mx \<le> the (q_attempts R q s1 i) + 1} = {i \<in> set js. mx \<le> the (q_attempts R q s i) + 1}"
    "{i \<in> set js. the (q_attempts R q s1 i) + 1 < mx} = {i \<in> set js. the (q_attempts R q s i) + 1 < mx}"
    by (rule Collect_cong, auto simp: at')+
  show ?case
    using Cons.IH [OF k(2) jj(2) sub, unfolded Let_def c v(1-3)] jj(1) at a
    unfolding e Let_def by (cases "mx \<le> n + 1") auto
qed

end

context redis_server
begin

lemma deliver_job:
  assumes ok: "q_ok R q s" and q: "q_config q" and p: "q_pending R q s = xs @ [i]"
  shows "\<exists>p n. snd (tryDequeue R q Up now s) = Inr (Some \<lparr>qj_ID = i, qj_Payload = p, qj_Attempts = n\<rparr>)
          \<and> q_record R q s i ''payload'' = Some p \<and> q_attempts R q s i = Some n \<and> 0 \<le> n \<and> n < MaxAttempts (q_opts q)"
    and "q_view R q (fst (tryDequeue R q Up now s)) = (q_view R q s)\<lparr>v_pending := xs,
            v_processing := i # q_processing R q s, v_visible := zput (q_visible R q s) (visibility_deadline q now) i\<rparr>"
proof -
  have t: "q_typed R q s" using ok by (simp add: q_ok_def)
  note d = dequeue_job [OF t p, of "visibility_deadline q now"]
  obtain pl n where n: "q_record R q s i ''payload'' = Some pl" "q_record R q s i ''attempts'' = Some (itoa n)"
    "0 \<le> n" "n < MaxAttempts (q_opts q)"
    using q_ok_live [OF ok, of i] p by auto
  have b: "is_i64 n" using q n by (simp add: q_config_def is_i64_def)
  show "\<exists>p n. snd (tryDequeue R q Up now s) = Inr (Some \<lparr>qj_ID = i, qj_Payload = p, qj_Attempts = n\<rparr>)
          \<and> q_record R q s i ''payload'' = Some p \<and> q_attempts R q s i = Some n \<and> 0 \<le> n \<and> n < MaxAttempts (q_opts q)"
    using n b by (intro exI [of _ pl] exI [of _ n])
      (simp add: tryDequeue_def d(3) dequeue_result_def opt_reply_def q_attempts_def)
  show "q_view R q (fst (tryDequeue R q Up now s)) = (q_view R q s)\<lparr>v_pending := xs,
            v_processing := i # q_processing R q s, v_visible := zput (q_visible R q s) (visibility_deadline q now) i\<rparr>"
    using d(1) p by (simp add: tryDequeue_def v_dequeue_def)
qed

lemma deliver_none:
  assumes "q_typed R q s" "q_pending R q s = []"
  shows "snd (tryDequeue R q Up now s) = Inr None" "q_view R q (fst (tryDequeue R q Up now s)) = q_view R q s"
  using dequeue_empty [OF assms, of "visibility_deadline q now"] by (simp_all add: tryDequeue_def dequeue_result_def)

lemma reap_up:
  assumes ok: "q_ok R q s" and q: "q_config q" and m: "mx = MaxAttempts (q_opts q)"
    and e: "expired = {i. \<exists>d. (i, d) \<in> set (q_visible R q s) \<and> d \<le> now div 1000000}"
  shows "snd (Queue_Reap R q Up (\<lambda>_. Up) now s) = Inr (card expired) \<and>
    (let s' = fst (Queue_Reap R q Up (\<lambda>_. Up) now s) in
      set (q_processing R q s') = set (q_processing R q s) - expired \<and>
      set (q_dead R q s') = set (q_dead R q s) \<union> {j \<in> expired. mx \<le> the (q_attempts R q s j) + 1} \<and>
      set (q_pending R q s') = set (q_pending R q s) \<union> {j \<in> expired. the (q_attempts R q s j) + 1 < mx})"
proof -
  let ?js = "map fst (filter (\<lambda>p. snd p \<le> now div 1000000) (q_visible R q s))"
  have "distinct (map fst (q_visible R q s))" "fst ` set (q_visible R q s) = set (q_processing R q s)"
    using ok by (simp_all add: q_ok_def v_inv_def)
  then have d: "distinct ?js" "set ?js \<subseteq> set (q_processing R q s)"
    by (auto simp: distinct_map_filter)
  have x: "set ?js = expired" unfolding e by force
  have c: "length ?js = card expired" using distinct_card [OF d(1)] x by simp
  note k = nack_all_up [OF ok q d _ m, of "\<lambda>_. Up", unfolded x Let_def, simplified]
  obtain s' where s': "nack_all R q (\<lambda>_. Up) ?js s = (s', Inr ())" using k by (metis prod.collapse)
  have "Queue_Reap R q Up (\<lambda>_. Up) now s = (s', Inr (card expired))"
    using s' c by (simp add: Queue_Reap_def q_visible_def)
  then show ?thesis using k s' by simp
qed

text \<open>An acknowledgement of a job that is pending again deletes its record only; the next worker
  that pops the id fails on it.\<close>

lemma late_ack:
  assumes t: "q_typed R q s" and p: "q_pending R q s = xs @ [i]"
  shows "q_pending R q (fst (Ack R q Up i s)) = xs @ [i]"
    and "snd (tryDequeue R q Up now (fst (Ack R q Up i s))) = Inl (QueueParseAttempts i)"
proof -
  let ?s1 = "fst (ackScript R q i s)"
  note a = ack_view [OF t, of i]
  have p1: "q_pending R q ?s1 = xs @ [i]" and r1: "q_record R q ?s1 i = (\<lambda>_. None)"
    using a(1) p unfolding q_view_eq_iff by (simp_all add: v_ack_def v_drop_def)
  show "q_pending R q (fst (Ack R q Up i s)) = xs @ [i]" using p1 by (simp add: Ack_def)
  have "parse_int ''<nil>'' = None" by code_simp
  then show "snd (tryDequeue R q Up now (fst (Ack R q Up i s))) = Inl (QueueParseAttempts i)"
    using dequeue_job(3) [OF a(2) p1, of "visibility_deadline q now"]
    by (simp add: Ack_def tryDequeue_def dequeue_result_def r1 opt_reply_def)
qed

end

lemma distinct_singleton: "distinct xs \<Longrightarrow> set xs = {x} \<Longrightarrow> xs = [x]"
  by (cases xs) (auto simp: insert_eq_iff subset_singleton_iff split: if_splits)

context redis_server
begin

lemma reap_requeues:
  assumes "q_ok R q s" "q_config q" "q_visible R q s = [(i, d)]" "d \<le> now div 1000000"
    and "q_attempts R q s i = Some n" "n + 1 < MaxAttempts (q_opts q)" "q_pending R q s = []"
  defines "s' \<equiv> fst (Queue_Reap R q Up (\<lambda>_. Up) now s)"
  shows "q_typed R q s'" "q_pending R q s' = [] @ [i]"
proof -
  have ok: "q_ok R q s'" unfolding s'_def using reap_ok [OF assms(1,2)] by blast
  then show "q_typed R q s'" by (simp add: q_ok_def)
  have d: "distinct (q_pending R q s')" using ok by (simp add: q_ok_def v_inv_def)
  have "set (q_pending R q s') = {i}"
    using reap_up [OF assms(1,2) refl refl, of now] assms(3-7) unfolding s'_def by (auto simp: Let_def)
  with d show "q_pending R q s' = [] @ [i]" by (simp add: distinct_singleton)
qed

end

section \<open>Properties\<close>


definition queue_example :: queue where
  "queue_example = New_Queue ''ingest'' \<lparr>MaxAttempts = 2, VisibilityTimeout = 0, PollInterval = 0\<rparr>"

lemma queue_example_config: "q_config queue_example"
  by code_simp

lemma queue_example_typed: "q_typed mem_redis queue_example mem_empty"
  by (simp add: q_typed_def redis_types mem_at_def mem_empty_def)

lemma queue_example_start:
  "queue_reach mem_redis queue_example \<lparr>qw_server = mem_empty, qw_accepted = {#}, qw_acked = {#}\<rparr>"
  by (rule queue_reach.start)
    (simp add: queue_empty_def queue_example_typed, simp add: queue_views m_list_def m_zset_def mem_empty_def)

definition queue_example_run :: "mem queue_world" where
  "queue_example_run = queue_step mem_redis queue_example (QDequeue (Lost ''timeout'') 5)
     (queue_step mem_redis queue_example (QEnqueue Up (Lost ''timeout'') ''j1'' ''p1'')
       \<lparr>qw_server = mem_empty, qw_accepted = {#}, qw_acked = {#}\<rparr>)"

lemma queue_example_reach: "queue_reach mem_redis queue_example queue_example_run"
  unfolding queue_example_run_def
  by (intro queue_reach.step queue_example_start)
    (simp_all add: v_known_def queue_views m_list_def mem_empty_def)


text \<open>
  FIFO delivery: in every reachable state a dequeue that gets through returns the job that was
  pushed first, with its recorded payload and a number of attempts below the limit, moves exactly
  that job from pending to processing and gives it the deadline now + VisibilityTimeout; on an empty
  queue it returns no job and changes nothing.
\<close>

lemma queue_fifo_delivery:
  assumes "redis_server R" and "q_config q" and "queue_reach R q w" and "s = qw_server w"
  shows "(q_pending R q s = [] \<longrightarrow> snd (tryDequeue R q Up now s) = Inr None
      \<and> q_view R q (fst (tryDequeue R q Up now s)) = q_view R q s)
    \<and> (\<forall>xs i. q_pending R q s = xs @ [i] \<longrightarrow>
        (\<exists>p n. snd (tryDequeue R q Up now s) = Inr (Some \<lparr>qj_ID = i, qj_Payload = p, qj_Attempts = n\<rparr>)
          \<and> q_record R q s i ''payload'' = Some p \<and> q_attempts R q s i = Some n \<and> 0 \<le> n \<and> n < MaxAttempts (q_opts q))
        \<and> q_view R q (fst (tryDequeue R q Up now s)) = (q_view R q s)\<lparr>v_pending := xs,
            v_processing := i # q_processing R q s, v_visible := zput (q_visible R q s) (visibility_deadline q now) i\<rparr>)"
proof -
  have ok: "q_ok R q s" using redis_server.queue_reach_ok [OF assms(1,3,2)] assms(4) by simp
  then have t: "q_typed R q s" by (simp add: q_ok_def)
  show ?thesis
    using redis_server.deliver_job [OF assms(1) ok assms(2)] redis_server.deliver_none [OF assms(1) t] by blast
qed

definition queue_example_two :: "mem queue_world" where
  "queue_example_two =
     queue_step mem_redis queue_example (QEnqueue Up Up ''j2'' ''p2'')
      (queue_step mem_redis queue_example (QEnqueue Up Up ''j1'' ''p1'')
       \<lparr>qw_server = mem_empty, qw_accepted = {#}, qw_acked = {#}\<rparr>)"

lemma queue_example_two_reach: "queue_reach mem_redis queue_example queue_example_two"
  unfolding queue_example_two_def
proof (intro queue_reach.step queue_example_start)
  show "queue_allowed mem_redis queue_example (QEnqueue Up Up ''j1'' ''p1'')
     (qw_server \<lparr>qw_server = mem_empty, qw_accepted = {#}, qw_acked = {#}\<rparr>)"
    by (simp add: v_known_def) (simp add: queue_views m_list_def mem_empty_def)
  have "q_pending mem_redis queue_example (fst (Enqueue mem_redis queue_example Up Up ''j1'' ''p1'' mem_empty)) = [''j1'']"
    "q_processing mem_redis queue_example (fst (Enqueue mem_redis queue_example Up Up ''j1'' ''p1'' mem_empty)) = []"
    "q_dead mem_redis queue_example (fst (Enqueue mem_redis queue_example Up Up ''j1'' ''p1'' mem_empty)) = []"
    by code_simp+
  then show "queue_allowed mem_redis queue_example (QEnqueue Up Up ''j2'' ''p2'')
     (qw_server (queue_step mem_redis queue_example (QEnqueue Up Up ''j1'' ''p1'')
       \<lparr>qw_server = mem_empty, qw_accepted = {#}, qw_acked = {#}\<rparr>))"
    by (simp add: v_known_def)
qed

lemma queue_fifo_delivery_witness:
  "q_pending mem_redis queue_example (fst (tryDequeue mem_redis queue_example Up 7 (qw_server queue_example_two))) = [''j2'']"
proof -
  have "q_pending mem_redis queue_example (qw_server queue_example_two) = [''j2''] @ [''j1'']" by code_simp
  then have "q_view mem_redis queue_example (fst (tryDequeue mem_redis queue_example Up 7 (qw_server queue_example_two))) =
     (q_view mem_redis queue_example (qw_server queue_example_two))\<lparr>v_pending := [''j2''],
       v_processing := ''j1'' # q_processing mem_redis queue_example (qw_server queue_example_two),
       v_visible := zput (q_visible mem_redis queue_example (qw_server queue_example_two)) (visibility_deadline queue_example 7) ''j1''\<rparr>"
    using queue_fifo_delivery [OF mem.redis_server_axioms queue_example_config queue_example_two_reach refl, of 7] by blast
  then show ?thesis unfolding q_view_eq_iff by simp
qed

text \<open>
  C9. Bounded attempts: a nack of a job in processing that gets through adds one to its recorded
  attempts and takes it out of processing; the job goes to the dead-letter list exactly when the new
  count reaches MaxAttempts and back to pending otherwise, and the result says which.
\<close>

theorem queue_nack_exact:
  assumes "redis_server R" and "q_config q" and "queue_reach R q w" and "s = qw_server w"
    and "i \<in> set (q_processing R q s)"
  shows "\<exists>n. q_attempts R q s i = Some n \<and> 0 \<le> n \<and> n < MaxAttempts (q_opts q)
    \<and> snd (Nack R q Up i s) = Inr \<lparr>nr_DeadLettered = (n + 1 = MaxAttempts (q_opts q)), nr_Attempts = n + 1\<rparr>
    \<and> (let s' = fst (Nack R q Up i s) in
        q_processing R q s' = removeAll i (q_processing R q s)
        \<and> q_record R q s' i ''attempts'' = Some (itoa (n + 1))
        \<and> (if n + 1 = MaxAttempts (q_opts q)
           then q_dead R q s' = i # q_dead R q s \<and> q_pending R q s' = q_pending R q s
           else q_pending R q s' = i # q_pending R q s \<and> q_dead R q s' = q_dead R q s))"
proof -
  have ok: "q_ok R q s" using redis_server.queue_reach_ok [OF assms(1,3,2)] assms(4) by simp
  obtain p n where n: "q_record R q s i ''attempts'' = Some (itoa n)" "0 \<le> n" "n < MaxAttempts (q_opts q)"
    using q_ok_live [OF ok] assms(5) by blast
  have b: "is_i64 n" using assms(2) n by (simp add: q_config_def is_i64_def)
  note k = redis_server.nack_live [OF assms(1) ok assms(2,5) n, of Up]
  have m: "MaxAttempts (q_opts q) \<le> n + 1 \<longleftrightarrow> n + 1 = MaxAttempts (q_opts q)" using n by auto
  show ?thesis
    using k(1) k(4) n b unfolding q_view_eq_iff m
    by (intro exI [of _ n]) (auto simp: q_attempts_def v_nack_def v_drop_def Let_def m)
qed

theorem queue_nack_exact_witness:
  "snd (Nack mem_redis queue_example Up ''j1'' (qw_server queue_example_run)) =
     Inr \<lparr>nr_DeadLettered = False, nr_Attempts = 1\<rparr>"
proof -
  have p: "''j1'' \<in> set (q_processing mem_redis queue_example (qw_server queue_example_run))" by code_simp
  have "q_attempts mem_redis queue_example (qw_server queue_example_run) ''j1'' = Some 0"
    "MaxAttempts (q_opts queue_example) = 2" by code_simp+
  then show ?thesis
    using queue_nack_exact [OF mem.redis_server_axioms queue_example_config queue_example_reach refl p] by auto
qed

text \<open>
  The reaper: when its calls get through, a reap at time \<open>now\<close> takes exactly the jobs whose
  visibility deadline has passed out of processing, returns their number, dead-letters those whose
  attempts reach MaxAttempts and requeues the others; every other job stays where it is.
\<close>

lemma queue_reap_exact:
  assumes "redis_server R" and "q_config q" and "queue_reach R q w" and "s = qw_server w"
    and "expired = {i. \<exists>d. (i, d) \<in> set (q_visible R q s) \<and> d \<le> now div 1000000}"
  shows "snd (Queue_Reap R q Up (\<lambda>_. Up) now s) = Inr (card expired) \<and>
    (let s' = fst (Queue_Reap R q Up (\<lambda>_. Up) now s); mx = MaxAttempts (q_opts q) in
      set (q_processing R q s') = set (q_processing R q s) - expired \<and>
      set (q_dead R q s') = set (q_dead R q s) \<union> {j \<in> expired. mx \<le> the (q_attempts R q s j) + 1} \<and>
      set (q_pending R q s') = set (q_pending R q s) \<union> {j \<in> expired. the (q_attempts R q s j) + 1 < mx})"
  using redis_server.reap_up [OF assms(1) _ assms(2) refl assms(5)]
    redis_server.queue_reach_ok [OF assms(1,3,2)] assms(4) by (simp add: Let_def)

lemma queue_reap_exact_witness:
  "set (q_processing mem_redis queue_example (fst (Queue_Reap mem_redis queue_example Up (\<lambda>_. Up) 0 (qw_server queue_example_run)))) =
   {''j1''} - {i. \<exists>d. (i, d) \<in> set (q_visible mem_redis queue_example (qw_server queue_example_run)) \<and> d \<le> 0 div 1000000}"
proof -
  have "q_processing mem_redis queue_example (qw_server queue_example_run) = [''j1'']" by code_simp
  then show ?thesis
    using queue_reap_exact [OF mem.redis_server_axioms queue_example_config queue_example_reach refl refl, of 0]
    by (simp add: Let_def)
qed

text \<open>
  C10. A late acknowledgement: when a job has been requeued by the reaper and the slow worker
  acknowledges it afterwards, the id stays in pending without its record, and a worker that pops it
  does not skip it: its loop ends with a parse error.
\<close>

theorem queue_late_ack_stops_worker:
  assumes "redis_server R" and "q_typed R q s" and "q_pending R q s = xs @ [i]" and "poll_env p = (\<lambda>s. s)"
    and "\<not> poll_done p" and "poll_link p = Up" and "\<not> poll_ctx_err p"
  shows "q_pending R q (fst (Ack R q Up i s)) = xs @ [i] \<and>
    snd (workerLoop R q handler ((p # ps, l) # rounds) (fst (Ack R q Up i s))) = WorkerDequeueError (QueueParseAttempts i)"
proof -
  note a = redis_server.late_ack [OF assms(1-3)]
  obtain s' where "tryDequeue R q Up (poll_now p) (fst (Ack R q Up i s)) = (s', Inl (QueueParseAttempts i))"
    using a(2) by (metis prod.collapse)
  then show ?thesis using a(1) assms(4-7) by simp
qed

theorem queue_late_ack_stops_worker_witness:
  "snd (workerLoop mem_redis queue_example (\<lambda>_. None)
     [([\<lparr>poll_env = (\<lambda>s. s), poll_done = False, poll_link = Up, poll_now = 9, poll_ctx_err = False, poll_done_wait = False\<rparr>], Up)]
     (fst (Ack mem_redis queue_example Up ''j1'' (fst (Queue_Reap mem_redis queue_example Up (\<lambda>_. Up) 40000000000
       (qw_server queue_example_run)))))) = WorkerDequeueError (QueueParseAttempts ''j1'')"
proof -
  let ?s = "fst (Queue_Reap mem_redis queue_example Up (\<lambda>_. Up) 40000000000 (qw_server queue_example_run))"
  have r: "q_ok mem_redis queue_example (qw_server queue_example_run)"
    using mem.queue_reach_ok [OF queue_example_reach queue_example_config] by blast
  have v: "q_visible mem_redis queue_example (qw_server queue_example_run) = [(''j1'', 30000)]"
    "q_attempts mem_redis queue_example (qw_server queue_example_run) ''j1'' = Some 0"
    "q_pending mem_redis queue_example (qw_server queue_example_run) = []"
    "MaxAttempts (q_opts queue_example) = 2" by code_simp+
  note p = mem.reap_requeues [OF r queue_example_config v(1) _ v(2) _ v(3), of 40000000000, unfolded v(4), simplified]
  show ?thesis
    by (rule queue_late_ack_stops_worker [OF mem.redis_server_axioms p(1), of "[]", THEN conjunct2]) (use p in simp_all)
qed

end
