(* ===== verification/Float64.thy ===== *)
theory Float64
  imports Prelude Complex_Main "HOL-Library.Log_Nat"
begin

text \<open>
  Binary64 arithmetic where the program's result depends on it: the value of a finite double is a rational, \<open>fl\<close> rounds
  to the nearest double (ties to even), and \<open>ParseFloat\<close> reads the decimal syntax of \<^verbatim>\<open>strconv.ParseFloat\<close>. The
  hexadecimal syntax is not modelled: no caller produces it.
\<close>

section \<open>Rounding\<close>

text \<open>The exponent \<open>e\<close> of a positive rational: \<open>2 ^ e \<le> x < 2 ^ (e + 1)\<close>.\<close>

definition rat_exp :: "rat \<Rightarrow> int" where
  "rat_exp x = (let (p, q) = quotient_of x; k = int (floorlog 2 (nat p)) - int (floorlog 2 (nat q))
     in if 2 powi k \<le> x then k else k - 1)"

definition round_even :: "rat \<Rightarrow> int" where
  "round_even y = (let n = \<lfloor>y\<rfloor>; d = y - of_int n
     in if d < 1 / 2 then n else if 1 / 2 < d then n + 1 else if even n then n else n + 1)"

definition ulp :: "rat \<Rightarrow> rat" where
  "ulp x = 2 powi max (rat_exp \<bar>x\<bar> - 52) (-1074)"

definition fl :: "rat \<Rightarrow> rat" where
  "fl x = (if x = 0 then 0 else of_int (round_even (x / ulp x)) * ulp x)"

lemma round_even_bounds: "\<bar>of_int (round_even y) - y\<bar> \<le> 1 / 2"
proof -
  have "of_int \<lfloor>y\<rfloor> \<le> y" "y < of_int \<lfloor>y\<rfloor> + 1" by linarith+
  then show ?thesis by (auto simp: round_even_def Let_def)
qed

lemma round_even_ge: "of_int n \<le> y \<Longrightarrow> n \<le> round_even y"
proof -
  assume "of_int n \<le> y"
  then have "n \<le> \<lfloor>y\<rfloor>" by linarith
  then show ?thesis by (auto simp: round_even_def Let_def)
qed

lemma round_even_int [simp]: "round_even (of_int n) = n"
  by (simp add: round_even_def Let_def)

lemma ulp_pos: "0 < ulp x"
  by (simp add: ulp_def)

lemma fl_error: "\<bar>fl x - x\<bar> \<le> ulp x / 2"
proof (cases "x = 0")
  case False
  have u: "0 < ulp x" by (rule ulp_pos)
  have "fl x - x = (of_int (round_even (x / ulp x)) - x / ulp x) * ulp x" using False u by (simp add: fl_def field_simps)
  then have "\<bar>fl x - x\<bar> = \<bar>of_int (round_even (x / ulp x)) - x / ulp x\<bar> * ulp x" using u by (simp add: abs_mult)
  also have "\<dots> \<le> 1 / 2 * ulp x" using round_even_bounds [of "x / ulp x"] u by (intro mult_right_mono) auto
  finally show ?thesis by simp
qed (simp add: fl_def ulp_def)

text \<open>Multiples of the unit in the last place are fixed points, and bounds of the rounded value.\<close>

lemma fl_multiple: "x = of_int n * ulp x \<Longrightarrow> fl x = x"
  using ulp_pos [of x] by (metis fl_def mult_zero_left nonzero_mult_div_cancel_right order_less_irrefl round_even_int)

lemma fl_ge_multiple: "of_int n * ulp x \<le> x \<Longrightarrow> x \<noteq> 0 \<Longrightarrow> of_int n * ulp x \<le> fl x"
proof -
  assume a: "of_int n * ulp x \<le> x" "x \<noteq> 0"
  then have "n \<le> round_even (x / ulp x)" using ulp_pos [of x] by (intro round_even_ge) (simp add: pos_le_divide_eq)
  then have "(of_int n :: rat) \<le> of_int (round_even (x / ulp x))" by simp
  then show ?thesis using a(2) ulp_pos [of x] by (simp add: fl_def)
qed

lemma quotient_exp:
  assumes "0 < x" "quotient_of x = (p, q)"
  shows "0 < p" "0 < q" "x = of_int p / of_int q"
proof -
  show q: "0 < q" using quotient_of_denom_pos [OF assms(2)] .
  show x: "x = of_int p / of_int q" by (rule quotient_of_div [OF assms(2)])
  show "0 < p" using assms(1) q unfolding x by (simp add: zero_less_divide_iff)
qed

lemma rat_floorlog:
  assumes "0 < p"
  shows "2 powi (int (floorlog 2 (nat p)) - 1) \<le> (of_int p :: rat)" "(of_int p :: rat) < 2 powi int (floorlog 2 (nat p))"
proof -
  let ?n = "floorlog 2 (nat p)"
  have n: "0 < ?n" using assms by (simp add: floorlog_def)
  have b: "2 ^ (?n - 1) \<le> nat p" "nat p < 2 ^ ?n" using floorlog_bounds [of "nat p" 2] assms by simp_all
  have "(2::rat) ^ (?n - 1) = of_nat (2 ^ (?n - 1))" by simp
  also have "\<dots> \<le> of_nat (nat p)" using b(1) by (subst of_nat_le_iff)
  also have "\<dots> = of_int p" using assms by simp
  finally show "2 powi (int ?n - 1) \<le> (of_int p :: rat)" using n by (simp add: power_int_def nat_diff_distrib')
  have "(of_int p :: rat) = of_nat (nat p)" using assms by simp
  also have "\<dots> < of_nat (2 ^ ?n)" using b(2) by (subst of_nat_less_iff)
  finally show "(of_int p :: rat) < 2 powi int ?n" by simp
qed

lemma rat_exp_bounds:
  assumes "0 < x"
  shows "2 powi rat_exp x \<le> x" "x < 2 powi (rat_exp x + 1)"
proof -
  obtain p q where pq: "quotient_of x = (p, q)" by fastforce
  note f = quotient_exp [OF assms pq]
  let ?a = "int (floorlog 2 (nat p))" and ?b = "int (floorlog 2 (nat q))"
  note P = rat_floorlog [OF f(1)] and Q = rat_floorlog [OF f(2)]
  have q0: "(0::rat) < of_int q" using f(2) by simp
  have "2 powi (?a - 1) / 2 powi ?b \<le> x" unfolding f(3) using P(1) Q(2) q0 f(1) by (intro frac_le) auto
  moreover have "(2::rat) powi (?a - 1 - ?b) = 2 powi (?a - 1) / 2 powi ?b" by (rule power_int_diff) simp
  ultimately have lo: "2 powi (?a - 1 - ?b) \<le> x" by simp
  have "x < 2 powi ?a / 2 powi (?b - 1)" unfolding f(3) using P(2) Q(1) f(1) by (intro frac_less) auto
  moreover have "(2::rat) powi (?a - (?b - 1)) = 2 powi ?a / 2 powi (?b - 1)" by (rule power_int_diff) simp
  ultimately have hi: "x < 2 powi (?a - (?b - 1))" by simp
  show "2 powi rat_exp x \<le> x" "x < 2 powi (rat_exp x + 1)"
    using lo hi by (auto simp: rat_exp_def pq Let_def not_le algebra_simps)
qed

text \<open>From one to \<open>2 ^ 53\<close> the unit in the last place is a power of two that divides one: integers are exact, and rounding
  does not cross them downwards.\<close>

lemma power_two_less: "(2::rat) powi a < 2 powi b \<Longrightarrow> a < b"
  by (meson linorder_not_less one_le_numeral power_int_increasing zero_neq_numeral)

lemma ulp_le: "0 < x \<Longrightarrow> x < 2 ^ k \<Longrightarrow> ulp x \<le> 2 powi (int k - 53)"
proof -
  assume a: "0 < x" "x < 2 ^ k"
  then have "(2::rat) powi rat_exp x < 2 powi int k" using rat_exp_bounds(1) [of x] by simp
  then have "rat_exp x < int k" by (rule power_two_less)
  then show ?thesis using a by (auto simp: ulp_def intro!: power_int_increasing)
qed

lemma ulp_facts:
  assumes "1 \<le> x" "x < 2 ^ k" "k \<le> 53"
  shows "ulp x \<le> 2 powi (int k - 53)" "\<exists>n. 1 = of_int n * ulp x"
proof -
  have "(2::rat) powi rat_exp x < 2 powi int k" using rat_exp_bounds(1) [of x] assms by simp
  then have hi: "rat_exp x < int k" by (rule power_two_less)
  have "(2::rat) powi 0 < 2 powi (rat_exp x + 1)" using rat_exp_bounds(2) [of x] assms(1) by simp
  then have "0 < rat_exp x + 1" by (rule power_two_less)
  then have u: "ulp x = 2 powi (rat_exp x - 52)" using assms(1) by (simp add: ulp_def)
  show "ulp x \<le> 2 powi (int k - 53)" unfolding u using hi by (intro power_int_increasing) auto
  have "(1::rat) = 2 powi (52 - rat_exp x) * 2 powi (rat_exp x - 52)" by (simp flip: power_int_add)
  also have "(2::rat) powi (52 - rat_exp x) = of_int (2 ^ nat (52 - rat_exp x))" using hi assms(3) by (simp add: power_int_def)
  finally show "\<exists>n. 1 = of_int n * ulp x" unfolding u by blast
qed

lemma fl_int:
  assumes "0 \<le> n" "n < 2 ^ 53"
  shows "fl (of_int n) = of_int n"
proof (cases "n = 0")
  case False
  have "(of_int n :: rat) < of_int (2 ^ 53)" using assms(2) by (subst of_int_less_iff)
  then have b: "(1::rat) \<le> of_int n" "(of_int n :: rat) < 2 ^ 53" using assms(1) False by simp_all
  obtain m where m: "1 = of_int m * ulp (of_int n)" using ulp_facts(2) [OF b] by auto
  show ?thesis by (rule fl_multiple [of _ "n * m"], subst of_int_mult, subst mult.assoc, subst m [symmetric]) simp
qed (simp add: fl_def)

lemma fl_above_int:
  assumes "of_int n \<le> x" "1 \<le> x" "x < 2 ^ 53"
  shows "of_int n \<le> fl x"
proof -
  obtain m where m: "1 = of_int m * ulp x" using ulp_facts(2) [OF assms(2,3)] by auto
  have e: "of_int (n * m) * ulp x = of_int n" by (subst of_int_mult, subst mult.assoc, subst m [symmetric]) simp
  have "x \<noteq> 0" using assms(2) by auto
  then show ?thesis using fl_ge_multiple [of "n * m" x, unfolded e] assms(1) by blast
qed

section \<open>\<^verbatim>\<open>ParseFloat\<close>\<close>

datatype f64 = FNaN | FInf bool | FFin rat

datatype parse_error = ErrSyntax | ErrRange

fun f64_le :: "f64 \<Rightarrow> f64 \<Rightarrow> bool" where
  "f64_le FNaN _ = False"
| "f64_le _ FNaN = False"
| "f64_le (FInf neg) (FInf neg') = (neg \<or> \<not> neg')"
| "f64_le (FInf neg) (FFin _) = neg"
| "f64_le (FFin _) (FInf neg) = (\<not> neg)"
| "f64_le (FFin a) (FFin b) = (a \<le> b)"

definition is_digit :: "char \<Rightarrow> bool" where
  "is_digit c \<longleftrightarrow> digit_val c \<noteq> None"

definition digits_value :: "string \<Rightarrow> int" where
  "digits_value ds = foldl (\<lambda>n c. 10 * n + int (case digit_val c of Some d \<Rightarrow> d | None \<Rightarrow> 0)) 0 ds"

text \<open>The exponent after the mantissa: nothing, or \<^verbatim>\<open>e\<close> with an optional sign and at least one digit.\<close>

definition parse_exponent :: "string \<Rightarrow> int option" where
  "parse_exponent s = (case s of
      [] \<Rightarrow> Some 0
    | c # rest \<Rightarrow> if c = CHR ''e'' \<or> c = CHR ''E'' then
        (case rest of
           [] \<Rightarrow> None
         | d # ds \<Rightarrow>
            (let (neg, body) = (if d = CHR ''-'' then (True, ds) else if d = CHR ''+'' then (False, ds) else (False, rest))
             in if body = [] \<or> \<not> list_all is_digit body then None
                else Some (if neg then - digits_value body else digits_value body)))
        else None)"

text \<open>An unsigned decimal: digits, a point, digits (at least one digit in all), and an exponent.\<close>

definition parse_unsigned :: "string \<Rightarrow> rat option" where
  "parse_unsigned s =
     (let whole = takeWhile is_digit s; rest = dropWhile is_digit s;
          (frac, tail) = (case rest of c # cs \<Rightarrow> if c = CHR ''.'' then (takeWhile is_digit cs, dropWhile is_digit cs) else ([], rest) | [] \<Rightarrow> ([], []))
      in if whole = [] \<and> frac = [] then None
         else map_option (\<lambda>e. of_int (digits_value (whole @ frac)) * 10 powi (e - int (length frac))) (parse_exponent tail))"

definition special_value :: "string \<Rightarrow> bool \<Rightarrow> f64 option" where
  "special_value s neg = (if to_lower s = ''inf'' \<or> to_lower s = ''infinity'' then Some (FInf neg) else None)"

definition max_double_bound :: rat where
  "max_double_bound = 2 ^ 1024 - 2 ^ 970"

definition finite_double :: "bool \<Rightarrow> rat \<Rightarrow> parse_error + f64" where
  "finite_double neg x = (if max_double_bound \<le> x then Inl ErrRange else Inr (FFin (if neg then - fl x else fl x)))"

definition ParseFloat :: "string \<Rightarrow> parse_error + f64" where
  "ParseFloat s =
     (let (neg, signed, body) = (case s of c # cs \<Rightarrow> if c = CHR ''-'' then (True, True, cs) else if c = CHR ''+'' then (False, True, cs) else (False, False, s)
            | [] \<Rightarrow> (False, False, []))
      in case special_value body neg of
           Some v \<Rightarrow> Inr v
         | None \<Rightarrow> if \<not> signed \<and> to_lower body = ''nan'' then Inr FNaN
             else (case parse_unsigned body of None \<Rightarrow> Inl ErrSyntax | Some x \<Rightarrow> finite_double neg x))"

lemma digits_value_append: "digits_value (xs @ [c]) = 10 * digits_value xs + int (case digit_val c of Some d \<Rightarrow> d | None \<Rightarrow> 0)"
  by (simp add: digits_value_def)

lemma digits_value_show_nat [simp]: "digits_value (show_nat n) = int n"
proof (induction n rule: show_nat.induct)
  case (1 n)
  show ?case
  proof (cases "n < 10")
    case True
    then show ?thesis by (simp add: show_nat.simps [of n] digits_value_def)
  next
    case False
    then show ?thesis using 1 by (simp add: show_nat.simps [of n] digits_value_append zmod_int zdiv_int)
  qed
qed

section \<open>A decimal factor of an integer\<close>

text \<open>\<^verbatim>\<open>int64(float64(n) * 0.9)\<close>: the double nearest to nine tenths is a little above, and the product is rounded again; up
  to \<open>2 ^ 50\<close> neither error reaches an integer.\<close>

definition trunc_int :: "rat \<Rightarrow> int" where
  "trunc_int x = (if x < 0 then \<lceil>x\<rceil> else \<lfloor>x\<rfloor>)"

definition scale_nine_tenths :: "int \<Rightarrow> int" where
  "scale_nine_tenths n = trunc_int (fl (fl (of_int n) * fl (9 / 10)))"

lemma rat_exp_eq:
  assumes "0 < x" "2 powi e \<le> x" "x < 2 powi (e + 1)"
  shows "rat_exp x = e"
proof -
  note b = rat_exp_bounds [OF assms(1)]
  have "rat_exp x < e + 1" "e < rat_exp x + 1"
    using power_two_less [OF order_le_less_trans [OF b(1) assms(3)]] power_two_less [OF order_le_less_trans [OF assms(2) b(2)]] .
  then show ?thesis by simp
qed

lemma ulp_below_one: "1 / 2 \<le> x \<Longrightarrow> x < 1 \<Longrightarrow> ulp x = 1 / 9007199254740992"
  using rat_exp_eq [of x "-1"] by (simp add: ulp_def power_int_def power_one_over)

lemma fl_nine_tenths: "fl (9 / 10) = 8106479329266893 / 9007199254740992"
proof -
  have "\<lfloor>81064793292668928 / 10 :: rat\<rfloor> = 8106479329266892" by (rule floor_unique) simp_all
  then show ?thesis by (simp add: fl_def ulp_below_one round_even_def Let_def)
qed

lemma scale_nine_tenths_exact:
  assumes "0 \<le> n" "n < 2 ^ 50"
  shows "scale_nine_tenths n = 9 * n div 10"
proof (cases "n < 2")
  case True
  then have "n = 0 \<or> n = 1" using assms(1) by auto
  moreover have "scale_nine_tenths 0 = 0" by (simp add: scale_nine_tenths_def fl_def trunc_int_def)
  moreover have "scale_nine_tenths 1 = 0"
  proof -
    have c: "fl (8106479329266893 / 9007199254740992) = 8106479329266893 / 9007199254740992"
      by (rule fl_multiple [of _ 8106479329266893]) (simp add: ulp_below_one)
    have "fl 1 = 1" using fl_int [of 1] by simp
    moreover have "\<lfloor>8106479329266893 / 9007199254740992 :: rat\<rfloor> = 0" by (rule floor_unique) simp_all
    ultimately show ?thesis by (simp add: scale_nine_tenths_def fl_nine_tenths trunc_int_def c)
  qed
  ultimately show ?thesis by auto
next
  case False
  let ?c = "8106479329266893 / 9007199254740992 :: rat" and ?m = "9 * n div 10"
  let ?y = "of_int n * ?c"
  have n: "(2::rat) \<le> of_int n" "(of_int n :: rat) < 1125899906842624" using False assms(2) by simp_all
  have f: "fl (of_int n) = of_int n" using assms by (intro fl_int) simp_all
  have m: "(of_int ?m :: rat) \<le> of_int n * 9 / 10" "(of_int n * 9 / 10 :: rat) \<le> of_int ?m + 9 / 10"
  proof -
    have "10 * ?m \<le> 9 * n" "9 * n \<le> 10 * ?m + 9" by simp_all
    then have "(of_int (10 * ?m) :: rat) \<le> of_int (9 * n)" "(of_int (9 * n) :: rat) \<le> of_int (10 * ?m + 9)" by (simp_all only: of_int_le_iff)
    then show "(of_int ?m :: rat) \<le> of_int n * 9 / 10" "(of_int n * 9 / 10 :: rat) \<le> of_int ?m + 9 / 10" by simp_all
  qed
  have y: "1 \<le> ?y" "?y < 2 ^ 50" "of_int n * 9 / 10 \<le> ?y" "?y \<le> of_int n * 9 / 10 + 3 / 100" using n by simp_all
  have lo: "of_int ?m \<le> fl ?y" using m(1) y by (intro fl_above_int) simp_all
  have "ulp ?y \<le> 2 powi (int 50 - 53)" using y by (intro ulp_facts(1)) simp_all
  then have "ulp ?y \<le> 1 / 8" by (simp add: power_int_def power_one_over)
  moreover have "fl ?y \<le> ?y + ulp ?y / 2" using fl_error [of ?y] unfolding abs_le_iff by linarith
  ultimately have "fl ?y \<le> ?y + 1 / 16" by linarith
  also have "\<dots> < of_int ?m + 1" using m(2) y(4) by linarith
  finally have "fl ?y < of_int ?m + 1" .
  with lo have "\<lfloor>fl ?y\<rfloor> = ?m" by linarith
  moreover have "\<not> fl ?y < 0"
  proof -
    have "0 \<le> ?m" using assms(1) by (simp add: div_int_pos_iff)
    then have "(0::rat) \<le> of_int ?m" by (simp only: of_int_0_le_iff)
    then show ?thesis using lo by linarith
  qed
  ultimately show ?thesis by (simp add: scale_nine_tenths_def f fl_nine_tenths trunc_int_def)
qed

end
