(* ===== verification/Encoding.thy ===== *)
theory Encoding
  imports Prelude
begin

text \<open>
  The byte encodings of Go's standard library the gateway uses: unpadded base64 with either
  alphabet (\<^verbatim>\<open>base64.RawStdEncoding\<close>, \<^verbatim>\<open>base64.RawURLEncoding\<close>), hexadecimal
  (\<^verbatim>\<open>hex.EncodeToString\<close>), the little-endian 64-bit integer of \<^verbatim>\<open>encoding/binary\<close>, the scan of
  \<^verbatim>\<open>fmt.Sscanf\<close> with a single \<^verbatim>\<open>%d\<close>, and \<^verbatim>\<open>strings.TrimSpace\<close>, \<^verbatim>\<open>strings.Trim\<close>,
  \<^verbatim>\<open>strings.Fields\<close> on ASCII input. Each decoder comes with the lemma that it inverts its encoder.
\<close>

section \<open>Base64\<close>

definition b64_std :: string where
  "b64_std = ''ABCDEFGHIJKLMNOPQRSTUVWXYZabcdefghijklmnopqrstuvwxyz0123456789+/''"

definition b64_url :: string where
  "b64_url = ''ABCDEFGHIJKLMNOPQRSTUVWXYZabcdefghijklmnopqrstuvwxyz0123456789-_''"

fun b64_index :: "string \<Rightarrow> char \<Rightarrow> nat option" where
  "b64_index [] c = None"
| "b64_index (x # xs) c = (if x = c then Some 0 else map_option Suc (b64_index xs c))"

text \<open>Three bytes are four six-bit groups; a last group of one or two bytes takes two or three.\<close>

fun b64_groups :: "nat list \<Rightarrow> nat list" where
  "b64_groups [] = []"
| "b64_groups [a] = [a div 4, a mod 4 * 16]"
| "b64_groups [a, b] = [a div 4, a mod 4 * 16 + b div 16, b mod 16 * 4]"
| "b64_groups (a # b # c # r) =
     [a div 4, a mod 4 * 16 + b div 16, b mod 16 * 4 + c div 64, c mod 64] @ b64_groups r"

text \<open>The decoder is not strict: it ignores the unused low bits of the last group.\<close>

fun b64_bytes :: "nat list \<Rightarrow> nat list option" where
  "b64_bytes [] = Some []"
| "b64_bytes [x] = None"
| "b64_bytes [x, y] = Some [x * 4 + y div 16]"
| "b64_bytes [x, y, z] = Some [x * 4 + y div 16, y mod 16 * 16 + z div 4]"
| "b64_bytes (x # y # z # w # r) =
     map_option (\<lambda>bs. [x * 4 + y div 16, y mod 16 * 16 + z div 4, z mod 4 * 64 + w] @ bs) (b64_bytes r)"

definition b64_encode :: "string \<Rightarrow> string \<Rightarrow> string" where
  "b64_encode alph s = map ((!) alph) (b64_groups (map of_char s))"

definition b64_decode :: "string \<Rightarrow> string \<Rightarrow> string option" where
  "b64_decode alph s =
     (case those (map (b64_index alph) (filter (\<lambda>c. c \<noteq> CHR 0x0A \<and> c \<noteq> CHR 0x0D) s)) of
        None \<Rightarrow> None
      | Some vs \<Rightarrow> map_option (map char_of) (b64_bytes vs))"

lemma b64_index_nth:
  "distinct alph \<Longrightarrow> i < length alph \<Longrightarrow> b64_index alph (alph ! i) = Some i"
proof (induction alph arbitrary: i)
  case Nil
  then show ?case by simp
next
  case (Cons x xs)
  then show ?case by (cases i) (auto simp: nth_mem)
qed

lemma pack [simp]:
  fixes x y k :: nat
  assumes "y < k"
  shows "(x * k + y) div k = x" "(x * k + y) mod k = y"
  using assms by simp_all

lemma byte_groups:
  fixes a b c :: nat
  assumes "a < 256" "b < 256" "c < 256"
  shows "a div 4 < 64" "a mod 4 * 16 < 64" "a mod 4 * 16 + b div 16 < 64" "b mod 16 * 4 < 64"
    "b mod 16 * 4 + c div 64 < 64" "c mod 64 < 64" "b div 16 < 16" "c div 64 < 4"
  using assms by linarith+

lemma b64_groups_less: "list_all (\<lambda>b. b < 256) bs \<Longrightarrow> v \<in> set (b64_groups bs) \<Longrightarrow> v < 64"
proof (induction bs rule: b64_groups.induct)
  case (2 a)
  then show ?case using byte_groups [of a 0 0] by auto
next
  case (3 a b)
  then show ?case using byte_groups [of a b 0] by auto
next
  case (4 a b c r)
  then show ?case using byte_groups [of a b c] by auto
qed simp

lemma b64_bytes_groups: "list_all (\<lambda>b. b < 256) bs \<Longrightarrow> b64_bytes (b64_groups bs) = Some bs"
proof (induction bs rule: b64_groups.induct)
  case (2 a)
  show ?case by simp
next
  case (3 a b)
  then have "b div 16 < 16" using byte_groups [of 0 b 0] by simp
  then show ?case by (simp only: b64_groups.simps b64_bytes.simps pack) simp
next
  case (4 a b c r)
  then have "b div 16 < 16" "c div 64 < 4" and IH: "b64_bytes (b64_groups r) = Some r" using byte_groups [of 0 b c] by simp_all
  then show ?case by (simp only: b64_groups.simps append.simps b64_bytes.simps pack IH) simp
qed simp

lemma those_map_Some: "(\<And>x. x \<in> set xs \<Longrightarrow> f x = Some (g x)) \<Longrightarrow> those (map f xs) = Some (map g xs)"
  by (induction xs) auto

lemma b64_round_trip:
  assumes "distinct alph" "length alph = 64" "CHR 0x0A \<notin> set alph" "CHR 0x0D \<notin> set alph"
  shows "b64_decode alph (b64_encode alph s) = Some s"
proof -
  let ?vs = "b64_groups (map of_char s) :: nat list"
  have b: "list_all (\<lambda>b. b < 256) (map of_char s :: nat list)" by (simp add: list_all_iff)
  have v: "v < 64" if "v \<in> set ?vs" for v using b64_groups_less [OF b that] .
  then have "filter (\<lambda>c. c \<noteq> CHR 0x0A \<and> c \<noteq> CHR 0x0D) (map ((!) alph) ?vs) = map ((!) alph) ?vs"
    using assms by (auto simp: filter_id_conv) (metis nth_mem)+
  moreover have "those (map (b64_index alph) (map ((!) alph) ?vs)) = Some ?vs"
    using v assms by (simp add: those_map_Some [where g = id, simplified] b64_index_nth)
  ultimately show ?thesis
    using b64_bytes_groups [OF b] by (simp add: b64_decode_def b64_encode_def comp_def)
qed

lemma b64_alphabets:
  "distinct b64_std" "length b64_std = 64" "CHR 0x0A \<notin> set b64_std" "CHR 0x0D \<notin> set b64_std"
  "distinct b64_url" "length b64_url = 64" "CHR 0x0A \<notin> set b64_url" "CHR 0x0D \<notin> set b64_url"
  by (simp_all add: b64_std_def b64_url_def)

lemma b64_std_round_trip [simp]: "b64_decode b64_std (b64_encode b64_std s) = Some s"
  by (rule b64_round_trip) (simp_all add: b64_alphabets)

lemma b64_encode_chars:
  assumes "length alph = 64" "c \<in> set (b64_encode alph s)"
  shows "c \<in> set alph"
proof -
  have b: "list_all (\<lambda>b. b < 256) (map of_char s :: nat list)" by (simp add: list_all_iff)
  from assms(2) obtain v where "v \<in> set (b64_groups (map of_char s))" "c = alph ! v"
    by (auto simp: b64_encode_def)
  then show ?thesis using b64_groups_less [OF b] assms(1) by (simp add: nth_mem)
qed

section \<open>Hexadecimal\<close>

definition hex_digit :: "nat \<Rightarrow> char" where
  "hex_digit n = ''0123456789abcdef'' ! n"

definition hex_encode :: "string \<Rightarrow> string" where
  "hex_encode s = concat (map (\<lambda>c. let n = of_char c :: nat in [hex_digit (n div 16), hex_digit (n mod 16)]) s)"

lemma hex_digit_inj: "i < 16 \<Longrightarrow> j < 16 \<Longrightarrow> hex_digit i = hex_digit j \<longleftrightarrow> i = j"
  unfolding hex_digit_def by (rule nth_eq_iff_index_eq) simp_all

lemma hex_encode_inj: "hex_encode s = hex_encode t \<longleftrightarrow> s = t"
proof (induction s arbitrary: t)
  case Nil
  then show ?case by (cases t) (simp_all add: hex_encode_def Let_def)
next
  case (Cons c s)
  show ?case
  proof (cases t)
    case Nil
    then show ?thesis by (simp add: hex_encode_def Let_def)
  next
    case (Cons d r)
    have "of_char x div 16 < (16 :: nat)" for x by (rule less_mult_imp_div_less) simp
    then have "hex_encode (c # s) = hex_encode (d # r) \<longleftrightarrow>
        of_char c div 16 = (of_char d div 16 :: nat) \<and> of_char c mod 16 = (of_char d mod 16 :: nat) \<and> hex_encode s = hex_encode r"
      by (simp add: hex_encode_def Let_def hex_digit_inj del: div_mult_self1)
    also have "\<dots> \<longleftrightarrow> of_char c = (of_char d :: nat) \<and> s = r"
      using Cons.IH by (metis div_mult_mod_eq)
    finally show ?thesis using Cons by simp
  qed
qed

section \<open>Little-endian integers\<close>

fun le_nat :: "string \<Rightarrow> nat" where
  "le_nat [] = 0"
| "le_nat (c # s) = of_char c + 256 * le_nat s"

fun le_bytes :: "nat \<Rightarrow> nat \<Rightarrow> string" where
  "le_bytes 0 n = []"
| "le_bytes (Suc k) n = char_of (n mod 256) # le_bytes k (n div 256)"

lemma le_nat_less: "le_nat s < 256 ^ length s"
proof (induction s)
  case Nil
  then show ?case by simp
next
  case (Cons c s)
  have "of_char c < (256 :: nat)" by simp
  moreover have "Suc (le_nat s) \<le> 256 ^ length s" using Cons by simp
  ultimately have "of_char c + 256 * le_nat s < 256 * 256 ^ length s" by linarith
  then show ?case by simp
qed

lemma le_nat_bytes: "n < 256 ^ k \<Longrightarrow> le_nat (le_bytes k n) = n"
proof (induction k arbitrary: n)
  case 0
  then show ?case by simp
next
  case (Suc k)
  then have "n div 256 < 256 ^ k" by (simp add: less_mult_imp_div_less mult.commute)
  then show ?case using Suc.IH by simp
qed

lemma length_le_bytes [simp]: "length (le_bytes k n) = k"
  by (induction k arbitrary: n) simp_all

lemma le_bytes_nat: "length s = k \<Longrightarrow> le_bytes k (le_nat s) = s"
proof (induction s arbitrary: k)
  case (Cons c s)
  have "of_char c < (256 :: nat)" by simp
  then have "(of_char c + 256 * le_nat s) mod 256 = of_char c" "(of_char c + 256 * le_nat s) div 256 = le_nat s" by simp_all
  with Cons show ?case by (cases k) simp_all
qed simp

section \<open>Scanning and trimming\<close>

definition is_space :: "char \<Rightarrow> bool" where
  "is_space c \<longleftrightarrow> c \<in> {CHR 0x09, CHR 0x0A, CHR 0x0B, CHR 0x0C, CHR 0x0D, CHR '' ''}"

text \<open>\<^verbatim>\<open>fmt.Sscanf (s, "v=%d", \<dots>)\<close>: the literal, blanks, an optional sign, digits; the rest of
  the input is ignored. A newline is not a blank for \<^verbatim>\<open>Sscanf\<close>.\<close>

definition scan_int :: "string \<Rightarrow> string \<Rightarrow> int option" where
  "scan_int lit s = (case cut_prefix s lit of
      None \<Rightarrow> None
    | Some r \<Rightarrow> let t = dropWhile (\<lambda>c. is_space c \<and> c \<noteq> CHR 0x0A) r;
                    (sign, u) = (case t of [] \<Rightarrow> ([], []) | c # v \<Rightarrow> if c = CHR ''-'' \<or> c = CHR ''+'' then ([c], v) else ([], t))
                in parse_int (sign @ takeWhile (\<lambda>c. digit_val c \<noteq> None) u))"

definition trim_left :: "(char \<Rightarrow> bool) \<Rightarrow> string \<Rightarrow> string" where
  "trim_left p s = dropWhile p s"

definition trim :: "(char \<Rightarrow> bool) \<Rightarrow> string \<Rightarrow> string" where
  "trim p s = rev (dropWhile p (rev (dropWhile p s)))"

definition trim_space :: "string \<Rightarrow> string" where
  "trim_space s = trim is_space s"

lemma trim_ends: "s \<noteq> [] \<Longrightarrow> \<not> p (hd s) \<Longrightarrow> \<not> p (last s) \<Longrightarrow> trim p s = s"
proof -
  have d: "t \<noteq> [] \<Longrightarrow> \<not> p (hd t) \<Longrightarrow> dropWhile p t = t" for t by (cases t) simp_all
  show "s \<noteq> [] \<Longrightarrow> \<not> p (hd s) \<Longrightarrow> \<not> p (last s) \<Longrightarrow> trim p s = s"
    by (simp add: trim_def d hd_rev)
qed

text \<open>\<^verbatim>\<open>strings.Fields\<close>: the maximal runs of non-space bytes.\<close>

function go_fields :: "string \<Rightarrow> string list" where
  "go_fields s = (let t = dropWhile is_space s in
     if t = [] then [] else takeWhile (\<lambda>c. \<not> is_space c) t # go_fields (dropWhile (\<lambda>c. \<not> is_space c) t))"
  by pat_completeness auto
termination
proof (relation "measure length")
  fix s t :: string
  assume t: "t = dropWhile is_space s" "t \<noteq> []"
  then have "\<not> is_space (hd t)" by (simp add: hd_dropWhile)
  then obtain c r where "t = c # r" "\<not> is_space c" using t(2) by (cases t) simp_all
  then have "length (dropWhile (\<lambda>c. \<not> is_space c) t) < length t" by (simp add: length_dropWhile_le le_imp_less_Suc)
  also have "\<dots> \<le> length s" unfolding t(1) by (rule length_dropWhile_le)
  finally show "(dropWhile (\<lambda>c. \<not> is_space c) t, s) \<in> measure length" by simp
qed simp

declare go_fields.simps [simp del]

text \<open>Simple case folding in UTF-8, of \<^verbatim>\<open>(?i)\<close> and of JSON member names, onto ASCII letters: besides these, the long s and the Kelvin sign.\<close>

fun fold_case :: "string \<Rightarrow> string" where
  "fold_case (a # b # c # s) =
     (if a = CHR 0xC5 \<and> b = CHR 0xBF then CHR ''s'' # fold_case (c # s)
      else if a = CHR 0xE2 \<and> b = CHR 0x84 \<and> c = CHR 0xAA then CHR ''k'' # fold_case s
      else lower_char a # fold_case (b # c # s))"
| "fold_case [a, b] = (if a = CHR 0xC5 \<and> b = CHR 0xBF then ''s'' else [lower_char a, lower_char b])"
| "fold_case [a] = [lower_char a]"
| "fold_case [] = []"

lemma digits_takeWhile: "takeWhile (\<lambda>c. \<exists>y. digit_val c = Some y) (show_nat n) = show_nat n"
  by (rule takeWhile_eq_all_conv [THEN iffD2]) (use digits_of_show_nat in blast)

lemma scan_int_itoa [simp]:
  assumes "is_i64 n"
  shows "scan_int lit (lit @ itoa n) = Some n"
proof (cases "n < 0")
  case True
  have "\<not> is_space (CHR ''-'')" by (simp add: is_space_def)
  then show ?thesis
    using True assms parse_int_itoa [OF assms] by (simp add: scan_int_def itoa_def digits_takeWhile)
next
  case False
  obtain c r where cr: "show_nat (nat n) = c # r" by (cases "show_nat (nat n)") simp_all
  then have c: "digit_val c \<noteq> None" by (rule show_nat_hd)
  then have "c \<noteq> CHR ''-''" "c \<noteq> CHR ''+''" "\<not> is_space c" by (auto simp: is_space_def digit_val_def)
  then show ?thesis
    using False parse_int_itoa [OF assms] digits_takeWhile [of "nat n"]
    by (simp add: scan_int_def itoa_def cr)
qed

end
