(* ===== verification/Placement.thy ===== *)
theory Placement
  imports Float64 Encoding
begin

text \<open>
  Sizing and placement of a model: \<^verbatim>\<open>ingest/vram.go\<close>, \<^verbatim>\<open>scheduler/binpacking.go\<close>,
  \<^verbatim>\<open>quant/pipeline.go\<close>, \<^verbatim>\<open>quant/placement.go\<close>, \<^verbatim>\<open>inference/vllm_args.go\<close>,
  \<^verbatim>\<open>vllm_kvcache.go\<close>, \<^verbatim>\<open>vllm_batching.go\<close>, \<^verbatim>\<open>vllm_chunked_prefill.go\<close> and
  \<^verbatim>\<open>lora/engine_config.go\<close>. Go's \<^verbatim>\<open>int\<close> and \<^verbatim>\<open>int64\<close> are integers with the
  wrap-around of 64 bits written out (\<open>i64\<close>); a \<^verbatim>\<open>float64\<close> is a rational, an infinity or NaN.
\<close>

section \<open>VRAM footprint (\<^verbatim>\<open>ingest/vram.go\<close>)\<close>

record VRAMEstimate =
  WeightsBytes :: int
  KVCacheBytes :: int
  TotalBytes :: int

record VRAMFootprint =
  FP16 :: VRAMEstimate
  FP8 :: VRAMEstimate
  INT4 :: VRAMEstimate

record ModelGeometry =
  NumLayers :: int
  NumAttentionHeads :: int
  NumKeyValueHeads :: int
  HiddenSize :: int
  ContextLength :: int

definition KVCacheBytesPerToken :: "ModelGeometry \<Rightarrow> int" where
  "KVCacheBytesPerToken g =
     (if NumLayers g \<le> 0 \<or> NumAttentionHeads g \<le> 0 \<or> HiddenSize g \<le> 0 then 0
      else let kvHeads = (if NumKeyValueHeads g \<le> 0 then NumAttentionHeads g else NumKeyValueHeads g);
               headDim = tdiv (HiddenSize g) (NumAttentionHeads g)
           in i64 (i64 (i64 (i64 (2 * NumLayers g) * kvHeads) * headDim) * 2))"

definition kvCacheBytes :: "ModelGeometry \<Rightarrow> int" where
  "kvCacheBytes g = (if ContextLength g \<le> 0 then 0 else i64 (KVCacheBytesPerToken g * ContextLength g))"

definition int4WeightBytes :: "int \<Rightarrow> int" where
  "int4WeightBytes paramCount = tdiv (i64 (paramCount + 1)) 2"

definition ComputeVRAMFootprint :: "int \<Rightarrow> ModelGeometry \<Rightarrow> VRAMFootprint" where
  "ComputeVRAMFootprint paramCount geometry =
     (let kv = kvCacheBytes geometry;
          build = (\<lambda>w. \<lparr>WeightsBytes = w, KVCacheBytes = kv, TotalBytes = i64 (w + kv)\<rparr>)
      in \<lparr>FP16 = build (i64 (paramCount * 2)), FP8 = build (i64 (paramCount * 1)),
          INT4 = build (int4WeightBytes paramCount)\<rparr>)"

section \<open>Bin packing (\<^verbatim>\<open>scheduler/binpacking.go\<close>)\<close>

record NodeCapacity =
  NodeID :: string
  FreeVRAMBytes :: int

datatype placement_error = ErrNoCapacity int int nat | ErrNoFP8 placement_error

fun select_loop :: "NodeCapacity list \<Rightarrow> int \<Rightarrow> NodeCapacity option \<Rightarrow> int \<Rightarrow> NodeCapacity option \<times> int" where
  "select_loop [] req best largest = (best, largest)"
| "select_loop (n # ns) req best largest =
     (let largest' = (if largest < FreeVRAMBytes n then FreeVRAMBytes n else largest)
      in if FreeVRAMBytes n < req then select_loop ns req best largest'
         else case best of
             None \<Rightarrow> select_loop ns req (Some n) largest'
           | Some b \<Rightarrow> select_loop ns req (if FreeVRAMBytes n < FreeVRAMBytes b then Some n else best) largest')"

definition SelectNode :: "NodeCapacity list \<Rightarrow> int \<Rightarrow> placement_error + NodeCapacity" where
  "SelectNode nodes req = (case select_loop nodes req None 0 of
      (None, largest) \<Rightarrow> Inl (ErrNoCapacity req largest (length nodes))
    | (Some b, _) \<Rightarrow> Inr b)"

section \<open>Precision (\<^verbatim>\<open>quant\<close>)\<close>

datatype Precision = PrecisionFP16 | PrecisionFP8 | PrecisionINT4 | PrecisionOther string

definition SelectPrecision :: "bool \<Rightarrow> int \<Rightarrow> int \<Rightarrow> int \<Rightarrow> Precision" where
  "SelectPrecision fp8Supported fp16Bytes fp8Bytes vramBytesPerGPU =
     (if fp16Bytes \<le> vramBytesPerGPU then PrecisionFP16
      else if fp8Supported \<and> fp8Bytes \<le> vramBytesPerGPU then PrecisionFP8 else PrecisionFP16)"

definition SelectPlacement :: "bool \<Rightarrow> VRAMFootprint \<Rightarrow> NodeCapacity list \<Rightarrow> placement_error + (Precision \<times> NodeCapacity)" where
  "SelectPlacement fp8Supported fp nodes = (case SelectNode nodes (TotalBytes (FP16 fp)) of
      Inr node \<Rightarrow> Inr (PrecisionFP16, node)
    | Inl e \<Rightarrow> if \<not> fp8Supported then Inl (ErrNoFP8 e)
        else case SelectNode nodes (TotalBytes (FP8 fp)) of
            Inl e' \<Rightarrow> Inl e' | Inr node \<Rightarrow> Inr (PrecisionFP8, node))"

section \<open>FP8 capability (\<^verbatim>\<open>fp8_capability.go\<close>)\<close>

definition FP8MinComputeCapability :: rat where "FP8MinComputeCapability = 89 / 10"

datatype fp8_error = CapabilityParse string parse_error | ProbeFailed string | ProbeEmpty

definition DetectFP8Support :: "string \<Rightarrow> fp8_error + bool" where
  "DetectFP8Support computeCapability = (case ParseFloat (trim_space computeCapability) of
      Inl e \<Rightarrow> Inl (CapabilityParse computeCapability e) | Inr cc \<Rightarrow> Inr (f64_le (FFin (fl FP8MinComputeCapability)) cc))"

text \<open>The first line of the output of \<^verbatim>\<open>nvidia-smi\<close> that is not blank decides.\<close>

fun probe_lines :: "string list \<Rightarrow> fp8_error + bool" where
  "probe_lines [] = Inl ProbeEmpty"
| "probe_lines (line # ls) = (if trim_space line = [] then probe_lines ls else DetectFP8Support line)"

definition ProbeNodeFP8Support :: "string + string \<Rightarrow> fp8_error + bool" where
  "ProbeNodeFP8Support out = (case out of Inl e \<Rightarrow> Inl (ProbeFailed e) | Inr s \<Rightarrow> probe_lines (go_split s (CHR 0x0A)))"

text \<open>A capability \<^verbatim>\<open>major.minor\<close> is read exactly enough: rounding moves no value across the threshold.\<close>

lemma parse_capability:
  assumes "b < 10"
  shows "parse_unsigned (show_nat a @ CHR ''.'' # show_nat b) = Some (of_nat a + of_nat b / 10)"
proof -
  have d: "list_all is_digit (show_nat n)" for n using digits_of_show_nat [of _ n] by (auto simp: list_all_iff is_digit_def)
  have p: "\<not> is_digit (CHR ''.'')" by (simp add: is_digit_def digit_val_def)
  have w: "takeWhile is_digit (show_nat n @ CHR ''.'' # cs) = show_nat n" "dropWhile is_digit (show_nat n @ CHR ''.'' # cs) = CHR ''.'' # cs"
    "takeWhile is_digit (show_nat n) = show_nat n" "dropWhile is_digit (show_nat n) = []" for n cs
    using d [of n] p by (auto simp: takeWhile_append dropWhile_append list_all_iff)
  have s: "show_nat b = [digit b]" using assms by (subst show_nat.simps) simp
  have v: "digits_value (show_nat a @ show_nat b) = 10 * int a + int b"
    using assms by (simp add: s digits_value_append)
  show ?thesis using assms by (simp add: parse_unsigned_def w v parse_exponent_def, simp add: s power_int_def add_divide_distrib)
qed

lemma fp8_threshold:
  assumes "a < 2 ^ 50" "b < 10"
  shows "fl (89 / 10) \<le> fl (of_nat a + of_nat b / 10) \<longleftrightarrow> 89 \<le> 10 * a + b"
proof -
  let ?x = "of_nat a + of_nat b / 10 :: rat"
  have e: "\<bar>fl y - y\<bar> \<le> 1 / 1000" if "0 \<le> y" "y < 2 ^ 4" for y
  proof (cases "y = 0")
    case False
    then have "ulp y \<le> 2 powi (int 4 - 53)" using that by (intro ulp_le) simp_all
    then have "ulp y \<le> 1 / 1000" by (simp add: power_int_def power_one_over)
    then show ?thesis using fl_error [of y] by linarith
  qed (simp add: fl_def)
  have t: "\<bar>fl (89 / 10) - 89 / 10\<bar> \<le> 1 / 1000" by (rule e) simp_all
  consider (eq) "10 * a + b = 89" | (less) "10 * a + b \<le> 88" | (more) "9 \<le> a" using assms(2) by linarith
  then show ?thesis
  proof cases
    case eq
    then have "a = 8 \<and> b = 9" using assms(2) by presburger
    then show ?thesis by simp
  next
    case less
    then have "of_nat (10 * a + b) \<le> (of_nat 88 :: rat)" by (subst of_nat_le_iff)
    then have x: "?x \<le> 88 / 10" by simp
    then have "\<bar>fl ?x - ?x\<bar> \<le> 1 / 1000" by (intro e) simp_all
    then have "fl ?x < fl (89 / 10)" using x t unfolding abs_le_iff by linarith
    then show ?thesis using less by simp
  next
    case more
    have n: "(9::rat) \<le> of_nat a" using more by (metis of_nat_le_iff of_nat_numeral)
    have "(of_nat a :: rat) < of_nat (2 ^ 50)" using assms(1) by (subst of_nat_less_iff)
    moreover have "(of_nat b :: rat) < of_nat 10" using assms(2) by (subst of_nat_less_iff)
    ultimately have "of_int (int 9) \<le> fl ?x" using n by (intro fl_above_int) simp_all
    then have "fl (89 / 10) \<le> fl ?x" using t unfolding abs_le_iff by simp
    then show ?thesis using more by simp
  qed
qed

lemma detect_fp8:
  assumes "a < 2 ^ 50" "b < 10"
  shows "DetectFP8Support (show_nat a @ CHR ''.'' # show_nat b) = Inr (89 \<le> 10 * a + b)"
proof -
  let ?s = "show_nat a @ CHR ''.'' # show_nat b"
  have dig: "digit_val c \<noteq> None \<Longrightarrow> \<not> is_space c \<and> c \<noteq> CHR ''-'' \<and> c \<noteq> CHR ''+'' \<and> lower_char c \<noteq> CHR ''i'' \<and> lower_char c \<noteq> CHR ''n''" for c
    by (auto simp: digit_val_def is_space_def lower_char_def Let_def split: if_splits)
  obtain c r where c: "show_nat a = c # r" by (cases "show_nat a") simp_all
  note hc = dig [OF show_nat_hd [OF c]]
  have l: "last ?s \<in> set (show_nat b)" by simp
  have t: "trim_space ?s = ?s" unfolding trim_space_def
    using hc dig [OF digits_of_show_nat [OF l]] by (intro trim_ends) (simp_all add: c)
  have x: "of_nat a + of_nat b / 10 < max_double_bound"
  proof -
    have "(of_nat a :: rat) < of_nat (2 ^ 50)" using assms(1) by (subst of_nat_less_iff)
    moreover have "(of_nat b :: rat) < of_nat 10" using assms(2) by (subst of_nat_less_iff)
    ultimately show ?thesis by (simp add: max_double_bound_def)
  qed
  have sp: "special_value ?s False = None" "to_lower ?s \<noteq> ''nan''"
    using hc by (auto simp: special_value_def to_lower_def c)
  have "ParseFloat ?s = Inr (FFin (fl (of_nat a + of_nat b / 10)))"
    using hc x sp by (simp add: ParseFloat_def c Let_def finite_double_def parse_capability [OF assms(2), of a, unfolded c, simplified])
  then show ?thesis using fp8_threshold [OF assms] by (simp add: DetectFP8Support_def t FP8MinComputeCapability_def)
qed

section \<open>Engine arguments (\<^verbatim>\<open>inference/vllm_args.go\<close>)\<close>

datatype float64 = Fin rat | NaN | PosInf | NegInf

fun f_less :: "float64 \<Rightarrow> float64 \<Rightarrow> bool" where
  "f_less (Fin x) (Fin y) = (x < y)"
| "f_less NaN _ = False"
| "f_less _ NaN = False"
| "f_less NegInf NegInf = False"
| "f_less NegInf _ = True"
| "f_less _ NegInf = False"
| "f_less PosInf _ = False"
| "f_less _ PosInf = True"

definition MinGPUMemoryUtilization :: float64 where
  "MinGPUMemoryUtilization = Fin (80 / 100)"

definition MaxGPUMemoryUtilization :: float64 where
  "MaxGPUMemoryUtilization = Fin (85 / 100)"

definition ClampGPUMemoryUtilization :: "float64 \<Rightarrow> float64" where
  "ClampGPUMemoryUtilization requested =
     (if f_less requested MinGPUMemoryUtilization then MinGPUMemoryUtilization
      else if f_less MaxGPUMemoryUtilization requested then MaxGPUMemoryUtilization else requested)"

record NodeHardwareProfile =
  GPUCount :: int
  VRAMBytesPerGPU :: int

record EngineArgs =
  MaxModelLen :: int
  DType :: string
  Quantization :: string
  TensorParallelSize :: int
  GPUMemoryUtilization :: float64

datatype engine_error =
    UnknownPrecision string
  | InvalidProfile
  | ErrModelExceedsNodeCapacity
  | InvalidGeometry
  | ErrKVCacheBudgetTooSmall
  | EngineDivideByZero

fun dtypeForPrecision :: "Precision \<Rightarrow> engine_error + string \<times> string" where
  "dtypeForPrecision PrecisionFP16 = Inr (''float16'', [])"
| "dtypeForPrecision PrecisionFP8 = Inr (''float16'', ''fp8'')"
| "dtypeForPrecision PrecisionINT4 = Inr (''float16'', ''awq'')"
| "dtypeForPrecision (PrecisionOther p) = Inl (UnknownPrecision p)"

text \<open>The search of the degree; 0 when no degree up to the number of GPUs is enough.\<close>

function tp_loop :: "int \<Rightarrow> int \<Rightarrow> int \<Rightarrow> int \<Rightarrow> int" where
  "tp_loop degree count vram footprint =
     (if degree \<le> count then if footprint \<le> i64 (degree * vram) then degree else tp_loop (degree + 1) count vram footprint
      else 0)"
  by auto
termination by (relation "measure (\<lambda>(d, c, _, _). nat (c + 1 - d))") auto

declare tp_loop.simps [simp del]

definition RenderEngineArgs ::
  "ModelGeometry \<Rightarrow> int \<Rightarrow> Precision \<Rightarrow> NodeHardwareProfile \<Rightarrow> float64 \<Rightarrow> engine_error + EngineArgs" where
  "RenderEngineArgs geometry footprintBytes precision profile requested = (case dtypeForPrecision precision of
      Inl e \<Rightarrow> Inl e
    | Inr (dt, quantization) \<Rightarrow>
        if GPUCount profile \<le> 0 \<or> VRAMBytesPerGPU profile \<le> 0 then Inl InvalidProfile
        else let tp = tp_loop 1 (GPUCount profile) (VRAMBytesPerGPU profile) footprintBytes
             in if tp = 0 then Inl ErrModelExceedsNodeCapacity
                else Inr \<lparr>MaxModelLen = ContextLength geometry, DType = dt, Quantization = quantization,
                  TensorParallelSize = tp, GPUMemoryUtilization = ClampGPUMemoryUtilization requested\<rparr>)"

section \<open>KV cache, batching, chunked prefill\<close>

definition KVCacheBlockSize :: int where "KVCacheBlockSize = 16"

record KVCacheConfig =
  BlockSize :: int
  NumGPUBlocks :: int

definition RenderKVCacheConfig :: "ModelGeometry \<Rightarrow> int \<Rightarrow> engine_error + KVCacheConfig" where
  "RenderKVCacheConfig geometry budgetBytes =
     (let bytesPerToken = KVCacheBytesPerToken geometry
      in if bytesPerToken \<le> 0 then Inl InvalidGeometry
         else let bytesPerBlock = i64 (bytesPerToken * KVCacheBlockSize)
              in if bytesPerBlock = 0 then Inl EngineDivideByZero
                 else let numBlocks = i64 (tdiv budgetBytes bytesPerBlock)
                      in if numBlocks \<le> 0 then Inl ErrKVCacheBudgetTooSmall
                         else Inr \<lparr>BlockSize = KVCacheBlockSize, NumGPUBlocks = numBlocks\<rparr>)"

definition DefaultMaxBatchedTokenCeiling :: int where "DefaultMaxBatchedTokenCeiling = 8192"

record BatchingConfig =
  MaxNumBatchedTokens :: int
  MaxNumSeqs :: int

definition RenderBatchingConfig :: "KVCacheConfig \<Rightarrow> int \<Rightarrow> BatchingConfig" where
  "RenderBatchingConfig kv maxModelLen =
     (let totalCacheTokens = i64 (BlockSize kv * NumGPUBlocks kv);
          maxNumSeqs = (if 0 < maxModelLen then (let n = tdiv totalCacheTokens maxModelLen in if n < 1 then 1 else n) else 1);
          t1 = (if DefaultMaxBatchedTokenCeiling < totalCacheTokens then DefaultMaxBatchedTokenCeiling else totalCacheTokens);
          t2 = (if t1 < 1 then 1 else t1)
      in \<lparr>MaxNumBatchedTokens = t2, MaxNumSeqs = maxNumSeqs\<rparr>)"

definition RenderChunkedPrefillConfig :: "int \<Rightarrow> BatchingConfig \<Rightarrow> bool" where
  "RenderChunkedPrefillConfig maxModelLen batching \<longleftrightarrow> MaxNumBatchedTokens batching < maxModelLen"

section \<open>Adapters (\<^verbatim>\<open>lora/engine_config.go\<close>)\<close>

record LoraEngineConfig =
  LoraEnabled :: bool
  MaxLoRAs :: int
  MaxLoRARank :: int

definition RenderEngineConfig :: "int \<Rightarrow> int list \<Rightarrow> LoraEngineConfig" where
  "RenderEngineConfig maxResidentAdapters ranks =
     (if maxResidentAdapters \<le> 0 \<or> ranks = [] then \<lparr>LoraEnabled = False, MaxLoRAs = 0, MaxLoRARank = 0\<rparr>
      else \<lparr>LoraEnabled = True, MaxLoRAs = maxResidentAdapters,
            MaxLoRARank = fold (\<lambda>r m. if m < r then r else m) ranks 0\<rparr>)"

section \<open>Best fit\<close>

definition node_fits :: "int \<Rightarrow> NodeCapacity \<Rightarrow> bool" where
  "node_fits req n \<longleftrightarrow> req \<le> FreeVRAMBytes n"

definition best_fit :: "NodeCapacity list \<Rightarrow> int \<Rightarrow> NodeCapacity \<Rightarrow> bool" where
  "best_fit nodes req n \<longleftrightarrow> n \<in> set nodes \<and> node_fits req n \<and>
     (\<forall>m \<in> set nodes. node_fits req m \<longrightarrow> FreeVRAMBytes n \<le> FreeVRAMBytes m)"

lemma select_loop_best:
  "fst (select_loop ns req best largest) = (case best of
      None \<Rightarrow> (if filter (node_fits req) ns = [] then None else Some (arg_min_list FreeVRAMBytes (filter (node_fits req) ns)))
    | Some b \<Rightarrow> Some (arg_min_list FreeVRAMBytes (b # filter (node_fits req) ns)))"
proof (induction ns arbitrary: best largest)
  case Nil
  then show ?case by (simp split: option.split)
next
  case (Cons n ns)
  have "arg_min_list FreeVRAMBytes (b # n # l) =
     arg_min_list FreeVRAMBytes ((if FreeVRAMBytes n < FreeVRAMBytes b then n else b) # l)" for b l
    by (cases l) (auto simp: Let_def not_less)
  then show ?case using Cons.IH by (simp add: Let_def node_fits_def split: option.split)
qed

lemma select_loop_largest:
  "snd (select_loop ns req best largest) = Max (insert largest (FreeVRAMBytes ` set ns))"
proof (induction ns arbitrary: best largest)
  case Nil
  then show ?case by simp
next
  case (Cons n ns)
  have "Max (insert largest (insert (FreeVRAMBytes n) F)) =
     Max (insert (if largest < FreeVRAMBytes n then FreeVRAMBytes n else largest) F)" if "finite F" for F
    using that by (cases "F = {}") (auto simp: max_def)
  then show ?case using Cons.IH by (simp add: Let_def split: option.split)
qed

lemma SelectNode_argmin: "SelectNode nodes req =
   (if filter (node_fits req) nodes = [] then Inl (ErrNoCapacity req (Max (insert 0 (FreeVRAMBytes ` set nodes))) (length nodes))
    else Inr (arg_min_list FreeVRAMBytes (filter (node_fits req) nodes)))"
proof -
  have "select_loop nodes req None 0 = (fst (select_loop nodes req None 0), snd (select_loop nodes req None 0))" by simp
  then show ?thesis unfolding SelectNode_def select_loop_best select_loop_largest by simp
qed

lemma arg_min_best_fit:
  "filter (node_fits req) nodes \<noteq> [] \<Longrightarrow> best_fit nodes req (arg_min_list FreeVRAMBytes (filter (node_fits req) nodes))"
proof -
  let ?l = "filter (node_fits req) nodes"
  assume l: "?l \<noteq> []"
  have "arg_min_list FreeVRAMBytes ?l \<in> set ?l" using l by (rule arg_min_list_in)
  moreover have "FreeVRAMBytes (arg_min_list FreeVRAMBytes ?l) \<le> FreeVRAMBytes m" if "m \<in> set ?l" for m
    using that l f_arg_min_list_f [OF l, of FreeVRAMBytes] by simp
  ultimately show ?thesis by (simp add: best_fit_def)
qed

lemma SelectNode_Inr: "SelectNode nodes req = Inr n \<Longrightarrow> best_fit nodes req n"
  using arg_min_best_fit by (auto simp: SelectNode_argmin split: if_splits)

lemma SelectNode_Inl: "SelectNode nodes req = Inl e \<Longrightarrow> n \<in> set nodes \<Longrightarrow> FreeVRAMBytes n < req"
  by (auto simp: SelectNode_argmin node_fits_def filter_empty_conv not_le split: if_splits)

section \<open>Properties\<close>



definition geometry_7b :: ModelGeometry where
  "geometry_7b = \<lparr>NumLayers = 32, NumAttentionHeads = 32, NumKeyValueHeads = 8, HiddenSize = 4096, ContextLength = 8192\<rparr>"


lemma tp_loop_spec:
  assumes "is_i64 (count * vram)" "0 < vram" "0 < degree"
  shows "if tp_loop degree count vram fp = 0 then \<forall>d. degree \<le> d \<and> d \<le> count \<longrightarrow> d * vram < fp
    else degree \<le> tp_loop degree count vram fp \<and> tp_loop degree count vram fp \<le> count
      \<and> fp \<le> tp_loop degree count vram fp * vram \<and> (\<forall>d. degree \<le> d \<and> d < tp_loop degree count vram fp \<longrightarrow> d * vram < fp)"
  using assms
proof (induction degree count vram fp rule: tp_loop.induct)
  case (1 degree count vram fp)
  show ?case
  proof (cases "degree \<le> count")
    case False
    then show ?thesis by (simp add: tp_loop.simps)
  next
    case True
    have "degree * vram \<le> count * vram" using True 1(3) by (intro mult_right_mono) simp_all
    moreover have "count * vram < 2 ^ 63" using 1(2) by (simp only: is_i64_def)
    moreover have "0 \<le> degree * vram" using 1(3,4) by simp
    ultimately have i: "i64 (degree * vram) = degree * vram"
      by (intro i64_id_nonneg) linarith+
    show ?thesis
    proof (cases "fp \<le> degree * vram")
      case True
      then show ?thesis using \<open>degree \<le> count\<close> 1(4) i by (simp add: tp_loop.simps)
    next
      case f: False
      have s: "tp_loop degree count vram fp = tp_loop (degree + 1) count vram fp"
        using True f i by (simp add: tp_loop.simps [of degree])
      have c: "degree \<le> d \<longleftrightarrow> d = degree \<or> degree + 1 \<le> d" for d by auto
      show ?thesis using 1(1) True f i 1(2-4) unfolding s c by (auto split: if_splits)
    qed
  qed
qed

text \<open>
  Engine arguments: on a valid node profile whose aggregate VRAM does not wrap, the rendered tensor
  parallel degree is the least number of GPUs whose VRAM covers the footprint, the call fails with the
  capacity error exactly when all the GPUs together are too small, and a memory utilization that is a
  number is forced into [0.80, 0.85].
\<close>

lemma engine_args_minimal:
  assumes "0 < GPUCount pr" and "0 < VRAMBytesPerGPU pr" and "is_i64 (GPUCount pr * VRAMBytesPerGPU pr)"
    and "dtypeForPrecision prec = Inr dq"
  shows "case RenderEngineArgs g fp prec pr (Fin u) of
      Inl e \<Rightarrow> e = ErrModelExceedsNodeCapacity \<and> GPUCount pr * VRAMBytesPerGPU pr < fp
    | Inr a \<Rightarrow> 1 \<le> TensorParallelSize a \<and> TensorParallelSize a \<le> GPUCount pr
        \<and> fp \<le> TensorParallelSize a * VRAMBytesPerGPU pr
        \<and> (\<forall>d. 1 \<le> d \<and> d < TensorParallelSize a \<longrightarrow> d * VRAMBytesPerGPU pr < fp)
        \<and> (\<exists>v. GPUMemoryUtilization a = Fin v \<and> 4 / 5 \<le> v \<and> v \<le> 17 / 20 \<and> (4 / 5 \<le> u \<and> u \<le> 17 / 20 \<longrightarrow> v = u))"
proof -
  let ?tp = "tp_loop 1 (GPUCount pr) (VRAMBytesPerGPU pr) fp"
  have c: "\<exists>v. ClampGPUMemoryUtilization (Fin u) = Fin v \<and> 4 / 5 \<le> v \<and> v \<le> 17 / 20 \<and> (4 / 5 \<le> u \<and> u \<le> 17 / 20 \<longrightarrow> v = u)"
    by (cases "u < 4 / 5"; cases "17 / 20 < u")
      (auto simp: ClampGPUMemoryUtilization_def MinGPUMemoryUtilization_def MaxGPUMemoryUtilization_def
        intro: exI [of _ "4 / 5"] exI [of _ "17 / 20"])
  show ?thesis
    using tp_loop_spec [OF assms(3,2), of 1 fp] assms c
    by (cases "?tp = 0"; cases dq) (auto simp: RenderEngineArgs_def Let_def)
qed

lemma engine_args_minimal_witness:
  "case RenderEngineArgs geometry_7b 140 PrecisionFP8 \<lparr>GPUCount = 4, VRAMBytesPerGPU = 80\<rparr> (Fin (99 / 100)) of
      Inl e \<Rightarrow> False | Inr a \<Rightarrow> TensorParallelSize a \<le> 4 \<and> 140 \<le> TensorParallelSize a * 80"
proof -
  have "is_i64 (GPUCount \<lparr>GPUCount = 4, VRAMBytesPerGPU = 80\<rparr> * VRAMBytesPerGPU \<lparr>GPUCount = 4, VRAMBytesPerGPU = 80\<rparr>)"
    by (simp add: is_i64_def)
  note k = engine_args_minimal [OF _ _ this, of PrecisionFP8 "(''float16'', ''fp8'')" 140 "99 / 100" geometry_7b]
  show ?thesis using k by (auto split: sum.splits)
qed

lemma div_floor: "0 < (b::int) \<Longrightarrow> a div b * b \<le> a" "0 < (b::int) \<Longrightarrow> a < (a div b + 1) * b"
proof -
  assume b: "0 < b"
  have "a = a div b * b + a mod b" "(a div b + 1) * b = a div b * b + b" by (simp_all add: algebra_simps)
  then show "a div b * b \<le> a" "a < (a div b + 1) * b"
    using pos_mod_sign [OF b, of a] pos_mod_bound [OF b, of a] by linarith+
qed

text \<open>
  KV cache and batching: when the block size does not wrap, the cache takes the largest number of
  whole blocks of the budget and the call fails exactly when the budget is below one block; the
  batching derived from it admits at least one sequence and never more full-length sequences than the
  budget holds (beyond that one), with a step budget between 1 and the ceiling, and chunked prefill is
  off only when a full-length prompt fits one step and the budget.
\<close>

lemma kv_batching_within_budget:
  assumes "0 < KVCacheBytesPerToken g" and "KVCacheBytesPerToken g * 16 < 2 ^ 63" and "0 \<le> budget" and "budget < 2 ^ 63"
    and "0 < len"
  shows "case RenderKVCacheConfig g budget of
      Inl e \<Rightarrow> e = ErrKVCacheBudgetTooSmall \<and> budget < KVCacheBytesPerToken g * 16
    | Inr kv \<Rightarrow> (let b = RenderBatchingConfig kv len; blk = KVCacheBytesPerToken g * 16 in
        NumGPUBlocks kv * blk \<le> budget \<and> budget < (NumGPUBlocks kv + 1) * blk
        \<and> 1 \<le> MaxNumSeqs b \<and> (MaxNumSeqs b = 1 \<or> MaxNumSeqs b * len * KVCacheBytesPerToken g \<le> budget)
        \<and> 1 \<le> MaxNumBatchedTokens b \<and> MaxNumBatchedTokens b \<le> 8192
        \<and> (\<not> RenderChunkedPrefillConfig len b \<longrightarrow> len \<le> MaxNumBatchedTokens b \<and> len * KVCacheBytesPerToken g \<le> budget))"
proof -
  let ?t = "KVCacheBytesPerToken g"
  let ?blk = "?t * 16"
  let ?n = "budget div ?blk"
  have blk: "i64 ?blk = ?blk" "0 < ?blk" using assms(1,2) by (auto intro!: i64_id_nonneg)
  have le: "?n * ?blk \<le> budget" "budget < (?n + 1) * ?blk"
    using blk(2) by (rule div_floor)+
  have n0: "0 \<le> ?n" using assms(3) blk(2) by (simp add: pos_imp_zdiv_nonneg_iff)
  have "16 * ?n * 1 \<le> 16 * ?n * ?t" using n0 assms(1) by (intro mult_left_mono) simp_all
  then have nb: "16 * ?n \<le> budget" using le(1) by (simp add: ac_simps)
  have i: "i64 ?n = ?n" "i64 (16 * ?n) = 16 * ?n" using n0 nb assms(4) by (auto intro!: i64_id_nonneg)
  have seqs: "(16 * ?n) div len * len * ?t \<le> budget"
  proof -
    have "(16 * ?n) div len * len \<le> 16 * ?n" using assms(5) by (rule div_floor(1))
    then have "(16 * ?n) div len * len * ?t \<le> 16 * ?n * ?t" using assms(1) by (simp add: mult_right_mono)
    also have "\<dots> \<le> budget" using le(1) by (simp add: ac_simps)
    finally show ?thesis .
  qed
  have kv: "RenderKVCacheConfig g budget =
     (if ?n \<le> 0 then Inl ErrKVCacheBudgetTooSmall else Inr \<lparr>BlockSize = 16, NumGPUBlocks = ?n\<rparr>)"
    using assms(1,3) blk i by (simp add: RenderKVCacheConfig_def KVCacheBlockSize_def Let_def)
  show ?thesis
  proof (cases "?n \<le> 0")
    case True
    then have "?n = 0" using n0 by simp
    then have "budget < ?blk" using le(2) by simp
    then show ?thesis using True by (simp add: kv)
  next
    case False
    have "len * ?t \<le> budget" if "len \<le> 16 * ?n"
    proof -
      have "len * ?t \<le> 16 * ?n * ?t" using that assms(1) by (intro mult_right_mono) simp_all
      also have "\<dots> = ?n * ?blk" by (simp add: ac_simps)
      finally show ?thesis using le(1) by simp
    qed
    moreover have "0 \<le> 16 * ?n" using n0 by simp
    ultimately show ?thesis using False seqs le assms(5) i(2)
      by (simp add: kv RenderBatchingConfig_def RenderChunkedPrefillConfig_def Let_def DefaultMaxBatchedTokenCeiling_def)
  qed
qed

lemma kv_batching_within_budget_witness:
  "case RenderKVCacheConfig geometry_7b 10000000000 of Inl e \<Rightarrow> False
   | Inr kv \<Rightarrow> NumGPUBlocks kv * 2097152 \<le> 10000000000"
proof -
  have t: "KVCacheBytesPerToken geometry_7b = 131072" by code_simp
  show ?thesis using kv_batching_within_budget [of geometry_7b 10000000000 8192]
    by (auto simp: t Let_def split: sum.splits)
qed

end
