(* ===== verification/Failures.thy ===== *)
theory Failures
  imports Redis Float64
begin

text \<open>
  Failed deployments: classification of Nomad's allocation and evaluation failures
  (\<^verbatim>\<open>scheduler/failures.go\<close>), the retry policy (\<^verbatim>\<open>scheduler/retry.go\<close>) and the ratchet on a
  node's usable VRAM (\<^verbatim>\<open>scheduler/oom_recovery.go\<close>). A Go map that is iterated is an association
  list in the order of the iteration; the properties hold for every order. The random number of the
  jitter is an argument.
\<close>

section \<open>Classification (\<^verbatim>\<open>failures.go\<close>)\<close>

datatype FailureClass = FailurePlacement | FailureImagePull | FailureOOMKilled | FailureTaskCrash | FailureUnknown

record AllocationFailureError =
  fe_Class :: FailureClass
  fe_AllocID :: string
  fe_TaskName :: string
  fe_Message :: string

record task_event =
  ev_Type :: string
  ev_DisplayMessage :: string
  ev_Message :: string
  ev_Details :: "(string \<times> string) list"

record failed_alloc =
  fa_ID :: string
  fa_ClientStatus :: string
  fa_TaskStates :: "(string \<times> task_event option list option) list"

text \<open>\<^verbatim>\<open>api.TaskDriverFailure\<close>, \<^verbatim>\<open>api.TaskNotRestarting\<close>, \<^verbatim>\<open>api.TaskTerminated\<close> of the Nomad client are
  the arguments \<open>D\<close>, \<open>N\<close>, \<open>T\<close> of a record of constants.\<close>

record nomad_event_types =
  TaskDriverFailure :: string
  TaskNotRestarting :: string
  TaskTerminated :: string

definition event_text :: "task_event \<Rightarrow> string" where
  "event_text ev = to_lower (ev_DisplayMessage ev @ '' '' @ ev_Message ev)"

definition looksLikeImagePullFailure :: "task_event \<Rightarrow> bool" where
  "looksLikeImagePullFailure ev \<longleftrightarrow> contains_sub (event_text ev) ''pull'' \<or>
     contains_sub (event_text ev) ''manifest unknown'' \<or> contains_sub (event_text ev) ''no such image''"

definition isOOMEvent :: "task_event \<Rightarrow> bool" where
  "isOOMEvent ev \<longleftrightarrow> map_of (ev_Details ev) ''oom_killed'' = Some ''true'' \<or>
     contains_sub (event_text ev) ''oom'' \<or> contains_sub (event_text ev) ''out of memory''"

text \<open>Reading a missing key of a Go map gives the empty string.\<close>

definition go_map_get :: "(string \<times> string) list \<Rightarrow> string \<Rightarrow> string" where
  "go_map_get m k = (case map_of m k of None \<Rightarrow> [] | Some v \<Rightarrow> v)"

definition classifyTaskEvent ::
  "nomad_event_types \<Rightarrow> string \<Rightarrow> string \<Rightarrow> task_event option \<Rightarrow> AllocationFailureError option" where
  "classifyTaskEvent E allocID taskName evo = (case evo of None \<Rightarrow> None
    | Some ev \<Rightarrow>
        (let err = (\<lambda>c. Some \<lparr>fe_Class = c, fe_AllocID = allocID, fe_TaskName = taskName, fe_Message = ev_DisplayMessage ev\<rparr>)
         in if ev_Type ev = TaskDriverFailure E \<and> looksLikeImagePullFailure ev then err FailureImagePull
            else if isOOMEvent ev then err FailureOOMKilled
            else if ev_Type ev = TaskNotRestarting E \<or>
                (ev_Type ev = TaskTerminated E \<and> go_map_get (ev_Details ev) ''exit_code'' \<noteq> ''0'') then err FailureTaskCrash
            else None))"

fun first_failure :: "('a \<Rightarrow> 'b option) \<Rightarrow> 'a list \<Rightarrow> 'b option" where
  "first_failure f [] = None"
| "first_failure f (x # xs) = (case f x of Some y \<Rightarrow> Some y | None \<Rightarrow> first_failure f xs)"

definition ClassifyAllocationFailure ::
  "nomad_event_types \<Rightarrow> failed_alloc option \<Rightarrow> AllocationFailureError option" where
  "ClassifyAllocationFailure E ao = (case ao of None \<Rightarrow> None
    | Some a \<Rightarrow>
       (case first_failure (\<lambda>(taskName, ts). case ts of None \<Rightarrow> None
            | Some evs \<Rightarrow> first_failure (classifyTaskEvent E (fa_ID a) taskName) (rev evs)) (fa_TaskStates a) of
          Some failure \<Rightarrow> Some failure
        | None \<Rightarrow> if fa_ClientStatus a = ''failed''
            then Some \<lparr>fe_Class = FailureUnknown, fe_AllocID = fa_ID a, fe_TaskName = [],
                       fe_Message = ''allocation failed with no classifiable task event''\<rparr>
            else None))"

record allocation_metric =
  am_NodesExhausted :: int
  am_NodesEvaluated :: int
  am_DimensionExhausted :: "(string \<times> int) list"
  am_ConstraintFiltered :: "(string \<times> int) list"

text \<open>\<open>quote\<close> stands for the verb \<^verbatim>\<open>%q\<close> of \<^verbatim>\<open>fmt\<close>.\<close>

definition summarizePlacementFailure :: "(string \<Rightarrow> string) \<Rightarrow> allocation_metric option \<Rightarrow> string" where
  "summarizePlacementFailure quote mo = (case mo of None \<Rightarrow> ''placement failed for an unknown reason''
    | Some m \<Rightarrow>
       if 0 < am_NodesExhausted m
       then itoa (am_NodesExhausted m) @ '' of '' @ itoa (am_NodesEvaluated m) @ '' evaluated nodes were resource-exhausted''
       else (case am_DimensionExhausted m of
           (res, count) # _ \<Rightarrow> itoa count @ '' nodes exhausted on dimension '' @ quote res
         | [] \<Rightarrow> (case am_ConstraintFiltered m of
             (c, count) # _ \<Rightarrow> itoa count @ '' nodes filtered by constraint '' @ quote c
           | [] \<Rightarrow> ''no eligible node found among '' @ itoa (am_NodesEvaluated m) @ '' evaluated'')))"

definition ClassifyEvaluationFailure ::
  "(string \<Rightarrow> string) \<Rightarrow> (string \<times> allocation_metric option) list option \<Rightarrow> AllocationFailureError option" where
  "ClassifyEvaluationFailure quote eval = (case eval of None \<Rightarrow> None | Some [] \<Rightarrow> None
    | Some ((taskGroup, metric) # _) \<Rightarrow>
        Some \<lparr>fe_Class = FailurePlacement, fe_AllocID = [], fe_TaskName = taskGroup,
              fe_Message = summarizePlacementFailure quote metric\<rparr>)"

section \<open>Retry policy (\<^verbatim>\<open>retry.go\<close>)\<close>

record RetryPolicy =
  rp_BaseDelay :: int
  rp_MaxDelay :: int
  rp_MaxAttempts :: int

definition DefaultRetryPolicy :: RetryPolicy where
  "DefaultRetryPolicy = \<lparr>rp_BaseDelay = 2 * 1000000000, rp_MaxDelay = 5 * 60 * 1000000000, rp_MaxAttempts = 8\<rparr>"

definition retry_normalize :: "RetryPolicy \<Rightarrow> RetryPolicy" where
  "retry_normalize p =
     (let p1 = (if rp_BaseDelay p \<le> 0 then p\<lparr>rp_BaseDelay := rp_BaseDelay DefaultRetryPolicy\<rparr> else p);
          p2 = (if rp_MaxDelay p1 \<le> 0 then p1\<lparr>rp_MaxDelay := rp_MaxDelay DefaultRetryPolicy\<rparr> else p1)
      in if rp_MaxAttempts p2 \<le> 0 then p2\<lparr>rp_MaxAttempts := rp_MaxAttempts DefaultRetryPolicy\<rparr> else p2)"

definition IsRetryable :: "FailureClass \<Rightarrow> bool" where
  "IsRetryable c \<longleftrightarrow> c = FailurePlacement"

text \<open>The doubling loop of \<^verbatim>\<open>NextDelay\<close>.\<close>

function backoff_loop :: "int \<Rightarrow> int \<Rightarrow> int \<Rightarrow> int \<Rightarrow> int" where
  "backoff_loop i attempt cap b =
     (if i < attempt \<and> b < cap
      then (let b' = i64 (b * 2) in if b' \<le> 0 then cap else backoff_loop (i + 1) attempt cap b')
      else b)"
  by auto
termination by (relation "measure (\<lambda>(i, n, _, _). nat (n - i))") auto

declare backoff_loop.simps [simp del]

definition backoff_bound :: "RetryPolicy \<Rightarrow> int \<Rightarrow> int" where
  "backoff_bound p0 attempt0 =
     (let p = retry_normalize p0; attempt = (if attempt0 < 1 then 1 else attempt0);
          b = backoff_loop 1 attempt (rp_MaxDelay p) (rp_BaseDelay p)
      in if rp_MaxDelay p < b then rp_MaxDelay p else b)"

datatype delay_result = Delay int | PanicInt64N

text \<open>\<open>rnd n\<close> is the number drawn by \<^verbatim>\<open>rand.Int64N (n)\<close>, which panics for \<open>n \<le> 0\<close>.\<close>

definition NextDelay :: "(int \<Rightarrow> int) \<Rightarrow> RetryPolicy \<Rightarrow> int \<Rightarrow> delay_result" where
  "NextDelay rnd p attempt =
     (let b = backoff_bound p attempt
      in if b \<le> 0 then Delay 0 else if i64 (b + 1) \<le> 0 then PanicInt64N else Delay (rnd (i64 (b + 1))))"

datatype retry_decision = NoRetry string | RetryAfter delay_result

definition class_name :: "FailureClass \<Rightarrow> string" where
  "class_name c = (case c of FailurePlacement \<Rightarrow> ''placement_failure'' | FailureImagePull \<Rightarrow> ''image_pull_failure''
     | FailureOOMKilled \<Rightarrow> ''oom_killed'' | FailureTaskCrash \<Rightarrow> ''task_crash'' | FailureUnknown \<Rightarrow> ''unknown'')"

definition Decide ::
  "(string \<Rightarrow> string) \<Rightarrow> (int \<Rightarrow> int) \<Rightarrow> RetryPolicy \<Rightarrow> AllocationFailureError option \<Rightarrow> int \<Rightarrow> retry_decision" where
  "Decide quote rnd p0 failure attempt = (case failure of None \<Rightarrow> NoRetry ''no failure''
    | Some f \<Rightarrow>
       (let p = retry_normalize p0
        in if \<not> IsRetryable (fe_Class f) then NoRetry (''non-retryable failure class '' @ quote (class_name (fe_Class f)))
           else if rp_MaxAttempts p \<le> attempt then NoRetry (''exhausted '' @ itoa (rp_MaxAttempts p) @ '' attempts'')
           else RetryAfter (NextDelay rnd p attempt)))"

section \<open>VRAM ceiling (\<^verbatim>\<open>oom_recovery.go\<close>)\<close>

definition ReducedFootprintBytes :: "int \<Rightarrow> int" where
  "ReducedFootprintBytes originalBytes = scale_nine_tenths originalBytes"

text \<open>Below a petabyte the reduction is the exact nine tenths, rounded down, and strictly smaller than the footprint.\<close>

lemma reduced_footprint:
  assumes "0 < b" "b < 2 ^ 50"
  shows "ReducedFootprintBytes b = 9 * b div 10" "0 \<le> ReducedFootprintBytes b" "ReducedFootprintBytes b < b"
  using assms scale_nine_tenths_exact [of b] by (simp_all add: ReducedFootprintBytes_def)

definition vramCeilingKey :: "string \<Rightarrow> string" where
  "vramCeilingKey nodeID = ''gpu:vram_ceiling:'' @ nodeID"

text \<open>Lua's \<^verbatim>\<open>tonumber\<close> on the strings the script itself writes; \<open>None\<close> is nil. Lua numbers are
  doubles: the integers up to \<open>2 ^ 53\<close> are exact.\<close>

definition downgradeScript :: "('s, 'x) redis_scheme \<Rightarrow> string \<Rightarrow> int \<Rightarrow> 's \<Rightarrow> 's \<times> reply" where
  "downgradeScript R key observed s =
     (case (case string_at R s key of None \<Rightarrow> None | Some v \<Rightarrow> parse_int v) of
        None \<Rightarrow> (SET R key (itoa observed) 0 s, IntReply 1)
      | Some current \<Rightarrow> if observed < current then (SET R key (itoa observed) 0 s, IntReply 1) else (s, IntReply 0))"

datatype ceiling_error = CeilingCallFailed rerr | CeilingParse string

definition Downgrade ::
  "('s, 'x) redis_scheme \<Rightarrow> rerr link \<Rightarrow> string \<Rightarrow> int \<Rightarrow> 's \<Rightarrow> 's \<times> (ceiling_error + unit)" where
  "Downgrade R l nodeID observed s = (case roundtrip l (downgradeScript R (vramCeilingKey nodeID) observed) s of
      (s', Inl e) \<Rightarrow> (s', Inl (CeilingCallFailed e)) | (s', Inr _) \<Rightarrow> (s', Inr ()))"

definition CeilingFor ::
  "('s, 'x) redis_scheme \<Rightarrow> rerr link \<Rightarrow> string \<Rightarrow> 's \<Rightarrow> ceiling_error + int option" where
  "CeilingFor R l nodeID s = (case snd (roundtrip l (\<lambda>s. (s, string_at R s (vramCeilingKey nodeID))) s) of
      Inl e \<Rightarrow> Inl (CeilingCallFailed e)
    | Inr None \<Rightarrow> Inr None
    | Inr (Some v) \<Rightarrow> (case parse_int v of None \<Rightarrow> Inl (CeilingParse v) | Some b \<Rightarrow> Inr (Some b)))"

section \<open>Lemmas\<close>

lemma first_failure_Some: "first_failure f xs = Some y \<Longrightarrow> \<exists>x \<in> set xs. f x = Some y"
  by (induction xs) (auto split: option.splits)

lemma classify_event_class: "classifyTaskEvent E i t ev = Some f \<Longrightarrow> fe_Class f \<noteq> FailurePlacement"
  by (auto simp: classifyTaskEvent_def Let_def split: option.splits if_splits)

lemma classify_alloc_class: "ClassifyAllocationFailure E a = Some f \<Longrightarrow> fe_Class f \<noteq> FailurePlacement"
  by (auto simp: ClassifyAllocationFailure_def dest!: first_failure_Some classify_event_class
      split: option.splits if_splits)

lemma min_double: "0 < (b::int) \<Longrightarrow> c \<le> b \<Longrightarrow> c \<le> b * 2 ^ n"
proof -
  assume a: "0 < b" "c \<le> b"
  have "b * 1 \<le> b * 2 ^ n" using a(1) by (intro mult_left_mono) simp_all
  with a(2) show ?thesis by simp
qed

lemma backoff_loop_min:
  assumes "0 < b" "0 < cap" "is_i64 cap" "i \<le> attempt"
  shows "min cap (backoff_loop i attempt cap b) = min cap (b * 2 ^ nat (attempt - i)) \<and> 0 < backoff_loop i attempt cap b"
  using assms
proof (induction i attempt cap b rule: backoff_loop.induct)
  case (1 i attempt cap b)
  note bl = backoff_loop.simps [of i attempt cap b]
  consider (stop) "i = attempt" | (capped) "i < attempt" "cap \<le> b" | (go) "i < attempt" "b < cap"
    using 1(5) by linarith
  then show ?case
  proof cases
    case stop
    then show ?thesis using 1(2) bl by simp
  next
    case capped
    then show ?thesis using 1(2) bl min_double [of b cap] by (simp add: min_absorb1)
  next
    case go
    have p: "b * 2 ^ nat (attempt - i) = b * 2 * 2 ^ nat (attempt - (i + 1))"
    proof -
      have "nat (attempt - i) = Suc (nat (attempt - (i + 1)))" using go(1) by simp
      then show ?thesis by simp
    qed
    have cp: "cap < 2 ^ 63" using 1(4) by (simp only: is_i64_def)
    show ?thesis
    proof (cases "b * 2 < 2 ^ 63")
      case True
      then have w: "i64 (b * 2) = b * 2" using 1(2) by (intro i64_id_nonneg) simp_all
      have "backoff_loop i attempt cap b = backoff_loop (i + 1) attempt cap (b * 2)"
        using go 1(2) bl w by (simp add: Let_def)
      then show ?thesis using 1(1)[OF _ refl] go 1(2-4) w p by simp
    next
      case False
      have "i64 (b * 2) = b * 2 - 2 ^ 64"
      proof -
        have "(b * 2 + 2 ^ 63) mod 2 ^ 64 = (b * 2 + 2 ^ 63 - 2 ^ 64) mod 2 ^ 64"
          by (rule minus_mod_self2 [symmetric])
        also have "\<dots> = b * 2 + 2 ^ 63 - 2 ^ 64" using False go(2) cp by (intro mod_pos_pos_trivial) simp_all
        finally show ?thesis by (simp add: i64_def)
      qed
      then have n: "i64 (b * 2) \<le> 0" using go(2) cp by simp
      have e: "backoff_loop i attempt cap b = cap" using go bl n by (simp add: Let_def)
      have "cap \<le> b * 2 * 2 ^ nat (attempt - (i + 1))" using False cp 1(2) by (intro min_double) simp_all
      then show ?thesis using 1(3) unfolding e p by (simp add: min_absorb1)
    qed
  qed
qed

lemma normalize_pos: "0 < rp_BaseDelay (retry_normalize p)" "0 < rp_MaxDelay (retry_normalize p)" "0 < rp_MaxAttempts (retry_normalize p)"
  by (simp_all add: retry_normalize_def Let_def DefaultRetryPolicy_def)

lemma normalize_idem [simp]: "retry_normalize (retry_normalize p) = retry_normalize p"
  by (simp add: retry_normalize_def Let_def DefaultRetryPolicy_def)

lemma backoff_bound_exact:
  assumes "is_i64 (rp_MaxDelay (retry_normalize p))"
  shows "backoff_bound p n = min (rp_MaxDelay (retry_normalize p)) (rp_BaseDelay (retry_normalize p) * 2 ^ nat (max 1 n - 1))
    \<and> 0 < backoff_bound p n"
proof -
  let ?p = "retry_normalize p"
  let ?l = "backoff_loop 1 (max 1 n) (rp_MaxDelay ?p) (rp_BaseDelay ?p)"
  have "backoff_bound p n = min (rp_MaxDelay ?p) ?l"
    by (simp add: backoff_bound_def Let_def min_def max_def)
  then show ?thesis
    using backoff_loop_min [OF normalize_pos(1) [of p] normalize_pos(2) [of p] assms, of 1 "max 1 n"]
      normalize_pos(1) [of p] normalize_pos(2) [of p] by simp
qed

context redis_server
begin

lemma ceiling_downgrade:
  assumes "CeilingFor R Up node s = Inr c" "is_i64 obs"
  shows "CeilingFor R Up node (fst (Downgrade R l node obs s)) =
    Inr (if reached l then Some (case c of None \<Rightarrow> obs | Some x \<Rightarrow> min x obs) else c)"
proof -
  let ?k = "vramCeilingKey node"
  have g: "CeilingFor R Up node (SET R ?k (itoa obs) 0 s) = Inr (Some obs)"
    using assms(2) by (simp add: CeilingFor_def string_at_def value_set)
  have st: "fst (downgradeScript R ?k obs s) =
      (if (case c of None \<Rightarrow> True | Some x \<Rightarrow> obs < x) then SET R ?k (itoa obs) 0 s else s)"
    using assms(1) by (auto simp: CeilingFor_def downgradeScript_def split: option.splits)
  have "fst (Downgrade R l node obs s) = (if reached l then fst (downgradeScript R ?k obs s) else s)"
    by (cases l) (simp_all add: Downgrade_def)
  then show ?thesis using g st assms(1) by (auto simp: min_def split: option.splits)
qed

end

text \<open>A sequence of downgrades of one node, each over its own link.\<close>

fun downgrade_run :: "('s, 'x) redis_scheme \<Rightarrow> string \<Rightarrow> (rerr link \<times> int) list \<Rightarrow> 's \<Rightarrow> 's" where
  "downgrade_run R node [] s = s"
| "downgrade_run R node ((l, obs) # ops) s = downgrade_run R node ops (fst (Downgrade R l node obs s))"

definition lower_to :: "int option \<Rightarrow> int \<Rightarrow> int option" where
  "lower_to c obs = Some (case c of None \<Rightarrow> obs | Some x \<Rightarrow> min x obs)"

context redis_server
begin

lemma ceiling_run:
  "CeilingFor R Up node s = Inr c \<Longrightarrow> list_all (is_i64 \<circ> snd) ops \<Longrightarrow>
   CeilingFor R Up node (downgrade_run R node ops s) =
     Inr (fold (\<lambda>p c. lower_to c (snd p)) (filter (reached \<circ> fst) ops) c)"
proof (induction ops arbitrary: c s)
  case Nil
  then show ?case by simp
next
  case (Cons p ops)
  obtain l obs where [simp]: "p = (l, obs)" by (cases p)
  show ?case using Cons.IH [OF ceiling_downgrade [OF Cons.prems(1), of obs l]] Cons.prems(2)
    by (cases "reached l") (simp_all add: lower_to_def [of c obs, symmetric])
qed

end

lemma fold_lower_to: "fold (\<lambda>p c. lower_to c (snd p)) ops c =
   (if ops = [] then c else Some (Min (set_option c \<union> snd ` set ops)))"
proof (induction ops arbitrary: c)
  case Nil
  then show ?case by simp
next
  case (Cons p ops)
  have "Min (insert (min x y) A) = Min (insert x (insert y A))" if "finite A" for x y :: int and A
    using that by (cases "A = {}") (auto simp: min.assoc)
  then show ?case using Cons.IH [of "lower_to c (snd p)"]
    by (cases c; cases "ops = []") (auto simp: lower_to_def)
qed

section \<open>Properties\<close>

text \<open>
  Retries: whatever task events an allocation reports, in whatever order its tasks are visited, its
  failure is never retried; a failed placement is retried exactly while the attempt is below the
  maximum of the normalized policy.
\<close>

lemma retry_only_placements:
  "(\<exists>r. Decide quote rnd p (ClassifyAllocationFailure E a) n = NoRetry r)
   \<and> Decide quote rnd p (ClassifyEvaluationFailure quote (Some ((g, m) # ms))) n =
      (if n < rp_MaxAttempts (retry_normalize p) then RetryAfter (NextDelay rnd p n)
       else NoRetry (''exhausted '' @ itoa (rp_MaxAttempts (retry_normalize p)) @ '' attempts''))"
proof
  show "\<exists>r. Decide quote rnd p (ClassifyAllocationFailure E a) n = NoRetry r"
    using classify_alloc_class [of E a]
    by (cases "ClassifyAllocationFailure E a") (auto simp: Decide_def IsRetryable_def Let_def)
  have "NextDelay rnd (retry_normalize p) n = NextDelay rnd p n"
    by (simp add: NextDelay_def backoff_bound_def Let_def)
  then show "Decide quote rnd p (ClassifyEvaluationFailure quote (Some ((g, m) # ms))) n =
      (if n < rp_MaxAttempts (retry_normalize p) then RetryAfter (NextDelay rnd p n)
       else NoRetry (''exhausted '' @ itoa (rp_MaxAttempts (retry_normalize p)) @ '' attempts''))"
    by (simp add: Decide_def ClassifyEvaluationFailure_def IsRetryable_def Let_def)
qed

text \<open>
  Backoff: for every attempt number the delay is a non-negative value of at most the exponential
  backoff and at most MaxDelay; the doubling never overflows into a wrong value and the draw never
  panics, provided MaxDelay is below the largest int64.
\<close>

lemma next_delay_bounded:
  assumes "rp_MaxDelay p < 2 ^ 63 - 1" and "\<And>k. 0 < k \<Longrightarrow> 0 \<le> rnd k \<and> rnd k < k"
  shows "\<exists>d. NextDelay rnd p n = Delay d \<and> 0 \<le> d \<and> d \<le> rp_MaxDelay (retry_normalize p)
    \<and> d \<le> rp_BaseDelay (retry_normalize p) * 2 ^ nat (max 1 n - 1)"
proof -
  have m: "rp_MaxDelay (retry_normalize p) < 2 ^ 63 - 1" "0 < rp_MaxDelay (retry_normalize p)"
    using assms(1) normalize_pos(2) by (simp_all add: retry_normalize_def Let_def DefaultRetryPolicy_def)
  then have i: "is_i64 (rp_MaxDelay (retry_normalize p))" by (simp add: is_i64_def)
  note b = backoff_bound_exact [OF i, of n]
  have w: "i64 (backoff_bound p n + 1) = backoff_bound p n + 1" using b m by (intro i64_id_nonneg) auto
  show ?thesis using assms(2) [of "backoff_bound p n + 1"] b w by (auto simp: NextDelay_def)
qed

lemma next_delay_bounded_witness:
  "\<exists>d. NextDelay (\<lambda>k. k - 1) DefaultRetryPolicy 70 = Delay d \<and> 0 \<le> d \<and> d \<le> 300000000000"
proof -
  have d: "rp_MaxDelay (retry_normalize DefaultRetryPolicy) = 300000000000" "rp_MaxDelay DefaultRetryPolicy < 2 ^ 63 - 1"
    by (simp_all add: retry_normalize_def DefaultRetryPolicy_def)
  show ?thesis using next_delay_bounded [OF d(2), of "\<lambda>k. k - 1" 70] unfolding d(1) by auto
qed

text \<open>
  The VRAM ceiling is a ratchet: after any sequence of downgrades of a node over lossy round trips,
  the ceiling read back is the least of the observations that reached the server (and there is none
  when none did).
\<close>

lemma vram_ceiling_least:
  assumes "redis_server R" and "string_at R s (vramCeilingKey node) = None" and "list_all (is_i64 \<circ> snd) ops"
  shows "CeilingFor R Up node (downgrade_run R node ops s) =
    Inr (if filter (reached \<circ> fst) ops = [] then None else Some (Min (snd ` set (filter (reached \<circ> fst) ops))))"
proof -
  have "CeilingFor R Up node s = Inr None" using assms(2) by (simp add: CeilingFor_def)
  from redis_server.ceiling_run [OF assms(1) this assms(3)] show ?thesis
    unfolding fold_lower_to by simp
qed

lemma vram_ceiling_least_witness:
  "CeilingFor mem_redis Up ''n1'' (downgrade_run mem_redis ''n1'' [(Up, 70), (Down ''x'', 10), (Lost ''y'', 60), (Up, 65)] mem_empty)
   = Inr (Some 60)"
proof -
  have s: "string_at mem_redis mem_empty (vramCeilingKey ''n1'') = None" by (simp add: m_str_def mem_empty_def)
  show ?thesis
    by (subst vram_ceiling_least [OF mem.redis_server_axioms s]) (simp_all add: is_i64_def)
qed

text \<open>
  The out-of-memory classification is by substring and does not look at the state of the
  allocation: one event of any kind but a driver failure whose text contains \<open>oom\<close> makes a running
  allocation an OOM kill.
\<close>

lemma oom_substring_misclassifies:
  assumes "contains_sub (event_text ev) ''oom''" and "ev_Type ev \<noteq> TaskDriverFailure E"
  shows "ClassifyAllocationFailure E (Some \<lparr>fa_ID = i, fa_ClientStatus = ''running'', fa_TaskStates = [(t, Some [Some ev])]\<rparr>) =
    Some \<lparr>fe_Class = FailureOOMKilled, fe_AllocID = i, fe_TaskName = t, fe_Message = ev_DisplayMessage ev\<rparr>"
  using assms by (simp add: ClassifyAllocationFailure_def classifyTaskEvent_def isOOMEvent_def Let_def)

lemma oom_substring_misclassifies_witness:
  "\<exists>f. ClassifyAllocationFailure \<lparr>TaskDriverFailure = ''Driver Failure'', TaskNotRestarting = ''Not Restarting'', TaskTerminated = ''Terminated''\<rparr>
     (Some \<lparr>fa_ID = ''a1'', fa_ClientStatus = ''running'', fa_TaskStates = [(''vllm'',
       Some [Some \<lparr>ev_Type = ''Driver'', ev_DisplayMessage = ''Downloading bloom'', ev_Message = [], ev_Details = []\<rparr>])]\<rparr>)
   = Some f \<and> fe_Class f = FailureOOMKilled"
proof -
  let ?ev = "\<lparr>ev_Type = ''Driver'', ev_DisplayMessage = ''Downloading bloom'', ev_Message = [], ev_Details = []\<rparr>"
  have c: "contains_sub (event_text ?ev) ''oom''" by code_simp
  show ?thesis by (subst oom_substring_misclassifies [OF c]) simp_all
qed

end
