(* ===== verification/Dispatch.thy ===== *)
theory Dispatch
  imports JobQueue
begin

text \<open>
  Launching a deployment: the job specification (\<^verbatim>\<open>nomadclient/jobspec.go\<close>, \<^verbatim>\<open>netsec/network.go\<close>,
  \<^verbatim>\<open>netsec/firewall.go\<close>), the idempotent submission (\<^verbatim>\<open>nomadclient/idempotent.go\<close>,
  \<^verbatim>\<open>client.go\<close>) and the dispatcher that falls back to the retry queue (\<^verbatim>\<open>scheduler/degraded.go\<close>).
  Nomad is a parameter: a record of the two calls the code makes on an unknown state \<open>'n\<close>, with
  their documented effect as the laws of the locale \<open>nomad_server\<close>.
\<close>

section \<open>Job specification (\<^verbatim>\<open>jobspec.go\<close>)\<close>

record InferenceJobSpec =
  js_DeploymentID :: string
  js_Image :: string
  js_Env :: "string \<rightharpoonup> string"
  js_GPUModel :: string
  js_MinVRAMBytes :: int
  js_CPUMHz :: int
  js_MemoryMB :: int
  js_MemoryMaxMB :: int
  js_DrainPeriod :: int
  js_KillTimeout :: int
  js_Runtime :: string
  js_TmpfsSizeBytes :: int
  js_ShmSizeBytes :: int

definition DefaultCPUMHz :: int where "DefaultCPUMHz = 2000"
definition DefaultMemoryMB :: int where "DefaultMemoryMB = 4096"
definition DefaultDrainPeriod :: int where "DefaultDrainPeriod = 10 * 1000000000"
definition DefaultKillTimeout :: int where "DefaultKillTimeout = 30 * 1000000000"
definition DefaultTmpfsSizeBytes :: int where "DefaultTmpfsSizeBytes = 512 * 1024 * 1024"
definition DefaultShmSizeBytes :: int where "DefaultShmSizeBytes = 1024 * 1024 * 1024"
definition DefaultRuntime :: string where "DefaultRuntime = ''runsc''"

definition orDefault :: "int \<Rightarrow> int \<Rightarrow> int" where
  "orDefault v d = (if v \<le> 0 then d else v)"

definition formatGiB :: "int \<Rightarrow> string" where
  "formatGiB bytes = itoa (tdiv (i64 (i64 (bytes + 1073741824) - 1)) 1073741824) @ '' GiB''"

record device_request =
  dr_Name :: string
  dr_Count :: nat
  dr_Constraints :: "(string \<times> string \<times> string) list"

definition gpuDeviceRequest :: "string \<Rightarrow> int \<Rightarrow> device_request" where
  "gpuDeviceRequest model minVRAMBytes =
     \<lparr>dr_Name = (if model \<noteq> [] then ''nvidia/gpu/'' @ model else ''nvidia/gpu''),
      dr_Count = 1,
      dr_Constraints = (if 0 < minVRAMBytes then [(''${device.attr.memory}'', ''>='', formatGiB minVRAMBytes)] else [])\<rparr>"

record job_resources =
  jr_CPU :: int
  jr_MemoryMB :: int
  jr_MemoryMaxMB :: int
  jr_Devices :: "device_request list"

definition resourceRequest :: "InferenceJobSpec \<Rightarrow> job_resources" where
  "resourceRequest spec =
     (let cpu = (if js_CPUMHz spec \<le> 0 then DefaultCPUMHz else js_CPUMHz spec);
          memory = (if js_MemoryMB spec \<le> 0 then DefaultMemoryMB else js_MemoryMB spec);
          memoryMax = (if js_MemoryMaxMB spec \<le> 0 then memory else js_MemoryMaxMB spec)
      in \<lparr>jr_CPU = cpu, jr_MemoryMB = memory, jr_MemoryMaxMB = memoryMax,
          jr_Devices = [gpuDeviceRequest (js_GPUModel spec) (js_MinVRAMBytes spec)]\<rparr>)"

definition nvproxyEnv :: "string \<rightharpoonup> string" where
  "nvproxyEnv = [''NVIDIA_VISIBLE_DEVICES'' \<mapsto> ''all'', ''NVIDIA_DRIVER_CAPABILITIES'' \<mapsto> ''compute,utility'']"

definition mergeEnv :: "(string \<rightharpoonup> string) \<Rightarrow> (string \<rightharpoonup> string) \<Rightarrow> (string \<rightharpoonup> string)" where
  "mergeEnv base override = base ++ override"

definition CNINetworkName :: string where "CNINetworkName = ''redline-alloc''"

definition AllocationNetwork :: string where
  "AllocationNetwork = ''cni/'' @ CNINetworkName"

record task_config =
  tc_image :: string
  tc_runtime :: string
  tc_readonly_rootfs :: bool
  tc_cap_drop :: "string list"
  tc_cap_add :: "string list"
  tc_cpu_hard_limit :: bool
  tc_mounts :: "(string \<times> string \<times> int) list"

record inference_job =
  ij_ID :: "string option"
  ij_Type :: string
  ij_RestartAttempts :: int
  ij_RestartInterval :: int
  ij_RestartDelay :: int
  ij_RestartMode :: string
  ij_ShutdownDelay :: int
  ij_Networks :: "string list"
  ij_Config :: task_config
  ij_Env :: "string \<rightharpoonup> string"
  ij_Resources :: job_resources
  ij_KillSignal :: string
  ij_KillTimeout :: int

definition BuildInferenceJob :: "(string \<Rightarrow> string) \<Rightarrow> InferenceJobSpec \<Rightarrow> inference_job" where
  "BuildInferenceJob jobID spec =
     (let runtime = (if js_Runtime spec = [] then DefaultRuntime else js_Runtime spec);
          tmpfsSize = (if js_TmpfsSizeBytes spec \<le> 0 then DefaultTmpfsSizeBytes else js_TmpfsSizeBytes spec);
          shmSize = (if js_ShmSizeBytes spec \<le> 0 then DefaultShmSizeBytes else js_ShmSizeBytes spec)
      in \<lparr>ij_ID = Some (jobID (js_DeploymentID spec)), ij_Type = ''service'',
          ij_RestartAttempts = 3, ij_RestartInterval = 300 * 1000000000, ij_RestartDelay = 15 * 1000000000, ij_RestartMode = ''fail'',
          ij_ShutdownDelay = orDefault (js_DrainPeriod spec) DefaultDrainPeriod,
          ij_Networks = [AllocationNetwork],
          ij_Config = \<lparr>tc_image = js_Image spec, tc_runtime = runtime, tc_readonly_rootfs = True, tc_cap_drop = [''ALL''],
             tc_cap_add = [], tc_cpu_hard_limit = True,
             tc_mounts = [(''tmpfs'', ''/tmp'', tmpfsSize), (''tmpfs'', ''/dev/shm'', shmSize)]\<rparr>,
          ij_Env = mergeEnv nvproxyEnv (js_Env spec),
          ij_Resources = resourceRequest spec,
          ij_KillSignal = ''SIGTERM'',
          ij_KillTimeout = orDefault (js_KillTimeout spec) DefaultKillTimeout\<rparr>)"

section \<open>Egress rules (\<^verbatim>\<open>netsec/firewall.go\<close>)\<close>

definition rfc1918Ranges :: "string list" where
  "rfc1918Ranges = [''10.0.0.0/8'', ''172.16.0.0/12'', ''192.168.0.0/16'']"

definition linkLocalRange :: string where "linkLocalRange = ''169.254.0.0/16''"

text \<open>The lines of the ruleset that \<^verbatim>\<open>BuildEgressRuleset\<close> writes, without their line breaks.\<close>

definition BuildEgressRuleset :: "string \<Rightarrow> int \<Rightarrow> string list" where
  "BuildEgressRuleset addr port =
     [''table inet redline_egress {'', ''  chain egress {'', ''    type filter hook output priority 0; policy drop;''] @
     (if addr \<noteq> [] \<and> 0 < port then [''    ip daddr '' @ addr @ '' tcp dport '' @ itoa port @ '' accept''] else []) @
     map (\<lambda>cidr. ''    ip daddr '' @ cidr @ '' drop'') rfc1918Ranges @
     [''    ip daddr '' @ linkLocalRange @ '' drop''] @ [''  }'', ''}'']"

section \<open>Submission (\<^verbatim>\<open>client.go\<close>, \<^verbatim>\<open>idempotent.go\<close>)\<close>

record 'n nomad =
  JOB :: "'n \<Rightarrow> string \<Rightarrow> string option option"
  REGISTER :: "string \<Rightarrow> 'n \<Rightarrow> 'n \<times> string"

definition deadStatus :: string where "deadStatus = ''dead''"

datatype submit_error = NomadCallFailed string | NomadNoJobID

definition SubmitJob :: "('n, 'y) nomad_scheme \<Rightarrow> string link \<Rightarrow> string \<Rightarrow> 'n \<Rightarrow> 'n \<times> (submit_error + string)" where
  "SubmitJob N l jobID n = (case roundtrip l (REGISTER N jobID) n of
      (n', Inl e) \<Rightarrow> (n', Inl (NomadCallFailed e)) | (n', Inr evalID) \<Rightarrow> (n', Inr evalID))"

text \<open>A job that Nomad still works on: registered, and not in the status \<^verbatim>\<open>dead\<close>.\<close>

definition live_job :: "('n, 'y) nomad_scheme \<Rightarrow> 'n \<Rightarrow> string \<Rightarrow> bool" where
  "live_job N n i \<longleftrightarrow> (case JOB N n i of None \<Rightarrow> False | Some None \<Rightarrow> True | Some (Some st) \<Rightarrow> st \<noteq> deadStatus)"

definition SubmitJobIdempotent ::
  "('n, 'y) nomad_scheme \<Rightarrow> string link \<Rightarrow> string link \<Rightarrow> string option \<Rightarrow> 'n \<Rightarrow> 'n \<times> (submit_error + string \<times> bool)" where
  "SubmitJobIdempotent N li lr jobID n = (case jobID of
      None \<Rightarrow> (n, Inl NomadNoJobID)
    | Some i \<Rightarrow> if i = [] then (n, Inl NomadNoJobID)
        else (case roundtrip li (\<lambda>n. (n, live_job N n i)) n of
            (n1, Inr True) \<Rightarrow> (n1, Inr ([], True))
          | (n1, _) \<Rightarrow> (case SubmitJob N lr i n1 of
              (n2, Inl e) \<Rightarrow> (n2, Inl e) | (n2, Inr evalID) \<Rightarrow> (n2, Inr (evalID, False)))))"

locale nomad_server =
  fixes N :: "('n, 'y) nomad_scheme"
  assumes register_live: "live_job N (fst (REGISTER N i n)) i"
    and register_other: "j \<noteq> i \<Longrightarrow> JOB N (fst (REGISTER N i n)) j = JOB N n j"

section \<open>Dispatch (\<^verbatim>\<open>degraded.go\<close>)\<close>

record ('n, 's) dispatch_world =
  dw_nomad :: 'n
  dw_redis :: 's
  dw_degraded :: bool

datatype dispatch_result = DispatchSubmitted string | DispatchQueued | DispatchFailed submit_error queue_error

definition DispatchJob ::
  "('n, 'y) nomad_scheme \<Rightarrow> ('s, 'x) redis_scheme \<Rightarrow> queue \<Rightarrow> string link \<Rightarrow> string link \<Rightarrow> rerr link \<Rightarrow> rerr link \<Rightarrow>
   string \<Rightarrow> string option \<Rightarrow> ('n, 's) dispatch_world \<Rightarrow> ('n, 's) dispatch_world \<times> dispatch_result" where
  "DispatchJob N R q li lr l1 l2 deploymentID jobID w = (case SubmitJobIdempotent N li lr jobID (dw_nomad w) of
      (n', Inr (evalID, _)) \<Rightarrow> (w\<lparr>dw_nomad := n', dw_degraded := False\<rparr>, DispatchSubmitted evalID)
    | (n', Inl submitErr) \<Rightarrow>
        (case Enqueue R q l1 l2 deploymentID deploymentID (dw_redis w) of
           (s', Inl queueErr) \<Rightarrow> (w\<lparr>dw_nomad := n', dw_redis := s', dw_degraded := True\<rparr>, DispatchFailed submitErr queueErr)
         | (s', Inr _) \<Rightarrow> (w\<lparr>dw_nomad := n', dw_redis := s', dw_degraded := True\<rparr>, DispatchQueued)))"

definition Degraded :: "('n, 's) dispatch_world \<Rightarrow> bool" where
  "Degraded w = dw_degraded w"

section \<open>A Nomad in memory\<close>

definition mem_nomad :: "(string \<Rightarrow> string option option) nomad" where
  "mem_nomad = \<lparr>JOB = (\<lambda>n i. n i), REGISTER = (\<lambda>i n. (n(i := Some (Some ''pending'')), ''eval-'' @ i))\<rparr>"

interpretation memn: nomad_server mem_nomad
  by unfold_locales (simp_all add: mem_nomad_def live_job_def deadStatus_def)

section \<open>Properties\<close>

context nomad_server
begin

lemma submit_ok:
  assumes "SubmitJobIdempotent N li lr (Some i) n = (n', Inr r)"
  shows "live_job N n' i" "j \<noteq> i \<Longrightarrow> JOB N n' j = JOB N n j" "snd r \<Longrightarrow> n' = n"
  using assms register_live [of i n] register_other [of j i n]
  by (cases li; cases lr; auto simp: SubmitJobIdempotent_def SubmitJob_def split: if_splits bool.splits)+

text \<open>The response of the first registration was lost; the client tries again.\<close>

lemma resubmit:
  assumes "i \<noteq> []"
  shows "SubmitJobIdempotent N Up lr (Some i) (fst (SubmitJobIdempotent N li (Lost e) (Some i) n)) =
     (fst (SubmitJobIdempotent N li (Lost e) (Some i) n), Inr ([], True))"
proof -
  have "live_job N (fst (SubmitJobIdempotent N li (Lost e) (Some i) n)) i"
    using assms register_live [of i n]
    by (cases li) (auto simp: SubmitJobIdempotent_def SubmitJob_def split: bool.splits)
  then show ?thesis using assms by (simp add: SubmitJobIdempotent_def)
qed

end

text \<open>
  Idempotent submission: when the response to a registration was lost, a retry that reads the job
  finds it live, does not register it again and leaves Nomad unchanged; and whatever round trips fail,
  a submission that reports success leaves exactly its own job live and touches no other job.
\<close>

lemma submit_idempotent:
  assumes "nomad_server N" and "i \<noteq> []"
  shows "SubmitJobIdempotent N Up lr (Some i) (fst (SubmitJobIdempotent N li (Lost e) (Some i) n)) =
      (fst (SubmitJobIdempotent N li (Lost e) (Some i) n), Inr ([], True))
    \<and> (\<forall>la lb n' r. SubmitJobIdempotent N la lb (Some i) n = (n', Inr r) \<longrightarrow>
         live_job N n' i \<and> (\<forall>j. j \<noteq> i \<longrightarrow> JOB N n' j = JOB N n j))"
  using nomad_server.resubmit [OF assms] nomad_server.submit_ok [OF assms(1)] by blast

lemma submit_idempotent_witness:
  "SubmitJobIdempotent mem_nomad Up Up (Some ''inference-d1'')
     (fst (SubmitJobIdempotent mem_nomad Up (Lost ''timeout'') (Some ''inference-d1'') (\<lambda>_. None))) =
   (fst (SubmitJobIdempotent mem_nomad Up (Lost ''timeout'') (Some ''inference-d1'') (\<lambda>_. None)), Inr ([], True))"
  using submit_idempotent [OF memn.nomad_server_axioms, of "''inference-d1''"] by blast

text \<open>
  C13. Degraded mode: a dispatched deployment is never silently lost. Either Nomad holds its job live and
  the queue is untouched, or its id is at the back of the durable retry queue with a fresh record, or the
  caller gets an error, and then both Nomad and a queue call failed. The degraded flag tells the
  first case from the others.
\<close>

theorem dispatch_not_lost:
  assumes "nomad_server N" and "redis_server R" and "q_typed R q (dw_redis w)" and "i \<noteq> []"
    and "DispatchJob N R q li lr l1 l2 d (Some i) w = (w', r)"
  shows "case r of
      DispatchSubmitted _ \<Rightarrow> live_job N (dw_nomad w') i \<and> dw_redis w' = dw_redis w \<and> \<not> Degraded w'
    | DispatchQueued \<Rightarrow> q_view R q (dw_redis w') = v_push d (v_record d d (q_view R q (dw_redis w))) \<and> Degraded w'
    | DispatchFailed _ _ \<Rightarrow> lr \<noteq> Up \<and> (l1 \<noteq> Up \<or> l2 \<noteq> Up) \<and> Degraded w'"
proof (cases "snd (SubmitJobIdempotent N li lr (Some i) (dw_nomad w))")
  case (Inr x)
  then obtain n' where "SubmitJobIdempotent N li lr (Some i) (dw_nomad w) = (n', Inr x)" by (metis prod.collapse)
  then show ?thesis using nomad_server.submit_ok(1) [OF assms(1)] assms(5)
    by (cases x) (auto simp: DispatchJob_def Degraded_def)
next
  case (Inl e)
  then have lr: "lr \<noteq> Up" using assms(4)
    by (cases li; auto simp: SubmitJobIdempotent_def SubmitJob_def split: bool.splits)
  obtain n' where n': "SubmitJobIdempotent N li lr (Some i) (dw_nomad w) = (n', Inl e)" using Inl by (metis prod.collapse)
  note v = redis_server.enqueue_record [OF assms(2,3), of d d]
  note u = redis_server.enqueue_push(1) [OF assms(2) v(2), of d]
  show ?thesis using assms(5) n' lr u v(1)
    by (cases l1; cases l2) (auto simp: DispatchJob_def Degraded_def Enqueue_def)
qed

theorem dispatch_not_lost_witness:
  "\<exists>w'. DispatchJob mem_nomad mem_redis (New_Queue ''retry'' \<lparr>MaxAttempts = 3, VisibilityTimeout = 0, PollInterval = 0\<rparr>)
      (Down ''refused'') (Down ''refused'') Up Up ''d1'' (Some ''inference-d1'')
      \<lparr>dw_nomad = (\<lambda>_. None), dw_redis = mem_empty, dw_degraded = False\<rparr> = (w', DispatchQueued) \<and> Degraded w'"
proof -
  let ?q = "New_Queue ''retry'' \<lparr>MaxAttempts = 3, VisibilityTimeout = 0, PollInterval = 0\<rparr>"
  let ?w = "\<lparr>dw_nomad = (\<lambda>_. None), dw_redis = mem_empty, dw_degraded = False\<rparr>"
  have t: "q_typed mem_redis ?q (dw_redis ?w)"
    by (simp add: q_typed_def redis_types mem_at_def mem_empty_def)
  obtain w' where w': "DispatchJob mem_nomad mem_redis ?q (Down ''refused'') (Down ''refused'') Up Up ''d1''
      (Some ''inference-d1'') ?w = (w', DispatchQueued)"
    by (simp add: DispatchJob_def SubmitJobIdempotent_def SubmitJob_def Enqueue_def)
  show ?thesis
    using dispatch_not_lost [OF memn.nomad_server_axioms mem.redis_server_axioms t _ w'] w' by auto
qed



section \<open>The other calls of the client (\<^verbatim>\<open>client.go\<close>)\<close>

text \<open>Allocations and their states on the server: what a query answers, what stopping a job or an allocation does. A call that the
  server refuses answers its own error.\<close>

record ('n, 'a) nomad_cluster = "'n nomad" +
  ALLOC_INFO :: "string \<Rightarrow> 'n \<Rightarrow> string + 'a"
  JOB_ALLOCS :: "string \<Rightarrow> 'n \<Rightarrow> string + 'a list"
  ALLOC_LIST :: "'n \<Rightarrow> string + 'a list"
  DEREGISTER :: "string \<Rightarrow> bool \<Rightarrow> 'n \<Rightarrow> 'n \<times> (string + string)"
  ALLOC_STOP :: "'a \<Rightarrow> 'n \<Rightarrow> 'n \<times> (string + string)"
  EVENT_STREAM :: "(string \<times> string list) list \<Rightarrow> nat \<Rightarrow> 'n \<Rightarrow> string + (string \<times> string) list"

definition DefaultNomadAddress :: string where "DefaultNomadAddress = ''http://127.0.0.1:4646''"

text \<open>\<open>connect\<close> is the constructor of the SDK.\<close>

definition Nomad_NewClient :: "(string \<Rightarrow> string + 'c) \<Rightarrow> string \<Rightarrow> submit_error + 'c" where
  "Nomad_NewClient connect address = (case connect (if address \<noteq> [] then address else DefaultNomadAddress) of
      Inl e \<Rightarrow> Inl (NomadCallFailed e) | Inr c \<Rightarrow> Inr c)"

definition nomad_query :: "string link \<Rightarrow> ('n \<Rightarrow> string + 'r) \<Rightarrow> 'n \<Rightarrow> submit_error + 'r" where
  "nomad_query l f n = (case snd (roundtrip l (\<lambda>n. (n, f n)) n) of
      Inl e \<Rightarrow> Inl (NomadCallFailed e) | Inr (Inl e) \<Rightarrow> Inl (NomadCallFailed e) | Inr (Inr r) \<Rightarrow> Inr r)"

definition nomad_write :: "string link \<Rightarrow> ('n \<Rightarrow> 'n \<times> (string + 'r)) \<Rightarrow> 'n \<Rightarrow> 'n \<times> (submit_error + 'r)" where
  "nomad_write l f n = (case roundtrip l f n of
      (n', Inl e) \<Rightarrow> (n', Inl (NomadCallFailed e)) | (n', Inr (Inl e)) \<Rightarrow> (n', Inl (NomadCallFailed e)) | (n', Inr (Inr r)) \<Rightarrow> (n', Inr r))"

definition Allocation :: "('n, 'a, 'y) nomad_cluster_scheme \<Rightarrow> string link \<Rightarrow> string \<Rightarrow> 'n \<Rightarrow> submit_error + 'a" where
  "Allocation N l allocID n = nomad_query l (ALLOC_INFO N allocID) n"

definition AllocationsForJob :: "('n, 'a, 'y) nomad_cluster_scheme \<Rightarrow> string link \<Rightarrow> string \<Rightarrow> 'n \<Rightarrow> submit_error + 'a list" where
  "AllocationsForJob N l jobID n = nomad_query l (JOB_ALLOCS N jobID) n"

definition ListAllocations :: "('n, 'a, 'y) nomad_cluster_scheme \<Rightarrow> string link \<Rightarrow> 'n \<Rightarrow> submit_error + 'a list" where
  "ListAllocations N l n = nomad_query l (ALLOC_LIST N) n"

definition StreamEvents ::
  "('n, 'a, 'y) nomad_cluster_scheme \<Rightarrow> string link \<Rightarrow> (string \<times> string list) list \<Rightarrow> nat \<Rightarrow> 'n \<Rightarrow> submit_error + (string \<times> string) list" where
  "StreamEvents N l topics index n = nomad_query l (EVENT_STREAM N topics index) n"

definition StopJob :: "('n, 'a, 'y) nomad_cluster_scheme \<Rightarrow> string link \<Rightarrow> string \<Rightarrow> bool \<Rightarrow> 'n \<Rightarrow> 'n \<times> (submit_error + string)" where
  "StopJob N l jobID purge n = nomad_write l (DEREGISTER N jobID purge) n"

definition StopAllocation ::
  "('n, 'a, 'y) nomad_cluster_scheme \<Rightarrow> string link \<Rightarrow> string link \<Rightarrow> string \<Rightarrow> 'n \<Rightarrow> 'n \<times> (submit_error + unit)" where
  "StopAllocation N li ls allocID n = (case Allocation N li allocID n of
      Inl e \<Rightarrow> (n, Inl e)
    | Inr alloc \<Rightarrow> (case nomad_write ls (ALLOC_STOP N alloc) n of (n', Inl e) \<Rightarrow> (n', Inl e) | (n', Inr _) \<Rightarrow> (n', Inr ())))"

text \<open>What the scheduler relies on: a query answers the allocation with the id it asked for, and stopping an allocation ends that one
  and leaves the registered jobs and every other allocation as they are.\<close>

locale allocation_server = nomad_server N for N :: "('n, 'a, 'y) nomad_cluster_scheme" +
  fixes alloc_id :: "'a \<Rightarrow> string" and running :: "'n \<Rightarrow> string \<Rightarrow> bool"
  assumes info_id: "ALLOC_INFO N i n = Inr a \<Longrightarrow> alloc_id a = i"
    and stop_running: "snd (ALLOC_STOP N a n) = Inr e \<Longrightarrow> \<not> running (fst (ALLOC_STOP N a n)) (alloc_id a)"
    and stop_others: "i \<noteq> alloc_id a \<Longrightarrow> running (fst (ALLOC_STOP N a n)) i = running n i"
    and stop_jobs: "JOB N (fst (ALLOC_STOP N a n)) j = JOB N n j"
begin

lemma stop_allocation_exact:
  assumes "StopAllocation N li ls i n = (n', r)"
  shows "r = Inr () \<Longrightarrow> \<not> running n' i" "j \<noteq> i \<Longrightarrow> running n' j = running n j" "JOB N n' k = JOB N n k"
proof -
  have info: "alloc_id a = i" if "Allocation N li i n = Inr a" for a
    using that info_id by (cases li) (auto simp: Allocation_def nomad_query_def split: sum.splits)
  have written: "n' = n \<or> (\<exists>a. alloc_id a = i \<and> n' = fst (ALLOC_STOP N a n) \<and> (r = Inr () \<longrightarrow> (\<exists>e. snd (ALLOC_STOP N a n) = Inr e)))"
    using assms info
    by (cases ls) (auto simp: StopAllocation_def nomad_write_def roundtrip_def split: sum.splits prod.splits)
  have stopped: "r = Inr () \<Longrightarrow> \<exists>a. alloc_id a = i \<and> n' = fst (ALLOC_STOP N a n) \<and> (\<exists>e. snd (ALLOC_STOP N a n) = Inr e)"
    using assms info
    by (cases ls) (auto simp: StopAllocation_def nomad_write_def roundtrip_def split: sum.splits prod.splits)
  show "r = Inr () \<Longrightarrow> \<not> running n' i" using stopped stop_running by blast
  show "j \<noteq> i \<Longrightarrow> running n' j = running n j" using written stop_others by auto
  show "JOB N n' k = JOB N n k" using written stop_jobs by auto
qed

end

text \<open>A cluster in memory: the registered jobs, and the ids of the running allocations.\<close>

definition mem_cluster :: "((string \<Rightarrow> string option option) \<times> string list, string) nomad_cluster" where
  "mem_cluster = \<lparr>JOB = (\<lambda>(js, _). js), REGISTER = (\<lambda>i (js, as). ((js(i := Some (Some ''pending'')), as), ''eval-'' @ i)),
     ALLOC_INFO = (\<lambda>i (_, as). if i \<in> set as then Inr i else Inl ''404''), JOB_ALLOCS = (\<lambda>i (_, as). Inr (filter (\<lambda>a. has_prefix a i) as)),
     ALLOC_LIST = (\<lambda>(_, as). Inr as), DEREGISTER = (\<lambda>i purge (js, as). ((js(i := if purge then None else Some (Some deadStatus)), as), Inr ''eval'')),
     ALLOC_STOP = (\<lambda>a (js, as). ((js, filter (\<lambda>b. b \<noteq> a) as), Inr ''eval'')), EVENT_STREAM = (\<lambda>_ _ _. Inr [])\<rparr>"

interpretation memc: allocation_server mem_cluster "\<lambda>a. a" "\<lambda>n i. i \<in> set (snd n)"
  by unfold_locales (auto simp: mem_cluster_def live_job_def deadStatus_def split: if_splits)

lemma stop_allocation_only:
  assumes "StopAllocation mem_cluster li ls i n = (n', Inr ())"
  shows "i \<notin> set (snd n')" "j \<noteq> i \<Longrightarrow> j \<in> set (snd n') \<longleftrightarrow> j \<in> set (snd n)" "fst n' = fst n"
  using memc.stop_allocation_exact [OF assms] by (auto simp: mem_cluster_def case_prod_beta intro!: ext)

end
