(* ===== verification/Http.thy ===== *)
theory Http
  imports Database Encoding
begin

text \<open>
  What the HTTP layer of the gateway shares: the error envelope of \<^verbatim>\<open>apierror/apierror.go\<close>, the
  principal a request carries (\<^verbatim>\<open>httpmw/apikey.go\<close>), and the credentials of a request. A handler is
  a function to a response; \<open>'b\<close> is the type of its success body. A middleware answers with a
  response or lets the request pass with a principal.
\<close>

section \<open>Error envelope (\<^verbatim>\<open>apierror.go\<close>)\<close>

datatype api_code = CodeUnauthorized | CodeTokenExpired | CodeInvalidToken | CodeForbidden | CodeNotFound
  | CodeConflict | CodeValidation | CodeRateLimited | CodeTimeout | CodeInternal

record envelope =
  env_Code :: api_code
  env_Message :: string
  env_RequestID :: string

datatype 'b response = RespError int envelope | RespBody int 'b | RespEmpty int

definition apierror_Write :: "int \<Rightarrow> api_code \<Rightarrow> string \<Rightarrow> string \<Rightarrow> 'b response" where
  "apierror_Write status code message requestID =
     RespError status \<lparr>env_Code = code, env_Message = message, env_RequestID = requestID\<rparr>"

definition WriteStorageError :: "string \<Rightarrow> db_error \<Rightarrow> 'b response" where
  "WriteStorageError requestID e = (case e of
      ErrNotFound \<Rightarrow> apierror_Write 404 CodeNotFound ''resource not found'' requestID
    | ErrConflict \<Rightarrow> apierror_Write 409 CodeConflict ''resource already exists'' requestID
    | DbFailure _ \<Rightarrow> apierror_Write 500 CodeInternal ''internal server error'' requestID)"

fun resp_status :: "'b response \<Rightarrow> int" where
  "resp_status (RespError st _) = st"
| "resp_status (RespBody st _) = st"
| "resp_status (RespEmpty st) = st"

lemma resp_status_Write [simp]: "resp_status (apierror_Write st c m r) = st"
  by (simp add: apierror_Write_def)

lemma storage_error_status: "resp_status (WriteStorageError r e) \<in> {404, 409, 500}"
  by (cases e) (simp_all add: WriteStorageError_def)

lemma Write_not_body [simp]:
  "apierror_Write st c m r \<noteq> RespBody st' b" "apierror_Write st c m r \<noteq> RespEmpty st'"
  "WriteStorageError r e \<noteq> RespBody st' b" "WriteStorageError r e \<noteq> RespEmpty st'"
  by (cases e; simp add: apierror_Write_def WriteStorageError_def)+

section \<open>Principals (\<^verbatim>\<open>httpmw/apikey.go\<close>)\<close>

record principal =
  pr_APIKeyID :: string
  pr_UserID :: string
  pr_OrgID :: "string option"
  pr_Scopes :: "string list"

text \<open>The credentials of a request: the \<^verbatim>\<open>Authorization\<close> header (empty when absent), the access
  token cookie, the \<^verbatim>\<open>access_token\<close> query parameter, and the request id of the request id middleware.\<close>

record request =
  req_Authorization :: string
  req_AccessCookie :: "string option"
  req_QueryToken :: string
  req_ID :: string

definition bearerToken :: "request \<Rightarrow> string option" where
  "bearerToken r = (case cut_prefix (req_Authorization r) ''Bearer '' of
      None \<Rightarrow> None | Some t \<Rightarrow> if t = [] then None else Some t)"

definition unauthorized :: "request \<Rightarrow> 'b response" where
  "unauthorized r = apierror_Write 401 CodeUnauthorized ''unauthorized'' (req_ID r)"

definition sessionToken :: "request \<Rightarrow> string option" where
  "sessionToken r = (case bearerToken r of
      Some t \<Rightarrow> Some t
    | None \<Rightarrow> (case req_AccessCookie r of
        Some v \<Rightarrow> if v \<noteq> [] then Some v else if req_QueryToken r \<noteq> [] then Some (req_QueryToken r) else None
      | None \<Rightarrow> if req_QueryToken r \<noteq> [] then Some (req_QueryToken r) else None))"

definition writeTokenError :: "request \<Rightarrow> api_code \<Rightarrow> string \<Rightarrow> 'b response" where
  "writeTokenError r code message = apierror_Write 401 code message (req_ID r)"

section \<open>Scopes (\<^verbatim>\<open>httpmw/scope.go\<close>)\<close>

fun hasScope :: "string list \<Rightarrow> string \<Rightarrow> bool" where
  "hasScope [] want = False"
| "hasScope (s # ss) want = (if s = want then True else hasScope ss want)"

lemma hasScope_iff [simp]: "hasScope ss want \<longleftrightarrow> want \<in> set ss"
  by (induction ss) auto

definition RequireScope :: "string \<Rightarrow> request \<Rightarrow> principal option \<Rightarrow> 'b response + principal" where
  "RequireScope scope r po = (case po of
      None \<Rightarrow> Inl (apierror_Write 403 CodeForbidden ''forbidden'' (req_ID r))
    | Some p \<Rightarrow> if hasScope (pr_Scopes p) scope then Inr p
                else Inl (apierror_Write 403 CodeForbidden ''forbidden'' (req_ID r)))"

lemma bearerToken_header [simp]:
  "req_Authorization r = ''Bearer '' @ t \<Longrightarrow> t \<noteq> [] \<Longrightarrow> bearerToken r = Some t"
  using cut_prefix_append [of "''Bearer ''" t] unfolding bearerToken_def by simp

end
