(* ===== verification/RateLimit.thy ===== *)
theory RateLimit
  imports Redis Http
begin

text \<open>
  The sliding-window rate limiter (\<^verbatim>\<open>ratelimit/limiter.go\<close>) and the middleware over it
  (\<^verbatim>\<open>httpmw/ratelimit.go\<close>). A run is a list of \<^verbatim>\<open>Allow\<close> calls with the gateway's clock and the
  server's clock in step; keys expire on the server. Members are the random nonces of the calls.
\<close>

section \<open>Script and method (\<^verbatim>\<open>limiter.go\<close>)\<close>

definition slidingWindowScript ::
  "('s, 'x) redis_scheme \<Rightarrow> string \<Rightarrow> int \<Rightarrow> int \<Rightarrow> int \<Rightarrow> string \<Rightarrow> 's \<Rightarrow> 's \<times> reply" where
  "slidingWindowScript R key now_ms window_ms limit member s =
     (let s1 = ZREMRANGEBYSCORE R key (now_ms - window_ms) s;
          entries = zset_at R s1 key
      in if limit \<le> int (length entries)
         then (s1, ArrReply [IntReply 0, IntReply (case entries of [] \<Rightarrow> window_ms | (_, sc) # _ \<Rightarrow> sc + window_ms - now_ms)])
         else (PEXPIRE R key window_ms (ZADD R key now_ms member s1), ArrReply [IntReply 1, IntReply 0]))"

record Decision =
  Allowed :: bool
  RetryAfter :: int

datatype limiter_error = LimiterNonce string | LimiterCallFailed rerr | LimiterUnexpected

definition asInt64 :: "reply \<Rightarrow> int option" where
  "asInt64 v = (case v of IntReply n \<Rightarrow> Some n | _ \<Rightarrow> None)"

definition allow_result :: "reply \<Rightarrow> limiter_error + Decision" where
  "allow_result res = (case res of
       ArrReply [a, b] \<Rightarrow> (case (asInt64 a, asInt64 b) of
           (Some allowed, Some retryAfterMs) \<Rightarrow> Inr \<lparr>Allowed = (allowed = 1), RetryAfter = i64 (retryAfterMs * 1000000)\<rparr>
         | _ \<Rightarrow> Inl LimiterUnexpected)
     | ErrReply e \<Rightarrow> Inl (LimiterCallFailed e)
     | _ \<Rightarrow> Inl LimiterUnexpected)"

text \<open>\<open>member\<close> is the result of \<^verbatim>\<open>randomMember\<close>; \<open>window\<close> is in nanoseconds.\<close>

definition Allow ::
  "('s, 'x) redis_scheme \<Rightarrow> rerr link \<Rightarrow> (string + string) \<Rightarrow> int \<Rightarrow> string \<Rightarrow> int \<Rightarrow> int \<Rightarrow> 's \<Rightarrow>
   's \<times> (limiter_error + Decision)" where
  "Allow R l member nowMs key limit window s = (case member of
      Inl e \<Rightarrow> (s, Inl (LimiterNonce e))
    | Inr m \<Rightarrow> (case roundtrip l (slidingWindowScript R key nowMs (tdiv window 1000000) limit m) s of
        (s', Inl e) \<Rightarrow> (s', Inl (LimiterCallFailed e))
      | (s', Inr res) \<Rightarrow> (s', allow_result res)))"

section \<open>Middleware (\<^verbatim>\<open>httpmw/ratelimit.go\<close>)\<close>

datatype rate_outcome = RatePassed | RateRejected int

text \<open>\<^verbatim>\<open>int (d.Seconds () + 0.5)\<close> for a non-negative duration in nanoseconds.\<close>

definition retry_seconds :: "int \<Rightarrow> int" where
  "retry_seconds d = max 1 ((d + 500000000) div 1000000000)"

definition RateLimit_handler :: "limiter_error + Decision \<Rightarrow> rate_outcome" where
  "RateLimit_handler r = (case r of
      Inl _ \<Rightarrow> RatePassed
    | Inr d \<Rightarrow> if Allowed d then RatePassed else RateRejected (retry_seconds (RetryAfter d)))"

definition PrincipalRouteKey :: "string \<Rightarrow> principal option \<Rightarrow> string" where
  "PrincipalRouteKey routeClass po = (case po of
      None \<Rightarrow> ''ratelimit:'' @ routeClass @ '':anonymous''
    | Some p \<Rightarrow> ''ratelimit:'' @ routeClass @ '':'' @ (if pr_APIKeyID p \<noteq> [] then pr_APIKeyID p else pr_UserID p))"

section \<open>Runs\<close>

record rl_call =
  rl_time :: int
  rl_member :: string
  rl_link :: "rerr link"

definition admits :: "('s, 'x) redis_scheme \<Rightarrow> string \<Rightarrow> int \<Rightarrow> int \<Rightarrow> rl_call \<Rightarrow> 's \<Rightarrow> bool" where
  "admits R key limit window c s \<longleftrightarrow> reached (rl_link c) \<and>
     snd (slidingWindowScript R key (rl_time c) (tdiv window 1000000) limit (rl_member c) s) = ArrReply [IntReply 1, IntReply 0]"

text \<open>The server state after the calls and the admitted calls, latest first.\<close>

fun rl_run ::
  "('s, 'x) redis_scheme \<Rightarrow> string \<Rightarrow> int \<Rightarrow> int \<Rightarrow> rl_call list \<Rightarrow> 's \<times> rl_call list \<Rightarrow> 's \<times> rl_call list" where
  "rl_run R key limit window [] st = st"
| "rl_run R key limit window (c # cs) (s, adm) =
     (let s1 = TICK R (rl_time c) s
      in rl_run R key limit window cs
           (fst (Allow R (rl_link c) (Inr (rl_member c)) (rl_time c) key limit window s1),
            if admits R key limit window c s1 then c # adm else adm))"

definition in_window :: "int \<Rightarrow> int \<Rightarrow> rl_call \<Rightarrow> bool" where
  "in_window W u c \<longleftrightarrow> u - W < rl_time c \<and> rl_time c \<le> u"

text \<open>The sorted set holds every admitted call of the current window, and the key lives long enough.\<close>

definition rl_inv :: "('s, 'x) redis_scheme \<Rightarrow> string \<Rightarrow> int \<Rightarrow> int \<Rightarrow> 's \<Rightarrow> rl_call list \<Rightarrow> bool" where
  "rl_inv R key W T s adm \<longleftrightarrow> zset_ok R s key \<and>
     (\<forall>c \<in> set adm. T - W < rl_time c \<longrightarrow> (rl_member c, rl_time c) \<in> set (zset_at R s key)) \<and>
     (\<forall>d. DEADLINE R s key = Some d \<longrightarrow> (\<forall>c \<in> set adm. rl_time c + W \<le> d)) \<and>
     (\<forall>c \<in> set adm. rl_time c \<le> T)"

context redis_expiry
begin

lemma rl_inv_tick:
  assumes "rl_inv R key W T s adm" "T \<le> t"
  shows "rl_inv R key W t (TICK R t s) adm"
proof (cases "\<exists>d. DEADLINE R s key = Some d \<and> d \<le> t")
  case True
  then obtain d where d: "DEADLINE R s key = Some d" "d \<le> t" by blast
  have v: "VALUE R (TICK R t s) key = None" "DEADLINE R (TICK R t s) key = None"
    using d by (simp_all add: value_tick deadline_tick)
  have "rl_time c \<le> t - W" if "c \<in> set adm" for c
    using assms(1) d that by (auto simp: rl_inv_def)
  then show ?thesis using assms v by (fastforce simp: rl_inv_def zset_ok_def)
next
  case False
  then have v: "VALUE R (TICK R t s) key = VALUE R s key" "DEADLINE R (TICK R t s) key = DEADLINE R s key"
    by (auto simp: value_tick deadline_tick split: option.splits)
  show ?thesis using assms v by (fastforce simp: rl_inv_def zset_ok_def zset_at_def)
qed

lemma rl_inv_drop:
  assumes "rl_inv R key W t s adm"
  defines "s1 \<equiv> ZREMRANGEBYSCORE R key (t - W) s"
  shows "rl_inv R key W t s1 adm" "zset_at R s1 key = zdrop (zset_at R s key) (t - W)"
proof -
  have ok: "zset_ok R s key" using assms by (simp add: rl_inv_def)
  note v = value_zremrange [OF ok, of "t - W"]
  show z: "zset_at R s1 key = zdrop (zset_at R s key) (t - W)"
    unfolding s1_def by (simp add: zset_at_def v)
  have "zset_ok R s1 key" unfolding s1_def by (simp add: zset_ok_def v)
  moreover have "DEADLINE R s1 key = Some d \<Longrightarrow> DEADLINE R s key = Some d" for d
    unfolding s1_def by (simp add: deadline_zremrange split: if_splits)
  ultimately show "rl_inv R key W t s1 adm" using assms(1) unfolding rl_inv_def z by (auto simp: zdrop_def)
qed

lemma rl_inv_add:
  assumes "rl_inv R key W t s adm" "0 < W" "rl_time c = t" "CLOCK R s = t" "rl_member c \<notin> rl_member ` set adm"
  defines "s1 \<equiv> PEXPIRE R key W (ZADD R key t (rl_member c) s)"
  shows "rl_inv R key W t s1 (c # adm)"
proof -
  have ok: "zset_ok R s key" using assms(1) by (simp add: rl_inv_def)
  note v = value_zadd [OF ok, of t "rl_member c"]
  have d: "DEADLINE R s1 key = Some (t + W)"
    unfolding s1_def using assms(2,4) by (simp add: deadline_pexpire v clock_zadd)
  have z: "zset_at R s1 key = zput (zset_at R s key) t (rl_member c)" "zset_ok R s1 key"
    unfolding s1_def using assms(2) by (simp_all add: zset_at_def zset_ok_def value_pexpire v)
  have "(rl_member c', rl_time c') \<in> set (zset_at R s1 key)" if "c' \<in> set adm" "t - W < rl_time c'" for c'
  proof -
    have "rl_member c' \<noteq> rl_member c" using assms(5) that(1) by (metis imageI)
    then show ?thesis using assms(1) that unfolding z(1) by (auto simp: rl_inv_def zput_def set_insort_key)
  qed
  moreover have "(rl_member c, t) \<in> set (zset_at R s1 key)" by (simp add: z(1) zput_def set_insort_key)
  moreover have "rl_time c' \<le> t" if "c' \<in> set adm" for c' using assms(1) that by (simp add: rl_inv_def)
  ultimately show ?thesis using z(2) d assms(3) by (fastforce simp: rl_inv_def)
qed

text \<open>The number of admitted calls of the window is at most the size of the sorted set.\<close>

lemma rl_inv_count:
  assumes "rl_inv R key W t s adm" "distinct (map rl_member adm)"
  shows "length (filter (in_window W t) adm) \<le> length (zset_at R s key)"
proof -
  let ?f = "\<lambda>c. (rl_member c, rl_time c)"
  let ?l = "map ?f (filter (in_window W t) adm)"
  have "distinct ?l" using assms(2) by (auto simp: distinct_map inj_on_def)
  moreover have "set ?l \<subseteq> set (zset_at R s key)" using assms(1) by (auto simp: rl_inv_def in_window_def)
  ultimately have "length ?l \<le> card (set (zset_at R s key))" by (metis card_mono distinct_card finite_set)
  then show ?thesis using card_length [of "zset_at R s key"] by simp
qed

lemma rl_step_at:
  fixes c :: rl_call and limit :: int
  assumes i1: "rl_inv R key W (rl_time c) s1 adm" and clk1: "CLOCK R s1 = rl_time c"
    and W: "0 < W" "tdiv window 1000000 = W" and m: "rl_member c \<notin> rl_member ` set adm" "distinct (map rl_member adm)"
  defines "s2 \<equiv> fst (Allow R (rl_link c) (Inr (rl_member c)) (rl_time c) key limit window s1)"
  shows "rl_inv R key W (rl_time c) s2 (if admits R key limit window c s1 then c # adm else adm)"
    and "admits R key limit window c s1 \<Longrightarrow> int (length (filter (in_window W (rl_time c)) adm)) < limit"
proof -
  let ?t = "rl_time c"
  let ?z = "ZREMRANGEBYSCORE R key (?t - W) s1"
  note i2 = rl_inv_drop [OF i1]
  have clk: "CLOCK R ?z = ?t" by (simp add: clock_zremrange clk1)
  note i3 = rl_inv_add [OF i2(1) W(1) refl clk m(1)]
  note cnt = rl_inv_count [OF i2(1) m(2)]
  have sc: "slidingWindowScript R key ?t W limit (rl_member c) s1 =
     (if limit \<le> int (length (zset_at R ?z key))
      then (?z, ArrReply [IntReply 0, IntReply (case zset_at R ?z key of [] \<Rightarrow> W | (_, sc) # _ \<Rightarrow> sc + W - ?t)])
      else (PEXPIRE R key W (ZADD R key ?t (rl_member c) ?z), ArrReply [IntReply 1, IntReply 0]))"
    by (simp add: slidingWindowScript_def Let_def)
  have a: "admits R key limit window c s1 \<longleftrightarrow> reached (rl_link c) \<and> \<not> limit \<le> int (length (zset_at R ?z key))"
    by (simp add: admits_def W(2) sc)
  have f: "s2 = (if reached (rl_link c) then fst (slidingWindowScript R key ?t W limit (rl_member c) s1) else s1)"
    unfolding s2_def Allow_def W(2) by (cases "rl_link c") simp_all
  show "rl_inv R key W ?t s2 (if admits R key limit window c s1 then c # adm else adm)"
    unfolding a f sc using i1 i2(1) i3 by simp
  show "admits R key limit window c s1 \<Longrightarrow> int (length (filter (in_window W ?t) adm)) < limit"
    unfolding a using cnt by linarith
qed

lemmas rl_step = rl_step_at [OF rl_inv_tick clock_tick]

end

text \<open>A call at the latest time, with room in its own window, breaks no window.\<close>

lemma window_extend:
  assumes "\<forall>u. int (length (filter (in_window W u) adm)) \<le> limit" "\<forall>c' \<in> set adm. rl_time c' \<le> rl_time c"
    and "int (length (filter (in_window W (rl_time c)) adm)) < limit"
  shows "int (length (filter (in_window W u) (c # adm))) \<le> limit"
proof (cases "rl_time c \<le> u")
  case False
  then have "filter (in_window W u) (c # adm) = filter (in_window W u) adm" by (simp add: in_window_def [of _ _ c])
  then show ?thesis using assms(1) by simp
next
  case True
  have "length (filter (in_window W u) adm) \<le> length (filter (in_window W (rl_time c)) adm)"
    using True assms(2) by (intro length_filter_weaken) (auto simp: in_window_def)
  then show ?thesis using assms(3) by auto
qed

context redis_expiry
begin

lemma rl_run_bound:
  assumes "rl_inv R key W T s adm" "0 < W" "tdiv window 1000000 = W" "0 \<le> limit"
    and "sorted (map rl_time cs)" "\<forall>c \<in> set cs. T \<le> rl_time c" "distinct (map rl_member adm @ map rl_member cs)"
    and "\<forall>u. int (length (filter (in_window W u) adm)) \<le> limit"
  shows "int (length (filter (in_window W u) (snd (rl_run R key limit window cs (s, adm))))) \<le> limit"
  using assms(1,5-8)
proof (induction cs arbitrary: T s adm)
  case Nil
  then show ?case by simp
next
  case (Cons c cs)
  let ?t = "rl_time c" and ?s1 = "TICK R (rl_time c) s"
  let ?adm = "if admits R key limit window c ?s1 then c # adm else adm"
  have m: "rl_member c \<notin> rl_member ` set adm" "distinct (map rl_member adm)" using Cons.prems(4) by auto
  have T: "T \<le> ?t" using Cons.prems(3) by simp
  note st = rl_step [OF Cons.prems(1) T assms(2,3) m, of limit]
  have old: "\<forall>c' \<in> set adm. rl_time c' \<le> ?t" using Cons.prems(1) T by (fastforce simp: rl_inv_def)
  have "\<forall>u. int (length (filter (in_window W u) ?adm)) \<le> limit"
    using Cons.prems(5) window_extend [OF Cons.prems(5) old st(2)] by simp
  moreover have "distinct (map rl_member ?adm @ map rl_member cs)" using Cons.prems(4) by auto
  ultimately show ?case
    using Cons.IH [OF st(1)] Cons.prems(2) by (simp add: Let_def)
qed

end

section \<open>Properties\<close>

text \<open>
  C15. The sliding window holds: whatever calls are made on a key, over lossy round trips and with the
  server expiring the key, no window of the configured length ever contains more than \<open>limit\<close> admitted
  requests. Calls come in the order of a common clock, and their nonces are distinct.
\<close>

theorem sliding_window_bound:
  assumes "redis_expiry R" and "VALUE R s key = None" and "1000000 \<le> window" and "0 \<le> limit"
    and "sorted (map rl_time cs)" and "distinct (map rl_member cs)"
  shows "int (length (filter (in_window (window div 1000000) u) (snd (rl_run R key limit window cs (s, []))))) \<le> limit"
proof -
  let ?W = "window div 1000000"
  have W: "0 < ?W" "tdiv window 1000000 = ?W" using assms(3) by (simp_all add: pos_imp_zdiv_pos_iff)
  define T where "T = (case cs of [] \<Rightarrow> 0 | c # _ \<Rightarrow> rl_time c)"
  have "\<forall>c \<in> set cs. T \<le> rl_time c" using assms(5) by (auto simp: T_def split: list.splits)
  moreover have "rl_inv R key ?W T s []"
    using assms(2) by (simp add: rl_inv_def zset_ok_def)
  ultimately show ?thesis
    using redis_expiry.rl_run_bound [OF assms(1) _ W assms(4,5), of key T s "[]" u] assms(4,6) by simp
qed

definition rl_example :: "rl_call list" where
  "rl_example = [\<lparr>rl_time = 0, rl_member = ''a'', rl_link = Up\<rparr>, \<lparr>rl_time = 1, rl_member = ''b'', rl_link = Lost ''x''\<rparr>,
     \<lparr>rl_time = 2, rl_member = ''c'', rl_link = Up\<rparr>]"

theorem sliding_window_bound_witness:
  "int (length (filter (in_window 60000 2) (snd (rl_run mem_redis ''k'' 2 60000000000 rl_example (mem_empty, []))))) \<le> 2"
proof -
  have "VALUE mem_redis mem_empty ''k'' = None" by (simp add: mem_at_def mem_empty_def)
  from sliding_window_bound [OF mem.redis_expiry_axioms this, of 60000000000 2 rl_example 2]
  show ?thesis by (simp add: rl_example_def)
qed

text \<open>
  A rejected request is told to wait for a positive time of at most the window, whenever the
  recorded scores are not in the future; and the middleware rejects only on a decision of the limiter,
  with a Retry-After of at least one second.
\<close>

lemma retry_after_bounds:
  assumes "redis_server R" and "zset_ok R s key" and "list_all (\<lambda>p. snd p \<le> now) (zset_at R s key)"
    and "1000000 \<le> window" and "window < 2 ^ 63" and "0 < limit"
    and "snd (Allow R Up (Inr m) now key limit window s) = Inr d" and "\<not> Allowed d"
  shows "0 < RetryAfter d \<and> RetryAfter d \<le> window \<and>
    (\<exists>k. RateLimit_handler (Inr d) = RateRejected k \<and> 1 \<le> k)"
proof -
  let ?W = "window div 1000000"
  let ?s1 = "ZREMRANGEBYSCORE R key (now - ?W) s"
  have W: "0 < ?W" "tdiv window 1000000 = ?W" using assms(4) by (simp_all add: pos_imp_zdiv_pos_iff)
  have z: "zset_at R ?s1 key = zdrop (zset_at R s key) (now - ?W)"
    using redis_server.value_zremrange [OF assms(1,2), of "now - ?W"] by (simp add: zset_at_def)
  define r where "r = (case zset_at R ?s1 key of [] \<Rightarrow> ?W | (_, sc) # _ \<Rightarrow> sc + ?W - now)"
  have full: "limit \<le> int (length (zset_at R ?s1 key))" and ra: "RetryAfter d = i64 (r * 1000000)"
    using assms(7,8) by (auto simp: Allow_def W(2) slidingWindowScript_def Let_def allow_result_def asInt64_def r_def split: if_splits)
  obtain mm sc zs where zs: "zset_at R ?s1 key = (mm, sc) # zs"
    using full assms(6) by (cases "zset_at R ?s1 key") auto
  have "(mm, sc) \<in> set (zdrop (zset_at R s key) (now - ?W))" using zs z by simp
  then have "now - ?W < sc" "sc \<le> now" using assms(3) by (auto simp: zdrop_def list_all_iff)
  then have r: "0 < r" "r \<le> ?W" by (simp_all add: r_def zs)
  have "?W * 1000000 \<le> window" using assms(4) by simp
  then have "r * 1000000 \<le> window" "0 < r * 1000000" using r by linarith+
  then have "RetryAfter d = r * 1000000" unfolding ra using assms(5) by (intro i64_id_nonneg) linarith+
  then show ?thesis using \<open>r * 1000000 \<le> window\<close> r assms(8) by (simp add: RateLimit_handler_def retry_seconds_def)
qed

lemma retry_after_bounds_witness:
  "\<exists>d. snd (Allow mem_redis Up (Inr ''b'') 5 ''k'' 1 1000000000 (fst (Allow mem_redis Up (Inr ''a'') 3 ''k'' 1 1000000000 mem_empty)))
     = Inr d \<and> 0 < RetryAfter d \<and> RetryAfter d \<le> 1000000000"
proof -
  let ?s = "fst (Allow mem_redis Up (Inr ''a'') 3 ''k'' 1 1000000000 mem_empty)"
  have v: "zset_ok mem_redis ?s ''k''" "list_all (\<lambda>p. snd p \<le> 5) (zset_at mem_redis ?s ''k'')" by code_simp+
  have a: "snd (Allow mem_redis Up (Inr ''b'') 5 ''k'' 1 1000000000 ?s) = Inr \<lparr>Allowed = False, RetryAfter = 998000000\<rparr>" by code_simp
  show ?thesis using retry_after_bounds [OF mem.redis_server_axioms v _ _ _ a] a by simp
qed

end
