(* ===== verification/Policy.thy ===== *)
theory Policy
  imports RateLimit Database Complex_Main
begin

text \<open>
  Abuse policy (\<^verbatim>\<open>internal/policy\<close>): the signals, the escalation ladder, the rate reduction, the
  suspension of an account and the middleware that ties them to a request. The world holds the Redis
  server, the three tables the suspension writes, and the Nomad jobs it asked to stop. What the network
  does in one call is a record of links; \<open>stop j\<close> is Nomad's error for the job \<open>j\<close>, if any.
  The entropy is over the reals: rounding of \<^verbatim>\<open>float64\<close> is not modelled.
\<close>

section \<open>Entropy (\<^verbatim>\<open>entropy.go\<close>)\<close>

definition byte_prob :: "string \<Rightarrow> char \<Rightarrow> real" where
  "byte_prob s c = real (count_list s c) / real (length s)"

definition ShannonEntropy :: "string \<Rightarrow> real" where
  "ShannonEntropy s = (if s = [] then 0
     else - (\<Sum>c \<leftarrow> map char_of [0..<256::nat]. if count_list s c = 0 then 0 else byte_prob s c * log 2 (byte_prob s c)))"

definition LowEntropyThreshold :: real where "LowEntropyThreshold = 5 / 2"

definition IsLowEntropy :: "string \<Rightarrow> real \<Rightarrow> bool" where
  "IsLowEntropy s threshold \<longleftrightarrow> ShannonEntropy s \<le> threshold"

section \<open>Signals (\<^verbatim>\<open>abuse.go\<close>)\<close>

record AbuseThresholds =
  CadenceLimit :: int
  CadenceWindow :: int
  LowEntropyBurstLimit :: int
  LowEntropyWindow :: int
  EntropyThreshold :: real
  AllocationChurnLimit :: int
  AllocationChurnWindow :: int

definition DefaultAbuseThresholds :: AbuseThresholds where
  "DefaultAbuseThresholds = \<lparr>CadenceLimit = 120, CadenceWindow = 60 * 1000000000, LowEntropyBurstLimit = 20,
     LowEntropyWindow = 60 * 1000000000, EntropyThreshold = LowEntropyThreshold, AllocationChurnLimit = 10,
     AllocationChurnWindow = 60 * 1000000000\<rparr>"

definition NewAbuseDetector :: "AbuseThresholds \<Rightarrow> AbuseThresholds" where
  "NewAbuseDetector th = (if CadenceLimit th \<le> 0 then DefaultAbuseThresholds else th)"

definition cadenceKey :: "string \<Rightarrow> string" where "cadenceKey u = ''abuse:cadence:'' @ u"
definition entropyKey :: "string \<Rightarrow> string" where "entropyKey u = ''abuse:entropy:'' @ u"
definition churnKey :: "string \<Rightarrow> string" where "churnKey u = ''abuse:churn:'' @ u"

text \<open>One call of the limiter: its link, its nonce and the clock.\<close>

record limiter_call =
  lc_link :: "rerr link"
  lc_nonce :: "string + string"
  lc_now :: int

definition check_signal ::
  "('s, 'x) redis_scheme \<Rightarrow> limiter_call \<Rightarrow> string \<Rightarrow> int \<Rightarrow> int \<Rightarrow> 's \<Rightarrow> 's \<times> (limiter_error + bool)" where
  "check_signal R c key limit window s = (case Allow R (lc_link c) (lc_nonce c) (lc_now c) key limit window s of
      (s', Inl e) \<Rightarrow> (s', Inl e) | (s', Inr d) \<Rightarrow> (s', Inr (\<not> Allowed d)))"

definition CheckRequestCadence ::
  "('s, 'x) redis_scheme \<Rightarrow> AbuseThresholds \<Rightarrow> limiter_call \<Rightarrow> string \<Rightarrow> 's \<Rightarrow> 's \<times> (limiter_error + bool)" where
  "CheckRequestCadence R th c u s = check_signal R c (cadenceKey u) (CadenceLimit th) (CadenceWindow th) s"

definition CheckPromptEntropy ::
  "('s, 'x) redis_scheme \<Rightarrow> AbuseThresholds \<Rightarrow> limiter_call \<Rightarrow> string \<Rightarrow> string \<Rightarrow> 's \<Rightarrow> 's \<times> (limiter_error + bool)" where
  "CheckPromptEntropy R th c u prompt s =
     (if \<not> IsLowEntropy prompt (EntropyThreshold th) then (s, Inr False)
      else check_signal R c (entropyKey u) (LowEntropyBurstLimit th) (LowEntropyWindow th) s)"

definition CheckAllocationChurn ::
  "('s, 'x) redis_scheme \<Rightarrow> AbuseThresholds \<Rightarrow> limiter_call \<Rightarrow> string \<Rightarrow> 's \<Rightarrow> 's \<times> (limiter_error + bool)" where
  "CheckAllocationChurn R th c u s = check_signal R c (churnKey u) (AllocationChurnLimit th) (AllocationChurnWindow th) s"

section \<open>Counter and reduction (\<^verbatim>\<open>redis_violation_counter.go\<close>, \<^verbatim>\<open>rate_reduction.go\<close>)\<close>

datatype policy_error =
    PolicyRedis rerr
  | PolicyDb db_error
  | PolicyNotInteger

definition Violation_Incr :: "('s, 'x) redis_scheme \<Rightarrow> rerr link \<Rightarrow> string \<Rightarrow> 's \<Rightarrow> 's \<times> (policy_error + int)" where
  "Violation_Incr R l key s =
     (case roundtrip l (\<lambda>s. case int_of_value (string_at R s key) of
          None \<Rightarrow> (s, None) | Some n \<Rightarrow> (INCR R key s, Some (n + 1))) s of
        (s', Inl e) \<Rightarrow> (s', Inl (PolicyRedis e))
      | (s', Inr None) \<Rightarrow> (s', Inl PolicyNotInteger)
      | (s', Inr (Some n)) \<Rightarrow> (s', Inr n))"

text \<open>The client sends whole seconds, at least one for a positive duration.\<close>

definition expire_seconds :: "int \<Rightarrow> int" where
  "expire_seconds ttl = (if 0 < ttl \<and> ttl < 1000000000 then 1 else tdiv ttl 1000000000)"

definition Violation_Expire :: "('s, 'x) redis_scheme \<Rightarrow> rerr link \<Rightarrow> string \<Rightarrow> int \<Rightarrow> 's \<Rightarrow> 's \<times> (policy_error + unit)" where
  "Violation_Expire R l key ttl s =
     (case roundtrip l (\<lambda>s. (PEXPIRE R key (expire_seconds ttl * 1000) s, ())) s of
        (s', Inl e) \<Rightarrow> (s', Inl (PolicyRedis e)) | (s', Inr _) \<Rightarrow> (s', Inr ()))"

definition reducedKey :: "string \<Rightarrow> string" where "reducedKey u = ''abuse:reduced:'' @ u"

definition Reduce :: "('s, 'x) redis_scheme \<Rightarrow> rerr link \<Rightarrow> string \<Rightarrow> int \<Rightarrow> 's \<Rightarrow> 's \<times> (policy_error + unit)" where
  "Reduce R l u ttl s = (case roundtrip l (\<lambda>s. (SET R (reducedKey u) ''1'' (tdiv ttl 1000000) s, ())) s of
      (s', Inl e) \<Rightarrow> (s', Inl (PolicyRedis e)) | (s', Inr _) \<Rightarrow> (s', Inr ()))"

definition IsReduced :: "('s, 'x) redis_scheme \<Rightarrow> rerr link \<Rightarrow> string \<Rightarrow> 's \<Rightarrow> policy_error + bool" where
  "IsReduced R l u s = (case snd (roundtrip l (\<lambda>s. (s, VALUE R s (reducedKey u) \<noteq> None)) s) of
      Inl e \<Rightarrow> Inl (PolicyRedis e) | Inr b \<Rightarrow> Inr b)"

section \<open>Suspension (\<^verbatim>\<open>suspension.go\<close>)\<close>

record accounts =
  acc_users :: "user list"
  acc_keys :: "apikey list"
  acc_deps :: "deployment list"
  acc_stopped :: "string list"

record suspend_links =
  sl_user :: "pgerr link"
  sl_keys :: "pgerr link"
  sl_list :: "pgerr link"
  sl_term :: "string \<Rightarrow> pgerr link"
  sl_read :: "string \<Rightarrow> pgerr link"
  sl_stop :: "string \<Rightarrow> string option"
  sl_now :: int

record suspend_result =
  RevokedKeyCount :: nat
  TerminatedDeploymentIDs :: "string list"
  StopJobErrors :: "string \<rightharpoonup> string"

fun suspend_loop ::
  "suspend_links \<Rightarrow> (string \<Rightarrow> string) \<Rightarrow> deployment list \<Rightarrow> suspend_result \<Rightarrow> accounts \<Rightarrow> accounts \<times> (policy_error + suspend_result)" where
  "suspend_loop L jobID [] res a = (a, Inr res)"
| "suspend_loop L jobID (d # ds) res a =
     (let (a1, res1) = (case sl_stop L (jobID (dep_ID d)) of
            None \<Rightarrow> (a\<lparr>acc_stopped := jobID (dep_ID d) # acc_stopped a\<rparr>, res)
          | Some e \<Rightarrow> (a, res\<lparr>StopJobErrors := (StopJobErrors res)(dep_ID d \<mapsto> e)\<rparr>))
      in case Deployment_Terminate (sl_term L (dep_ID d)) (sl_read L (dep_ID d)) (sl_now L) (dep_ID d) (acc_deps a1) of
           (t, Inl e) \<Rightarrow> (a1\<lparr>acc_deps := t\<rparr>, Inl (PolicyDb e))
         | (t, Inr _) \<Rightarrow> suspend_loop L jobID ds
             (res1\<lparr>TerminatedDeploymentIDs := TerminatedDeploymentIDs res1 @ [dep_ID d]\<rparr>) (a1\<lparr>acc_deps := t\<rparr>))"

definition Suspend ::
  "suspend_links \<Rightarrow> (string \<Rightarrow> string) \<Rightarrow> string \<Rightarrow> accounts \<Rightarrow> accounts \<times> (policy_error + suspend_result)" where
  "Suspend L jobID u a = (case User_Suspend (sl_user L) (sl_now L) u (acc_users a) of
      (us, Inl e) \<Rightarrow> (a\<lparr>acc_users := us\<rparr>, Inl (PolicyDb e))
    | (us, Inr _) \<Rightarrow> (case APIKey_RevokeAllByUser (sl_keys L) (sl_now L) u (acc_keys a) of
        (ks, Inl e) \<Rightarrow> (a\<lparr>acc_users := us, acc_keys := ks\<rparr>, Inl (PolicyDb e))
      | (ks, Inr revoked) \<Rightarrow>
          (let a1 = a\<lparr>acc_users := us, acc_keys := ks\<rparr>
           in case Deployment_ListLiveByUser (sl_list L) u (acc_deps a1) of
                Inl e \<Rightarrow> (a1, Inl (PolicyDb e))
              | Inr ds \<Rightarrow> suspend_loop L jobID ds
                  \<lparr>RevokedKeyCount = revoked, TerminatedDeploymentIDs = [], StopJobErrors = Map.empty\<rparr> a1)))"

section \<open>Escalation (\<^verbatim>\<open>escalation.go\<close>)\<close>

datatype EscalationLevel = EscalationNone | EscalationReduced | EscalationSuspended

record EscalationThresholds =
  ReduceAt :: int
  SuspendAt :: int
  ViolationWindow :: int
  ReducedRateTTL :: int

definition DefaultEscalationThresholds :: EscalationThresholds where
  "DefaultEscalationThresholds = \<lparr>ReduceAt = 3, SuspendAt = 6, ViolationWindow = 3600 * 1000000000, ReducedRateTTL = 3600 * 1000000000\<rparr>"

definition NewEscalator :: "EscalationThresholds \<Rightarrow> EscalationThresholds" where
  "NewEscalator th = (if ReduceAt th \<le> 0 then DefaultEscalationThresholds else th)"

definition violationKey :: "string \<Rightarrow> string" where "violationKey u = ''abuse:violations:'' @ u"

record violation_links =
  vl_incr :: "rerr link"
  vl_expire :: "rerr link"
  vl_reduce :: "rerr link"
  vl_suspend :: suspend_links

definition RecordViolation ::
  "('s, 'x) redis_scheme \<Rightarrow> EscalationThresholds \<Rightarrow> violation_links \<Rightarrow> (string \<Rightarrow> string) \<Rightarrow> string \<Rightarrow> 's \<times> accounts \<Rightarrow>
   ('s \<times> accounts) \<times> (policy_error + EscalationLevel)" where
  "RecordViolation R th L jobID u w = (case w of (s, a) \<Rightarrow>
     (case Violation_Incr R (vl_incr L) (violationKey u) s of
        (s1, Inl e) \<Rightarrow> ((s1, a), Inl e)
      | (s1, Inr count) \<Rightarrow>
         (case (if count = 1 then Violation_Expire R (vl_expire L) (violationKey u) (ViolationWindow th) s1 else (s1, Inr ())) of
            (s2, Inl e) \<Rightarrow> ((s2, a), Inl e)
          | (s2, Inr _) \<Rightarrow>
             if SuspendAt th \<le> count
             then (case Suspend (vl_suspend L) jobID u a of
                     (a', Inl e) \<Rightarrow> ((s2, a'), Inl e) | (a', Inr _) \<Rightarrow> ((s2, a'), Inr EscalationSuspended))
             else if ReduceAt th \<le> count
             then (case Reduce R (vl_reduce L) u (ReducedRateTTL th) s2 of
                     (s3, Inl e) \<Rightarrow> ((s3, a), Inl e) | (s3, Inr _) \<Rightarrow> ((s3, a), Inr EscalationReduced))
             else ((s2, a), Inr EscalationNone))))"

section \<open>Middleware (\<^verbatim>\<open>middleware.go\<close>)\<close>

record guard_call =
  gc_reduced :: "rerr link"
  gc_budget :: limiter_call
  gc_cadence :: limiter_call
  gc_entropy :: limiter_call
  gc_violation :: violation_links

text \<open>\<open>msgs\<close> are the contents of the messages of the body, if it parses; the result is whether the
  request reaches the handler.\<close>

definition AbuseGuardMiddleware ::
  "('s, 'x) redis_scheme \<Rightarrow> AbuseThresholds \<Rightarrow> EscalationThresholds \<Rightarrow> (string \<Rightarrow> string) \<Rightarrow> int \<Rightarrow> int \<Rightarrow> guard_call \<Rightarrow>
   principal option \<Rightarrow> string list option \<Rightarrow> 's \<times> accounts \<Rightarrow> ('s \<times> accounts) \<times> bool" where
  "AbuseGuardMiddleware R th eth jobID reducedLimit reducedWindow g po msgs w = (case po of
      None \<Rightarrow> (w, True)
    | Some p \<Rightarrow> (case w of (s, a) \<Rightarrow>
       (let u = pr_UserID p;
            (s1, reject) = (if IsReduced R (gc_reduced g) u s = Inr True
               then (case check_signal R (gc_budget g) (''abuse:reducedbudget:'' @ u) reducedLimit reducedWindow s of
                       (s', r) \<Rightarrow> (s', r = Inr True))
               else (s, False))
        in if reject then ((s1, a), False)
           else let prompt = (case msgs of None \<Rightarrow> [] | Some ms \<Rightarrow> concat ms);
                    (s2, r2) = CheckRequestCadence R th (gc_cadence g) u s1;
                    flagged = (r2 = Inr True);
                    (s3, flagged') = (if \<not> flagged \<and> prompt \<noteq> []
                       then (case CheckPromptEntropy R th (gc_entropy g) u prompt s2 of (s', r) \<Rightarrow> (s', r = Inr True))
                       else (s2, flagged))
                in (if flagged' then fst (RecordViolation R eth (gc_violation g) jobID u (s3, a)) else (s3, a), True))))"

section \<open>Suspension: what a call leaves behind\<close>

definition terminate_row :: "int \<Rightarrow> string set \<Rightarrow> deployment \<Rightarrow> deployment" where
  "terminate_row now ids r = (if dep_ID r \<in> ids \<and> dep_State r \<noteq> DeploymentStateTerminated
     then r\<lparr>dep_State := DeploymentStateTerminated, dep_UpdatedAt := now\<rparr> else r)"

lemma terminate_row_compose:
  "terminate_row now J (terminate_row now I r) = terminate_row now (I \<union> J) r"
  by (auto simp: terminate_row_def)

lemma Terminate_Inr:
  "Deployment_Terminate l l2 now i t = (t', Inr x) \<Longrightarrow> t' = map (terminate_row now {i}) t"
  by (cases l) (auto simp: Deployment_Terminate_def sql_update_def terminate_row_def split: if_splits sum.splits)

lemma suspend_loop_Inr:
  "suspend_loop L f ds res a = (a', Inr res') \<Longrightarrow>
     acc_users a' = acc_users a \<and> acc_keys a' = acc_keys a
     \<and> acc_deps a' = map (terminate_row (sl_now L) (dep_ID ` set ds)) (acc_deps a)
     \<and> (\<forall>i \<in> dep_ID ` set ds. f i \<in> set (acc_stopped a') \<or> StopJobErrors res' i \<noteq> None)
     \<and> set (acc_stopped a) \<subseteq> set (acc_stopped a') \<and> dom (StopJobErrors res) \<subseteq> dom (StopJobErrors res')
     \<and> TerminatedDeploymentIDs res' = TerminatedDeploymentIDs res @ map dep_ID ds
     \<and> RevokedKeyCount res' = RevokedKeyCount res"
proof (induction ds arbitrary: res a)
  case Nil
  have "map (terminate_row (sl_now L) {}) t = t" for t by (simp add: terminate_row_def map_idI)
  then show ?case using Nil by simp
next
  case (Cons d ds)
  obtain a1 res1 where st: "(case sl_stop L (f (dep_ID d)) of
            None \<Rightarrow> (a\<lparr>acc_stopped := f (dep_ID d) # acc_stopped a\<rparr>, res)
          | Some e \<Rightarrow> (a, res\<lparr>StopJobErrors := (StopJobErrors res)(dep_ID d \<mapsto> e)\<rparr>)) = (a1, res1)" by fastforce
  have a1: "acc_users a1 = acc_users a" "acc_keys a1 = acc_keys a" "acc_deps a1 = acc_deps a"
    "f (dep_ID d) \<in> set (acc_stopped a1) \<or> StopJobErrors res1 (dep_ID d) \<noteq> None"
    "set (acc_stopped a) \<subseteq> set (acc_stopped a1)" "dom (StopJobErrors res) \<subseteq> dom (StopJobErrors res1)"
    "TerminatedDeploymentIDs res1 = TerminatedDeploymentIDs res" "RevokedKeyCount res1 = RevokedKeyCount res"
    using st by (auto split: option.splits)
  obtain t x where t: "Deployment_Terminate (sl_term L (dep_ID d)) (sl_read L (dep_ID d)) (sl_now L) (dep_ID d) (acc_deps a1) = (t, Inr x)"
    and run: "suspend_loop L f ds (res1\<lparr>TerminatedDeploymentIDs := TerminatedDeploymentIDs res1 @ [dep_ID d]\<rparr>) (a1\<lparr>acc_deps := t\<rparr>) = (a', Inr res')"
    using Cons.prems by (auto simp: st split: prod.splits sum.splits)
  note ih = Cons.IH [OF run]
  have "acc_deps a' = map (terminate_row (sl_now L) (dep_ID ` set (d # ds))) (acc_deps a)"
    using ih Terminate_Inr [OF t] a1(3) by (simp add: terminate_row_compose o_def)
  moreover have "f (dep_ID d) \<in> set (acc_stopped a') \<or> StopJobErrors res' (dep_ID d) \<noteq> None"
    using a1(4) ih by (auto simp: dom_def)
  moreover have "set (acc_stopped a) \<subseteq> set (acc_stopped a')" using order_trans [OF a1(5)] ih by simp
  moreover have "dom (StopJobErrors res) \<subseteq> dom (StopJobErrors res')"
    using order_trans [OF a1(6)] ih by simp
  ultimately show ?case using ih a1(1,2,7,8) by simp
qed

lemma User_Suspend_Inr:
  "User_Suspend l now u t = (t', Inr x) \<Longrightarrow> (\<forall>r \<in> set t'. usr_ID r = u \<longrightarrow> User_Suspended r)
     \<and> filter (\<lambda>r. usr_ID r \<noteq> u) t' = filter (\<lambda>r. usr_ID r \<noteq> u) t"
proof -
  assume "User_Suspend l now u t = (t', Inr x)"
  then have "t' = map (\<lambda>r. if usr_ID r = u then r\<lparr>usr_SuspendedAt := (case usr_SuspendedAt r of Some x \<Rightarrow> Some x | None \<Rightarrow> Some now),
      usr_UpdatedAt := now\<rparr> else r) t"
    by (cases l) (auto simp: User_Suspend_def exec_update_def sql_update_def split: if_splits)
  note t' = this
  have "filter (\<lambda>r. usr_ID r \<noteq> u) t' = filter (\<lambda>r. usr_ID r \<noteq> u) t"
    unfolding t' by (rule filter_update_other) simp
  moreover have "\<forall>r \<in> set t'. usr_ID r = u \<longrightarrow> User_Suspended r"
    unfolding t' by (rule update_post) (simp_all add: User_Suspended_def split: option.split)
  ultimately show ?thesis by blast
qed

lemma RevokeAll_Inr:
  "APIKey_RevokeAllByUser l now u t = (t', Inr n) \<Longrightarrow> (\<forall>k \<in> set t'. key_UserID k = u \<longrightarrow> key_RevokedAt k \<noteq> None)
     \<and> filter (\<lambda>k. key_UserID k \<noteq> u) t' = filter (\<lambda>k. key_UserID k \<noteq> u) t
     \<and> n = length (filter (\<lambda>k. key_UserID k = u \<and> key_RevokedAt k = None) t)"
proof -
  assume a: "APIKey_RevokeAllByUser l now u t = (t', Inr n)"
  then have "t' = map (\<lambda>k. if key_UserID k = u \<and> key_RevokedAt k = None then k\<lparr>key_RevokedAt := Some now\<rparr> else k) t"
    by (cases l) (auto simp: APIKey_RevokeAllByUser_def sql_update_def)
  note t' = this
  have "n = length (filter (\<lambda>k. key_UserID k = u \<and> key_RevokedAt k = None) t)"
    using a by (cases l) (auto simp: APIKey_RevokeAllByUser_def sql_update_def)
  moreover have "filter (\<lambda>k. key_UserID k \<noteq> u) t' = filter (\<lambda>k. key_UserID k \<noteq> u) t"
    unfolding t' by (rule filter_update_other) simp
  moreover have "\<forall>k \<in> set t'. key_UserID k = u \<longrightarrow> key_RevokedAt k \<noteq> None"
    unfolding t' by (rule update_post) simp_all
  ultimately show ?thesis by blast
qed


lemma suspend_loop_users: "acc_users (fst (suspend_loop L f ds res a)) = acc_users a"
proof (induction L f ds res a rule: suspend_loop.induct)
  case (1 L jobID res a)
  then show ?case by simp
next
  case (2 L jobID d ds res a)
  obtain a1 res1 where st: "(case sl_stop L (jobID (dep_ID d)) of
            None \<Rightarrow> (a\<lparr>acc_stopped := jobID (dep_ID d) # acc_stopped a\<rparr>, res)
          | Some e \<Rightarrow> (a, res\<lparr>StopJobErrors := (StopJobErrors res)(dep_ID d \<mapsto> e)\<rparr>)) = (a1, res1)" by fastforce
  have "acc_users a1 = acc_users a" using st by (auto split: option.splits)
  then show ?case using 2 [OF st [symmetric] refl] by (auto simp: st split: prod.splits sum.splits)
qed

lemma Suspend_users: "acc_users (fst (Suspend L f u a)) = fst (User_Suspend (sl_user L) (sl_now L) u (acc_users a))"
proof -
  obtain us r where u: "User_Suspend (sl_user L) (sl_now L) u (acc_users a) = (us, r)" by fastforce
  obtain ks rk where k: "APIKey_RevokeAllByUser (sl_keys L) (sl_now L) u (acc_keys a) = (ks, rk)" by fastforce
  show ?thesis
    by (cases r; cases rk; cases "Deployment_ListLiveByUser (sl_list L) u (acc_deps a)")
      (simp_all add: Suspend_def u k suspend_loop_users Let_def)
qed

lemma User_Suspend_Up:
  "r \<in> set (fst (User_Suspend Up now u t)) \<Longrightarrow> usr_ID r = u \<Longrightarrow> User_Suspended r"
proof -
  assume r: "r \<in> set (fst (User_Suspend Up now u t))" "usr_ID r = u"
  have "\<forall>r \<in> set (fst (User_Suspend Up now u t)). usr_ID r = u \<longrightarrow> User_Suspended r"
    unfolding User_Suspend_def exec_update_Up fst_conv
    by (rule update_post) (simp_all add: User_Suspended_def split: option.split)
  with r show ?thesis by blast
qed

lemma terminate_row_live:
  "dep_UserID (terminate_row now I d) = dep_UserID d"
  "live_state (terminate_row now I d) \<Longrightarrow> live_state d \<and> dep_ID d \<notin> I"
  by (auto simp: terminate_row_def live_state_def DeploymentStateTerminated_def split: if_splits)

lemma Suspend_Inr:
  assumes "Suspend L f u a = (a', Inr res)"
  obtains us x ks n ds where "User_Suspend (sl_user L) (sl_now L) u (acc_users a) = (us, Inr x)"
    "APIKey_RevokeAllByUser (sl_keys L) (sl_now L) u (acc_keys a) = (ks, Inr n)"
    "set ds = {d \<in> set (acc_deps a). dep_UserID d = Some u \<and> live_state d}"
    "suspend_loop L f ds \<lparr>RevokedKeyCount = n, TerminatedDeploymentIDs = [], StopJobErrors = Map.empty\<rparr>
       (a\<lparr>acc_users := us, acc_keys := ks\<rparr>) = (a', Inr res)"
  using assms by (auto simp: Suspend_def Let_def Deployment_ListLiveByUser_def dest: query_rows_set split: prod.splits sum.splits)

text \<open>What a suspension that reports success leaves of the account.\<close>

lemma Suspend_result:
  assumes "Suspend L f u a = (a', Inr res)"
  shows "\<forall>r \<in> set (acc_users a'). usr_ID r = u \<longrightarrow> User_Suspended r"
    and "\<forall>k \<in> set (acc_keys a'). key_UserID k = u \<longrightarrow> key_RevokedAt k \<noteq> None"
    and "\<forall>d \<in> set (acc_deps a'). dep_UserID d = Some u \<longrightarrow> \<not> live_state d"
proof -
  obtain us x ks n ds where us: "User_Suspend (sl_user L) (sl_now L) u (acc_users a) = (us, Inr x)"
    and ks: "APIKey_RevokeAllByUser (sl_keys L) (sl_now L) u (acc_keys a) = (ks, Inr n)"
    and ds: "set ds = {d \<in> set (acc_deps a). dep_UserID d = Some u \<and> live_state d}"
    and lp: "suspend_loop L f ds \<lparr>RevokedKeyCount = n, TerminatedDeploymentIDs = [], StopJobErrors = Map.empty\<rparr>
       (a\<lparr>acc_users := us, acc_keys := ks\<rparr>) = (a', Inr res)"
    using assms by (rule Suspend_Inr)
  note l = suspend_loop_Inr [OF lp, simplified] and U = User_Suspend_Inr [OF us] and K = RevokeAll_Inr [OF ks]
  show "\<forall>r \<in> set (acc_users a'). usr_ID r = u \<longrightarrow> User_Suspended r" using l U by simp
  show "\<forall>k \<in> set (acc_keys a'). key_UserID k = u \<longrightarrow> key_RevokedAt k \<noteq> None" using l K by simp
  show "\<forall>d \<in> set (acc_deps a'). dep_UserID d = Some u \<longrightarrow> \<not> live_state d"
  proof (intro ballI impI notI)
    fix d assume "d \<in> set (acc_deps a')" and o: "dep_UserID d = Some u" "live_state d"
    then obtain d0 where d0: "d0 \<in> set (acc_deps a)" "d = terminate_row (sl_now L) (dep_ID ` set ds) d0" using l by auto
    have "dep_UserID d0 = Some u" "live_state d0" "dep_ID d0 \<notin> dep_ID ` set ds"
      using o unfolding d0(2) by (auto simp: terminate_row_live(1) dest: terminate_row_live(2))
    then show False using d0(1) ds by blast
  qed
qed

section \<open>Properties\<close>

text \<open>
  Suspension: when Suspend returns without an error, the account is marked suspended, each of its API
  keys is revoked (and exactly the active ones were counted), none of its deployments is live, and every
  deployment that was live had its Nomad job stopped or is reported in StopJobErrors; rows of other
  accounts are untouched. Once the first statement got through, the account stays suspended even when a
  later step fails.
\<close>

lemma suspend_complete:
  "(\<forall>a' res. Suspend L f u a = (a', Inr res) \<longrightarrow>
      (\<forall>r \<in> set (acc_users a'). usr_ID r = u \<longrightarrow> User_Suspended r)
      \<and> (\<forall>k \<in> set (acc_keys a'). key_UserID k = u \<longrightarrow> key_RevokedAt k \<noteq> None)
      \<and> RevokedKeyCount res = length (filter (\<lambda>k. key_UserID k = u \<and> key_RevokedAt k = None) (acc_keys a))
      \<and> (\<forall>d \<in> set (acc_deps a'). dep_UserID d = Some u \<longrightarrow> \<not> live_state d)
      \<and> (\<forall>d \<in> set (acc_deps a). dep_UserID d = Some u \<and> live_state d \<longrightarrow>
           f (dep_ID d) \<in> set (acc_stopped a') \<or> StopJobErrors res (dep_ID d) \<noteq> None)
      \<and> filter (\<lambda>r. usr_ID r \<noteq> u) (acc_users a') = filter (\<lambda>r. usr_ID r \<noteq> u) (acc_users a)
      \<and> filter (\<lambda>k. key_UserID k \<noteq> u) (acc_keys a') = filter (\<lambda>k. key_UserID k \<noteq> u) (acc_keys a))
   \<and> (sl_user L = Up \<longrightarrow> (\<forall>r \<in> set (acc_users (fst (Suspend L f u a))). usr_ID r = u \<longrightarrow> User_Suspended r))"
proof (intro conjI allI impI)
  fix a' res
  assume sus: "Suspend L f u a = (a', Inr res)"
  then obtain us x ks n ds where us: "User_Suspend (sl_user L) (sl_now L) u (acc_users a) = (us, Inr x)"
    and ks: "APIKey_RevokeAllByUser (sl_keys L) (sl_now L) u (acc_keys a) = (ks, Inr n)"
    and ds: "set ds = {d \<in> set (acc_deps a). dep_UserID d = Some u \<and> live_state d}"
    and lp: "suspend_loop L f ds \<lparr>RevokedKeyCount = n, TerminatedDeploymentIDs = [], StopJobErrors = Map.empty\<rparr>
       (a\<lparr>acc_users := us, acc_keys := ks\<rparr>) = (a', Inr res)"
    by (rule Suspend_Inr)
  note l = suspend_loop_Inr [OF lp, simplified] and U = User_Suspend_Inr [OF us] and K = RevokeAll_Inr [OF ks]
  show "\<forall>r \<in> set (acc_users a'). usr_ID r = u \<longrightarrow> User_Suspended r"
    and "\<forall>k \<in> set (acc_keys a'). key_UserID k = u \<longrightarrow> key_RevokedAt k \<noteq> None"
    and "\<forall>d \<in> set (acc_deps a'). dep_UserID d = Some u \<longrightarrow> \<not> live_state d" by (rule Suspend_result [OF sus])+
  show "filter (\<lambda>r. usr_ID r \<noteq> u) (acc_users a') = filter (\<lambda>r. usr_ID r \<noteq> u) (acc_users a)"
    and "filter (\<lambda>k. key_UserID k \<noteq> u) (acc_keys a') = filter (\<lambda>k. key_UserID k \<noteq> u) (acc_keys a)" using l U K by simp_all
  show "RevokedKeyCount res = length (filter (\<lambda>k. key_UserID k = u \<and> key_RevokedAt k = None) (acc_keys a))" using l K by simp
  show "\<forall>d \<in> set (acc_deps a). dep_UserID d = Some u \<and> live_state d \<longrightarrow>
           f (dep_ID d) \<in> set (acc_stopped a') \<or> StopJobErrors res (dep_ID d) \<noteq> None" using l ds by auto
next
  assume "sl_user L = Up"
  then show "\<forall>r \<in> set (acc_users (fst (Suspend L f u a))). usr_ID r = u \<longrightarrow> User_Suspended r"
    by (simp add: Suspend_users User_Suspend_Up)
qed

definition suspend_up :: suspend_links where
  "suspend_up = \<lparr>sl_user = Up, sl_keys = Up, sl_list = Up, sl_term = (\<lambda>_. Up), sl_read = (\<lambda>_. Up),
     sl_stop = (\<lambda>j. if j = ''inference-d2'' then Some ''unreachable'' else None), sl_now = 50\<rparr>"

definition dep_row :: "string \<Rightarrow> string \<Rightarrow> string \<Rightarrow> deployment" where
  "dep_row i u st = \<lparr>dep_ID = i, dep_ModelID = ''m'', dep_UserID = Some u, dep_AllocationID = None, dep_State = st,
     dep_CreatedAt = 1, dep_UpdatedAt = 1, dep_GPUModel = None\<rparr>"

definition accounts_example :: accounts where
  "accounts_example = \<lparr>acc_users = [\<lparr>usr_ID = ''u1'', usr_Email = ''e'', usr_PasswordHash = ''h'', usr_TOSAcceptedAt = None,
       usr_SuspendedAt = None, usr_CreatedAt = 0, usr_UpdatedAt = 0\<rparr>],
     acc_keys = [], acc_deps = [dep_row ''d1'' ''u1'' ''ready'', dep_row ''d2'' ''u1'' ''queued'', dep_row ''d3'' ''u2'' ''ready''],
     acc_stopped = []\<rparr>"

lemma suspend_complete_witness:
  "\<exists>a' res. Suspend suspend_up (\<lambda>d. ''inference-'' @ d) ''u1'' accounts_example = (a', Inr res)
     \<and> (\<forall>d \<in> set (acc_deps a'). dep_UserID d = Some ''u1'' \<longrightarrow> \<not> live_state d)"
proof -
  have "isl (snd (Suspend suspend_up (\<lambda>d. ''inference-'' @ d) ''u1'' accounts_example)) = False" by code_simp
  then obtain a' res where r: "Suspend suspend_up (\<lambda>d. ''inference-'' @ d) ''u1'' accounts_example = (a', Inr res)"
    by (cases "Suspend suspend_up (\<lambda>d. ''inference-'' @ d) ''u1'' accounts_example"; cases "snd (Suspend suspend_up (\<lambda>d. ''inference-'' @ d) ''u1'' accounts_example)") auto
  then show ?thesis using suspend_complete [of suspend_up "\<lambda>d. ''inference-'' @ d" "''u1''" accounts_example] by blast
qed

lemma violation_keys [simp]: "violationKey u \<noteq> reducedKey v" "reducedKey v \<noteq> violationKey u"
  by (simp_all add: violationKey_def reducedKey_def)

context redis_server
begin

lemma Incr_Up:
  assumes "string_ok R s k" "int_of_value (string_at R s k) = Some n" "is_i64 (n + 1)"
  shows "Violation_Incr R Up k s = (INCR R k s, Inr (n + 1))"
    and "VALUE R (INCR R k s) = (VALUE R s)(k \<mapsto> RString (itoa (n + 1)))"
  using assms value_incr [OF assms] by (simp_all add: Violation_Incr_def)

lemma record_violation_ladder:
  assumes "string_ok R s (violationKey u)" "int_of_value (string_at R s (violationKey u)) = Some n" "is_i64 (n + 1)"
    and "0 < ViolationWindow th" "vl_incr L = Up" "vl_expire L = Up" "vl_reduce L = Up"
    and r: "RecordViolation R th L f u (s, a) = ((s', a'), r)"
  shows "string_at R s' (violationKey u) = Some (itoa (n + 1))
    \<and> (SuspendAt th \<le> n + 1 \<longrightarrow> a' = fst (Suspend (vl_suspend L) f u a)
         \<and> r = (case snd (Suspend (vl_suspend L) f u a) of Inl e \<Rightarrow> Inl e | Inr _ \<Rightarrow> Inr EscalationSuspended))
    \<and> (n + 1 < SuspendAt th \<and> ReduceAt th \<le> n + 1 \<longrightarrow> a' = a \<and> r = Inr EscalationReduced \<and> IsReduced R Up u s' = Inr True)
    \<and> (n + 1 < SuspendAt th \<and> n + 1 < ReduceAt th \<longrightarrow> a' = a \<and> r = Inr EscalationNone \<and> IsReduced R Up u s' = IsReduced R Up u s)"
proof -
  let ?k = "violationKey u"
  let ?s1 = "INCR R ?k s"
  define s2 where "s2 = (if n + 1 = 1 then PEXPIRE R ?k (expire_seconds (ViolationWindow th) * 1000) ?s1 else ?s1)"
  note i = Incr_Up [OF assms(1-3)]
  have e: "0 < expire_seconds (ViolationWindow th)"
    using assms(4) by (auto simp: expire_seconds_def pos_imp_zdiv_pos_iff)
  have v2: "VALUE R s2 = (VALUE R s)(?k \<mapsto> RString (itoa (n + 1)))"
    using e by (simp add: s2_def value_pexpire i(2))
  have rv: "RecordViolation R th L f u (s, a) =
     (if SuspendAt th \<le> n + 1
      then (case Suspend (vl_suspend L) f u a of (a', Inl e) \<Rightarrow> ((s2, a'), Inl e) | (a', Inr _) \<Rightarrow> ((s2, a'), Inr EscalationSuspended))
      else if ReduceAt th \<le> n + 1 then ((SET R (reducedKey u) ''1'' (tdiv (ReducedRateTTL th) 1000000) s2, a), Inr EscalationReduced)
      else ((s2, a), Inr EscalationNone))"
  proof -
    have x: "(if n = 0 then Violation_Expire R Up ?k (ViolationWindow th) ?s1 else (?s1, Inr ())) = (s2, Inr ())"
      by (simp add: Violation_Expire_def s2_def)
    show ?thesis using assms(5-7) i(1) x by (cases "n = 0") (simp_all add: RecordViolation_def Reduce_def)
  qed
  obtain a1 r1 where sp: "Suspend (vl_suspend L) f u a = (a1, r1)" by fastforce
  have g: "string_at R s2 ?k = Some (itoa (n + 1))" "IsReduced R Up u s2 = IsReduced R Up u s"
    "string_at R (SET R (reducedKey u) x y s2) ?k = Some (itoa (n + 1))" "IsReduced R Up u (SET R (reducedKey u) x y s2) = Inr True" for x y
    by (simp_all add: string_at_def IsReduced_def v2 value_set)
  show ?thesis using r g unfolding rv sp by (auto split: if_splits sum.splits)
qed

end

context redis_expiry
begin

lemma lost_window:
  assumes "VALUE R s (violationKey u) = None" "vl_incr L = Up" "vl_expire L = Down e"
  shows "string_at R (TICK R t (fst (fst (RecordViolation R th L f u (s, a))))) (violationKey u) = Some ''1''"
proof -
  let ?k = "violationKey u"
  have o: "string_ok R s ?k" "int_of_value (string_at R s ?k) = Some 0" "is_i64 (0 + 1)"
    using assms(1) by (simp_all add: string_ok_def string_at_def int_of_value_def is_i64_def)
  note i = Incr_Up [OF o]
  have s': "fst (fst (RecordViolation R th L f u (s, a))) = INCR R ?k s"
    using i(1) assms(2,3) by (simp add: RecordViolation_def Violation_Expire_def)
  have "DEADLINE R (INCR R ?k s) ?k = None" using deadline_absent [OF assms(1)] by (simp add: deadline_incr)
  moreover have "itoa 1 = ''1''" by code_simp
  ultimately show ?thesis unfolding s' by (simp add: string_at_def value_tick i(2))
qed

end

text \<open>
  C18. The escalation ladder: the violation that makes the count \<open>n + 1\<close> suspends the account from SuspendAt
  on (with exactly the effect of Suspend), marks it reduced from ReduceAt on and otherwise does
  nothing; the stored count is exact.
\<close>

theorem escalation_ladder:
  assumes "redis_server R" and "string_ok R s (violationKey u)"
    and "int_of_value (string_at R s (violationKey u)) = Some n" and "is_i64 (n + 1)"
    and "0 < ViolationWindow th" and "vl_incr L = Up" and "vl_expire L = Up" and "vl_reduce L = Up"
    and "RecordViolation R th L f u (s, a) = ((s', a'), r)"
  shows "string_at R s' (violationKey u) = Some (itoa (n + 1))
    \<and> (SuspendAt th \<le> n + 1 \<longrightarrow> a' = fst (Suspend (vl_suspend L) f u a)
         \<and> r = (case snd (Suspend (vl_suspend L) f u a) of Inl e \<Rightarrow> Inl e | Inr _ \<Rightarrow> Inr EscalationSuspended))
    \<and> (n + 1 < SuspendAt th \<and> ReduceAt th \<le> n + 1 \<longrightarrow> a' = a \<and> r = Inr EscalationReduced \<and> IsReduced R Up u s' = Inr True)
    \<and> (n + 1 < SuspendAt th \<and> n + 1 < ReduceAt th \<longrightarrow> a' = a \<and> r = Inr EscalationNone \<and> IsReduced R Up u s' = IsReduced R Up u s)"
  using assms by (rule redis_server.record_violation_ladder)

definition violation_up :: violation_links where
  "violation_up = \<lparr>vl_incr = Up, vl_expire = Up, vl_reduce = Up, vl_suspend = suspend_up\<rparr>"

theorem escalation_ladder_witness:
  "snd (RecordViolation mem_redis DefaultEscalationThresholds violation_up (\<lambda>d. ''inference-'' @ d) ''u1''
     (SET mem_redis (violationKey ''u1'') ''2'' 0 mem_empty, accounts_example)) = Inr EscalationReduced"
proof -
  let ?s = "SET mem_redis (violationKey ''u1'') ''2'' 0 mem_empty"
  obtain s' a' r where r: "RecordViolation mem_redis DefaultEscalationThresholds violation_up (\<lambda>d. ''inference-'' @ d) ''u1''
     (?s, accounts_example) = ((s', a'), r)" by (metis surj_pair)
  have v: "string_ok mem_redis ?s (violationKey ''u1'')" "int_of_value (string_at mem_redis ?s (violationKey ''u1'')) = Some 2" by code_simp+
  have th: "SuspendAt DefaultEscalationThresholds = 6" "ReduceAt DefaultEscalationThresholds = 3" "0 < ViolationWindow DefaultEscalationThresholds"
    "vl_incr violation_up = Up" "vl_expire violation_up = Up" "vl_reduce violation_up = Up" "is_i64 (2 + 1)"
    by (simp_all add: DefaultEscalationThresholds_def violation_up_def is_i64_def)
  show ?thesis
    using escalation_ladder [OF mem.redis_server_axioms v th(7,3-6) r] unfolding r th(1,2) by simp
qed

text \<open>
  A violation counter without a window: when the expiry call of an account's first violation
  fails, the counter has no time to live and is still there at every later time, since later
  violations never set one.
\<close>

lemma violation_window_lost:
  assumes "redis_expiry R" and "VALUE R s (violationKey u) = None" and "vl_incr L = Up" and "vl_expire L = Down e"
  shows "string_at R (TICK R t (fst (fst (RecordViolation R th L f u (s, a))))) (violationKey u) = Some ''1''"
  using assms by (rule redis_expiry.lost_window)

lemma violation_window_lost_witness:
  "string_at mem_redis (TICK mem_redis 99999999 (fst (fst (RecordViolation mem_redis DefaultEscalationThresholds
     (violation_up\<lparr>vl_expire := Down ''timeout''\<rparr>) (\<lambda>d. d) ''u1'' (mem_empty, accounts_example))))) (violationKey ''u1'') = Some ''1''"
  by (rule violation_window_lost [OF mem.redis_expiry_axioms]) (simp_all add: mem_at_def mem_empty_def violation_up_def)

section \<open>Entropy\<close>

lemma count_list_prob:
  assumes "s \<noteq> []"
  shows "(\<Sum>c \<in> set s. byte_prob s c) = 1"
proof -
  have "(\<Sum>c \<in> set s. count_list s c) = length s" by (simp add: sum_count_set)
  then have "(\<Sum>c \<in> set s. real (count_list s c)) = real (length s)" by (metis of_nat_sum)
  then show ?thesis using assms by (simp add: byte_prob_def flip: sum_divide_distrib)
qed

lemma entropy_sum:
  assumes "s \<noteq> []"
  shows "ShannonEntropy s = (\<Sum>c \<in> set s. byte_prob s c * log 2 (1 / byte_prob s c))"
proof -
  let ?g = "\<lambda>c. if count_list s c = 0 then 0 else byte_prob s c * log 2 (byte_prob s c)"
  have u: "set (map char_of [0..<256::nat]) = (UNIV :: char set)"
    using UNIV_char_of_nat by (simp add: atLeast0LessThan lessThan_def)
  have d: "distinct (map char_of [0..<256::nat] :: char list)"
    by (rule card_distinct) (simp only: u card_UNIV_char length_map length_upt)
  have "(\<Sum>c \<leftarrow> map char_of [0..<256::nat]. ?g c) = (\<Sum>c \<in> UNIV. ?g c)"
    using sum_list_distinct_conv_sum_set [OF d, of ?g] u by simp
  also have "\<dots> = (\<Sum>c \<in> set s. ?g c)"
    by (rule sum.mono_neutral_right) (auto simp: count_list_0_iff)
  also have "\<dots> = (\<Sum>c \<in> set s. byte_prob s c * log 2 (byte_prob s c))"
    by (rule sum.cong) (auto simp: count_list_0_iff)
  finally have "ShannonEntropy s = (\<Sum>c \<in> set s. - (byte_prob s c * log 2 (byte_prob s c)))"
    using assms by (simp add: ShannonEntropy_def sum_negf)
  moreover have "- (byte_prob s c * log 2 (byte_prob s c)) = byte_prob s c * log 2 (1 / byte_prob s c)" if "c \<in> set s" for c
  proof -
    have "0 < byte_prob s c"
      using that assms by (auto simp: byte_prob_def count_list_0_iff neq0_conv [symmetric])
    then have "log 2 (1 / byte_prob s c) = - log 2 (byte_prob s c)" by (simp add: log_divide)
    then show ?thesis by simp
  qed
  ultimately show ?thesis by simp
qed

lemma entropy_bounds:
  assumes "s \<noteq> []"
  shows "0 \<le> ShannonEntropy s" and "ShannonEntropy s \<le> log 2 (card (set s))"
proof -
  let ?p = "byte_prob s" and ?n = "real (card (set s))"
  have n: "0 < ?n" using assms by (simp add: card_gt_0_iff)
  have p: "0 < ?p c" "?p c \<le> 1" if "c \<in> set s" for c
    using that assms count_le_length [of s c] by (auto simp: byte_prob_def count_list_0_iff neq0_conv [symmetric])
  show "0 \<le> ShannonEntropy s"
    unfolding entropy_sum [OF assms] using p by (intro sum_nonneg mult_nonneg_nonneg) (auto simp: less_imp_le)
  have "?p c * log 2 (1 / ?p c) \<le> ?p c * log 2 ?n + (1 / ?n - ?p c) / ln 2" if c: "c \<in> set s" for c
  proof -
    have "ln (1 / (?n * ?p c)) \<le> 1 / (?n * ?p c) - 1" using p [OF c] n by (intro ln_le_minus_one) simp
    then have "?p c * ln (1 / (?n * ?p c)) \<le> ?p c * (1 / (?n * ?p c) - 1)" using p [OF c] by (intro mult_left_mono) simp_all
    also have "\<dots> = 1 / ?n - ?p c" using p [OF c] n by (simp add: field_simps)
    finally have "?p c * ln (1 / (?n * ?p c)) / ln 2 \<le> (1 / ?n - ?p c) / ln 2" by (intro divide_right_mono) simp_all
    moreover have "log 2 (1 / ?p c) = log 2 ?n + ln (1 / (?n * ?p c)) / ln 2"
      using p [OF c] n assms by (simp add: log_def ln_div ln_mult field_simps)
    ultimately show ?thesis by (simp add: algebra_simps)
  qed
  then have "ShannonEntropy s \<le> (\<Sum>c \<in> set s. ?p c * log 2 ?n + (1 / ?n - ?p c) / ln 2)"
    unfolding entropy_sum [OF assms] by (intro sum_mono)
  also have "\<dots> = (\<Sum>c \<in> set s. ?p c) * log 2 ?n + ((\<Sum>c \<in> set s. 1 / ?n) - (\<Sum>c \<in> set s. ?p c)) / ln 2"
    by (simp add: sum.distrib sum_distrib_right sum_divide_distrib [symmetric] sum_subtractf)
  also have "\<dots> = log 2 ?n" using n assms by (simp add: count_list_prob [OF assms])
  finally show "ShannonEntropy s \<le> log 2 (card (set s))" .
qed

text \<open>
  The entropy of a non-empty prompt is between 0 and the logarithm of the number of its
  distinct bytes; in particular every prompt of at most five distinct bytes counts as low entropy
  under the default threshold.
\<close>

lemma prompt_entropy_bounds:
  assumes "s \<noteq> []"
  shows "0 \<le> ShannonEntropy s \<and> ShannonEntropy s \<le> log 2 (card (set s))
    \<and> (card (set s) \<le> 5 \<longrightarrow> IsLowEntropy s LowEntropyThreshold)"
proof -
  have "log 2 (real (card (set s))) \<le> 5 / 2" if "card (set s) \<le> 5"
  proof -
    have "(5::real) ^ 2 \<le> 2 ^ 5" by simp
    then have "log 2 (5 ^ 2) \<le> log 2 (2 ^ 5 :: real)" by simp
    then have "2 * log 2 (5::real) \<le> 5" by (simp only: log_nat_power) simp
    moreover have "log 2 (real (card (set s))) \<le> log 2 5" using that assms by (simp add: card_gt_0_iff)
    ultimately show ?thesis by simp
  qed
  then show ?thesis using entropy_bounds [OF assms] by (auto simp: IsLowEntropy_def LowEntropyThreshold_def)
qed

lemma prompt_entropy_bounds_witness: "IsLowEntropy ''aaaa bbbb'' LowEntropyThreshold"
proof -
  have "card (set ''aaaa bbbb'') \<le> 5" by code_simp
  then show ?thesis using prompt_entropy_bounds [of "''aaaa bbbb''"] by blast
qed

end
