(* ===== verification/LocalCache.thy ===== *)
theory LocalCache
  imports Prelude
begin

text \<open>
  The worker's on-disk artifact cache (\<^verbatim>\<open>localcache/lru.go\<close>). The doubly linked list of
  \<^verbatim>\<open>container/list\<close> and the map of pointers into it are modelled as they are: list elements are
  addresses of a store of entries, \<open>order\<close> is the list of addresses (front first), and \<open>elements\<close>
  maps a key to an address. The mutex makes each method one step. \<open>disk\<close> is the set of files.

  The cache is refined to a list of entries, oldest first (\<open>lru_abs\<close>), on which eviction is
  stated.
\<close>

section \<open>State (\<^verbatim>\<open>lru.go\<close>)\<close>

record lru_entry =
  e_key :: string
  e_path :: string
  e_size :: int
  e_refCount :: int

record LRUCache =
  maxBytes :: int
  usedBytes :: int
  order :: "nat list"
  cells :: "nat \<Rightarrow> lru_entry"
  elements :: "string \<rightharpoonup> nat"
  fresh :: nat
  disk :: "string set"

datatype lru_error = ErrInsufficientCapacity | LRUErrNotFound | ErrNotReferenced

definition NewLRUCache :: "int \<Rightarrow> string set \<Rightarrow> LRUCache" where
  "NewLRUCache mx d = \<lparr>maxBytes = mx, usedBytes = 0, order = [], cells = (\<lambda>_. \<lparr>e_key = [], e_path = [], e_size = 0, e_refCount = 0\<rparr>),
     elements = Map.empty, fresh = 0, disk = d\<rparr>"

section \<open>Operations\<close>

definition removeElement :: "nat \<Rightarrow> bool \<Rightarrow> LRUCache \<Rightarrow> LRUCache" where
  "removeElement el deleteFile c =
     (let e = cells c el
      in c\<lparr>order := remove1 el (order c), elements := (elements c)(e_key e := None),
           usedBytes := i64 (usedBytes c - e_size e),
           disk := (if deleteFile then disk c - {e_path e} else disk c)\<rparr>)"

definition leastRecentlyUsedUnreferenced :: "LRUCache \<Rightarrow> nat option" where
  "leastRecentlyUsedUnreferenced c = find (\<lambda>el. e_refCount (cells c el) = 0) (rev (order c))"

lemma find_in_set: "find P xs = Some x \<Longrightarrow> x \<in> set xs \<and> P x"
  by (induction xs) (auto split: if_splits)

function evict_loop :: "int \<Rightarrow> LRUCache \<Rightarrow> LRUCache \<times> bool" where
  "evict_loop incoming c =
     (if maxBytes c < i64 (usedBytes c + incoming)
      then (case leastRecentlyUsedUnreferenced c of
              None \<Rightarrow> (c, False)
            | Some victim \<Rightarrow> evict_loop incoming (removeElement victim True c))
      else (c, True))"
  by auto
termination
proof (relation "measure (\<lambda>(_, c). length (order c))", goal_cases)
  case 1
  then show ?case by simp
next
  case (2 incoming c victim)
  then have "victim \<in> set (order c)" using find_in_set by (fastforce simp: leastRecentlyUsedUnreferenced_def)
  moreover from this have "0 < length (order c)" by (rule length_pos_if_in_set)
  ultimately show ?case by (simp add: removeElement_def Let_def length_remove1)
qed

declare evict_loop.simps [simp del]

definition evictUntilFits :: "int \<Rightarrow> LRUCache \<Rightarrow> LRUCache \<times> (lru_error + unit)" where
  "evictUntilFits incoming c = (if maxBytes c \<le> 0 then (c, Inr ())
     else case evict_loop incoming c of (c', ok) \<Rightarrow> (c', if ok then Inr () else Inl ErrInsufficientCapacity))"

definition LRU_Put :: "string \<Rightarrow> string \<Rightarrow> int \<Rightarrow> LRUCache \<Rightarrow> LRUCache \<times> (lru_error + unit)" where
  "LRU_Put key path sz c =
     (let c1 = (case elements c key of None \<Rightarrow> c | Some el \<Rightarrow> removeElement el False c)
      in case evictUntilFits sz c1 of
           (c2, Inl e) \<Rightarrow> (c2, Inl e)
         | (c2, Inr _) \<Rightarrow>
             (let el = fresh c2
              in (c2\<lparr>order := el # order c2, cells := (cells c2)(el := \<lparr>e_key = key, e_path = path, e_size = sz, e_refCount = 0\<rparr>),
                     elements := (elements c2)(key \<mapsto> el), usedBytes := i64 (usedBytes c2 + sz), fresh := Suc el\<rparr>, Inr ())))"

definition LRU_Get :: "string \<Rightarrow> LRUCache \<Rightarrow> LRUCache \<times> (lru_error + string)" where
  "LRU_Get key c = (case elements c key of None \<Rightarrow> (c, Inl LRUErrNotFound)
     | Some el \<Rightarrow> (c\<lparr>order := el # remove1 el (order c)\<rparr>, Inr (e_path (cells c el))))"

definition LRU_Acquire :: "string \<Rightarrow> LRUCache \<Rightarrow> LRUCache \<times> (lru_error + unit)" where
  "LRU_Acquire key c = (case elements c key of None \<Rightarrow> (c, Inl LRUErrNotFound)
     | Some el \<Rightarrow> (c\<lparr>cells := (cells c)(el := (cells c el)\<lparr>e_refCount := e_refCount (cells c el) + 1\<rparr>)\<rparr>, Inr ()))"

definition LRU_Release :: "string \<Rightarrow> LRUCache \<Rightarrow> LRUCache \<times> (lru_error + unit)" where
  "LRU_Release key c = (case elements c key of None \<Rightarrow> (c, Inl LRUErrNotFound)
     | Some el \<Rightarrow> if e_refCount (cells c el) = 0 then (c, Inl ErrNotReferenced)
         else (c\<lparr>cells := (cells c)(el := (cells c el)\<lparr>e_refCount := e_refCount (cells c el) - 1\<rparr>)\<rparr>, Inr ()))"

definition RefCount :: "string \<Rightarrow> LRUCache \<Rightarrow> lru_error + int" where
  "RefCount key c = (case elements c key of None \<Rightarrow> Inl LRUErrNotFound | Some el \<Rightarrow> Inr (e_refCount (cells c el)))"

definition LRU_Remove :: "string \<Rightarrow> LRUCache \<Rightarrow> LRUCache \<times> (lru_error + unit)" where
  "LRU_Remove key c = (case elements c key of None \<Rightarrow> (c, Inl LRUErrNotFound)
     | Some el \<Rightarrow> (removeElement el True c, Inr ()))"

definition UsedBytes :: "LRUCache \<Rightarrow> int" where "UsedBytes c = usedBytes c"

definition LRU_Len :: "LRUCache \<Rightarrow> nat" where "LRU_Len c = length (order c)"

section \<open>Invariant and abstraction\<close>

definition lru_abs :: "LRUCache \<Rightarrow> lru_entry list" where
  "lru_abs c = map (cells c) (rev (order c))"

definition total_size :: "lru_entry list \<Rightarrow> int" where
  "total_size es = sum_list (map e_size es)"

definition lru_wf :: "LRUCache \<Rightarrow> bool" where
  "lru_wf c \<longleftrightarrow> distinct (order c) \<and> (\<forall>i \<in> set (order c). i < fresh c) \<and>
     (\<forall>k i. elements c k = Some i \<longleftrightarrow> i \<in> set (order c) \<and> e_key (cells c i) = k) \<and>
     (\<forall>i \<in> set (order c). 0 \<le> e_size (cells c i) \<and> 0 \<le> e_refCount (cells c i)) \<and>
     usedBytes c = total_size (lru_abs c) \<and> 0 < maxBytes c \<and> maxBytes c < 2 ^ 62 \<and> usedBytes c \<le> maxBytes c"

lemma total_size_simps [simp]:
  "total_size [] = 0" "total_size (e # es) = e_size e + total_size es" "total_size (xs @ ys) = total_size xs + total_size ys"
  "total_size (rev xs) = total_size xs"
  by (simp_all add: total_size_def rev_map [symmetric])

lemma total_size_nonneg: "\<forall>e \<in> set es. 0 \<le> e_size e \<Longrightarrow> 0 \<le> total_size es"
  by (induction es) auto

lemma total_remove1:
  "x \<in> set xs \<Longrightarrow> total_size (map f (remove1 x xs)) = total_size (map f xs) - e_size (f x)"
  by (induction xs) auto

lemma total_rev_map: "total_size (map f (rev xs)) = total_size (map f xs)"
  by (simp add: rev_map [symmetric])

lemma wf_key_inj:
  assumes "lru_wf c" "i \<in> set (order c)" "j \<in> set (order c)" "e_key (cells c i) = e_key (cells c j)"
  shows "i = j"
  using assms by (metis lru_wf_def option.inject)

lemma wf_remove:
  assumes wf: "lru_wf c" and i: "i \<in> set (order c)"
  shows "lru_wf (removeElement i b c)"
    and "lru_abs (removeElement i b c) = map (cells c) (remove1 i (rev (order c)))"
    and "usedBytes (removeElement i b c) = usedBytes c - e_size (cells c i)"
proof -
  have d: "distinct (order c)" and nn: "\<forall>j \<in> set (order c). 0 \<le> e_size (cells c j)" using wf by (simp_all add: lru_wf_def)
  have u: "usedBytes c = total_size (map (cells c) (order c))" "usedBytes c < 2 ^ 62"
    using wf by (auto simp: lru_wf_def lru_abs_def total_rev_map)
  have s: "total_size (map (cells c) (remove1 i (order c))) = usedBytes c - e_size (cells c i)"
    using i u(1) by (simp add: total_remove1)
  have "0 \<le> total_size (map (cells c) (remove1 i (order c)))"
    using nn notin_set_remove1 by (intro total_size_nonneg) fastforce
  then have w: "i64 (usedBytes c - e_size (cells c i)) = usedBytes c - e_size (cells c i)"
    using s u(2) nn i by (intro i64_id_nonneg) auto
  have rr: "rev (remove1 i (order c)) = remove1 i (rev (order c))"
    using d by (simp add: distinct_remove1_removeAll removeAll_filter_not_eq rev_filter)
  show a: "lru_abs (removeElement i b c) = map (cells c) (remove1 i (rev (order c)))"
    by (simp add: lru_abs_def removeElement_def Let_def rr)
  show ub: "usedBytes (removeElement i b c) = usedBytes c - e_size (cells c i)"
    using w by (simp add: removeElement_def Let_def)
  have "\<forall>k j. elements (removeElement i b c) k = Some j \<longleftrightarrow> j \<in> set (remove1 i (order c)) \<and> e_key (cells c j) = k"
  proof (intro allI)
    fix k j
    have el: "elements c k = Some j \<longleftrightarrow> j \<in> set (order c) \<and> e_key (cells c j) = k" using wf by (simp add: lru_wf_def)
    have m: "j \<in> set (remove1 i (order c)) \<longleftrightarrow> j \<in> set (order c) \<and> j \<noteq> i" using d by auto
    show "elements (removeElement i b c) k = Some j \<longleftrightarrow> j \<in> set (remove1 i (order c)) \<and> e_key (cells c j) = k"
      unfolding m using el wf_key_inj [OF wf i, of j] by (auto simp: removeElement_def Let_def)
  qed
  moreover have "total_size (lru_abs (removeElement i b c)) = usedBytes c - e_size (cells c i)"
    using s by (simp add: a rr [symmetric] total_rev_map)
  moreover have "usedBytes c - e_size (cells c i) \<le> usedBytes c" using nn i by simp
  ultimately show "lru_wf (removeElement i b c)"
    using wf ub d by (auto simp: lru_wf_def removeElement_def Let_def dest: in_set_remove1 notin_set_remove1)
qed

section \<open>Eviction on the abstract cache\<close>

text \<open>Drop the oldest unreferenced entry; drop the \<open>n\<close> oldest unreferenced entries.\<close>

fun drop_lru :: "lru_entry list \<Rightarrow> lru_entry list option" where
  "drop_lru [] = None"
| "drop_lru (e # es) = (if e_refCount e = 0 then Some es else map_option ((#) e) (drop_lru es))"

fun drop_oldest :: "nat \<Rightarrow> lru_entry list \<Rightarrow> lru_entry list" where
  "drop_oldest 0 es = es"
| "drop_oldest (Suc n) es = (case drop_lru es of None \<Rightarrow> es | Some es' \<Rightarrow> drop_oldest n es')"

definition referenced :: "lru_entry list \<Rightarrow> lru_entry list" where
  "referenced es = filter (\<lambda>e. e_refCount e \<noteq> 0) es"

lemma drop_lru_find:
  "find (\<lambda>i. e_refCount (f i) = 0) is = Some i \<Longrightarrow> drop_lru (map f is) = Some (map f (remove1 i is))"
  by (induction "is") (auto dest: find_in_set split: if_splits)

lemma drop_lru_find_None:
  "find (\<lambda>i. e_refCount (f i) = 0) is = None \<Longrightarrow> drop_lru (map f is) = None \<and> referenced (map f is) = map f is"
  by (induction "is") (auto simp: referenced_def split: if_splits)

lemma drop_lru_referenced: "drop_lru es = Some es' \<Longrightarrow> referenced es' = referenced es"
  by (induction es arbitrary: es') (auto simp: referenced_def split: if_splits)

lemma drop_lru_subset: "drop_lru es = Some es' \<Longrightarrow> set es' \<subseteq> set es"
  by (induction es arbitrary: es') (auto split: if_splits)

lemma drop_oldest_subset: "set (drop_oldest n es) \<subseteq> set es"
proof (induction n arbitrary: es)
  case 0
  then show ?case by simp
next
  case (Suc n)
  show ?case
  proof (cases "drop_lru es")
    case (Some es')
    then show ?thesis using Suc [of es'] drop_lru_subset [OF Some] by auto
  qed simp
qed

lemma drop_oldest_referenced: "referenced (drop_oldest n es) = referenced es"
proof (induction n arbitrary: es)
  case 0
  then show ?case by simp
next
  case (Suc n)
  then show ?case using drop_lru_referenced by (auto split: option.split)
qed

lemma evict_loop_spec:
  assumes "lru_wf c" "0 \<le> sz" "sz < 2 ^ 62" "evict_loop sz c = (c', ok)"
  shows "lru_wf c' \<and> maxBytes c' = maxBytes c \<and> fresh c' = fresh c \<and> cells c' = cells c \<and>
    (\<exists>n. lru_abs c' = drop_oldest n (lru_abs c) \<and> (\<forall>m<n. maxBytes c < total_size (drop_oldest m (lru_abs c)) + sz)) \<and>
    (if ok then usedBytes c' + sz \<le> maxBytes c else lru_abs c' = referenced (lru_abs c) \<and> maxBytes c < usedBytes c' + sz)"
  using assms
proof (induction sz c rule: evict_loop.induct)
  case (1 sz c)
  have u: "usedBytes c = total_size (lru_abs c)" "usedBytes c \<le> maxBytes c" "maxBytes c < 2 ^ 62" "0 \<le> usedBytes c"
    using 1(2) total_size_nonneg [of "lru_abs c"] by (auto simp: lru_wf_def lru_abs_def)
  then have w: "i64 (usedBytes c + sz) = usedBytes c + sz" using 1(3,4) by (intro i64_id_nonneg) simp_all
  note ev = evict_loop.simps [of sz c, unfolded w]
  show ?case
  proof (cases "maxBytes c < usedBytes c + sz")
    case False
    then show ?thesis using 1(2,5) ev by (auto intro!: exI [of _ 0])
  next
    case full: True
    show ?thesis
    proof (cases "leastRecentlyUsedUnreferenced c")
      case None
      then have "referenced (lru_abs c) = lru_abs c"
        using drop_lru_find_None [of "cells c" "rev (order c)"] by (simp add: leastRecentlyUsedUnreferenced_def lru_abs_def)
      then show ?thesis using None full 1(2,5) ev by (auto intro!: exI [of _ 0])
    next
      case (Some v)
      let ?c1 = "removeElement v True c"
      have v: "v \<in> set (order c)" using Some find_in_set by (fastforce simp: leastRecentlyUsedUnreferenced_def)
      note rm = wf_remove [OF 1(2) v, of True]
      have d: "drop_lru (lru_abs c) = Some (lru_abs ?c1)"
        using Some rm(2) drop_lru_find [of "cells c" "rev (order c)" v] by (simp add: leastRecentlyUsedUnreferenced_def lru_abs_def)
      have k: "maxBytes ?c1 = maxBytes c" "fresh ?c1 = fresh c" "cells ?c1 = cells c"
        by (simp_all add: removeElement_def Let_def)
      have run: "evict_loop sz ?c1 = (c', ok)" using 1(5) ev full Some by simp
      note ih = 1(1)[unfolded w, OF full Some rm(1) 1(3,4) run]
      obtain n where n: "lru_abs c' = drop_oldest n (lru_abs ?c1)"
        "\<forall>m<n. maxBytes c < total_size (drop_oldest m (lru_abs ?c1)) + sz" using ih k(1) by auto
      have "lru_abs c' = drop_oldest (Suc n) (lru_abs c)" using n(1) d by simp
      moreover have "\<forall>m<Suc n. maxBytes c < total_size (drop_oldest m (lru_abs c)) + sz"
      proof (intro allI impI)
        fix m assume "m < Suc n"
        then show "maxBytes c < total_size (drop_oldest m (lru_abs c)) + sz"
          using n(2) d full u(1) by (cases m) auto
      qed
      ultimately have ex: "\<exists>n. lru_abs c' = drop_oldest n (lru_abs c) \<and>
          (\<forall>m<n. maxBytes c < total_size (drop_oldest m (lru_abs c)) + sz)" by blast
      have "if ok then usedBytes c' + sz \<le> maxBytes c else lru_abs c' = referenced (lru_abs c) \<and> maxBytes c < usedBytes c' + sz"
        using ih k(1) drop_lru_referenced [OF d] by (cases ok) simp_all
      then show ?thesis using ih k ex by simp
    qed
  qed
qed

section \<open>Put\<close>

definition without_key :: "string \<Rightarrow> lru_entry list \<Rightarrow> lru_entry list" where
  "without_key k es = filter (\<lambda>e. e_key e \<noteq> k) es"

lemma put_first_step:
  fixes key :: string
  assumes wf: "lru_wf c"
  defines "c1 \<equiv> (case elements c key of None \<Rightarrow> c | Some el \<Rightarrow> removeElement el False c)"
  shows "lru_wf c1" "lru_abs c1 = without_key key (lru_abs c)" "maxBytes c1 = maxBytes c" "elements c1 key = None"
proof -
  have "lru_wf c1 \<and> lru_abs c1 = without_key key (lru_abs c) \<and> maxBytes c1 = maxBytes c \<and> elements c1 key = None"
  proof (cases "elements c key")
    case None
    have "e_key (cells c i) \<noteq> key" if "i \<in> set (order c)" for i
      using wf None that by (metis lru_wf_def option.distinct(1))
    then show ?thesis using wf None by (simp add: c1_def without_key_def lru_abs_def filter_map o_def)
  next
    case (Some el)
    have el: "el \<in> set (order c)" "e_key (cells c el) = key" using wf Some by (simp_all add: lru_wf_def)
    have d: "distinct (rev (order c))" using wf by (simp add: lru_wf_def)
    have o: "remove1 el (rev (order c)) = filter (\<lambda>i. e_key (cells c i) \<noteq> key) (rev (order c))"
      unfolding distinct_remove1_removeAll [OF d] removeAll_filter_not_eq
      using wf_key_inj [OF wf el(1)] el(2) by (intro filter_cong) auto
    show ?thesis
      using wf_remove [OF wf el(1), of False] Some el(2) o
      by (simp add: c1_def without_key_def lru_abs_def filter_map o_def) (simp add: removeElement_def Let_def)
  qed
  then show "lru_wf c1" "lru_abs c1 = without_key key (lru_abs c)" "maxBytes c1 = maxBytes c" "elements c1 key = None" by simp_all
qed

lemma put_last_step:
  fixes path :: string
  assumes wf: "lru_wf c" and sz: "0 \<le> sz" "usedBytes c + sz \<le> maxBytes c" and k: "key \<notin> e_key ` set (lru_abs c)"
  defines "c' \<equiv> c\<lparr>order := fresh c # order c, cells := (cells c)(fresh c := \<lparr>e_key = key, e_path = path, e_size = sz, e_refCount = 0\<rparr>),
      elements := (elements c)(key \<mapsto> fresh c), usedBytes := i64 (usedBytes c + sz), fresh := Suc (fresh c)\<rparr>"
  shows "lru_wf c'" "lru_abs c' = lru_abs c @ [\<lparr>e_key = key, e_path = path, e_size = sz, e_refCount = 0\<rparr>]"
proof -
  have u: "usedBytes c = total_size (lru_abs c)" "maxBytes c < 2 ^ 62" "0 \<le> usedBytes c"
    using wf total_size_nonneg [of "lru_abs c"] by (auto simp: lru_wf_def lru_abs_def)
  then have w: "i64 (usedBytes c + sz) = usedBytes c + sz" using sz by (intro i64_id_nonneg) simp_all
  have f: "fresh c \<notin> set (order c)" using wf by (auto simp: lru_wf_def)
  show a: "lru_abs c' = lru_abs c @ [\<lparr>e_key = key, e_path = path, e_size = sz, e_refCount = 0\<rparr>]"
    using f by (auto simp: c'_def lru_abs_def)
  have e: "elements c k = Some i \<longleftrightarrow> i \<in> set (order c) \<and> e_key (cells c i) = k" for k i using wf by (simp add: lru_wf_def)
  have "elements c' k = Some i \<longleftrightarrow> i \<in> set (order c') \<and> e_key (cells c' i) = k" for k i
    using e [of k i] f k by (auto simp: c'_def lru_abs_def)
  moreover have "usedBytes c' = total_size (lru_abs c')" unfolding a using u(1) w by (simp add: c'_def)
  ultimately show "lru_wf c'" using wf f sz w by (auto simp: lru_wf_def c'_def)
qed

lemma put_spec:
  assumes wf: "lru_wf c" and sz: "0 \<le> sz" "sz < 2 ^ 62" and p: "LRU_Put key path sz c = (c', r)"
  shows "lru_wf c' \<and> maxBytes c' = maxBytes c \<and>
    (case r of
       Inl e \<Rightarrow> e = ErrInsufficientCapacity \<and> lru_abs c' = referenced (without_key key (lru_abs c)) \<and>
          maxBytes c < total_size (referenced (without_key key (lru_abs c))) + sz
     | Inr _ \<Rightarrow> \<exists>n. lru_abs c' = drop_oldest n (without_key key (lru_abs c)) @ [\<lparr>e_key = key, e_path = path, e_size = sz, e_refCount = 0\<rparr>] \<and>
          (\<forall>m<n. maxBytes c < total_size (drop_oldest m (without_key key (lru_abs c))) + sz))"
proof -
  let ?c1 = "case elements c key of None \<Rightarrow> c | Some el \<Rightarrow> removeElement el False c"
  note f = put_first_step [OF wf, of key]
  obtain c2 ok where ev: "evict_loop sz ?c1 = (c2, ok)" by fastforce
  note e = evict_loop_spec [OF f(1) sz ev, unfolded f(2,3)]
  have mx: "\<not> maxBytes ?c1 \<le> 0" using f(1) by (simp add: lru_wf_def)
  show ?thesis
  proof (cases ok)
    case False
    then have "c' = c2" "r = Inl ErrInsufficientCapacity" using p ev mx by (auto simp: LRU_Put_def evictUntilFits_def Let_def)
    then show ?thesis using e False by (auto simp: lru_wf_def)
  next
    case True
    have k: "key \<notin> e_key ` set (lru_abs c2)" using e drop_oldest_subset by (fastforce simp: without_key_def)
    have u: "usedBytes c2 + sz \<le> maxBytes c2" using e True by simp
    have c': "c' = c2\<lparr>order := fresh c2 # order c2, cells := (cells c2)(fresh c2 := \<lparr>e_key = key, e_path = path, e_size = sz, e_refCount = 0\<rparr>),
      elements := (elements c2)(key \<mapsto> fresh c2), usedBytes := i64 (usedBytes c2 + sz), fresh := Suc (fresh c2)\<rparr>" "r = Inr ()"
      using p ev mx True by (auto simp: LRU_Put_def evictUntilFits_def Let_def)
    note l = put_last_step [OF _ sz(1) u k, of path]
    have "lru_wf c'" "lru_abs c' = lru_abs c2 @ [\<lparr>e_key = key, e_path = path, e_size = sz, e_refCount = 0\<rparr>]"
      using l e unfolding c' by simp_all
    then show ?thesis using e c' by auto
  qed
qed

section \<open>Runs\<close>

datatype lru_op = OpPut string string int | OpGet string | OpAcquire string | OpRelease_lru string | OpRemove string

fun lru_step :: "lru_op \<Rightarrow> LRUCache \<Rightarrow> LRUCache" where
  "lru_step (OpPut k p sz) c = fst (LRU_Put k p sz c)"
| "lru_step (OpGet k) c = fst (LRU_Get k c)"
| "lru_step (OpAcquire k) c = fst (LRU_Acquire k c)"
| "lru_step (OpRelease_lru k) c = fst (LRU_Release k c)"
| "lru_step (OpRemove k) c = fst (LRU_Remove k c)"

fun op_ok :: "lru_op \<Rightarrow> bool" where
  "op_ok (OpPut k p sz) \<longleftrightarrow> 0 \<le> sz \<and> sz < 2 ^ 62"
| "op_ok _ \<longleftrightarrow> True"

lemma wf_reorder:
  assumes "lru_wf c" "set xs = set (order c)" "distinct xs" "total_size (map (cells c) xs) = total_size (map (cells c) (order c))"
  shows "lru_wf (c\<lparr>order := xs\<rparr>)"
  using assms by (simp add: lru_wf_def lru_abs_def total_rev_map)

lemma wf_get: "lru_wf c \<Longrightarrow> lru_wf (fst (LRU_Get k c))"
proof -
  assume wf: "lru_wf c"
  show ?thesis
  proof (cases "elements c k")
    case None
    then show ?thesis using wf by (simp add: LRU_Get_def)
  next
    case (Some el)
    have el: "el \<in> set (order c)" "distinct (order c)" using wf Some by (simp_all add: lru_wf_def)
    have "lru_wf (c\<lparr>order := el # remove1 el (order c)\<rparr>)"
      using wf el by (intro wf_reorder) (auto simp: total_remove1)
    then show ?thesis using Some by (simp add: LRU_Get_def)
  qed
qed

lemma wf_recount:
  assumes wf: "lru_wf c" and el: "elements c k = Some el" and n: "0 \<le> n"
  shows "lru_wf (c\<lparr>cells := (cells c)(el := (cells c el)\<lparr>e_refCount := n\<rparr>)\<rparr>)"
proof -
  have "map e_size (map ((cells c)(el := (cells c el)\<lparr>e_refCount := n\<rparr>)) xs) = map e_size (map (cells c) xs)" for xs
    by simp
  then have "total_size (map ((cells c)(el := (cells c el)\<lparr>e_refCount := n\<rparr>)) xs) = total_size (map (cells c) xs)" for xs
    unfolding total_size_def by (rule arg_cong)
  then show ?thesis using wf n unfolding lru_wf_def lru_abs_def by auto
qed

lemma wf_step: "lru_wf c \<Longrightarrow> op_ok op \<Longrightarrow> lru_wf (lru_step op c) \<and> maxBytes (lru_step op c) = maxBytes c"
proof (cases op)
  case (OpPut k p sz)
  assume "lru_wf c" "op_ok op"
  then show ?thesis using OpPut put_spec [of c sz k p] by (cases "LRU_Put k p sz c") auto
next
  case (OpGet k)
  assume "lru_wf c"
  then show ?thesis using OpGet wf_get by (auto simp: LRU_Get_def split: option.split)
next
  case (OpAcquire k)
  assume wf: "lru_wf c"
  show ?thesis
  proof (cases "elements c k")
    case None
    then show ?thesis using wf OpAcquire by (simp add: LRU_Acquire_def)
  next
    case (Some el)
    then have "0 \<le> e_refCount (cells c el) + 1" using wf by (auto simp: lru_wf_def)
    then show ?thesis using OpAcquire Some wf_recount [OF wf Some] by (simp add: LRU_Acquire_def)
  qed
next
  case (OpRelease_lru k)
  assume wf: "lru_wf c"
  show ?thesis
  proof (cases "elements c k")
    case None
    then show ?thesis using wf OpRelease_lru by (simp add: LRU_Release_def)
  next
    case (Some el)
    then have "e_refCount (cells c el) \<noteq> 0 \<Longrightarrow> 0 \<le> e_refCount (cells c el) - 1" using wf by (force simp: lru_wf_def)
    then show ?thesis using OpRelease_lru Some wf_recount [OF wf Some] wf by (simp add: LRU_Release_def)
  qed
next
  case (OpRemove k)
  assume wf: "lru_wf c"
  show ?thesis
  proof (cases "elements c k")
    case None
    then show ?thesis using wf OpRemove by (simp add: LRU_Remove_def)
  next
    case (Some el)
    then have "el \<in> set (order c)" using wf by (simp add: lru_wf_def)
    then show ?thesis using OpRemove Some wf_remove(1) [OF wf] by (simp add: LRU_Remove_def) (simp add: removeElement_def Let_def)
  qed
qed

lemma wf_run: "lru_wf c \<Longrightarrow> list_all op_ok ops \<Longrightarrow> lru_wf (fold lru_step ops c) \<and> maxBytes (fold lru_step ops c) = maxBytes c"
  by (induction ops arbitrary: c) (use wf_step in force)+

lemma wf_lookup: "lru_wf c \<Longrightarrow> (\<exists>el. elements c k = Some el) \<longleftrightarrow> k \<in> e_key ` set (lru_abs c)"
proof -
  assume "lru_wf c"
  then have "elements c k = Some el \<longleftrightarrow> el \<in> set (order c) \<and> e_key (cells c el) = k" for el by (simp add: lru_wf_def)
  then show ?thesis by (auto simp: lru_abs_def)
qed

lemma wf_new: "0 < mx \<Longrightarrow> mx < 2 ^ 62 \<Longrightarrow> lru_wf (NewLRUCache mx d)"
  by (simp add: lru_wf_def NewLRUCache_def lru_abs_def)

section \<open>Properties\<close>

text \<open>
  C19. Capacity: after any sequence of calls on a bounded cache, the recorded use is the sum of the sizes
  of the entries, it never exceeds the bound, no key has two entries, and the key map and the recency list
  agree.
\<close>

theorem lru_capacity:
  assumes "0 < mx" and "mx < 2 ^ 62" and "list_all op_ok ops"
  shows "let c = fold lru_step ops (NewLRUCache mx d) in
    UsedBytes c = total_size (lru_abs c) \<and> UsedBytes c \<le> mx \<and> distinct (map e_key (lru_abs c))
    \<and> (\<forall>k. (\<exists>p. snd (LRU_Get k c) = Inr p) \<longleftrightarrow> k \<in> e_key ` set (lru_abs c))"
proof -
  let ?c = "fold lru_step ops (NewLRUCache mx d)"
  have wf: "lru_wf ?c" and m: "maxBytes ?c = mx"
    using wf_run [OF wf_new [OF assms(1,2)] assms(3), of d] by (simp_all add: NewLRUCache_def)
  have "distinct (map e_key (lru_abs ?c))"
    using wf wf_key_inj [OF wf] by (auto simp: lru_abs_def distinct_map inj_on_def o_def lru_wf_def)
  moreover have "(\<exists>p. snd (LRU_Get k ?c) = Inr p) \<longleftrightarrow> k \<in> e_key ` set (lru_abs ?c)" for k
    unfolding wf_lookup [OF wf, symmetric] by (auto simp: LRU_Get_def split: option.split)
  ultimately show ?thesis using wf m by (simp add: Let_def UsedBytes_def lru_wf_def)
qed

theorem lru_capacity_witness:
  "UsedBytes (fold lru_step [OpPut ''a'' ''/a'' 60, OpAcquire ''a'', OpPut ''b'' ''/b'' 30, OpPut ''c'' ''/c'' 40] (NewLRUCache 100 {})) \<le> 100"
  using lru_capacity [of 100 "[OpPut ''a'' ''/a'' 60, OpAcquire ''a'', OpPut ''b'' ''/b'' 30, OpPut ''c'' ''/c'' 40]" "{}"]
  by (simp add: Let_def)

text \<open>
  C20. Eviction: a Put keeps every referenced entry of another key; it drops the oldest unreferenced
  entries, only as many as it must; it fails exactly when the referenced entries leave no room, and then
  every unreferenced entry, and the entry it was to replace, is already gone.
\<close>

theorem lru_put_exact:
  assumes "0 < mx" and "mx < 2 ^ 62" and "list_all op_ok ops" and "c = fold lru_step ops (NewLRUCache mx d)"
    and "0 \<le> sz" and "sz < 2 ^ 62" and "LRU_Put key path sz c = (c', r)"
  shows "(case r of
       Inl e \<Rightarrow> e = ErrInsufficientCapacity \<and> mx < total_size (referenced (without_key key (lru_abs c))) + sz
          \<and> lru_abs c' = referenced (without_key key (lru_abs c))
     | Inr _ \<Rightarrow> (\<exists>n. lru_abs c' = drop_oldest n (without_key key (lru_abs c))
            @ [\<lparr>e_key = key, e_path = path, e_size = sz, e_refCount = 0\<rparr>]
          \<and> (\<forall>m<n. mx < total_size (drop_oldest m (without_key key (lru_abs c))) + sz)))
    \<and> set (referenced (without_key key (lru_abs c))) \<subseteq> set (lru_abs c')"
proof -
  have wf: "lru_wf c" and m: "maxBytes c = mx"
    using wf_run [OF wf_new [OF assms(1,2)] assms(3), of d] assms(4) by (simp_all add: NewLRUCache_def)
  note p = put_spec [OF wf assms(5-7), unfolded m]
  have "set (referenced es) \<subseteq> set (drop_oldest n es)" for n es
    using drop_oldest_referenced [of n es] by (metis filter_is_subset referenced_def)
  then show ?thesis using p by (cases r) fastforce+
qed

theorem lru_put_exact_witness:
  "let c = fold lru_step [OpPut ''a'' ''/a'' 60, OpAcquire ''a'', OpPut ''b'' ''/b'' 30] (NewLRUCache 100 {});
       c' = fst (LRU_Put ''big'' ''/big'' 90 c)
   in map e_key (lru_abs c) = [''a'', ''b''] \<and> map e_key (lru_abs c') = [''a'']"
proof -
  let ?ops = "[OpPut ''a'' ''/a'' 60, OpAcquire ''a'', OpPut ''b'' ''/b'' 30]"
  let ?c = "fold lru_step ?ops (NewLRUCache 100 {})"
  have ab: "lru_abs ?c = [\<lparr>e_key = ''a'', e_path = ''/a'', e_size = 60, e_refCount = 1\<rparr>, \<lparr>e_key = ''b'', e_path = ''/b'', e_size = 30, e_refCount = 0\<rparr>]"
    by code_simp
  have r: "snd (LRU_Put ''big'' ''/big'' 90 ?c) = Inl ErrInsufficientCapacity" by code_simp
  then have p: "LRU_Put ''big'' ''/big'' 90 ?c = (fst (LRU_Put ''big'' ''/big'' 90 ?c), Inl ErrInsufficientCapacity)"
    by (metis prod.collapse)
  have "lru_abs (fst (LRU_Put ''big'' ''/big'' 90 ?c)) = referenced (without_key ''big'' (lru_abs ?c))"
    using lru_put_exact [OF _ _ _ refl _ _ p] by simp
  then show ?thesis unfolding Let_def ab by (simp add: referenced_def without_key_def)
qed

end
