(* ===== verification/ArtifactHeader.thy ===== *)
theory ArtifactHeader
  imports Encoding "HOL-Library.List_Lexorder" "HOL-Library.Char_ord" "HOL-Library.Multiset"
begin

text \<open>
  What ingestion checks before it downloads a byte of weights (\<^verbatim>\<open>internal/ingest\<close>): repository
  references (\<^verbatim>\<open>reference.go\<close>), the quota (\<^verbatim>\<open>quota.go\<close>), artifact formats (\<^verbatim>\<open>format.go\<close>), and
  the safetensors header with its limits (\<^verbatim>\<open>safetensors.go\<close>, \<^verbatim>\<open>header.go\<close>).

  \<^verbatim>\<open>url.Parse\<close> and the JSON decoder are parameters: a parsed URL is its scheme, host and path; a JSON
  object is the list of its members in the order Go happens to iterate over them. The range fetcher is a
  function of the two offsets.
\<close>

section \<open>References (\<^verbatim>\<open>reference.go\<close>)\<close>

record Reference =
  ref_Owner :: string
  ref_Name :: string
  ref_Revision :: string

definition RepoID :: "Reference \<Rightarrow> string" where
  "RepoID r = ref_Owner r @ ''/'' @ ref_Name r"

definition defaultRevision :: string where "defaultRevision = ''main''"

definition supportedHosts :: "string list" where
  "supportedHosts = [''huggingface.co'', ''www.huggingface.co'']"

definition segment_char :: "char \<Rightarrow> bool" where
  "segment_char c \<longleftrightarrow> (let n = of_char c :: nat in 97 \<le> n \<and> n \<le> 122 \<or> 65 \<le> n \<and> n \<le> 90 \<or> 48 \<le> n \<and> n \<le> 57)
     \<or> c = CHR ''-'' \<or> c = CHR ''_'' \<or> c = CHR ''.''"

definition validSegment :: "string \<Rightarrow> bool" where
  "validSegment s \<longleftrightarrow> s \<noteq> [] \<and> list_all segment_char s"

datatype reference_error = RefEmpty | RefNotOrgModel string | RefMalformedURL string | RefScheme string | RefHost string | RefPath string

definition parseBareReference :: "string \<Rightarrow> reference_error + Reference" where
  "parseBareReference s = (case go_cut s (CHR ''/'') of
      None \<Rightarrow> Inl (RefNotOrgModel s)
    | Some (owner, name) \<Rightarrow> if \<not> validSegment owner \<or> \<not> validSegment name then Inl (RefNotOrgModel s)
        else Inr \<lparr>ref_Owner = owner, ref_Name = name, ref_Revision = defaultRevision\<rparr>)"

record parsed_url =
  url_Scheme :: string
  url_Host :: string
  url_Path :: string

definition parseReferenceURL :: "(string \<Rightarrow> parsed_url option) \<Rightarrow> string \<Rightarrow> reference_error + Reference" where
  "parseReferenceURL parse s = (case parse s of
      None \<Rightarrow> Inl (RefMalformedURL s)
    | Some u \<Rightarrow>
        if url_Scheme u \<noteq> ''https'' then Inl (RefScheme (url_Scheme u))
        else if url_Host u \<notin> set supportedHosts then Inl (RefHost (url_Host u))
        else let segments = go_split (trim (\<lambda>c. c = CHR ''/'') (url_Path u)) (CHR ''/'') in
          if length segments < 2 \<or> \<not> validSegment (segments ! 0) \<or> \<not> validSegment (segments ! 1) then Inl (RefPath (url_Path u))
          else Inr \<lparr>ref_Owner = segments ! 0, ref_Name = segments ! 1,
                    ref_Revision = (if 4 \<le> length segments \<and> segments ! 2 = ''tree'' \<and> validSegment (segments ! 3)
                                    then segments ! 3 else defaultRevision)\<rparr>)"

definition ParseReference :: "(string \<Rightarrow> parsed_url option) \<Rightarrow> string \<Rightarrow> reference_error + Reference" where
  "ParseReference parse input0 = (let s = trim_space input0 in
     if s = [] then Inl RefEmpty
     else if contains_sub s ''://'' then parseReferenceURL parse s
     else parseBareReference s)"

section \<open>Quota (\<^verbatim>\<open>quota.go\<close>) and formats (\<^verbatim>\<open>format.go\<close>)\<close>

record ManifestFile =
  mf_Path :: string
  mf_Size :: int
  mf_OID :: string

record Quota =
  q_MaxTotalBytes :: int
  q_MaxFileCount :: int

definition DefaultQuota :: Quota where
  "DefaultQuota = \<lparr>q_MaxTotalBytes = 500 * 1024 * 1024 * 1024, q_MaxFileCount = 10000\<rparr>"

definition quota_normalize :: "Quota \<Rightarrow> Quota" where
  "quota_normalize q = \<lparr>q_MaxTotalBytes = (if q_MaxTotalBytes q \<le> 0 then q_MaxTotalBytes DefaultQuota else q_MaxTotalBytes q),
     q_MaxFileCount = (if q_MaxFileCount q \<le> 0 then q_MaxFileCount DefaultQuota else q_MaxFileCount q)\<rparr>"

fun sum_i64 :: "int \<Rightarrow> int list \<Rightarrow> int" where
  "sum_i64 acc [] = acc"
| "sum_i64 acc (x # xs) = sum_i64 (i64 (acc + x)) xs"

datatype quota_error = QuotaFiles int int | QuotaBytes int int

definition EnforceQuota :: "ManifestFile list \<Rightarrow> Quota \<Rightarrow> quota_error + unit" where
  "EnforceQuota files q0 = (let q = quota_normalize q0 in
     if q_MaxFileCount q < int (length files) then Inl (QuotaFiles (int (length files)) (q_MaxFileCount q))
     else let size = sum_i64 0 (map mf_Size files) in
       if q_MaxTotalBytes q < size then Inl (QuotaBytes size (q_MaxTotalBytes q)) else Inr ())"

definition unsafeExtensions :: "string list" where
  "unsafeExtensions = [''.bin'', ''.pt'', ''.pth'', ''.ckpt'']"

text \<open>\<^verbatim>\<open>filepath.Ext\<close>: from the last dot of the last path element.\<close>

definition go_ext :: "string \<Rightarrow> string" where
  "go_ext p = (let r = takeWhile (\<lambda>c. c \<noteq> CHR ''/'') (rev p) in
     if CHR ''.'' \<in> set r then CHR ''.'' # rev (takeWhile (\<lambda>c. c \<noteq> CHR ''.'') r) else [])"

definition ValidateArtifactFormats :: "ManifestFile list \<Rightarrow> string list + unit" where
  "ValidateArtifactFormats files =
     (let bad = map mf_Path (filter (\<lambda>f. to_lower (go_ext (mf_Path f)) \<in> set unsafeExtensions) files)
      in if bad \<noteq> [] then Inl bad else Inr ())"

section \<open>Safetensors headers (\<^verbatim>\<open>safetensors.go\<close>, \<^verbatim>\<open>header.go\<close>)\<close>

record TensorInfo =
  ti_Name :: string
  ti_Dtype :: string
  ti_Shape :: "int list"
  ti_DataOffsets :: "int \<times> int"

record Header =
  hd_Tensors :: "TensorInfo list"
  hd_Metadata :: "(string \<times> string) list"

record tensorEntry =
  te_Dtype :: string
  te_Shape :: "int list"
  te_DataOffsets :: "int \<times> int"

definition metadataKey :: string where "metadataKey = ''__metadata__''"

record HeaderLimits =
  hl_MaxHeaderBytes :: int
  hl_MaxTensorCount :: int

definition DefaultMaxHeaderBytes :: int where "DefaultMaxHeaderBytes = 64 * 1024 * 1024"
definition DefaultMaxTensorCount :: int where "DefaultMaxTensorCount = 200000"
definition maxShapeRank :: nat where "maxShapeRank = 16"
definition safetensorsHeaderPrefixBytes :: int where "safetensorsHeaderPrefixBytes = 8"

definition validDtypes :: "string list" where
  "validDtypes = [''BOOL'', ''U8'', ''I8'', ''U16'', ''I16'', ''U32'', ''I32'', ''U64'', ''I64'',
     ''F16'', ''BF16'', ''F32'', ''F64'', ''F8_E4M3'', ''F8_E5M2'']"

definition limits_normalize :: "HeaderLimits \<Rightarrow> HeaderLimits" where
  "limits_normalize l = \<lparr>hl_MaxHeaderBytes = (if hl_MaxHeaderBytes l \<le> 0 then DefaultMaxHeaderBytes else hl_MaxHeaderBytes l),
     hl_MaxTensorCount = (if hl_MaxTensorCount l \<le> 0 then DefaultMaxTensorCount else hl_MaxTensorCount l)\<rparr>"

datatype header_error = HdrFetchPrefix string | HdrPrefixLength nat | HdrTooLarge nat int | HdrFetchContent string
  | HdrContentLength nat nat | HdrJSON | HdrTooManyTensors int int | HdrMetadataJSON | HdrTensorJSON string
  | HdrUnknownDtype string string | HdrRank string nat | HdrNegativeDim string int | HdrOffsets string "int \<times> int"

type_synonym range_fetcher = "int \<Rightarrow> int \<Rightarrow> string + string"

text \<open>The decoder of Go's \<^verbatim>\<open>encoding/json\<close> at the three types the header code uses.\<close>

record 'j header_json =
  hj_object :: "string \<Rightarrow> (string \<times> 'j) list option"
  hj_metadata :: "'j \<Rightarrow> (string \<times> string) list option"
  hj_tensor :: "'j \<Rightarrow> tensorEntry option"

text \<open>\<^verbatim>\<open>HTTPRangeFetcher\<close> on an HTTP client: \<open>http\<close> answers a URL and a \<^verbatim>\<open>Range\<close> header with the status and the body as far as it could be
  read. The status 200 of a server that ignores ranges is accepted, with the whole body.\<close>

definition range_header :: "int \<Rightarrow> int \<Rightarrow> string" where
  "range_header start stop = ''bytes='' @ itoa start @ ''-'' @ itoa stop"

definition FetchRange :: "(string \<Rightarrow> string \<Rightarrow> string + int \<times> (string + string)) \<Rightarrow> string \<Rightarrow> range_fetcher" where
  "FetchRange http fileURL start stop = (case http fileURL (range_header start stop) of
      Inl e \<Rightarrow> Inl (''ingest: fetch range: '' @ e)
    | Inr (status, body) \<Rightarrow>
        if status \<noteq> 206 \<and> status \<noteq> 200 then Inl (''ingest: unexpected status '' @ itoa status)
        else (case body of Inl e \<Rightarrow> Inl (''ingest: read range response body: '' @ e) | Inr bs \<Rightarrow> Inr bs))"

definition ReadHeaderLength :: "range_fetcher \<Rightarrow> int \<Rightarrow> header_error + nat" where
  "ReadHeaderLength fetch max0 =
     (let maxHeaderBytes = (if max0 \<le> 0 then DefaultMaxHeaderBytes else max0) in
      case fetch 0 (safetensorsHeaderPrefixBytes - 1) of
        Inl e \<Rightarrow> Inl (HdrFetchPrefix e)
      | Inr raw \<Rightarrow> if int (length raw) \<noteq> safetensorsHeaderPrefixBytes then Inl (HdrPrefixLength (length raw))
          else let len = le_nat raw in
            if maxHeaderBytes < int len then Inl (HdrTooLarge len maxHeaderBytes) else Inr len)"

fun first_negative :: "int list \<Rightarrow> int option" where
  "first_negative [] = None"
| "first_negative (d # ds) = (if d < 0 then Some d else first_negative ds)"

definition validateTensorEntry :: "string \<Rightarrow> tensorEntry \<Rightarrow> header_error + unit" where
  "validateTensorEntry name t =
     (if te_Dtype t \<notin> set validDtypes then Inl (HdrUnknownDtype name (te_Dtype t))
      else if maxShapeRank < length (te_Shape t) then Inl (HdrRank name (length (te_Shape t)))
      else (case first_negative (te_Shape t) of
          Some d \<Rightarrow> Inl (HdrNegativeDim name d)
        | None \<Rightarrow> if fst (te_DataOffsets t) < 0 \<or> snd (te_DataOffsets t) < fst (te_DataOffsets t)
                  then Inl (HdrOffsets name (te_DataOffsets t)) else Inr ()))"

fun header_loop :: "('j, 'x) header_json_scheme \<Rightarrow> (string \<times> 'j) list \<Rightarrow> Header \<Rightarrow> header_error + Header" where
  "header_loop D [] h = Inr h"
| "header_loop D ((name, raw) # es) h =
     (if name = metadataKey
      then (case hj_metadata D raw of None \<Rightarrow> Inl HdrMetadataJSON | Some m \<Rightarrow> header_loop D es (h\<lparr>hd_Metadata := m\<rparr>))
      else (case hj_tensor D raw of
          None \<Rightarrow> Inl (HdrTensorJSON name)
        | Some t \<Rightarrow> (case validateTensorEntry name t of
            Inl e \<Rightarrow> Inl e
          | Inr _ \<Rightarrow> header_loop D es (h\<lparr>hd_Tensors := hd_Tensors h @
               [\<lparr>ti_Name = name, ti_Dtype = te_Dtype t, ti_Shape = te_Shape t, ti_DataOffsets = te_DataOffsets t\<rparr>]\<rparr>))))"

definition decodeHeader :: "('j, 'x) header_json_scheme \<Rightarrow> string \<Rightarrow> HeaderLimits \<Rightarrow> header_error + Header" where
  "decodeHeader D raw limits = (case hj_object D raw of
      None \<Rightarrow> Inl HdrJSON
    | Some entries \<Rightarrow>
       (let tensorCount = int (length entries) - (if metadataKey \<in> fst ` set entries then 1 else 0) in
        if hl_MaxTensorCount limits < tensorCount then Inl (HdrTooManyTensors tensorCount (hl_MaxTensorCount limits))
        else (case header_loop D entries \<lparr>hd_Tensors = [], hd_Metadata = []\<rparr> of
            Inl e \<Rightarrow> Inl e
          | Inr h \<Rightarrow> Inr (h\<lparr>hd_Tensors := sort_key ti_Name (hd_Tensors h)\<rparr>))))"

definition FetchHeader :: "('j, 'x) header_json_scheme \<Rightarrow> range_fetcher \<Rightarrow> HeaderLimits \<Rightarrow> header_error + Header" where
  "FetchHeader D fetch limits0 = (let limits = limits_normalize limits0 in
     case ReadHeaderLength fetch (hl_MaxHeaderBytes limits) of
       Inl e \<Rightarrow> Inl e
     | Inr headerLength \<Rightarrow>
        (let start = safetensorsHeaderPrefixBytes; stop = start + int headerLength - 1 in
         case fetch start stop of
           Inl e \<Rightarrow> Inl (HdrFetchContent e)
         | Inr raw \<Rightarrow> if length raw \<noteq> headerLength then Inl (HdrContentLength headerLength (length raw))
             else decodeHeader D raw limits))"

section \<open>References: printing and parsing\<close>

lemma segment_char_excludes: "segment_char c \<Longrightarrow> c \<noteq> CHR ''/'' \<and> c \<noteq> CHR '':'' \<and> \<not> is_space c"
  by (auto simp: segment_char_def is_space_def Let_def)

lemma validSegment_chars: "validSegment s \<Longrightarrow> c \<in> set s \<Longrightarrow> c \<noteq> CHR ''/'' \<and> c \<noteq> CHR '':'' \<and> \<not> is_space c"
  by (metis list_all_iff segment_char_excludes validSegment_def)

lemma trim_id: "(\<And>c. c \<in> set s \<Longrightarrow> \<not> p c) \<Longrightarrow> trim p s = s"
proof -
  assume "\<And>c. c \<in> set s \<Longrightarrow> \<not> p c"
  then have "dropWhile p s = s" "dropWhile p (rev s) = rev s" by (auto simp: dropWhile_eq_self_iff hd_rev)
  then show ?thesis by (simp add: trim_def)
qed

lemma validSegment_main: "validSegment defaultRevision"
  by (simp add: validSegment_def defaultRevision_def segment_char_def Let_def)

lemma ParseReference_segments:
  assumes "ParseReference parse s = Inr r"
  shows "validSegment (ref_Owner r)" "validSegment (ref_Name r)" "validSegment (ref_Revision r)"
  using assms validSegment_main
  by (auto simp: ParseReference_def parseReferenceURL_def parseBareReference_def Let_def split: if_splits option.splits)

lemma ParseReference_RepoID:
  assumes "validSegment (ref_Owner r)" "validSegment (ref_Name r)"
  shows "ParseReference parse (RepoID r) = Inr (r\<lparr>ref_Revision := defaultRevision\<rparr>)"
proof -
  note o = validSegment_chars [OF assms(1)] and n = validSegment_chars [OF assms(2)]
  have c: "c \<noteq> CHR '':'' \<and> \<not> is_space c" if "c \<in> set (RepoID r)" for c
    using that o n by (auto simp: RepoID_def is_space_def)
  then have "trim_space (RepoID r) = RepoID r" unfolding trim_space_def by (intro trim_id) blast
  moreover have "\<not> contains_sub (RepoID r) ''://''"
  proof
    assume "contains_sub (RepoID r) ''://''"
    then obtain a b where "RepoID r = a @ ''://'' @ b" using contains_sub_iff by blast
    then have "CHR '':'' \<in> set (RepoID r)" by simp
    then show False using c by blast
  qed
  moreover have "go_cut (RepoID r) (CHR ''/'') = Some (ref_Owner r, ref_Name r)"
    using o by (auto simp: go_cut_Some RepoID_def)
  ultimately show ?thesis using assms by (simp add: ParseReference_def parseBareReference_def RepoID_def Let_def)
qed

section \<open>Quota: when the total does not wrap\<close>

lemma sum_i64_exact:
  "0 \<le> acc \<Longrightarrow> list_all (\<lambda>x. 0 \<le> x) xs \<Longrightarrow> acc + sum_list xs < 2 ^ 63 \<Longrightarrow> sum_i64 acc xs = acc + sum_list xs"
proof (induction xs arbitrary: acc)
  case Nil
  then show ?case by simp
next
  case (Cons x xs)
  then have s: "0 \<le> sum_list xs" by (simp add: list_all_iff sum_list_nonneg)
  then have "i64 (acc + x) = acc + x" using Cons.prems by (intro i64_id_nonneg) auto
  then show ?case using Cons by (simp add: add.assoc)
qed

section \<open>Headers: what a successful fetch guarantees\<close>

definition valid_tensor :: "TensorInfo \<Rightarrow> bool" where
  "valid_tensor t \<longleftrightarrow> ti_Dtype t \<in> set validDtypes \<and> length (ti_Shape t) \<le> maxShapeRank \<and> list_all (\<lambda>d. 0 \<le> d) (ti_Shape t)
     \<and> 0 \<le> fst (ti_DataOffsets t) \<and> fst (ti_DataOffsets t) \<le> snd (ti_DataOffsets t)"

lemma first_negative_None: "first_negative ds = None \<longleftrightarrow> list_all (\<lambda>d. 0 \<le> d) ds"
  by (induction ds) auto

lemma validateTensorEntry_Inr:
  "validateTensorEntry name t = Inr x \<longleftrightarrow>
     valid_tensor \<lparr>ti_Name = name, ti_Dtype = te_Dtype t, ti_Shape = te_Shape t, ti_DataOffsets = te_DataOffsets t\<rparr>"
  by (auto simp: validateTensorEntry_def valid_tensor_def first_negative_None [symmetric] split: option.splits)

text \<open>The tensor a member of the object stands for.\<close>

definition tensor_of :: "('j, 'x) header_json_scheme \<Rightarrow> string \<times> 'j \<Rightarrow> TensorInfo" where
  "tensor_of D e = (let t = the (hj_tensor D (snd e)) in
     \<lparr>ti_Name = fst e, ti_Dtype = te_Dtype t, ti_Shape = te_Shape t, ti_DataOffsets = te_DataOffsets t\<rparr>)"

lemma ti_Name_tensor_of [simp]: "ti_Name (tensor_of D e) = fst e"
  by (simp add: tensor_of_def Let_def)

lemma header_loop_Inr:
  assumes "header_loop D es h = Inr h'"
  shows "hd_Tensors h' = hd_Tensors h @ map (tensor_of D) (filter (\<lambda>e. fst e \<noteq> metadataKey) es)"
    and "list_all valid_tensor (hd_Tensors h) \<Longrightarrow> list_all valid_tensor (hd_Tensors h')"
  using assms
  by (induction D es h rule: header_loop.induct)
    (auto simp: validateTensorEntry_Inr tensor_of_def Let_def split: if_splits option.splits sum.splits)

text \<open>Validity does not depend on the order in which Go iterates over the members.\<close>

definition entry_ok :: "('j, 'x) header_json_scheme \<Rightarrow> string \<times> 'j \<Rightarrow> bool" where
  "entry_ok D e \<longleftrightarrow> (if fst e = metadataKey then hj_metadata D (snd e) \<noteq> None
     else hj_tensor D (snd e) \<noteq> None \<and> valid_tensor (tensor_of D e))"

lemma header_loop_step:
  "entry_ok D e \<Longrightarrow> \<exists>h1. header_loop D (e # es) h = header_loop D es h1"
  "\<not> entry_ok D e \<Longrightarrow> \<exists>x. header_loop D (e # es) h = Inl x"
proof -
  obtain name raw where e: "e = (name, raw)" by (cases e)
  let ?v = "validateTensorEntry name (the (hj_tensor D raw))"
  have "(\<exists>x. ?v = Inr x) \<longleftrightarrow> valid_tensor (tensor_of D e)" by (simp add: validateTensorEntry_Inr e tensor_of_def Let_def)
  then show "entry_ok D e \<Longrightarrow> \<exists>h1. header_loop D (e # es) h = header_loop D es h1"
    and "\<not> entry_ok D e \<Longrightarrow> \<exists>x. header_loop D (e # es) h = Inl x"
    by (cases "hj_tensor D raw"; cases "hj_metadata D raw"; cases ?v; auto simp: e entry_ok_def)+
qed

lemma header_loop_ok: "(\<exists>h'. header_loop D es h = Inr h') \<longleftrightarrow> list_all (entry_ok D) es"
proof (induction es arbitrary: h)
  case (Cons e es)
  show ?case
  proof (cases "entry_ok D e")
    case True
    then obtain h1 where "header_loop D (e # es) h = header_loop D es h1" using header_loop_step(1) by blast
    then show ?thesis using True Cons.IH [of h1] by simp
  next
    case False
    then show ?thesis using header_loop_step(2) [of D e es h] by auto
  qed
qed simp

lemma length_filter_metadata:
  "distinct (map fst es) \<Longrightarrow> int (length (filter (\<lambda>e. fst e \<noteq> k) es)) = int (length es) - (if k \<in> fst ` set es then 1 else 0)"
proof (induction es)
  case (Cons e es)
  show ?case
  proof (cases "fst e = k")
    case True
    then have "k \<notin> fst ` set es" using Cons.prems by simp
    then have "filter (\<lambda>e. fst e \<noteq> k) es = es" by (auto simp: filter_id_conv)
    then show ?thesis using True by simp
  next
    case False
    then show ?thesis using Cons by auto
  qed
qed simp

lemma sort_key_perm:
  fixes f :: "'a \<Rightarrow> 'k :: linorder"
  assumes "mset xs = mset ys" "distinct (map f xs)"
  shows "sort_key f xs = sort_key f ys"
proof (rule map_sorted_distinct_set_unique)
  have s: "set ys = set xs" using assms(1) by (metis set_mset_mset)
  have "mset (map f ys) = mset (map f xs)" using assms(1) by simp
  then have "distinct (map f ys)" using assms(2) mset_eq_imp_distinct_iff by blast
  then show "distinct (map f (sort_key f xs))" "distinct (map f (sort_key f ys))"
    using assms(2) by (simp_all add: distinct_map)
  show "inj_on f (set (sort_key f xs) \<union> set (sort_key f ys))" using s assms(2) by (simp add: distinct_map)
  show "set (sort_key f xs) = set (sort_key f ys)" using s by simp
qed simp_all

text \<open>The result of decoding, for every order of the members of the JSON object.\<close>

lemma decodeHeader_exact:
  assumes "hj_object D raw = Some es" "distinct (map fst es)"
  defines "ts \<equiv> filter (\<lambda>e. fst e \<noteq> metadataKey) es"
  shows "(\<exists>h. decodeHeader D raw l = Inr h) \<longleftrightarrow> int (length ts) \<le> hl_MaxTensorCount l \<and> list_all (entry_ok D) es"
    and "decodeHeader D raw l = Inr h \<Longrightarrow> hd_Tensors h = sort_key ti_Name (map (tensor_of D) ts) \<and> list_all valid_tensor (hd_Tensors h)"
proof -
  have n: "int (length ts) = int (length es) - (if metadataKey \<in> fst ` set es then 1 else 0)"
    unfolding ts_def by (rule length_filter_metadata [OF assms(2)])
  note L = header_loop_ok [of D es "\<lparr>hd_Tensors = [], hd_Metadata = []\<rparr>"]
  show "(\<exists>h. decodeHeader D raw l = Inr h) \<longleftrightarrow> int (length ts) \<le> hl_MaxTensorCount l \<and> list_all (entry_ok D) es"
    using L n by (cases "header_loop D es \<lparr>hd_Tensors = [], hd_Metadata = []\<rparr>") (auto simp: decodeHeader_def assms(1) Let_def)
  show "hd_Tensors h = sort_key ti_Name (map (tensor_of D) ts) \<and> list_all valid_tensor (hd_Tensors h)" if h: "decodeHeader D raw l = Inr h"
  proof -
    obtain h0 where h0: "header_loop D es \<lparr>hd_Tensors = [], hd_Metadata = []\<rparr> = Inr h0" "h = h0\<lparr>hd_Tensors := sort_key ti_Name (hd_Tensors h0)\<rparr>"
      using h by (auto simp: decodeHeader_def assms(1) Let_def split: if_splits sum.splits)
    show ?thesis using header_loop_Inr [OF h0(1)] by (simp add: h0(2) ts_def list_all_iff)
  qed
qed

section \<open>Properties\<close>

text \<open>
  Repository references: a reference that parses, from a URL or from the bare form, consists of valid path
  segments (letters, digits, dash, underscore, dot), a URL is accepted only on https and a supported host,
  and the identifier printed for a reference parses back to it at the default revision.
\<close>

lemma reference_round_trip:
  assumes "ParseReference parse s = Inr r"
  shows "validSegment (ref_Owner r) \<and> validSegment (ref_Name r) \<and> validSegment (ref_Revision r)
    \<and> ParseReference parse (RepoID r) = Inr (r\<lparr>ref_Revision := defaultRevision\<rparr>)
    \<and> (contains_sub (trim_space s) ''://'' \<longrightarrow>
        (\<exists>u. parse (trim_space s) = Some u \<and> url_Scheme u = ''https'' \<and> url_Host u \<in> {''huggingface.co'', ''www.huggingface.co''}))"
proof (intro conjI impI)
  note v = ParseReference_segments [OF assms]
  show "validSegment (ref_Owner r)" "validSegment (ref_Name r)" "validSegment (ref_Revision r)" by (fact v)+
  show "ParseReference parse (RepoID r) = Inr (r\<lparr>ref_Revision := defaultRevision\<rparr>)" by (rule ParseReference_RepoID [OF v(1,2)])
  assume "contains_sub (trim_space s) ''://''"
  then show "\<exists>u. parse (trim_space s) = Some u \<and> url_Scheme u = ''https'' \<and> url_Host u \<in> {''huggingface.co'', ''www.huggingface.co''}"
    using assms by (auto simp: ParseReference_def parseReferenceURL_def supportedHosts_def Let_def split: if_splits option.splits)
qed

lemma reference_round_trip_witness:
  "ParseReference (\<lambda>_. None) ''meta/llama-3'' = Inr \<lparr>ref_Owner = ''meta'', ref_Name = ''llama-3'', ref_Revision = ''main''\<rparr>"
proof -
  have "ParseReference (\<lambda>_. None) '' meta/llama-3'' = Inr \<lparr>ref_Owner = ''meta'', ref_Name = ''llama-3'', ref_Revision = ''main''\<rparr>"
    by (simp add: ParseReference_def trim_space_def trim_def is_space_def has_prefix_def parseBareReference_def validSegment_def
        segment_char_def Let_def defaultRevision_def)
  from reference_round_trip [OF this] show ?thesis by (simp add: RepoID_def defaultRevision_def)
qed

text \<open>
  C28. Safetensors headers: a header is read with two range requests, the eight bytes of the length and then
  exactly the header, which is at most the limit; no other byte of the file can influence the result. When
  the fetch succeeds, every tensor has a known dtype, at most sixteen dimensions, none negative, and ordered
  offsets, there are no more tensors than the limit, and they are the members of the JSON object sorted by
  name, in whatever order the decoder iterates over them.
\<close>

theorem fetch_header_sound:
  assumes "FetchHeader D fetch limits = Inr h"
    and "\<And>raw es. hj_object D raw = Some es \<Longrightarrow> distinct (map fst es)"
  shows "\<exists>n raw es. int n \<le> hl_MaxHeaderBytes (limits_normalize limits) \<and> fetch 0 7 = Inr (le_bytes 8 n) \<and> fetch 8 (7 + int n) = Inr raw \<and> length raw = n
    \<and> (\<forall>fetch'. fetch' 0 7 = fetch 0 7 \<and> fetch' 8 (7 + int n) = fetch 8 (7 + int n) \<longrightarrow> FetchHeader D fetch' limits = Inr h)
    \<and> hj_object D raw = Some es \<and> list_all valid_tensor (hd_Tensors h)
    \<and> int (length (hd_Tensors h)) \<le> hl_MaxTensorCount (limits_normalize limits)
    \<and> (\<forall>ts. mset ts = mset (map (tensor_of D) (filter (\<lambda>e. fst e \<noteq> metadataKey) es)) \<longrightarrow> hd_Tensors h = sort_key ti_Name ts)"
proof -
  let ?L = "limits_normalize limits"
  obtain pre where pre: "fetch 0 7 = Inr pre" "length pre = 8" and n: "int (le_nat pre) \<le> hl_MaxHeaderBytes ?L"
    and rh: "ReadHeaderLength fetch (hl_MaxHeaderBytes ?L) = Inr (le_nat pre)"
    using assms(1) by (cases "fetch 0 7") (auto simp: FetchHeader_def ReadHeaderLength_def safetensorsHeaderPrefixBytes_def Let_def
        DefaultMaxHeaderBytes_def limits_normalize_def split: sum.splits if_splits)
  let ?n = "le_nat pre"
  obtain raw where raw: "fetch 8 (7 + int ?n) = Inr raw" "length raw = ?n" "decodeHeader D raw ?L = Inr h"
    using assms(1) rh by (cases "fetch 8 (7 + int ?n)") (auto simp: FetchHeader_def safetensorsHeaderPrefixBytes_def Let_def split: if_splits)
  obtain es where es: "hj_object D raw = Some es" using raw(3) by (cases "hj_object D raw") (auto simp: decodeHeader_def)
  let ?ts = "map (tensor_of D) (filter (\<lambda>e. fst e \<noteq> metadataKey) es)"
  note d = assms(2) [OF es]
  note E = decodeHeader_exact [OF es d]
  have T: "hd_Tensors h = sort_key ti_Name ?ts" "list_all valid_tensor (hd_Tensors h)" using E(2) [OF raw(3)] by blast+
  have len: "int (length (hd_Tensors h)) \<le> hl_MaxTensorCount ?L" using E(1) [of ?L] raw(3) T(1) by simp
  have "fetch 0 7 = Inr (le_bytes 8 ?n)" using pre by (simp add: le_bytes_nat)
  moreover have "FetchHeader D fetch' limits = Inr h" if "fetch' 0 7 = fetch 0 7 \<and> fetch' 8 (7 + int ?n) = fetch 8 (7 + int ?n)" for fetch'
  proof -
    have "ReadHeaderLength fetch' (hl_MaxHeaderBytes ?L) = ReadHeaderLength fetch (hl_MaxHeaderBytes ?L)"
      using that by (simp add: ReadHeaderLength_def safetensorsHeaderPrefixBytes_def)
    then show ?thesis using assms(1) rh that by (simp add: FetchHeader_def safetensorsHeaderPrefixBytes_def Let_def)
  qed
  moreover have "hd_Tensors h = sort_key ti_Name ts" if "mset ts = mset ?ts" for ts
    unfolding T(1) by (rule sort_key_perm [OF that [symmetric]]) (use d in \<open>simp add: comp_def distinct_map_filter\<close>)
  ultimately show ?thesis using n raw(1,2) es T(2) len by blast
qed

definition json_example :: "tensorEntry header_json" where
  "json_example = \<lparr>hj_object = (\<lambda>raw. Some [(''w'', \<lparr>te_Dtype = ''F16'', te_Shape = [2, 3], te_DataOffsets = (0, 12)\<rparr>)]),
     hj_metadata = (\<lambda>_. None), hj_tensor = Some\<rparr>"

definition fetch_example :: range_fetcher where
  "fetch_example a b = (if a = 0 then Inr (le_bytes 8 2) else Inr ''{}'')"

theorem fetch_header_sound_witness:
  "\<exists>h. FetchHeader json_example fetch_example \<lparr>hl_MaxHeaderBytes = 0, hl_MaxTensorCount = 0\<rparr> = Inr h
     \<and> map ti_Name (hd_Tensors h) = [''w''] \<and> list_all valid_tensor (hd_Tensors h)"
proof -
  let ?l = "\<lparr>hl_MaxHeaderBytes = 0, hl_MaxTensorCount = 0\<rparr>"
  have n: "le_nat (le_bytes 8 2) = 2" by (simp add: le_nat_bytes)
  have d: "distinct (map fst es)" if "hj_object json_example raw = Some es" for raw es using that by (auto simp: json_example_def)
  have "\<exists>h. FetchHeader json_example fetch_example ?l = Inr h \<and> map ti_Name (hd_Tensors h) = [''w'']"
    by (simp add: FetchHeader_def ReadHeaderLength_def fetch_example_def safetensorsHeaderPrefixBytes_def limits_normalize_def
        DefaultMaxHeaderBytes_def DefaultMaxTensorCount_def n decodeHeader_def json_example_def metadataKey_def validateTensorEntry_def
        validDtypes_def maxShapeRank_def)
  then obtain h where h: "FetchHeader json_example fetch_example ?l = Inr h" "map ti_Name (hd_Tensors h) = [''w'']" by (elim exE conjE) (rule that)
  have "list_all valid_tensor (hd_Tensors h)" 
    by (rule fetch_header_sound [OF h(1), THEN exE], erule d, elim exE conjE, assumption)
  with h show ?thesis by (intro exI [of _ h]) simp
qed

text \<open>A file served whole is read whole and then refused for its length, unless it is exactly as long as the prefix.\<close>

lemma whole_file_refused:
  assumes "\<And>r. http fileURL r = Inr (200, Inr f)" "length f \<noteq> 8"
  shows "FetchRange http fileURL a b = Inr f" "FetchHeader D (FetchRange http fileURL) limits = Inl (HdrPrefixLength (length f))"
  using assms by (simp_all add: FetchRange_def FetchHeader_def ReadHeaderLength_def safetensorsHeaderPrefixBytes_def Let_def)

end
