(* ===== verification/Lora.thy ===== *)
theory Lora
  imports Prelude ArtifactHeader
begin

text \<open>
  LoRA adapters (\<^verbatim>\<open>internal/lora\<close>): validation of an adapter (\<^verbatim>\<open>adapter.go\<close>), routing of a model
  name (\<^verbatim>\<open>router.go\<close>) and the pool of resident adapters (\<^verbatim>\<open>pool.go\<close>). The engine behind the
  injected load and unload calls is the set of adapters it holds; a call may fail before it takes
  effect (\<open>Down\<close>) or after it (\<open>Lost\<close>).
\<close>

section \<open>Validation (\<^verbatim>\<open>adapter.go\<close>)\<close>

record AdapterConfig =
  BaseModelNameOrPath :: string
  ad_R :: int
  TargetModules :: "string list"

datatype lora_error =
    ErrBaseModelMismatch
  | ErrInvalidRank
  | ErrUnsupportedTargetModule string
  | ErrRankMismatch string
  | ErrAdapterNotLoaded string
  | PoolNoSlots
  | EvictFailed string string
  | LoadFailed string

fun unsupported_target :: "string list \<Rightarrow> string list \<Rightarrow> string option" where
  "unsupported_target supported [] = None"
| "unsupported_target supported (t # ts) = (if t \<notin> set supported then Some t else unsupported_target supported ts)"

definition ValidateAdapter :: "AdapterConfig \<Rightarrow> string \<Rightarrow> string list \<Rightarrow> lora_error + unit" where
  "ValidateAdapter a base modules =
     (if BaseModelNameOrPath a \<noteq> base then Inl ErrBaseModelMismatch
      else if ad_R a \<le> 0 then Inl ErrInvalidRank
      else case unsupported_target modules (TargetModules a) of
             Some t \<Rightarrow> Inl (ErrUnsupportedTargetModule t) | None \<Rightarrow> Inr ())"

fun ValidateAdapterTensors :: "TensorInfo list \<Rightarrow> int \<Rightarrow> lora_error + unit" where
  "ValidateAdapterTensors [] rk = Inr ()"
| "ValidateAdapterTensors (t # ts) rk =
     (if has_suffix (ti_Name t) ''lora_A.weight''
      then if length (ti_Shape t) \<noteq> 2 \<or> ti_Shape t ! 0 \<noteq> rk then Inl (ErrRankMismatch (ti_Name t)) else ValidateAdapterTensors ts rk
      else if has_suffix (ti_Name t) ''lora_B.weight''
      then if length (ti_Shape t) \<noteq> 2 \<or> ti_Shape t ! 1 \<noteq> rk then Inl (ErrRankMismatch (ti_Name t)) else ValidateAdapterTensors ts rk
      else ValidateAdapterTensors ts rk)"

section \<open>Router (\<^verbatim>\<open>router.go\<close>)\<close>

record Router =
  baseModel :: string
  resident :: "string set"

definition NewRouter :: "string \<Rightarrow> Router" where
  "NewRouter b = \<lparr>baseModel = b, resident = {}\<rparr>"

definition Resolve :: "Router \<Rightarrow> string \<Rightarrow> lora_error + string" where
  "Resolve r requested = (if requested = baseModel r then Inr (baseModel r)
     else if requested \<in> resident r then Inr requested else Inl (ErrAdapterNotLoaded requested))"

definition MarkLoaded :: "string \<Rightarrow> Router \<Rightarrow> Router" where
  "MarkLoaded a r = r\<lparr>resident := insert a (resident r)\<rparr>"

definition MarkUnloaded :: "string \<Rightarrow> Router \<Rightarrow> Router" where
  "MarkUnloaded a r = r\<lparr>resident := resident r - {a}\<rparr>"

section \<open>Pool (\<^verbatim>\<open>pool.go\<close>)\<close>

record Pool =
  maxSlots :: int
  p_router :: Router
  p_order :: "string list"
  p_engine :: "string set"

definition NewPool :: "int \<Rightarrow> Router \<Rightarrow> Pool" where
  "NewPool n r = \<lparr>maxSlots = n, p_router = r, p_order = [], p_engine = {}\<rparr>"

fun indexOf :: "string list \<Rightarrow> string \<Rightarrow> int" where
  "indexOf [] v = -1"
| "indexOf (e # es) v = (if e = v then 0 else (let i = indexOf es v in if i < 0 then -1 else i + 1))"

definition engine_load :: "unit link \<Rightarrow> string \<Rightarrow> Pool \<Rightarrow> Pool \<times> (unit + unit)" where
  "engine_load l a p = roundtrip l (\<lambda>p. (p\<lparr>p_engine := insert a (p_engine p)\<rparr>, ())) p"

definition engine_unload :: "unit link \<Rightarrow> string \<Rightarrow> Pool \<Rightarrow> Pool \<times> (unit + unit)" where
  "engine_unload l a p = roundtrip l (\<lambda>p. (p\<lparr>p_engine := p_engine p - {a}\<rparr>, ())) p"

definition pool_load :: "unit link \<Rightarrow> string \<Rightarrow> Pool \<Rightarrow> Pool \<times> (lora_error + unit)" where
  "pool_load l a p = (case engine_load l a p of
      (p', Inl _) \<Rightarrow> (p', Inl (LoadFailed a))
    | (p', Inr _) \<Rightarrow> (p'\<lparr>p_router := MarkLoaded a (p_router p'), p_order := p_order p' @ [a]\<rparr>, Inr ()))"

definition Pool_Acquire :: "unit link \<Rightarrow> unit link \<Rightarrow> string \<Rightarrow> Pool \<Rightarrow> Pool \<times> (lora_error + unit)" where
  "Pool_Acquire lu ll a p =
     (if maxSlots p \<le> 0 then (p, Inl PoolNoSlots)
      else let idx = indexOf (p_order p) a
           in if 0 \<le> idx then (p\<lparr>p_order := take (nat idx) (p_order p) @ drop (nat idx + 1) (p_order p) @ [a]\<rparr>, Inr ())
              else if maxSlots p \<le> int (length (p_order p))
              then (let lru = p_order p ! 0
                    in case engine_unload lu lru p of
                         (p', Inl _) \<Rightarrow> (p', Inl (EvictFailed lru a))
                       | (p', Inr _) \<Rightarrow> pool_load ll a
                           (p'\<lparr>p_router := MarkUnloaded lru (p_router p'), p_order := drop 1 (p_order p')\<rparr>))
              else pool_load ll a p)"

definition Resident :: "Pool \<Rightarrow> string list" where
  "Resident p = p_order p"

section \<open>Lemmas\<close>

lemma indexOf_remove1:
  "v \<in> set xs \<Longrightarrow> 0 \<le> indexOf xs v \<and> take (nat (indexOf xs v)) xs @ drop (nat (indexOf xs v) + 1) xs = remove1 v xs"
proof (induction xs)
  case Nil
  then show ?case by simp
next
  case (Cons x xs)
  show ?case
  proof (cases "x = v")
    case False
    then have "0 \<le> indexOf xs v" "take (nat (indexOf xs v)) xs @ drop (nat (indexOf xs v) + 1) xs = remove1 v xs"
      using Cons by simp_all
    then show ?thesis using False by (simp add: Let_def nat_add_distrib)
  qed simp
qed

lemma indexOf_neg: "v \<notin> set xs \<Longrightarrow> indexOf xs v = -1"
  by (induction xs) (auto simp: Let_def)

definition pool_inv :: "Pool \<Rightarrow> bool" where
  "pool_inv p \<longleftrightarrow> distinct (p_order p) \<and> resident (p_router p) = set (p_order p) \<and>
     int (length (p_order p)) \<le> max 0 (maxSlots p)"

text \<open>Acquire in terms of lists: the branches of the code.\<close>

lemma Acquire_cases:
  assumes "0 < maxSlots p"
  shows "Pool_Acquire lu ll a p =
    (if a \<in> set (p_order p) then (p\<lparr>p_order := remove1 a (p_order p) @ [a]\<rparr>, Inr ())
     else if maxSlots p \<le> int (length (p_order p))
     then (let lru = p_order p ! 0
           in case engine_unload lu lru p of
                (p', Inl _) \<Rightarrow> (p', Inl (EvictFailed lru a))
              | (p', Inr _) \<Rightarrow> pool_load ll a (p'\<lparr>p_router := MarkUnloaded lru (p_router p'), p_order := drop 1 (p_order p')\<rparr>))
     else pool_load ll a p)"
  using assms indexOf_remove1 [of a "p_order p"] indexOf_neg [of a "p_order p"]
  by (simp add: Pool_Acquire_def Let_def append_assoc [symmetric] del: append_assoc)

lemma pool_load_inv:
  assumes "pool_inv p" "a \<notin> set (p_order p)" "int (length (p_order p)) < maxSlots p" "pool_load l a p = (p', r)"
  shows "pool_inv p' \<and> maxSlots p' = maxSlots p \<and> baseModel (p_router p') = baseModel (p_router p)
    \<and> (r = Inr () \<longrightarrow> p_order p' = p_order p @ [a]) \<and> (r \<noteq> Inr () \<longrightarrow> p_order p' = p_order p)
    \<and> (p_engine p = set (p_order p) \<and> (\<forall>e. l \<noteq> Lost e) \<longrightarrow> p_engine p' = set (p_order p'))"
proof (cases l)
  case Up
  then have "p' = p\<lparr>p_engine := insert a (p_engine p), p_router := MarkLoaded a (p_router p), p_order := p_order p @ [a]\<rparr>" "r = Inr ()"
    using assms(4) by (simp_all add: pool_load_def engine_load_def)
  then show ?thesis using assms(1-3) by (simp add: pool_inv_def MarkLoaded_def)
next
  case (Down e)
  then have "p' = p" "r = Inl (LoadFailed a)" using assms(4) by (simp_all add: pool_load_def engine_load_def)
  then show ?thesis using assms(1) by simp
next
  case (Lost e)
  then have "p' = p\<lparr>p_engine := insert a (p_engine p)\<rparr>" "r = Inl (LoadFailed a)"
    using assms(4) by (simp_all add: pool_load_def engine_load_def)
  then show ?thesis using assms(1) Lost by (simp add: pool_inv_def)
qed

lemma Acquire_inv:
  assumes inv: "pool_inv p" and m: "0 < maxSlots p" and r: "Pool_Acquire lu ll a p = (p', r)"
  shows "pool_inv p' \<and> maxSlots p' = maxSlots p \<and> baseModel (p_router p') = baseModel (p_router p)
    \<and> (r = Inr () \<longrightarrow> p_order p' \<noteq> [] \<and> last (p_order p') = a)
    \<and> (p_engine p = set (p_order p) \<and> (\<forall>e. lu \<noteq> Lost e) \<and> (\<forall>e. ll \<noteq> Lost e) \<longrightarrow> p_engine p' = set (p_order p'))"
proof -
  consider (hit) "a \<in> set (p_order p)"
    | (full) "a \<notin> set (p_order p)" "maxSlots p \<le> int (length (p_order p))"
    | (room) "a \<notin> set (p_order p)" "int (length (p_order p)) < maxSlots p" by linarith
  then show ?thesis
  proof cases
    case hit
    have "length (p_order p) = Suc (length (remove1 a (p_order p)))"
      using hit length_pos_if_in_set [OF hit] by (simp add: length_remove1)
    moreover have "set (remove1 a (p_order p) @ [a]) = set (p_order p)" "distinct (remove1 a (p_order p) @ [a])"
      using hit inv by (auto simp: pool_inv_def)
    moreover have "p' = p\<lparr>p_order := remove1 a (p_order p) @ [a]\<rparr>" "r = Inr ()" using hit r m by (simp_all add: Acquire_cases)
    ultimately show ?thesis using inv by (simp add: pool_inv_def)
  next
    case room
    then show ?thesis using pool_load_inv [OF inv room] r m by (auto simp: Acquire_cases)
  next
    case full
    obtain x xs where o: "p_order p = x # xs" using full(2) m by (cases "p_order p") auto
    let ?q = "p\<lparr>p_engine := p_engine p - {x}, p_router := MarkUnloaded x (p_router p), p_order := xs\<rparr>"
    have q: "pool_inv ?q" "a \<notin> set (p_order ?q)" "int (length (p_order ?q)) < maxSlots ?q"
      "p_engine p = set (p_order p) \<Longrightarrow> p_engine ?q = set (p_order ?q)" "maxSlots ?q = maxSlots p"
      "baseModel (p_router ?q) = baseModel (p_router p)"
      using inv full o m by (auto simp: pool_inv_def MarkUnloaded_def)
    show ?thesis
    proof (cases lu)
      case Up
      then have "pool_load ll a ?q = (p', r)" using r full o m by (simp add: Acquire_cases engine_unload_def)
      from pool_load_inv [OF q(1-3) this] show ?thesis using q(4-6) Up by auto
    next
      case (Down e)
      then show ?thesis using r full o m inv by (auto simp: Acquire_cases engine_unload_def)
    next
      case (Lost e)
      then have "p' = p\<lparr>p_engine := p_engine p - {x}\<rparr>" "r = Inl (EvictFailed x a)"
        using r full o m by (simp_all add: Acquire_cases engine_unload_def)
      then show ?thesis using inv Lost by (simp add: pool_inv_def)
    qed
  qed
qed

fun pool_run :: "(unit link \<times> unit link \<times> string) list \<Rightarrow> Pool \<Rightarrow> Pool" where
  "pool_run [] p = p"
| "pool_run ((lu, ll, a) # cs) p = pool_run cs (fst (Pool_Acquire lu ll a p))"

definition no_lost :: "'e link \<Rightarrow> bool" where
  "no_lost l = (case l of Lost _ \<Rightarrow> False | _ \<Rightarrow> True)"

lemma no_lost_iff: "no_lost l \<longleftrightarrow> (\<forall>e. l \<noteq> Lost e)"
  by (cases l) (simp_all add: no_lost_def)

lemma pool_run_inv:
  "pool_inv p \<Longrightarrow> 0 < maxSlots p \<Longrightarrow> pool_inv (pool_run cs p) \<and> maxSlots (pool_run cs p) = maxSlots p
     \<and> baseModel (p_router (pool_run cs p)) = baseModel (p_router p)
     \<and> (p_engine p = set (p_order p) \<and> list_all (\<lambda>(lu, ll, _). no_lost lu \<and> no_lost ll) cs \<longrightarrow>
          p_engine (pool_run cs p) = set (p_order (pool_run cs p)))"
proof (induction cs arbitrary: p)
  case Nil
  then show ?case by simp
next
  case (Cons c cs)
  obtain lu ll a where c: "c = (lu, ll, a)" by (cases c) auto
  obtain p1 r where p1: "Pool_Acquire lu ll a p = (p1, r)" by fastforce
  note a = Acquire_inv [OF Cons.prems p1]
  show ?case using Cons.IH [of p1] a Cons.prems(2) by (simp add: c p1 no_lost_iff)
qed

section \<open>Properties\<close>

text \<open>
  C21. Residency: after any sequence of Acquire calls, with load and unload calls failing anywhere, the
  pool holds at most its number of slots, no adapter twice, and the router resolves exactly the
  resident adapters (and the base model); an Acquire that succeeds makes its adapter the most recently
  used and routable; and when no response of the engine was lost, the engine holds exactly the
  resident adapters.
\<close>

theorem lora_pool_residency:
  assumes "0 < n" and "p = pool_run cs (NewPool n (NewRouter b))"
  shows "distinct (Resident p) \<and> int (length (Resident p)) \<le> n
    \<and> (\<forall>m. m \<noteq> b \<longrightarrow> (Resolve (p_router p) m = Inr m \<longleftrightarrow> m \<in> set (Resident p)))
    \<and> (\<forall>lu ll a p'. Pool_Acquire lu ll a p = (p', Inr ()) \<longrightarrow> last (Resident p') = a \<and> Resolve (p_router p') a = Inr a)
    \<and> (list_all (\<lambda>(lu, ll, _). no_lost lu \<and> no_lost ll) cs \<longrightarrow> p_engine p = set (Resident p))"
proof -
  have i0: "pool_inv (NewPool n (NewRouter b))" "0 < maxSlots (NewPool n (NewRouter b))"
    "p_engine (NewPool n (NewRouter b)) = set (p_order (NewPool n (NewRouter b)))"
    using assms(1) by (simp_all add: pool_inv_def NewPool_def NewRouter_def)
  note k = pool_run_inv [OF i0(1,2), of cs, folded assms(2)]
  have mx: "maxSlots p = n" "0 < maxSlots p" "baseModel (p_router p) = b"
    using k assms(1) by (simp_all add: NewPool_def NewRouter_def)
  have "last (Resident p') = a \<and> Resolve (p_router p') a = Inr a" if "Pool_Acquire lu ll a p = (p', Inr ())" for lu ll a p'
  proof -
    have x: "pool_inv p'" "p_order p' \<noteq> []" "last (p_order p') = a"
      using Acquire_inv [OF _ mx(2) that] k by simp_all
    then have "a \<in> resident (p_router p')" by (metis last_in_set pool_inv_def)
    then show ?thesis using x(3) by (simp add: Resident_def Resolve_def)
  qed
  moreover have "Resolve (p_router p) m = Inr m \<longleftrightarrow> m \<in> set (Resident p)" if "m \<noteq> b" for m
    using k mx(3) that by (simp add: Resolve_def pool_inv_def Resident_def)
  moreover have "list_all (\<lambda>(lu, ll, _). no_lost lu \<and> no_lost ll) cs \<longrightarrow> p_engine p = set (Resident p)"
    using k i0(3) by (simp add: Resident_def)
  ultimately show ?thesis using k mx(1) assms(1) by (simp add: Resident_def pool_inv_def)
qed

theorem lora_pool_residency_witness:
  "Resident (pool_run [(Up, Up, ''a''), (Up, Up, ''b''), (Up, Up, ''a''), (Up, Up, ''c'')] (NewPool 2 (NewRouter ''base''))) = [''a'', ''c'']
   \<and> p_engine (pool_run [(Up, Up, ''a''), (Up, Up, ''b''), (Up, Up, ''a''), (Up, Up, ''c'')] (NewPool 2 (NewRouter ''base''))) = {''a'', ''c''}"
proof -
  let ?cs = "[(Up, Up, ''a''), (Up, Up, ''b''), (Up, Up, ''a''), (Up, Up, ''c'')]"
  have r: "Resident (pool_run ?cs (NewPool 2 (NewRouter ''base''))) = [''a'', ''c'']" by code_simp
  show ?thesis using lora_pool_residency [of 2 _ ?cs "''base''", OF _ refl] unfolding r by (simp add: no_lost_def)
qed

end
