(* ===== verification/Resilience.thy ===== *)
theory Resilience
  imports JobQueue
begin

text \<open>
  Recovery of stuck requests (\<^verbatim>\<open>internal/resilience\<close>): the watchdog over in-flight requests, the sweep
  that cancels and requeues what it reports, and the middleware that registers requests. The map of
  requests is an association list with distinct keys, in the order in which \<^verbatim>\<open>Stuck\<close> happens to
  iterate; the properties hold for every order. The mutex makes each method one step.
\<close>

section \<open>Watchdog (\<^verbatim>\<open>watchdog.go\<close>)\<close>

record RequeuePayload =
  RequestID :: string
  rq_Model :: string
  rq_Body :: string

record Watchdog =
  wd_requests :: "(string \<times> int \<times> RequeuePayload) list"
  wd_threshold :: int

definition NewWatchdog :: "int \<Rightarrow> Watchdog" where
  "NewWatchdog th = \<lparr>wd_requests = [], wd_threshold = th\<rparr>"

definition Watchdog_Start :: "int \<Rightarrow> string \<Rightarrow> RequeuePayload \<Rightarrow> Watchdog \<Rightarrow> Watchdog" where
  "Watchdog_Start now i p w = w\<lparr>wd_requests := AList.update i (now, p) (wd_requests w)\<rparr>"

definition Watchdog_Touch :: "int \<Rightarrow> string \<Rightarrow> Watchdog \<Rightarrow> Watchdog" where
  "Watchdog_Touch now i w = (case map_of (wd_requests w) i of
      None \<Rightarrow> w | Some (_, p) \<Rightarrow> w\<lparr>wd_requests := AList.update i (now, p) (wd_requests w)\<rparr>)"

definition Watchdog_Forget :: "string \<Rightarrow> Watchdog \<Rightarrow> Watchdog" where
  "Watchdog_Forget i w = w\<lparr>wd_requests := AList.delete i (wd_requests w)\<rparr>"

definition expired_entry :: "int \<Rightarrow> int \<Rightarrow> string \<times> int \<times> RequeuePayload \<Rightarrow> bool" where
  "expired_entry threshold now e \<longleftrightarrow> threshold \<le> now - fst (snd e)"

definition Stuck :: "int \<Rightarrow> Watchdog \<Rightarrow> Watchdog \<times> RequeuePayload list" where
  "Stuck now w =
     (w\<lparr>wd_requests := filter (\<lambda>e. \<not> expired_entry (wd_threshold w) now e) (wd_requests w)\<rparr>,
      map (\<lambda>e. snd (snd e)) (filter (expired_entry (wd_threshold w) now) (wd_requests w)))"

definition InFlightCount :: "Watchdog \<Rightarrow> nat" where
  "InFlightCount w = length (wd_requests w)"

section \<open>Sweep (\<^verbatim>\<open>reaper.go\<close>)\<close>

text \<open>The result of \<^verbatim>\<open>Cancel\<close> is ignored, so only the requeue is modelled as a call; \<open>cancelled\<close> lists the
  requests for which it was made.\<close>

fun sweep_loop ::
  "('s, 'x) redis_scheme \<Rightarrow> queue \<Rightarrow> (string \<Rightarrow> rerr link \<times> rerr link) \<Rightarrow> RequeuePayload list \<Rightarrow> 's \<Rightarrow> 's \<times> nat \<times> string list" where
  "sweep_loop R q lk [] s = (s, 0, [])"
| "sweep_loop R q lk (p # ps) s =
     (let (s1, r) = Enqueue R q (fst (lk (RequestID p))) (snd (lk (RequestID p))) (RequestID p) (rq_Body p) s;
          (s2, n, cancelled) = sweep_loop R q lk ps s1
      in (s2, (if r = Inr () then Suc n else n), RequestID p # cancelled))"

definition Sweep ::
  "('s, 'x) redis_scheme \<Rightarrow> queue \<Rightarrow> (string \<Rightarrow> rerr link \<times> rerr link) \<Rightarrow> int \<Rightarrow> Watchdog \<times> 's \<Rightarrow> (Watchdog \<times> 's) \<times> nat \<times> string list" where
  "Sweep R q lk now ws = (case Stuck now (fst ws) of
      (w', stuck) \<Rightarrow> (case sweep_loop R q lk stuck (snd ws) of (s', n, cancelled) \<Rightarrow> ((w', s'), n, cancelled)))"

text \<open>\<^verbatim>\<open>Run\<close>: what its select meets, with the steps of other goroutines in between; the log has the time and the cancelled requests of
  each sweep.\<close>

datatype 's reap_event = ReapTick int "string \<Rightarrow> rerr link \<times> rerr link" | Meanwhile "Watchdog \<times> 's \<Rightarrow> Watchdog \<times> 's" | ReapDone

fun Reaper_Run ::
  "('s, 'x) redis_scheme \<Rightarrow> queue \<Rightarrow> 's reap_event list \<Rightarrow> Watchdog \<times> 's \<Rightarrow> (Watchdog \<times> 's) \<times> (int \<times> string list) list" where
  "Reaper_Run R q [] ws = (ws, [])"
| "Reaper_Run R q (ReapDone # es) ws = (ws, [])"
| "Reaper_Run R q (Meanwhile f # es) ws = Reaper_Run R q es (f ws)"
| "Reaper_Run R q (ReapTick now lk # es) ws =
     (case Sweep R q lk now ws of (ws', n, cancelled) \<Rightarrow> (case Reaper_Run R q es ws' of (ws'', log) \<Rightarrow> (ws'', (now, cancelled) # log)))"

section \<open>Middleware (\<^verbatim>\<open>middleware.go\<close>)\<close>

text \<open>\<open>handler\<close> is what the rest of the chain does to the watchdog while the request runs (tokens of
  this and other requests, sweeps); the deferred call runs when it returns.\<close>

definition Watchdog_Middleware :: "int \<Rightarrow> string \<Rightarrow> string \<Rightarrow> (Watchdog \<Rightarrow> Watchdog) \<Rightarrow> Watchdog \<Rightarrow> Watchdog" where
  "Watchdog_Middleware now requestID body handler w =
     (if requestID = [] then handler w
      else Watchdog_Forget requestID
             (handler (Watchdog_Start now requestID \<lparr>RequestID = requestID, rq_Model = [], rq_Body = body\<rparr> w)))"

section \<open>Lemmas\<close>

definition wd_ok :: "Watchdog \<Rightarrow> bool" where
  "wd_ok w \<longleftrightarrow> distinct (map fst (wd_requests w))"

lemma wd_ok_steps:
  "wd_ok w \<Longrightarrow> wd_ok (Watchdog_Start now i p w)" "wd_ok w \<Longrightarrow> wd_ok (Watchdog_Touch now i w)"
  "wd_ok w \<Longrightarrow> wd_ok (Watchdog_Forget i w)" "wd_ok w \<Longrightarrow> wd_ok (fst (Stuck now w))"
  by (auto simp: wd_ok_def Watchdog_Start_def Watchdog_Touch_def Watchdog_Forget_def Stuck_def distinct_update
      distinct_delete distinct_map_filter split: option.splits)

text \<open>The view of the queue after requeueing a list of payloads.\<close>

fun requeued :: "(string \<Rightarrow> rerr link \<times> rerr link) \<Rightarrow> RequeuePayload list \<Rightarrow> qview \<Rightarrow> qview" where
  "requeued lk [] v = v"
| "requeued lk (p # ps) v = requeued lk ps
     (case lk (RequestID p) of (l1, l2) \<Rightarrow>
        if reached l1 then (if l1 = Up \<and> reached l2 then v_push (RequestID p) (v_record (RequestID p) (rq_Body p) v)
           else v_record (RequestID p) (rq_Body p) v) else v)"

context redis_server
begin

lemma enqueue_view:
  assumes "q_typed R q s"
  shows "q_typed R q (fst (Enqueue R q l1 l2 i b s))"
    and "q_view R q (fst (Enqueue R q l1 l2 i b s)) =
      (if reached l1 then (if l1 = Up \<and> reached l2 then v_push i (v_record i b (q_view R q s)) else v_record i b (q_view R q s))
       else q_view R q s)"
    and "snd (Enqueue R q l1 l2 i b s) = Inr () \<longleftrightarrow> l1 = Up \<and> l2 = Up"
  using enqueue_record [OF assms, of i b] enqueue_push [OF enqueue_record(2) [OF assms, of i b], of i] assms
  by (cases l1; cases l2; simp add: Enqueue_def)+

lemma sweep_loop_view:
  assumes "q_typed R q s" "sweep_loop R q lk ps s = (s', n, cs)"
  shows "q_view R q s' = requeued lk ps (q_view R q s) \<and> n = length (filter (\<lambda>p. lk (RequestID p) = (Up, Up)) ps)
    \<and> cs = map RequestID ps"
  using assms
proof (induction ps arbitrary: s s' n cs)
  case Nil
  then show ?case by simp
next
  case (Cons p ps)
  obtain l1 l2 where l: "lk (RequestID p) = (l1, l2)" by fastforce
  obtain s1 r where e: "Enqueue R q l1 l2 (RequestID p) (rq_Body p) s = (s1, r)" by fastforce
  obtain s2 m cc where rec: "sweep_loop R q lk ps s1 = (s2, m, cc)" by (metis prod_cases3)
  note v = enqueue_view [OF Cons.prems(1), of l1 l2 "RequestID p" "rq_Body p", unfolded e]
  have "q_typed R q s1" using v(1) by simp
  from Cons.IH [OF this rec] show ?case using Cons.prems(2) v l rec by (auto simp: e)
qed

end

text \<open>A request that is left alone is found: sweeps before its threshold keep it, and the first sweep at or after it cancels it. With a tick
  every interval that is at most the interval after the threshold.\<close>

definition leaves_alone :: "string \<Rightarrow> int \<times> RequeuePayload \<Rightarrow> int \<Rightarrow> 's reap_event \<Rightarrow> bool" where
  "leaves_alone i e th ev \<longleftrightarrow> (case ev of
      ReapDone \<Rightarrow> False
    | ReapTick now lk \<Rightarrow> now < fst e + th
    | Meanwhile f \<Rightarrow> (\<forall>ws. map_of (wd_requests (fst ws)) i = Some e \<and> wd_threshold (fst ws) = th \<longrightarrow>
        map_of (wd_requests (fst (f ws))) i = Some e \<and> wd_threshold (fst (f ws)) = th))"

lemma sweep_loop_cancels: "snd (snd (sweep_loop R q lk ps s)) = map RequestID ps"
proof (induction ps arbitrary: s)
  case (Cons p ps)
  have step: "snd (snd (case x of (s2, n, cancelled) \<Rightarrow> (s2, f n, RequestID p # cancelled))) = RequestID p # snd (snd x)"
    for x :: "'a \<times> nat \<times> string list" and f :: "nat \<Rightarrow> nat" by (simp split: prod.splits)
  show ?case using Cons.IH by (simp add: Let_def step split: prod.splits)
qed simp

lemma sweep_cancels: "Sweep R q lk now ws = (ws', n, cs) \<Longrightarrow> fst ws' = fst (Stuck now (fst ws)) \<and> cs = map RequestID (snd (Stuck now (fst ws)))"
  using sweep_loop_cancels [of R q lk "snd (Stuck now (fst ws))" "snd ws"] by (auto simp: Sweep_def split: prod.splits)

lemma map_of_filter_kept: "map_of xs k = Some v \<Longrightarrow> Q (k, v) \<Longrightarrow> map_of (filter Q xs) k = Some v"
  by (induction xs) (auto split: if_splits)

lemma reaper_run_detects:
  assumes "map_of (wd_requests (fst ws)) i = Some e" "\<forall>ev \<in> set pre. leaves_alone i e (wd_threshold (fst ws)) ev"
    and "fst e + wd_threshold (fst ws) \<le> now"
  shows "\<exists>log cs log'. snd (Reaper_Run R q (pre @ ReapTick now lk # post) ws) = log @ (now, cs) # log' \<and> RequestID (snd e) \<in> set cs
    \<and> (\<forall>(t, _) \<in> set log. t < fst e + wd_threshold (fst ws))"
  using assms
proof (induction pre arbitrary: ws)
  case Nil
  obtain ws' n cs where sw: "Sweep R q lk now ws = (ws', n, cs)" by (metis prod_cases3)
  have "(i, e) \<in> set (wd_requests (fst ws))" using Nil.prems(1) by (rule map_of_SomeD)
  then have "RequestID (snd e) \<in> set cs" using sweep_cancels [OF sw] Nil.prems(3) by (force simp: Stuck_def expired_entry_def)
  moreover obtain ws'' log' where "Reaper_Run R q post ws' = (ws'', log')" by fastforce
  ultimately show ?case using sw by (intro exI [of _ "[]"] exI [of _ cs] exI [of _ log']) simp
next
  case (Cons ev pre)
  show ?case
  proof (cases ev)
    case (ReapTick t lk')
    obtain ws' n cs where sw: "Sweep R q lk' t ws = (ws', n, cs)" by (metis prod_cases3)
    have t: "t < fst e + wd_threshold (fst ws)" using Cons.prems(2) ReapTick by (simp add: leaves_alone_def)
    have "map_of (wd_requests (fst ws')) i = Some e" "wd_threshold (fst ws') = wd_threshold (fst ws)"
      using sweep_cancels [OF sw] Cons.prems(1) t by (auto simp: Stuck_def expired_entry_def intro!: map_of_filter_kept)
    then obtain log cs' log' where "snd (Reaper_Run R q (pre @ ReapTick now lk # post) ws') = log @ (now, cs') # log'" "RequestID (snd e) \<in> set cs'"
      "\<forall>(t, _) \<in> set log. t < fst e + wd_threshold (fst ws)"
      using Cons.IH [of ws'] Cons.prems by auto
    then show ?thesis using sw t ReapTick by (intro exI [of _ "(t, cs) # log"]) (auto split: prod.splits)
  next
    case (Meanwhile f)
    then have "leaves_alone i e (wd_threshold (fst ws)) (Meanwhile f)" using Cons.prems(2) by simp
    then have "map_of (wd_requests (fst (f ws))) i = Some e" "wd_threshold (fst (f ws)) = wd_threshold (fst ws)"
      using Cons.prems(1) by (simp_all add: leaves_alone_def del: split_paired_All)
    then show ?thesis using Cons.IH [of "f ws"] Cons.prems(2,3) Meanwhile by simp
  qed (use Cons.prems in \<open>simp add: leaves_alone_def\<close>)
qed

section \<open>Properties\<close>

text \<open>
  C22. A sweep reports exactly the requests without a token for at least the threshold, cancels each
  of them, requeues each whose queue calls get through and counts those; every reported request leaves
  the watchdog (so a second sweep at the same time reports nothing), whether or not its requeue
  succeeded, and the others stay tracked.
\<close>

theorem sweep_exact:
  assumes "redis_server R" and "q_typed R q s" and "wd_ok w" and "Sweep R q lk now (w, s) = ((w', s'), n, cancelled)"
  shows "let stuck = map (\<lambda>e. snd (snd e)) (filter (expired_entry (wd_threshold w) now) (wd_requests w)) in
    q_view R q s' = requeued lk stuck (q_view R q s) \<and> cancelled = map RequestID stuck
    \<and> n = length (filter (\<lambda>p. lk (RequestID p) = (Up, Up)) stuck)
    \<and> (\<forall>i. map_of (wd_requests w') i = (case map_of (wd_requests w) i of
          Some (t, p) \<Rightarrow> if wd_threshold w \<le> now - t then None else Some (t, p) | None \<Rightarrow> None))
    \<and> snd (Stuck now w') = []"
proof -
  let ?f = "\<lambda>e. \<not> expired_entry (wd_threshold w) now e"
  obtain stuck where st: "Stuck now w = (w', stuck)" "sweep_loop R q lk stuck s = (s', n, cancelled)"
    using assms(4) by (auto simp: Sweep_def split: prod.splits)
  have w': "wd_requests w' = filter ?f (wd_requests w)" "wd_threshold w' = wd_threshold w"
    and sk: "stuck = map (\<lambda>e. snd (snd e)) (filter (expired_entry (wd_threshold w) now) (wd_requests w))"
    using st(1) by (auto simp: Stuck_def)
  have "map_of (filter ?f xs) i = (case map_of xs i of
          Some (t, p) \<Rightarrow> if wd_threshold w \<le> now - t then None else Some (t, p) | None \<Rightarrow> None)"
    if "distinct (map fst xs)" for i and xs :: "(string \<times> int \<times> RequeuePayload) list"
    using that
  proof (induction xs)
    case (Cons x xs)
    have "fst x \<notin> fst ` set xs" using Cons.prems by simp
    then have "map_of xs (fst x) = None" by (simp add: map_of_eq_None_iff)
    then show ?case using Cons by (cases x) (auto simp: expired_entry_def)
  qed simp
  then have m: "\<forall>i. map_of (wd_requests w') i = (case map_of (wd_requests w) i of
          Some (t, p) \<Rightarrow> if wd_threshold w \<le> now - t then None else Some (t, p) | None \<Rightarrow> None)"
    using assms(3) by (simp add: w' wd_ok_def)
  have e: "snd (Stuck now w') = []" by (simp add: Stuck_def w')
  note v = redis_server.sweep_loop_view [OF assms(1,2) st(2)]
  show ?thesis unfolding Let_def using v m e unfolding sk by blast
qed

definition wd_example :: Watchdog where
  "wd_example = Watchdog_Start 90 ''r2'' \<lparr>RequestID = ''r2'', rq_Model = [], rq_Body = ''b2''\<rparr>
     (Watchdog_Start 0 ''r1'' \<lparr>RequestID = ''r1'', rq_Model = [], rq_Body = ''b1''\<rparr> (NewWatchdog 50))"

theorem sweep_exact_witness:
  "fst (snd (Sweep mem_redis (New_Queue ''retry'' \<lparr>MaxAttempts = 3, VisibilityTimeout = 0, PollInterval = 0\<rparr>)
     (\<lambda>_. (Down ''x'', Down ''x'')) 100 (wd_example, mem_empty))) = 0
   \<and> InFlightCount (fst (fst (Sweep mem_redis (New_Queue ''retry'' \<lparr>MaxAttempts = 3, VisibilityTimeout = 0, PollInterval = 0\<rparr>)
     (\<lambda>_. (Down ''x'', Down ''x'')) 100 (wd_example, mem_empty)))) = 1"
proof -
  let ?q = "New_Queue ''retry'' \<lparr>MaxAttempts = 3, VisibilityTimeout = 0, PollInterval = 0\<rparr>"
  let ?lk = "\<lambda>_::string. (Down ''x'', Down ''x'')"
  have t: "q_typed mem_redis ?q mem_empty" by (simp add: q_typed_def redis_types mem_at_def mem_empty_def)
  have w: "wd_ok wd_example" by code_simp
  obtain w' s' n cs where r: "Sweep mem_redis ?q ?lk 100 (wd_example, mem_empty) = ((w', s'), n, cs)" by (metis surj_pair)
  have "n = 0" using sweep_exact [OF mem.redis_server_axioms t w r] by (simp add: Let_def)
  moreover have "w' = fst (Stuck 100 wd_example)" using r by (auto simp: Sweep_def split: prod.splits)
  moreover have "InFlightCount (fst (Stuck 100 wd_example)) = 1" by code_simp
  ultimately show ?thesis by (simp add: r)
qed

end
