(* ===== verification/Auth.thy ===== *)
theory Auth
  imports Http
begin

text \<open>
  Credentials (\<^verbatim>\<open>internal/auth\<close>) and the middleware that checks them (\<^verbatim>\<open>httpmw/apikey.go\<close>,
  \<^verbatim>\<open>httpmw/jwt.go\<close>). Argon2id, bcrypt, SHA-256 and the JWT library are parameters; the encoding of
  the stored hash, its decoder and the base64 of the keys are modelled. Random bytes are arguments
  (\<open>Inl\<close> is a failure of the random source).

  \<open>IDKey\<close> panics for zero iterations or zero parallelism; \<open>hashKey\<close> never writes such a hash,
  and \<open>decodeHash\<close> is applied to hashes the gateway stored.
\<close>

section \<open>API keys (\<^verbatim>\<open>apikey.go\<close>)\<close>

definition keyPrefix :: string where "keyPrefix = ''rl_''"
definition displayPrefixChars :: nat where "displayPrefixChars = 8"

record argon2Params =
  ap_memory :: nat
  ap_iterations :: nat
  ap_parallelism :: nat
  ap_saltLength :: nat
  ap_keyLength :: nat

definition defaultParams :: argon2Params where
  "defaultParams = \<lparr>ap_memory = 64 * 1024, ap_iterations = 3, ap_parallelism = 2, ap_saltLength = 16, ap_keyLength = 32\<rparr>"

text \<open>The package \<^verbatim>\<open>argon2\<close>: \<open>IDKey password salt time memory threads keyLen\<close> and its version.\<close>

record argon2 =
  a2_IDKey :: "string \<Rightarrow> string \<Rightarrow> nat \<Rightarrow> nat \<Rightarrow> nat \<Rightarrow> nat \<Rightarrow> string"
  a2_Version :: int

datatype auth_error = AuthRandom string | AuthMalformedHash | AuthMalformedVersion | AuthUnsupportedVersion int
  | AuthMalformedParams | AuthMalformedParam string | AuthUnknownParam string | AuthMalformedSalt | AuthMalformedDigest
  | AuthSign string | AuthDb db_error

record GeneratedKey =
  gk_Plaintext :: string
  gk_DisplayPrefix :: string
  gk_Hash :: string

definition DisplayPrefix :: "string \<Rightarrow> string" where
  "DisplayPrefix plaintext = (let cut = length keyPrefix + displayPrefixChars in
     if cut < length plaintext then take cut plaintext else plaintext)"

definition default_digest :: "argon2 \<Rightarrow> string \<Rightarrow> string \<Rightarrow> string" where
  "default_digest A plaintext salt = a2_IDKey A plaintext salt (ap_iterations defaultParams) (ap_memory defaultParams)
     (ap_parallelism defaultParams) (ap_keyLength defaultParams)"

definition hashKey :: "argon2 \<Rightarrow> (string + string) \<Rightarrow> string \<Rightarrow> auth_error + string" where
  "hashKey A saltr plaintext = (case saltr of
      Inl e \<Rightarrow> Inl (AuthRandom e)
    | Inr salt \<Rightarrow> Inr (''$argon2id$v='' @ itoa (a2_Version A) @ ''$m='' @ show_nat (ap_memory defaultParams)
         @ '',t='' @ show_nat (ap_iterations defaultParams) @ '',p='' @ show_nat (ap_parallelism defaultParams)
         @ ''$'' @ b64_encode b64_std salt @ ''$'' @ b64_encode b64_std (default_digest A plaintext salt)))"

definition GenerateAPIKey :: "argon2 \<Rightarrow> (string + string) \<Rightarrow> (string + string) \<Rightarrow> auth_error + GeneratedKey" where
  "GenerateAPIKey A rawr saltr = (case rawr of
      Inl e \<Rightarrow> Inl (AuthRandom e)
    | Inr raw \<Rightarrow> let plaintext = keyPrefix @ b64_encode b64_url raw in
        (case hashKey A saltr plaintext of
           Inl e \<Rightarrow> Inl e
         | Inr h \<Rightarrow> Inr \<lparr>gk_Plaintext = plaintext, gk_DisplayPrefix = DisplayPrefix plaintext, gk_Hash = h\<rparr>))"

fun parse_param_loop :: "string list \<Rightarrow> argon2Params \<Rightarrow> auth_error + argon2Params" where
  "parse_param_loop [] params = Inr params"
| "parse_param_loop (kv # kvs) params = (case go_cut kv (CHR ''='') of
      None \<Rightarrow> Inl AuthMalformedParams
    | Some (key, v) \<Rightarrow>
        if key = ''m'' then (case parse_uint 32 v of
            None \<Rightarrow> Inl (AuthMalformedParam key) | Some n \<Rightarrow> parse_param_loop kvs (params\<lparr>ap_memory := n\<rparr>))
        else if key = ''t'' then (case parse_uint 32 v of
            None \<Rightarrow> Inl (AuthMalformedParam key) | Some n \<Rightarrow> parse_param_loop kvs (params\<lparr>ap_iterations := n\<rparr>))
        else if key = ''p'' then (case parse_uint 8 v of
            None \<Rightarrow> Inl (AuthMalformedParam key) | Some n \<Rightarrow> parse_param_loop kvs (params\<lparr>ap_parallelism := n\<rparr>))
        else Inl (AuthUnknownParam key))"

definition zeroParams :: argon2Params where
  "zeroParams = \<lparr>ap_memory = 0, ap_iterations = 0, ap_parallelism = 0, ap_saltLength = 0, ap_keyLength = 0\<rparr>"

definition parseParams :: "string \<Rightarrow> auth_error + argon2Params" where
  "parseParams field = parse_param_loop (go_split field (CHR '','')) zeroParams"

definition decodeHash :: "argon2 \<Rightarrow> string \<Rightarrow> auth_error + argon2Params \<times> string \<times> string" where
  "decodeHash A encoded = (let parts = go_split encoded (CHR ''$'') in
     if length parts \<noteq> 6 \<or> parts ! 1 \<noteq> ''argon2id'' then Inl AuthMalformedHash
     else (case scan_int ''v='' (parts ! 2) of
        None \<Rightarrow> Inl AuthMalformedVersion
      | Some version \<Rightarrow> if version \<noteq> a2_Version A then Inl (AuthUnsupportedVersion version)
          else (case parseParams (parts ! 3) of
             Inl e \<Rightarrow> Inl e
           | Inr params \<Rightarrow> (case b64_decode b64_std (parts ! 4) of
                None \<Rightarrow> Inl AuthMalformedSalt
              | Some salt \<Rightarrow> (case b64_decode b64_std (parts ! 5) of
                   None \<Rightarrow> Inl AuthMalformedDigest
                 | Some hash \<Rightarrow> Inr (params, salt, hash))))))"

definition VerifyAPIKey :: "argon2 \<Rightarrow> string \<Rightarrow> string \<Rightarrow> auth_error + bool" where
  "VerifyAPIKey A plaintext encodedHash = (case decodeHash A encodedHash of
      Inl e \<Rightarrow> Inl e
    | Inr (params, salt, hash) \<Rightarrow>
        Inr (a2_IDKey A plaintext salt (ap_iterations params) (ap_memory params) (ap_parallelism params)
               (length hash mod 2 ^ 32) = hash))"

section \<open>Passwords (\<^verbatim>\<open>password.go\<close>)\<close>

text \<open>The package \<^verbatim>\<open>bcrypt\<close>: generation (may fail) and comparison.\<close>

record bcrypt =
  bc_Generate :: "string \<Rightarrow> string + string"
  bc_Compare :: "string \<Rightarrow> string \<Rightarrow> bool"

definition HashPassword :: "bcrypt \<Rightarrow> string \<Rightarrow> string + string" where
  "HashPassword B plain = bc_Generate B plain"

definition VerifyPassword :: "bcrypt \<Rightarrow> string \<Rightarrow> string \<Rightarrow> bool" where
  "VerifyPassword B hash plain = (if hash = [] then False else bc_Compare B hash plain)"

section \<open>Sessions (\<^verbatim>\<open>session.go\<close>)\<close>

record SessionConfig =
  sc_SigningKey :: string
  sc_Issuer :: string
  sc_Audience :: string
  sc_AccessTokenTTL :: int
  sc_RefreshTokenTTL :: int

record AccessClaims =
  cl_Subject :: string
  cl_Issuer :: string
  cl_Audience :: "string list"
  cl_IssuedAt :: int
  cl_ExpiresAt :: int

record Session =
  ss_AccessToken :: string
  ss_AccessTokenExpiresAt :: int
  ss_RefreshToken :: string
  ss_RefreshTokenExpiresAt :: int

text \<open>The package \<^verbatim>\<open>jwt\<close>: signing with HS256, and \<open>ParseWithClaims\<close> with the key, the accepted
  methods, issuer, audience, the time and the token; the package \<^verbatim>\<open>sha256\<close>.\<close>

datatype jwt_result = JwtExpired | JwtInvalid string | JwtParsed AccessClaims bool

record jwt =
  jwt_Sign :: "string \<Rightarrow> AccessClaims \<Rightarrow> string + string"
  jwt_Parse :: "string \<Rightarrow> string list \<Rightarrow> string \<Rightarrow> string \<Rightarrow> int \<Rightarrow> string \<Rightarrow> jwt_result"
  sha256 :: "string \<Rightarrow> string"

definition hashRefreshToken :: "('x) jwt_scheme \<Rightarrow> string \<Rightarrow> string" where
  "hashRefreshToken J plaintext = hex_encode (sha256 J plaintext)"

definition IssueAccessToken :: "('x) jwt_scheme \<Rightarrow> SessionConfig \<Rightarrow> int \<Rightarrow> string \<Rightarrow> auth_error + string \<times> int" where
  "IssueAccessToken J cfg now userID =
     (let expiresAt = now + sc_AccessTokenTTL cfg;
          claims = \<lparr>cl_Subject = userID, cl_Issuer = sc_Issuer cfg, cl_Audience = [sc_Audience cfg],
                    cl_IssuedAt = now, cl_ExpiresAt = expiresAt\<rparr>
      in case jwt_Sign J (sc_SigningKey cfg) claims of
           Inl e \<Rightarrow> Inl (AuthSign e) | Inr signed \<Rightarrow> Inr (signed, expiresAt))"

text \<open>One call that stores a refresh token: the clock, the random bytes, the link to the database
  and the row id the database picks.\<close>

record issue_call =
  ic_now :: int
  ic_raw :: "string + string"
  ic_link :: "pgerr link"
  ic_newid :: string

definition IssueRefreshToken ::
  "('x) jwt_scheme \<Rightarrow> SessionConfig \<Rightarrow> issue_call \<Rightarrow> string \<Rightarrow> refresh_token list \<Rightarrow>
   refresh_token list \<times> (auth_error + string \<times> int)" where
  "IssueRefreshToken J cfg c userID t = (case ic_raw c of
      Inl e \<Rightarrow> (t, Inl (AuthRandom e))
    | Inr raw \<Rightarrow>
       (let plaintext = b64_encode b64_url raw; expiresAt = ic_now c + sc_RefreshTokenTTL cfg
        in case RefreshToken_Create (ic_link c) (ic_newid c) (ic_now c) userID (hashRefreshToken J plaintext) expiresAt t of
             (t', Inl e) \<Rightarrow> (t', Inl (AuthDb e))
           | (t', Inr _) \<Rightarrow> (t', Inr (plaintext, expiresAt))))"

definition IssueSession ::
  "('x) jwt_scheme \<Rightarrow> SessionConfig \<Rightarrow> issue_call \<Rightarrow> string \<Rightarrow> refresh_token list \<Rightarrow>
   refresh_token list \<times> (auth_error + Session)" where
  "IssueSession J cfg c userID t = (case IssueAccessToken J cfg (ic_now c) userID of
      Inl e \<Rightarrow> (t, Inl e)
    | Inr (access, accessExpiresAt) \<Rightarrow> (case IssueRefreshToken J cfg c userID t of
        (t', Inl e) \<Rightarrow> (t', Inl e)
      | (t', Inr (refresh, refreshExpiresAt)) \<Rightarrow>
          (t', Inr \<lparr>ss_AccessToken = access, ss_AccessTokenExpiresAt = accessExpiresAt,
                    ss_RefreshToken = refresh, ss_RefreshTokenExpiresAt = refreshExpiresAt\<rparr>)))"

text \<open>\<open>RotateRefreshToken\<close> is a lookup with its checks, then the revocation, then a new session; the
  database may serve other calls between these steps.\<close>

definition rotate_lookup :: "('x) jwt_scheme \<Rightarrow> pgerr link \<Rightarrow> int \<Rightarrow> string \<Rightarrow> refresh_token list \<Rightarrow> auth_error + refresh_token" where
  "rotate_lookup J l now plaintext t = (case RefreshToken_GetByHash l (hashRefreshToken J plaintext) t of
      Inl e \<Rightarrow> Inl (AuthDb e)
    | Inr stored \<Rightarrow> if rt_RevokedAt stored \<noteq> None then Inl (AuthDb ErrNotFound)
                    else if rt_ExpiresAt stored < now then Inl (AuthDb ErrNotFound)
                    else Inr stored)"

definition RotateRefreshToken ::
  "('x) jwt_scheme \<Rightarrow> SessionConfig \<Rightarrow> pgerr link \<Rightarrow> pgerr link \<Rightarrow> issue_call \<Rightarrow> string \<Rightarrow> refresh_token list \<Rightarrow>
   refresh_token list \<times> (auth_error + Session)" where
  "RotateRefreshToken J cfg l1 l2 c plaintext t = (case rotate_lookup J l1 (ic_now c) plaintext t of
      Inl e \<Rightarrow> (t, Inl e)
    | Inr stored \<Rightarrow> (case RefreshToken_Revoke l2 (ic_now c) (rt_ID stored) t of
        (t', Inl e) \<Rightarrow> (t', Inl (AuthDb e))
      | (t', Inr _) \<Rightarrow> IssueSession J cfg c (rt_UserID stored) t'))"

definition RevokeRefreshToken ::
  "('x) jwt_scheme \<Rightarrow> pgerr link \<Rightarrow> pgerr link \<Rightarrow> int \<Rightarrow> string \<Rightarrow> refresh_token list \<Rightarrow>
   refresh_token list \<times> (auth_error + unit)" where
  "RevokeRefreshToken J l1 l2 now plaintext t = (case RefreshToken_GetByHash l1 (hashRefreshToken J plaintext) t of
      Inl e \<Rightarrow> (t, Inl (AuthDb e))
    | Inr stored \<Rightarrow> (case RefreshToken_Revoke l2 now (rt_ID stored) t of
        (t', Inl e) \<Rightarrow> (t', Inl (AuthDb e)) | (t', Inr _) \<Rightarrow> (t', Inr ())))"

section \<open>Middleware\<close>

definition APIKeyAuth :: "argon2 \<Rightarrow> pgerr link \<Rightarrow> request \<Rightarrow> apikey list \<Rightarrow> 'b response + principal" where
  "APIKeyAuth A l r keys = (case bearerToken r of
      None \<Rightarrow> Inl (unauthorized r)
    | Some candidate \<Rightarrow> (case APIKey_GetByPrefix l (DisplayPrefix candidate) keys of
        Inl _ \<Rightarrow> Inl (unauthorized r)
      | Inr k \<Rightarrow> if key_RevokedAt k \<noteq> None then Inl (unauthorized r)
          else (case VerifyAPIKey A candidate (key_KeyHash k) of
             Inl _ \<Rightarrow> Inl (unauthorized r)
           | Inr valid \<Rightarrow> if \<not> valid then Inl (unauthorized r)
               else Inr \<lparr>pr_APIKeyID = key_ID k, pr_UserID = key_UserID k, pr_OrgID = key_OrgID k, pr_Scopes = key_Scopes k\<rparr>)))"

definition JWTAuth :: "('x) jwt_scheme \<Rightarrow> SessionConfig \<Rightarrow> int \<Rightarrow> request \<Rightarrow> 'b response + principal" where
  "JWTAuth J cfg now r = (case sessionToken r of
      None \<Rightarrow> Inl (writeTokenError r CodeUnauthorized ''missing bearer token'')
    | Some token \<Rightarrow> (case jwt_Parse J (sc_SigningKey cfg) [''HS256''] (sc_Issuer cfg) (sc_Audience cfg) now token of
        JwtExpired \<Rightarrow> Inl (writeTokenError r CodeTokenExpired ''access token expired'')
      | JwtInvalid _ \<Rightarrow> Inl (writeTokenError r CodeInvalidToken ''invalid access token'')
      | JwtParsed claims valid \<Rightarrow> if \<not> valid then Inl (writeTokenError r CodeInvalidToken ''invalid access token'')
          else Inr \<lparr>pr_APIKeyID = [], pr_UserID = cl_Subject claims, pr_OrgID = None, pr_Scopes = []\<rparr>))"

section \<open>The stored hash decodes to what was encoded\<close>

lemma itoa_no_char: "digit_val c = None \<Longrightarrow> c \<noteq> CHR ''-'' \<Longrightarrow> c \<notin> set (itoa n)"
  by (auto simp: itoa_def show_nat_no_char)

lemma digit_val_separators [simp]:
  "digit_val (CHR ''$'') = None" "digit_val (CHR '','') = None" "digit_val (CHR ''='') = None"
  by (simp_all add: digit_val_def)

lemma b64_no_dollar [simp]: "CHR ''$'' \<notin> set (b64_encode b64_std s)"
proof
  assume "CHR ''$'' \<in> set (b64_encode b64_std s)"
  then have "CHR ''$'' \<in> set b64_std" by (rule b64_encode_chars [OF b64_alphabets(2)])
  then show False by (simp add: b64_std_def)
qed

definition param_field :: "argon2Params \<Rightarrow> string" where
  "param_field p = ''m='' @ show_nat (ap_memory p) @ '',t='' @ show_nat (ap_iterations p) @ '',p='' @ show_nat (ap_parallelism p)"

lemma parseParams_field:
  assumes "ap_memory p < 2 ^ 32" "ap_iterations p < 2 ^ 32" "ap_parallelism p < 2 ^ 8"
  shows "parseParams (param_field p) = Inr (p\<lparr>ap_saltLength := 0, ap_keyLength := 0\<rparr>)"
proof -
  have "go_split (param_field p) (CHR '','') =
      [''m='' @ show_nat (ap_memory p), ''t='' @ show_nat (ap_iterations p), ''p='' @ show_nat (ap_parallelism p)]"
    using go_split_append [of "CHR '',''" "''m='' @ show_nat (ap_memory p)" "''t='' @ show_nat (ap_iterations p) @ '',p='' @ show_nat (ap_parallelism p)"]
      go_split_append [of "CHR '',''" "''t='' @ show_nat (ap_iterations p)" "''p='' @ show_nat (ap_parallelism p)"]
      go_split_simple [of "CHR '',''" "''p='' @ show_nat (ap_parallelism p)"]
    by (simp add: param_field_def show_nat_no_char)
  then show ?thesis using assms by (cases p) (simp add: parseParams_def zeroParams_def)
qed

lemma decodeHash_hashKey:
  assumes "hashKey A (Inr salt) plaintext = Inr h" "is_i64 (a2_Version A)"
  shows "decodeHash A h = Inr (defaultParams\<lparr>ap_saltLength := 0, ap_keyLength := 0\<rparr>, salt, default_digest A plaintext salt)"
proof -
  let ?v = "''v='' @ itoa (a2_Version A)" and ?p = "param_field defaultParams"
    and ?s = "b64_encode b64_std salt" and ?d = "b64_encode b64_std (default_digest A plaintext salt)"
  let ?D = "CHR ''$''"
  have h: "h = ?D # ''argon2id'' @ ?D # ?v @ ?D # ?p @ ?D # ?s @ ?D # ?d"
    using assms(1) by (simp add: hashKey_def param_field_def)
  have nd: "?D \<notin> set ?v" "?D \<notin> set ?p" "?D \<notin> set ?s" "?D \<notin> set ?d" "?D \<notin> set ''argon2id''"
    by (simp_all add: itoa_no_char param_field_def show_nat_no_char)
  have "go_split h ?D = [] # go_split (''argon2id'' @ ?D # ?v @ ?D # ?p @ ?D # ?s @ ?D # ?d) ?D" by (simp add: h)
  also have "\<dots> = [[], ''argon2id'', ?v, ?p, ?s, ?d]"
    by (simp only: go_split_append [OF nd(5)] go_split_append [OF nd(1)] go_split_append [OF nd(2)]
        go_split_append [OF nd(3)] go_split_simple [OF nd(4)])
  finally have parts: "go_split h ?D = [[], ''argon2id'', ?v, ?p, ?s, ?d]" .
  have "parseParams ?p = Inr (defaultParams\<lparr>ap_saltLength := 0, ap_keyLength := 0\<rparr>)"
    by (rule parseParams_field) (simp_all add: defaultParams_def)
  then show ?thesis
    using assms(2) scan_int_itoa [of "a2_Version A" "''v=''"] by (simp add: decodeHash_def parts)
qed

lemma VerifyAPIKey_hashKey:
  assumes "hashKey A (Inr salt) plaintext = Inr h" "is_i64 (a2_Version A)"
    and "length (default_digest A plaintext salt) = ap_keyLength defaultParams"
  shows "VerifyAPIKey A candidate h = Inr (default_digest A candidate salt = default_digest A plaintext salt)"
  using assms(3) unfolding VerifyAPIKey_def decodeHash_hashKey [OF assms(1,2)]
  by (simp add: default_digest_def defaultParams_def)

text \<open>The middleware accepts exactly the bearer whose display prefix names an active row with a matching hash.\<close>

lemma APIKeyAuth_Inr_iff:
  "APIKeyAuth A l r keys = Inr p \<longleftrightarrow>
     (\<exists>t k. bearerToken r = Some t \<and> l = Up \<and> find (\<lambda>k. key_DisplayPrefix k = DisplayPrefix t) keys = Some k
        \<and> key_RevokedAt k = None \<and> VerifyAPIKey A t (key_KeyHash k) = Inr True
        \<and> p = \<lparr>pr_APIKeyID = key_ID k, pr_UserID = key_UserID k, pr_OrgID = key_OrgID k, pr_Scopes = key_Scopes k\<rparr>)"
  by (auto simp: APIKeyAuth_def APIKey_GetByPrefix_def query_row_Inr query_row_Up split: option.splits sum.splits)

lemma APIKeyAuth_Inl: "APIKeyAuth A l r keys = Inl resp \<Longrightarrow> resp = unauthorized r"
  by (auto simp: APIKeyAuth_def split: option.splits sum.splits if_splits)

lemma GenerateAPIKey_Inr:
  assumes "GenerateAPIKey A (Inr raw) (Inr salt) = Inr g"
  shows "hashKey A (Inr salt) (gk_Plaintext g) = Inr (gk_Hash g)" "gk_DisplayPrefix g = DisplayPrefix (gk_Plaintext g)"
    "gk_Plaintext g \<noteq> []"
  using assms by (auto simp: GenerateAPIKey_def hashKey_def keyPrefix_def Let_def)

section \<open>Rotation with interleaved calls\<close>

text \<open>
  The refresh token table under any number of concurrent calls: sessions are issued, rotations look
  their token up and revoke it later, logouts revoke. \<open>tk_pending\<close> holds the row a rotation in
  flight has read, \<open>tk_rotated\<close> the ids of the rows a rotation has revoked, that is, for which
  it went on to issue a new session.
\<close>

record token_store =
  tk_rows :: "refresh_token list"
  tk_pending :: "nat \<Rightarrow> refresh_token option"
  tk_rotated :: "string list"

inductive token_step :: "('x) jwt_scheme \<Rightarrow> token_store \<Rightarrow> token_store \<Rightarrow> bool" for J where
  issue: "token_step J s (s\<lparr>tk_rows := fst (IssueRefreshToken J cfg c u (tk_rows s))\<rparr>)"
| lookup: "rotate_lookup J l now plaintext (tk_rows s) = Inr row \<Longrightarrow>
    token_step J s (s\<lparr>tk_pending := (tk_pending s)(i \<mapsto> row)\<rparr>)"
| revoke: "tk_pending s i = Some row \<Longrightarrow> RefreshToken_Revoke l now (rt_ID row) (tk_rows s) = (t', Inr x) \<Longrightarrow>
    token_step J s (s\<lparr>tk_rows := t', tk_pending := (tk_pending s)(i := None), tk_rotated := rt_ID row # tk_rotated s\<rparr>)"
| revoke_failed: "tk_pending s i = Some row \<Longrightarrow> RefreshToken_Revoke l now (rt_ID row) (tk_rows s) = (t', Inl e) \<Longrightarrow>
    token_step J s (s\<lparr>tk_rows := t', tk_pending := (tk_pending s)(i := None)\<rparr>)"
| logout: "token_step J s (s\<lparr>tk_rows := fst (RevokeRefreshToken J l1 l2 now plaintext (tk_rows s))\<rparr>)"

text \<open>A spent id: its rows are there and revoked.\<close>

definition spent :: "string \<Rightarrow> refresh_token list \<Rightarrow> bool" where
  "spent i t \<longleftrightarrow> i \<in> rt_ID ` set t \<and> (\<forall>r \<in> set t. rt_ID r = i \<longrightarrow> rt_RevokedAt r \<noteq> None)"

definition rotated_revoked :: "token_store \<Rightarrow> bool" where
  "rotated_revoked s \<longleftrightarrow> distinct (tk_rotated s) \<and> (\<forall>i \<in> set (tk_rotated s). spent i (tk_rows s))"

text \<open>What no operation undoes.\<close>

definition keeps_revoked :: "refresh_token list \<Rightarrow> refresh_token list \<Rightarrow> bool" where
  "keeps_revoked t t' \<longleftrightarrow> (\<forall>i. spent i t \<longrightarrow> spent i t')"

lemma keeps_revoked_refl [simp]: "keeps_revoked t t"
  by (simp add: keeps_revoked_def)

lemma keeps_revoked_Create: "keeps_revoked t (fst (RefreshToken_Create l newid now u h e t))"
proof -
  let ?r = "\<lparr>rt_ID = newid, rt_UserID = u, rt_TokenHash = h, rt_ExpiresAt = e, rt_RevokedAt = None, rt_CreatedAt = now\<rparr>"
  consider "fst (RefreshToken_Create l newid now u h e t) = t"
    | "fst (RefreshToken_Create l newid now u h e t) = t @ [?r]" "\<not> list_ex (\<lambda>r. rt_ID r = newid \<or> rt_TokenHash r = h) t"
    unfolding RefreshToken_Create_def
    using insert_row_state [of l "\<lambda>r. rt_ID r = newid \<or> rt_TokenHash r = h" ?r t] by argo
  then show ?thesis by cases (auto simp: keeps_revoked_def spent_def list_ex_iff)
qed

lemma revoke_ids:
  "rt_ID ` set (map (\<lambda>r. if p r then r\<lparr>rt_RevokedAt := Some now\<rparr> else r) t) = rt_ID ` set t"
  by (induction t) auto

lemma keeps_revoked_update: "keeps_revoked t (map (\<lambda>r. if p r then r\<lparr>rt_RevokedAt := Some now\<rparr> else r) t)"
proof (unfold keeps_revoked_def, intro allI impI)
  fix i
  let ?f = "\<lambda>r. if p r then r\<lparr>rt_RevokedAt := Some now\<rparr> else r"
  assume s: "spent i t"
  have "\<forall>r \<in> set t. rt_ID (?f r) = i \<longrightarrow> rt_RevokedAt (?f r) \<noteq> None" using s by (simp add: spent_def)
  then have "\<forall>r \<in> set (map ?f t). rt_ID r = i \<longrightarrow> rt_RevokedAt r \<noteq> None" unfolding set_map by blast
  then show "spent i (map ?f t)" using s unfolding spent_def revoke_ids by blast
qed

lemma Revoke_state:
  "fst (RefreshToken_Revoke l now i t) = t \<or> fst (RefreshToken_Revoke l now i t) =
     map (\<lambda>r. if rt_ID r = i \<and> rt_RevokedAt r = None then r\<lparr>rt_RevokedAt := Some now\<rparr> else r) t"
  unfolding RefreshToken_Revoke_def by (rule exec_update_state)

lemma keeps_revoked_Revoke: "keeps_revoked t (fst (RefreshToken_Revoke l now i t))"
  using Revoke_state [of l now i t]
  by (rule disjE) (simp_all only: keeps_revoked_refl keeps_revoked_update)

lemma keeps_revoked_IssueRefreshToken: "keeps_revoked t (fst (IssueRefreshToken J cfg c u t))"
proof (cases "ic_raw c")
  case (Inr raw)
  have "fst (IssueRefreshToken J cfg c u t) = fst (RefreshToken_Create (ic_link c) (ic_newid c) (ic_now c) u
      (hashRefreshToken J (b64_encode b64_url raw)) (ic_now c + sc_RefreshTokenTTL cfg) t)"
    by (simp add: IssueRefreshToken_def Inr Let_def split: prod.split sum.split)
  then show ?thesis by (simp add: keeps_revoked_Create)
qed (simp add: IssueRefreshToken_def)

lemma keeps_revoked_logout: "keeps_revoked t (fst (RevokeRefreshToken J l1 l2 now pt t))"
proof (cases "RefreshToken_GetByHash l1 (hashRefreshToken J pt) t")
  case (Inr row)
  have "fst (RevokeRefreshToken J l1 l2 now pt t) = fst (RefreshToken_Revoke l2 now (rt_ID row) t)"
    by (simp add: RevokeRefreshToken_def Inr split: prod.split sum.split)
  then show ?thesis by (simp add: keeps_revoked_Revoke)
qed (simp add: RevokeRefreshToken_def)

lemma Revoke_Inr:
  assumes "RefreshToken_Revoke l now i t = (t', Inr x)"
  shows "\<not> spent i t" "spent i t'"
proof -
  let ?p = "\<lambda>r. rt_ID r = i \<and> rt_RevokedAt r = None"
  have e: "exec_update l ?p (\<lambda>r. r\<lparr>rt_RevokedAt := Some now\<rparr>) t = (t', Inr ())"
    using assms by (simp add: RefreshToken_Revoke_def)
  have t': "t' = map (\<lambda>r. if ?p r then r\<lparr>rt_RevokedAt := Some now\<rparr> else r) t" and f: "find ?p t \<noteq> None"
    using exec_update_Inr [OF e] by simp_all
  obtain r where r: "find ?p t = Some r" using f by blast
  note r' = find_SomeD [OF r]
  from r' show "\<not> spent i t" by (auto simp: spent_def)
  have "\<forall>r \<in> set t'. rt_ID r = i \<longrightarrow> rt_RevokedAt r \<noteq> None" unfolding t' by (rule update_post) simp_all
  moreover have "i \<in> rt_ID ` set t'" unfolding t' revoke_ids using r' by blast
  ultimately show "spent i t'" by (simp add: spent_def)
qed

lemma rotated_revoked_mono:
  "rotated_revoked s \<Longrightarrow> keeps_revoked (tk_rows s) t' \<Longrightarrow> tk_rows s' = t' \<Longrightarrow> tk_rotated s' = tk_rotated s \<Longrightarrow> rotated_revoked s'"
  by (auto simp: rotated_revoked_def keeps_revoked_def)

lemma token_step_keeps: "token_step J s s' \<Longrightarrow> rotated_revoked s \<Longrightarrow> rotated_revoked s'"
proof (induction rule: token_step.induct)
  case (issue s cfg c u)
  show ?case by (rule rotated_revoked_mono [OF issue keeps_revoked_IssueRefreshToken]) simp_all
next
  case (lookup l now plaintext s row i)
  show ?case by (rule rotated_revoked_mono [OF lookup(2) keeps_revoked_refl]) simp_all
next
  case (revoke s i row l now t' x)
  note R = Revoke_Inr [OF revoke(2)]
  have "rt_ID row \<notin> set (tk_rotated s)" using R(1) revoke(3) by (auto simp: rotated_revoked_def)
  moreover have "keeps_revoked (tk_rows s) t'" using keeps_revoked_Revoke [of "tk_rows s" l now "rt_ID row"] revoke(2) by simp
  ultimately show ?case using revoke(3) R(2) by (auto simp: rotated_revoked_def keeps_revoked_def)
next
  case (revoke_failed s i row l now t' e)
  have "keeps_revoked (tk_rows s) t'" using keeps_revoked_Revoke [of "tk_rows s" l now "rt_ID row"] revoke_failed(2) by simp
  then show ?case by (rule rotated_revoked_mono [OF revoke_failed(3)]) simp_all
next
  case (logout s l1 l2 now plaintext)
  show ?case by (rule rotated_revoked_mono [OF logout keeps_revoked_logout]) simp_all
qed

lemma token_run_keeps: "(token_step J)\<^sup>*\<^sup>* s s' \<Longrightarrow> rotated_revoked s \<Longrightarrow> rotated_revoked s'"
  by (induction rule: rtranclp_induct) (auto intro: token_step_keeps)

lemma Revoke_spent: "spent i t \<Longrightarrow> snd (RefreshToken_Revoke l now i t) \<noteq> Inr x"
  using Revoke_Inr(1) [of l now i t] by (metis prod.collapse)

lemma RotateRefreshToken_Inr:
  assumes "RotateRefreshToken J cfg l1 l2 c pt t = (t', Inr sess)"
  obtains row t1 where "rotate_lookup J l1 (ic_now c) pt t = Inr row"
    "RefreshToken_Revoke l2 (ic_now c) (rt_ID row) t = (t1, Inr ())" "IssueSession J cfg c (rt_UserID row) t1 = (t', Inr sess)"
  using assms by (auto simp: RotateRefreshToken_def split: sum.splits prod.splits)

lemma keeps_revoked_IssueSession: "keeps_revoked t (fst (IssueSession J cfg c u t))"
  using keeps_revoked_IssueRefreshToken [of t J cfg c u]
  by (cases "IssueAccessToken J cfg (ic_now c) u") (auto simp: IssueSession_def split: prod.splits sum.splits)

text \<open>The row a token names does not change while the table is written to.\<close>

lemma find_hash_Revoke:
  assumes "RefreshToken_Revoke l now i t = (t', Inr x)"
  shows "map_option rt_ID (find (\<lambda>r. rt_TokenHash r = h) t') = map_option rt_ID (find (\<lambda>r. rt_TokenHash r = h) t)"
proof -
  let ?f = "\<lambda>r. if rt_ID r = i \<and> rt_RevokedAt r = None then r\<lparr>rt_RevokedAt := Some now\<rparr> else r"
  have "exec_update l (\<lambda>r. rt_ID r = i \<and> rt_RevokedAt r = None) (\<lambda>r. r\<lparr>rt_RevokedAt := Some now\<rparr>) t = (t', Inr ())"
    using assms by (simp add: RefreshToken_Revoke_def)
  then have "t' = map ?f t" by (blast dest: exec_update_Inr)
  moreover have "find (\<lambda>r. rt_TokenHash r = h) (map ?f t) = map_option ?f (find (\<lambda>r. rt_TokenHash r = h) t)"
    by (rule find_map_keep) simp
  ultimately show ?thesis by (cases "find (\<lambda>r. rt_TokenHash r = h) t") simp_all
qed

lemma IssueRefreshToken_appends: "\<exists>ys. fst (IssueRefreshToken J cfg c u t) = t @ ys"
proof (cases "ic_raw c")
  case (Inr raw)
  let ?h = "hashRefreshToken J (b64_encode b64_url raw)" and ?e = "ic_now c + sc_RefreshTokenTTL cfg"
  have "fst (IssueRefreshToken J cfg c u t) = fst (RefreshToken_Create (ic_link c) (ic_newid c) (ic_now c) u ?h ?e t)"
    by (simp add: IssueRefreshToken_def Inr Let_def split: prod.split sum.split)
  moreover have "\<exists>ys. fst (insert_row l clash r t) = t @ ys" for l clash and r :: refresh_token
    using insert_row_state [of l clash r t] by auto
  ultimately show ?thesis by (simp add: RefreshToken_Create_def)
qed (simp add: IssueRefreshToken_def)

lemma IssueSession_appends: "\<exists>ys. fst (IssueSession J cfg c u t) = t @ ys"
  using IssueRefreshToken_appends [of J cfg c u t]
  by (cases "IssueAccessToken J cfg (ic_now c) u") (auto simp: IssueSession_def split: prod.splits sum.splits)

lemma rotate_same_row:
  assumes "rotate_lookup J l1 n pt t = Inr row" "RefreshToken_Revoke l2 n' (rt_ID row) t = (t1, Inr ())"
    and "IssueSession J cfg c u t1 = (t', Inr sess)" "rotate_lookup J l1' n'' pt t' = Inr row'"
  shows "rt_ID row' = rt_ID row"
proof -
  let ?q = "\<lambda>r. rt_TokenHash r = hashRefreshToken J pt"
  have f: "find ?q t = Some row" "find ?q t' = Some row'"
    using assms(1,4) by (auto simp: rotate_lookup_def RefreshToken_GetByHash_def query_row_Inr split: sum.splits if_splits)
  then obtain r1 where r1: "find ?q t1 = Some r1" "rt_ID r1 = rt_ID row"
    using find_hash_Revoke [OF assms(2), of "hashRefreshToken J pt"] by auto
  obtain ys where "t' = t1 @ ys" using IssueSession_appends [of J cfg c u t1] assms(3) by auto
  then have "find ?q t' = Some r1" using r1 by (simp add: find_append)
  then show ?thesis using f r1 by simp
qed

lemma apikey_auth_digest:
  assumes "GenerateAPIKey A (Inr raw) (Inr salt) = Inr g"
    and "is_i64 (a2_Version A)" and "\<And>p s t m n k. length (a2_IDKey A p s t m n k) = k"
    and "APIKey_Create l newid now \<lparr>nk_UserID = u, nk_OrgID = org, nk_KeyHash = gk_Hash g,
           nk_DisplayPrefix = gk_DisplayPrefix g, nk_Scopes = scopes\<rparr> keys = (keys', Inr k)"
    and "req_Authorization r = ''Bearer '' @ cand" "cand \<noteq> []" "DisplayPrefix cand = DisplayPrefix (gk_Plaintext g)"
  shows "APIKeyAuth A Up r keys' = (if default_digest A cand salt = default_digest A (gk_Plaintext g) salt
           then Inr \<lparr>pr_APIKeyID = newid, pr_UserID = u, pr_OrgID = org, pr_Scopes = scopes\<rparr> else Inl (unauthorized r))"
    and "APIKeyAuth A l' r (fst (APIKey_Revoke Up now' newid keys')) = Inl (unauthorized r)"
proof -
  note G = GenerateAPIKey_Inr [OF assms(1)]
  let ?k = "\<lparr>key_ID = newid, key_UserID = u, key_OrgID = org, key_KeyHash = gk_Hash g, key_DisplayPrefix = gk_DisplayPrefix g,
      key_Scopes = scopes, key_LastUsedAt = None, key_RevokedAt = None, key_CreatedAt = now\<rparr>"
  let ?q = "\<lambda>k. key_DisplayPrefix k = DisplayPrefix cand"
  have new: "keys' = keys @ [?k]" "\<not> list_ex (\<lambda>k. key_ID k = newid \<or> key_DisplayPrefix k = gk_DisplayPrefix g) keys"
    using assms(4) by (simp_all add: APIKey_Create_def insert_row_Inr)
  then have none: "find ?q keys = None" using assms(7) G(2) by (auto simp: find_None_ex list_ex_iff)
  have b: "bearerToken r = Some cand" by (rule bearerToken_header [OF assms(5,6)])
  have len: "length (default_digest A (gk_Plaintext g) salt) = ap_keyLength defaultParams"
    unfolding default_digest_def by (rule assms(3))
  have v: "VerifyAPIKey A cand (gk_Hash g) = Inr (default_digest A cand salt = default_digest A (gk_Plaintext g) salt)"
    by (rule VerifyAPIKey_hashKey [OF G(1) assms(2) len])
  have "find ?q keys' = Some ?k" using none assms(7) G(2) by (simp add: new(1) find_append)
  then show "APIKeyAuth A Up r keys' = (if default_digest A cand salt = default_digest A (gk_Plaintext g) salt
           then Inr \<lparr>pr_APIKeyID = newid, pr_UserID = u, pr_OrgID = org, pr_Scopes = scopes\<rparr> else Inl (unauthorized r))"
    using v b by (simp add: APIKeyAuth_def APIKey_GetByPrefix_def query_row_Up)
  let ?f = "\<lambda>k. if key_ID k = newid \<and> key_RevokedAt k = None then k\<lparr>key_RevokedAt := Some now'\<rparr> else k"
  have "find ?q (map ?f keys') = map_option ?f (find ?q keys')" by (rule find_map_keep) simp
  then have "find ?q (map ?f keys') = Some (?k\<lparr>key_RevokedAt := Some now'\<rparr>)" using \<open>find ?q keys' = Some ?k\<close> by simp
  moreover have "fst (APIKey_Revoke Up now' newid keys') = map ?f keys'" by (simp add: APIKey_Revoke_def exec_update_Up)
  ultimately show "APIKeyAuth A l' r (fst (APIKey_Revoke Up now' newid keys')) = Inl (unauthorized r)"
    using b by (cases l') (simp_all add: APIKeyAuth_def APIKey_GetByPrefix_def query_row_def)
qed

section \<open>Properties\<close>


text \<open>A stand-in for Argon2id with its documented output length.\<close>

definition argon_example :: argon2 where
  "argon_example = \<lparr>a2_IDKey = (\<lambda>p s t m n k. take k (p @ s @ replicate k (CHR ''x''))), a2_Version = 19\<rparr>"


text \<open>
  C24. Refresh tokens are single use under concurrency: however lookups, revocations, new sessions and logouts
  of any number of callers interleave, and whichever database calls fail or lose their answer, no token is
  rotated twice, and a rotation still in flight for a token that was rotated can only fail; and after
  a rotation that succeeded the same token is refused.
\<close>

theorem refresh_token_single_use:
  assumes "tk_rotated s0 = []" "(token_step J)\<^sup>*\<^sup>* s0 s"
  shows "distinct (tk_rotated s)
    \<and> (tk_pending s i = Some row \<and> rt_ID row \<in> set (tk_rotated s) \<longrightarrow> snd (RefreshToken_Revoke l now (rt_ID row) (tk_rows s)) \<noteq> Inr ())
    \<and> (RotateRefreshToken J cfg l1 l2 c pt t = (t', Inr sess) \<longrightarrow> snd (RotateRefreshToken J cfg' l1' l2' c' pt t') \<noteq> Inr sess')"
proof (intro conjI impI)
  have inv: "rotated_revoked s" using token_run_keeps [OF assms(2)] assms(1) by (simp add: rotated_revoked_def)
  then show "distinct (tk_rotated s)" by (simp add: rotated_revoked_def)
  show "snd (RefreshToken_Revoke l now (rt_ID row) (tk_rows s)) \<noteq> Inr ()"
    if "tk_pending s i = Some row \<and> rt_ID row \<in> set (tk_rotated s)"
    using inv that Revoke_spent by (simp add: rotated_revoked_def)
  show "snd (RotateRefreshToken J cfg' l1' l2' c' pt t') \<noteq> Inr sess'"
    if rot: "RotateRefreshToken J cfg l1 l2 c pt t = (t', Inr sess)"
  proof
    assume "snd (RotateRefreshToken J cfg' l1' l2' c' pt t') = Inr sess'"
    then obtain t'' where "RotateRefreshToken J cfg' l1' l2' c' pt t' = (t'', Inr sess')" by (metis prod.collapse)
    then obtain row' t2 where l': "rotate_lookup J l1' (ic_now c') pt t' = Inr row'"
      and "RefreshToken_Revoke l2' (ic_now c') (rt_ID row') t' = (t2, Inr ())" by (rule RotateRefreshToken_Inr)
    then have ns: "\<not> spent (rt_ID row') t'" by (auto dest: Revoke_Inr(1))
    obtain row t1 where l: "rotate_lookup J l1 (ic_now c) pt t = Inr row"
      and rv: "RefreshToken_Revoke l2 (ic_now c) (rt_ID row) t = (t1, Inr ())" and issued: "IssueSession J cfg c (rt_UserID row) t1 = (t', Inr sess)"
      using rot by (rule RotateRefreshToken_Inr)
    have "spent (rt_ID row) t'"
      using Revoke_Inr(2) [OF rv] keeps_revoked_IssueSession [of t1 J cfg c "rt_UserID row"] issued by (simp add: keeps_revoked_def)
    moreover have "rt_ID row' = rt_ID row" by (rule rotate_same_row [OF l rv issued l'])
    ultimately show False using ns by simp
  qed
qed

text \<open>Two rotations read the same token; the first to revoke it wins.\<close>

definition jwt_example :: jwt where
  "jwt_example = \<lparr>jwt_Sign = (\<lambda>k c. Inr (CHR ''t'' # cl_Subject c)),
     jwt_Parse = (\<lambda>k ms i a now tok. JwtParsed \<lparr>cl_Subject = tl tok, cl_Issuer = i, cl_Audience = [a], cl_IssuedAt = now, cl_ExpiresAt = now\<rparr> True),
     sha256 = (\<lambda>x. x)\<rparr>"

definition token_row :: refresh_token where
  "token_row = \<lparr>rt_ID = ''t1'', rt_UserID = ''u1'', rt_TokenHash = hashRefreshToken jwt_example ''tok'', rt_ExpiresAt = 100,
     rt_RevokedAt = None, rt_CreatedAt = 0\<rparr>"

definition token_race :: token_store where
  "token_race = \<lparr>tk_rows = [token_row\<lparr>rt_RevokedAt := Some 5\<rparr>], tk_pending = [2 \<mapsto> token_row], tk_rotated = [''t1'']\<rparr>"

theorem refresh_token_single_use_witness:
  "distinct (tk_rotated token_race) \<and> snd (RefreshToken_Revoke Up 6 ''t1'' (tk_rows token_race)) \<noteq> Inr ()"
proof -
  let ?s0 = "\<lparr>tk_rows = [token_row], tk_pending = Map.empty, tk_rotated = []\<rparr>"
  let ?s2 = "?s0\<lparr>tk_pending := [1 \<mapsto> token_row, 2 \<mapsto> token_row]\<rparr>"
  have l: "rotate_lookup jwt_example Up 4 ''tok'' [token_row] = Inr token_row"
    by (simp add: rotate_lookup_def RefreshToken_GetByHash_def query_row_Up token_row_def)
  have a: "token_step jwt_example ?s0 (?s0\<lparr>tk_pending := [1 \<mapsto> token_row]\<rparr>)"
    using token_step.lookup [of jwt_example Up 4 "''tok''" ?s0 token_row 1] l by simp
  have b: "token_step jwt_example (?s0\<lparr>tk_pending := [1 \<mapsto> token_row]\<rparr>) ?s2"
    using token_step.lookup [of jwt_example Up 4 "''tok''" "?s0\<lparr>tk_pending := [1 \<mapsto> token_row]\<rparr>" token_row 2] l by simp
  have c: "token_step jwt_example ?s2 token_race"
  proof -
    have "RefreshToken_Revoke Up 5 (rt_ID token_row) (tk_rows ?s2) = ([token_row\<lparr>rt_RevokedAt := Some 5\<rparr>], Inr ())"
      by (simp add: RefreshToken_Revoke_def exec_update_Up token_row_def)
    moreover have "(tk_pending ?s2)(1 := None) = [2 \<mapsto> token_row]" by (rule ext) simp
    ultimately show ?thesis
      using token_step.revoke [of ?s2 1 token_row Up 5 "[token_row\<lparr>rt_RevokedAt := Some 5\<rparr>]" "()" jwt_example]
      by (simp add: token_race_def) (simp add: token_row_def)
  qed
  have run: "(token_step jwt_example)\<^sup>*\<^sup>* ?s0 token_race"
    by (rule converse_rtranclp_into_rtranclp [where r = "token_step jwt_example", OF a],
        rule converse_rtranclp_into_rtranclp [where r = "token_step jwt_example", OF b],
        rule r_into_rtranclp [where r = "token_step jwt_example", OF c])
  have "tk_rotated ?s0 = []" by simp
  note w = refresh_token_single_use [OF this run, of 2 token_row Up 6]
  have "tk_pending token_race 2 = Some token_row" "rt_ID token_row = ''t1''" "''t1'' \<in> set (tk_rotated token_race)"
    by (simp_all add: token_race_def token_row_def)
  with w show ?thesis by auto
qed

end
