(* ===== verification/Handlers.thy ===== *)
theory Handlers
  imports Auth Policy Dispatch Lifecycle
begin

text \<open>
  The HTTP handlers of \<^verbatim>\<open>internal/api\<close> that change accounts, keys, sessions, deployments and
  ingestion jobs, and the routes \<^verbatim>\<open>app/app.go\<close> builds from them and the authentication middleware.
  A decoded request body is an argument, \<open>None\<close> when it does not parse. A handler that sets cookies
  returns them beside its response.
\<close>

section \<open>Sessions (\<^verbatim>\<open>api/auth.go\<close>)\<close>

record cookie =
  ck_Name :: string
  ck_Value :: string
  ck_Path :: string
  ck_Expires :: "int option"
  ck_MaxAge :: int
  ck_HttpOnly :: bool
  ck_Secure :: bool

definition AccessTokenCookie :: string where "AccessTokenCookie = ''redline_access''"
definition RefreshTokenCookie :: string where "RefreshTokenCookie = ''redline_refresh''"

definition setSessionCookies :: "Session \<Rightarrow> bool \<Rightarrow> cookie list" where
  "setSessionCookies s secure =
     [\<lparr>ck_Name = AccessTokenCookie, ck_Value = ss_AccessToken s, ck_Path = ''/'', ck_Expires = Some (ss_AccessTokenExpiresAt s),
       ck_MaxAge = 0, ck_HttpOnly = True, ck_Secure = secure\<rparr>,
      \<lparr>ck_Name = RefreshTokenCookie, ck_Value = ss_RefreshToken s, ck_Path = ''/v1/auth'', ck_Expires = Some (ss_RefreshTokenExpiresAt s),
       ck_MaxAge = 0, ck_HttpOnly = True, ck_Secure = secure\<rparr>]"

definition clearSessionCookies :: "bool \<Rightarrow> cookie list" where
  "clearSessionCookies secure =
     [\<lparr>ck_Name = AccessTokenCookie, ck_Value = [], ck_Path = ''/'', ck_Expires = None, ck_MaxAge = -1, ck_HttpOnly = True, ck_Secure = secure\<rparr>,
      \<lparr>ck_Name = RefreshTokenCookie, ck_Value = [], ck_Path = ''/v1/auth'', ck_Expires = None, ck_MaxAge = -1, ck_HttpOnly = True, ck_Secure = secure\<rparr>]"

definition LoginHandler ::
  "bcrypt \<Rightarrow> ('x) jwt_scheme \<Rightarrow> SessionConfig \<Rightarrow> bool \<Rightarrow> pgerr link \<Rightarrow> issue_call \<Rightarrow> string \<Rightarrow> (string \<times> string) option \<Rightarrow>
   user list \<Rightarrow> refresh_token list \<Rightarrow> refresh_token list \<times> cookie list \<times> unit response" where
  "LoginHandler B J cfg secure l c requestID body users tokens = (case body of
      None \<Rightarrow> (tokens, [], apierror_Write 400 CodeValidation ''malformed request body'' requestID)
    | Some (email0, password) \<Rightarrow>
       (let email = trim_space email0 in
        if email = [] \<or> password = [] then (tokens, [], apierror_Write 400 CodeValidation ''email and password are required'' requestID)
        else (case User_GetByEmail l email users of
           Inl e \<Rightarrow> (tokens, [], if e = ErrNotFound then apierror_Write 401 CodeUnauthorized ''invalid email or password'' requestID
                                else WriteStorageError requestID e)
         | Inr user \<Rightarrow>
            if \<not> VerifyPassword B (usr_PasswordHash user) password
            then (tokens, [], apierror_Write 401 CodeUnauthorized ''invalid email or password'' requestID)
            else (case IssueSession J cfg c (usr_ID user) tokens of
                (t', Inl _) \<Rightarrow> (t', [], apierror_Write 500 CodeInternal ''failed to issue session'' requestID)
              | (t', Inr session) \<Rightarrow> (t', setSessionCookies session secure, RespEmpty 204)))))"

definition RefreshHandler ::
  "('x) jwt_scheme \<Rightarrow> SessionConfig \<Rightarrow> bool \<Rightarrow> pgerr link \<Rightarrow> pgerr link \<Rightarrow> issue_call \<Rightarrow> string \<Rightarrow> string option \<Rightarrow>
   refresh_token list \<Rightarrow> refresh_token list \<times> cookie list \<times> unit response" where
  "RefreshHandler J cfg secure l1 l2 c requestID ck tokens =
     (if ck = None \<or> ck = Some [] then (tokens, [], apierror_Write 401 CodeUnauthorized ''missing refresh token'' requestID)
      else (case RotateRefreshToken J cfg l1 l2 c (the ck) tokens of
          (t', Inl _) \<Rightarrow> (t', clearSessionCookies secure, apierror_Write 401 CodeUnauthorized ''invalid or expired refresh token'' requestID)
        | (t', Inr session) \<Rightarrow> (t', setSessionCookies session secure, RespEmpty 204)))"

definition LogoutHandler ::
  "('x) jwt_scheme \<Rightarrow> bool \<Rightarrow> pgerr link \<Rightarrow> pgerr link \<Rightarrow> int \<Rightarrow> string option \<Rightarrow> refresh_token list \<Rightarrow>
   refresh_token list \<times> cookie list \<times> unit response" where
  "LogoutHandler J secure l1 l2 now ck tokens =
     (case ck of
        None \<Rightarrow> (tokens, clearSessionCookies secure, RespEmpty 204)
      | Some v \<Rightarrow> if v = [] then (tokens, clearSessionCookies secure, RespEmpty 204)
          else (fst (RevokeRefreshToken J l1 l2 now v tokens), clearSessionCookies secure, RespEmpty 204))"

section \<open>API keys (\<^verbatim>\<open>api/apikeys.go\<close>)\<close>

record KeyView =
  kv_ID :: string
  kv_DisplayPrefix :: string
  kv_Scopes :: "string list"
  kv_LastUsedAt :: "int option"
  kv_RevokedAt :: "int option"
  kv_CreatedAt :: int
  kv_Key :: string

text \<open>\<open>body\<close>: \<open>None\<close> does not parse; a request of length zero and a body without the field give no scopes.\<close>

definition CreateAPIKeyHandler ::
  "argon2 \<Rightarrow> (string + string) \<Rightarrow> (string + string) \<Rightarrow> pgerr link \<Rightarrow> string \<Rightarrow> int \<Rightarrow> string \<Rightarrow> principal option \<Rightarrow> bool \<Rightarrow> string list option \<Rightarrow>
   apikey list \<Rightarrow> apikey list \<times> KeyView response" where
  "CreateAPIKeyHandler A rawr saltr l newid now requestID po no_body body keys = (case po of
      None \<Rightarrow> (keys, apierror_Write 401 CodeUnauthorized ''missing session'' requestID)
    | Some p \<Rightarrow> (case (if no_body then Some [] else body) of
        None \<Rightarrow> (keys, apierror_Write 400 CodeValidation ''malformed request body'' requestID)
      | Some scopes \<Rightarrow> (case GenerateAPIKey A rawr saltr of
          Inl _ \<Rightarrow> (keys, apierror_Write 500 CodeInternal ''failed to generate key'' requestID)
        | Inr g \<Rightarrow> (case APIKey_Create l newid now \<lparr>nk_UserID = pr_UserID p, nk_OrgID = None, nk_KeyHash = gk_Hash g,
              nk_DisplayPrefix = gk_DisplayPrefix g, nk_Scopes = scopes\<rparr> keys of
            (keys', Inl e) \<Rightarrow> (keys', WriteStorageError requestID e)
          | (keys', Inr k) \<Rightarrow> (keys', RespBody 201 \<lparr>kv_ID = key_ID k, kv_DisplayPrefix = key_DisplayPrefix k, kv_Scopes = key_Scopes k,
                kv_LastUsedAt = None, kv_RevokedAt = None, kv_CreatedAt = key_CreatedAt k, kv_Key = gk_Plaintext g\<rparr>)))))"

definition ListAPIKeysHandler :: "pgerr link \<Rightarrow> string \<Rightarrow> principal option \<Rightarrow> apikey list \<Rightarrow> KeyView list response" where
  "ListAPIKeysHandler l requestID po keys = (case po of
      None \<Rightarrow> apierror_Write 401 CodeUnauthorized ''missing session'' requestID
    | Some p \<Rightarrow> (case APIKey_ListByUser l (pr_UserID p) keys of
        Inl e \<Rightarrow> WriteStorageError requestID e
      | Inr records \<Rightarrow> RespBody 200 (map (\<lambda>k. \<lparr>kv_ID = key_ID k, kv_DisplayPrefix = key_DisplayPrefix k, kv_Scopes = key_Scopes k,
            kv_LastUsedAt = key_LastUsedAt k, kv_RevokedAt = key_RevokedAt k, kv_CreatedAt = key_CreatedAt k, kv_Key = []\<rparr>) records)))"

definition RevokeAPIKeyHandler :: "pgerr link \<Rightarrow> int \<Rightarrow> string \<Rightarrow> string \<Rightarrow> apikey list \<Rightarrow> apikey list \<times> unit response" where
  "RevokeAPIKeyHandler l now requestID i keys =
     (if i = [] then (keys, apierror_Write 400 CodeValidation ''missing key id'' requestID)
      else (case APIKey_Revoke l now i keys of
          (keys', Inl e) \<Rightarrow> (keys', WriteStorageError requestID e) | (keys', Inr _) \<Rightarrow> (keys', RespEmpty 204)))"

section \<open>Terms of service and suspension (\<^verbatim>\<open>api/policy.go\<close>)\<close>

definition AcceptTOSHandler :: "pgerr link \<Rightarrow> int \<Rightarrow> string \<Rightarrow> principal option \<Rightarrow> user list \<Rightarrow> user list \<times> unit response" where
  "AcceptTOSHandler l now requestID po users = (case po of
      None \<Rightarrow> (users, apierror_Write 401 CodeUnauthorized ''missing session'' requestID)
    | Some p \<Rightarrow> (case User_AcceptTOS l now (pr_UserID p) users of
        (us, Inl e) \<Rightarrow> (us, WriteStorageError requestID e) | (us, Inr _) \<Rightarrow> (us, RespEmpty 204)))"

record SuspensionView =
  sv_RevokedKeyCount :: nat
  sv_TerminatedDeploymentIDs :: "string list"
  sv_StopJobFailureCount :: nat

text \<open>\<open>storage_of\<close> is what \<open>errors.Is\<close> finds in a wrapped error: every error \<^verbatim>\<open>Suspend\<close> returns
  wraps a repository error.\<close>

fun storage_of :: "policy_error \<Rightarrow> db_error" where
  "storage_of (PolicyDb e) = e"
| "storage_of _ = DbFailure (OtherPg [])"

definition SuspendUserHandler ::
  "suspend_links \<Rightarrow> string \<Rightarrow> string \<Rightarrow> accounts \<Rightarrow> accounts \<times> SuspensionView response" where
  "SuspendUserHandler L requestID i a =
     (if i = [] then (a, apierror_Write 400 CodeValidation ''missing user id'' requestID)
      else (case Suspend L InferenceJobID i a of
          (a', Inl e) \<Rightarrow> (a', WriteStorageError requestID (storage_of e))
        | (a', Inr res) \<Rightarrow> (a', RespBody 200 \<lparr>sv_RevokedKeyCount = RevokedKeyCount res,
             sv_TerminatedDeploymentIDs = TerminatedDeploymentIDs res, sv_StopJobFailureCount = card (dom (StopJobErrors res))\<rparr>)))"

section \<open>Deployments (\<^verbatim>\<open>api/deployments.go\<close>)\<close>

record DeploymentView =
  dv_ID :: string
  dv_ModelID :: string
  dv_State :: string
  dv_Queued :: bool
  dv_Degraded :: bool

record deploy_calls =
  dc_model :: "pgerr link"
  dc_create :: "pgerr link"
  dc_info :: "string link"
  dc_register :: "string link"
  dc_hset :: "rerr link"
  dc_lpush :: "rerr link"
  dc_newid :: string
  dc_now :: int

definition defaultInferenceImage :: string where "defaultInferenceImage = ''redline/vllm:latest''"

definition buildJob :: "string \<Rightarrow> model_row \<Rightarrow> inference_job" where
  "buildJob deploymentID m = BuildInferenceJob InferenceJobID
     \<lparr>js_DeploymentID = deploymentID, js_Image = defaultInferenceImage, js_Env = Map.empty, js_GPUModel = [],
      js_MinVRAMBytes = nm_FP16Bytes (mdl_fields m), js_CPUMHz = 0, js_MemoryMB = 0, js_MemoryMaxMB = 0, js_DrainPeriod = 0,
      js_KillTimeout = 0, js_Runtime = [], js_TmpfsSizeBytes = 0, js_ShmSizeBytes = 0\<rparr>"

definition CreateDeploymentHandler ::
  "('n, 'y) nomad_scheme \<Rightarrow> ('s, 'x) redis_scheme \<Rightarrow> queue \<Rightarrow> deploy_calls \<Rightarrow> string \<Rightarrow> principal option \<Rightarrow> string option \<Rightarrow>
   model_row list \<Rightarrow> deployments \<times> ('n, 's) dispatch_world \<Rightarrow> (deployments \<times> ('n, 's) dispatch_world) \<times> DeploymentView response" where
  "CreateDeploymentHandler N R q C requestID po body models st = (case st of (deps, w) \<Rightarrow>
     (case body of
        None \<Rightarrow> ((deps, w), apierror_Write 400 CodeValidation ''model_id is required'' requestID)
      | Some modelID \<Rightarrow>
         if modelID = [] then ((deps, w), apierror_Write 400 CodeValidation ''model_id is required'' requestID)
         else (case Model_GetByID (dc_model C) modelID models of
            Inl e \<Rightarrow> ((deps, w), WriteStorageError requestID e)
          | Inr model \<Rightarrow>
             (let userID = (case po of None \<Rightarrow> [] | Some p \<Rightarrow> pr_UserID p) in
              case Deployment_Create (dc_create C) (dc_newid C) (dc_now C) modelID userID deps of
                (deps', Inl e) \<Rightarrow> ((deps', w), WriteStorageError requestID e)
              | (deps', Inr d) \<Rightarrow>
                 (case DispatchJob N R q (dc_info C) (dc_register C) (dc_hset C) (dc_lpush C) (dep_ID d) (ij_ID (buildJob (dep_ID d) model)) w of
                    (w', DispatchFailed _ _) \<Rightarrow> ((deps', w'), apierror_Write 500 CodeInternal ''failed to dispatch deployment'' requestID)
                  | (w', DispatchSubmitted _) \<Rightarrow> ((deps', w'), RespBody 201 \<lparr>dv_ID = dep_ID d, dv_ModelID = dep_ModelID d,
                        dv_State = dep_State d, dv_Queued = False, dv_Degraded = Degraded w'\<rparr>)
                  | (w', DispatchQueued) \<Rightarrow> ((deps', w'), RespBody 201 \<lparr>dv_ID = dep_ID d, dv_ModelID = dep_ModelID d,
                        dv_State = dep_State d, dv_Queued = True, dv_Degraded = Degraded w'\<rparr>))))))"

definition SchedulerStatusHandler :: "('n, 's) dispatch_world \<Rightarrow> bool response" where
  "SchedulerStatusHandler w = RespBody 200 (Degraded w)"

section \<open>Ingestion jobs (\<^verbatim>\<open>api/ingestions.go\<close>)\<close>

record IngestionJobView =
  jv_ID :: string
  jv_RepoURL :: string
  jv_Revision :: string
  jv_State :: string
  jv_BytesTotal :: int
  jv_BytesDownloaded :: int
  jv_ErrorMessage :: string
  jv_ModelID :: string

definition ingestionJobView :: "ingestion_job \<Rightarrow> IngestionJobView" where
  "ingestionJobView j = \<lparr>jv_ID = job_ID j, jv_RepoURL = job_RepoURL j, jv_Revision = job_Revision j, jv_State = job_State j,
     jv_BytesTotal = job_BytesTotal j, jv_BytesDownloaded = job_BytesDownloaded j,
     jv_ErrorMessage = (case job_ErrorMessage j of None \<Rightarrow> [] | Some e \<Rightarrow> e),
     jv_ModelID = (case job_ModelID j of None \<Rightarrow> [] | Some m \<Rightarrow> m)\<rparr>"

definition CreateIngestionHandler ::
  "('s, 'x) redis_scheme \<Rightarrow> queue \<Rightarrow> pgerr link \<Rightarrow> rerr link \<Rightarrow> rerr link \<Rightarrow> string \<Rightarrow> int \<Rightarrow> string \<Rightarrow> (string \<times> string) option \<Rightarrow>
   ingestion_jobs \<times> 's \<Rightarrow> (ingestion_jobs \<times> 's) \<times> IngestionJobView response" where
  "CreateIngestionHandler R q l l1 l2 newid now requestID body st = (case st of (jobs, s) \<Rightarrow>
     (case body of
        None \<Rightarrow> ((jobs, s), apierror_Write 400 CodeValidation ''malformed request body'' requestID)
      | Some (repo0, revision0) \<Rightarrow>
         (let repoURL = trim_space repo0; revision = (if revision0 = [] then ''main'' else revision0) in
          if repoURL = [] then ((jobs, s), apierror_Write 400 CodeValidation ''repo_url is required'' requestID)
          else (case IngestionJob_Create l newid now repoURL revision jobs of
             (jobs', Inl e) \<Rightarrow> ((jobs', s), WriteStorageError requestID e)
           | (jobs', Inr job) \<Rightarrow> (case Enqueue R q l1 l2 (job_ID job) (job_ID job) s of
               (s', Inl _) \<Rightarrow> ((jobs', s'), apierror_Write 500 CodeInternal ''failed to dispatch ingestion job'' requestID)
             | (s', Inr _) \<Rightarrow> ((jobs', s'), RespBody 201 (ingestionJobView job)))))))"

definition GetIngestionHandler :: "pgerr link \<Rightarrow> string \<Rightarrow> string \<Rightarrow> ingestion_jobs \<Rightarrow> IngestionJobView response" where
  "GetIngestionHandler l requestID i jobs = (case IngestionJob_GetByID l i jobs of
      Inl e \<Rightarrow> WriteStorageError requestID e | Inr job \<Rightarrow> RespBody 200 (ingestionJobView job))"

section \<open>Routes (\<^verbatim>\<open>app/app.go\<close>)\<close>

definition route_suspend_user ::
  "argon2 \<Rightarrow> pgerr link \<Rightarrow> suspend_links \<Rightarrow> request \<Rightarrow> string \<Rightarrow> accounts \<Rightarrow> accounts \<times> SuspensionView response" where
  "route_suspend_user A l L r i a = (case APIKeyAuth A l r (acc_keys a) of
      Inl resp \<Rightarrow> (a, resp)
    | Inr p \<Rightarrow> (case RequireScope ''admin'' r (Some p) of
        Inl resp \<Rightarrow> (a, resp) | Inr _ \<Rightarrow> SuspendUserHandler L (req_ID r) i a))"

definition route_create_key ::
  "('x) jwt_scheme \<Rightarrow> SessionConfig \<Rightarrow> int \<Rightarrow> argon2 \<Rightarrow> (string + string) \<Rightarrow> (string + string) \<Rightarrow> pgerr link \<Rightarrow> string \<Rightarrow> request \<Rightarrow> bool \<Rightarrow>
   string list option \<Rightarrow> apikey list \<Rightarrow> apikey list \<times> KeyView response" where
  "route_create_key J cfg now A rawr saltr l newid r no_body body keys = (case JWTAuth J cfg now r of
      Inl resp \<Rightarrow> (keys, resp)
    | Inr p \<Rightarrow> CreateAPIKeyHandler A rawr saltr l newid now (req_ID r) (Some p) no_body body keys)"

definition route_revoke_key ::
  "('x) jwt_scheme \<Rightarrow> SessionConfig \<Rightarrow> int \<Rightarrow> pgerr link \<Rightarrow> request \<Rightarrow> string \<Rightarrow> apikey list \<Rightarrow> apikey list \<times> unit response" where
  "route_revoke_key J cfg now l r i keys = (case JWTAuth J cfg now r of
      Inl resp \<Rightarrow> (keys, resp)
    | Inr p \<Rightarrow> RevokeAPIKeyHandler l now (req_ID r) i keys)"

section \<open>What the routes establish\<close>

text \<open>The documented contract of the JWT library: signing with HS256 and a byte string as key succeeds, and the
  token parses to its subject with this key, issuer and audience until it expires.\<close>

definition jwt_contract :: "('x) jwt_scheme \<Rightarrow> bool" where
  "jwt_contract J \<longleftrightarrow> (\<forall>key c. \<exists>tok. jwt_Sign J key c = Inr tok \<and> tok \<noteq> [] \<and>
     (\<forall>now aud. now < cl_ExpiresAt c \<and> aud \<in> set (cl_Audience c) \<longrightarrow>
       (\<exists>c'. jwt_Parse J key [''HS256''] (cl_Issuer c) aud now tok = JwtParsed c' True \<and> cl_Subject c' = cl_Subject c)))"

text \<open>The documented output length of Argon2id, and its version number.\<close>

definition argon2_contract :: "argon2 \<Rightarrow> bool" where
  "argon2_contract A \<longleftrightarrow> is_i64 (a2_Version A) \<and> (\<forall>p s t m n k. length (a2_IDKey A p s t m n k) = k)"

definition bearer :: "string \<Rightarrow> request \<Rightarrow> bool" where
  "bearer t r \<longleftrightarrow> req_Authorization r = ''Bearer '' @ t"

lemma JWTAuth_scopes: "JWTAuth J cfg now r = Inr p \<Longrightarrow> pr_Scopes p = []"
  by (auto simp: JWTAuth_def split: option.splits jwt_result.splits if_splits)

lemma RequireScope_Inr: "RequireScope s r (Some p) = Inr p' \<longleftrightarrow> p' = p \<and> s \<in> set (pr_Scopes p)"
  by (auto simp: RequireScope_def)

text \<open>A key minted over the session route authenticates, as the session's user and with the scopes it asked for.\<close>

lemma minted_key_authenticates:
  assumes "argon2_contract A" "JWTAuth J cfg now r = (Inr p :: KeyView response + principal)"
    and "route_create_key J cfg now A (Inr raw) (Inr salt) l newid r no_body body keys = (keys', RespBody 201 v)"
    and "bearer (kv_Key v) r2"
  shows "APIKeyAuth A Up r2 keys' = Inr \<lparr>pr_APIKeyID = newid, pr_UserID = pr_UserID p, pr_OrgID = None,
      pr_Scopes = (if no_body then [] else the body)\<rparr>"
proof -
  obtain g where g: "GenerateAPIKey A (Inr raw) (Inr salt) = Inr g" by (auto simp: GenerateAPIKey_def hashKey_def Let_def)
  obtain k where c: "APIKey_Create l newid now \<lparr>nk_UserID = pr_UserID p, nk_OrgID = None, nk_KeyHash = gk_Hash g,
      nk_DisplayPrefix = gk_DisplayPrefix g, nk_Scopes = (if no_body then [] else the body)\<rparr> keys = (keys', Inr k)" and v: "kv_Key v = gk_Plaintext g"
    using assms(3) by (auto simp: route_create_key_def assms(2) CreateAPIKeyHandler_def g split: option.splits prod.splits sum.splits if_splits)
  have a: "is_i64 (a2_Version A)" "\<And>p s t m n k. length (a2_IDKey A p s t m n k) = k" using assms(1) by (simp_all add: argon2_contract_def)
  have h: "req_Authorization r2 = ''Bearer '' @ gk_Plaintext g" using assms(4) v by (simp add: bearer_def)
  show ?thesis by (subst apikey_auth_digest(1) [OF g a c h GenerateAPIKey_Inr(3) [OF g] refl]) simp
qed

lemma route_suspend_user_changes:
  assumes "route_suspend_user A l L r i a = (a', resp)"
  shows "a' = a \<and> resp_status resp \<in> {400, 401, 403}
    \<or> (\<exists>t k. bearerToken r = Some t \<and> k \<in> set (acc_keys a) \<and> key_DisplayPrefix k = DisplayPrefix t \<and> key_RevokedAt k = None
         \<and> VerifyAPIKey A t (key_KeyHash k) = Inr True \<and> ''admin'' \<in> set (key_Scopes k))"
proof (cases "APIKeyAuth A l r (acc_keys a) :: SuspensionView response + principal")
  case (Inl x)
  then show ?thesis using assms APIKeyAuth_Inl [OF Inl] by (auto simp: route_suspend_user_def unauthorized_def)
next
  case (Inr p)
  show ?thesis
  proof (cases "''admin'' \<in> set (pr_Scopes p)")
    case True
    obtain t k where k: "bearerToken r = Some t" "find (\<lambda>k. key_DisplayPrefix k = DisplayPrefix t) (acc_keys a) = Some k"
      "key_RevokedAt k = None" "VerifyAPIKey A t (key_KeyHash k) = Inr True" and p: "pr_Scopes p = key_Scopes k"
      using Inr unfolding APIKeyAuth_Inr_iff by auto
    show ?thesis using k(1,3,4) find_SomeD [OF k(2)] True p by metis
  next
    case False
    then show ?thesis using assms Inr by (auto simp: route_suspend_user_def RequireScope_def)
  qed
qed

text \<open>The login of a user found by email is not affected by the suspension of the account.\<close>

lemma Suspend_keeps_login:
  assumes "Suspend L f u a = (a', Inr res)" "find (\<lambda>x. usr_Email x = e) (acc_users a) = Some usr"
  shows "\<exists>usr'. find (\<lambda>x. usr_Email x = e) (acc_users a') = Some usr' \<and> usr_ID usr' = usr_ID usr \<and> usr_PasswordHash usr' = usr_PasswordHash usr"
proof -
  obtain us x ks n ds where us: "User_Suspend (sl_user L) (sl_now L) u (acc_users a) = (us, Inr x)"
    and lp: "suspend_loop L f ds \<lparr>RevokedKeyCount = n, TerminatedDeploymentIDs = [], StopJobErrors = Map.empty\<rparr>
       (a\<lparr>acc_users := us, acc_keys := ks\<rparr>) = (a', Inr res)" using assms(1) by (rule Suspend_Inr)
  let ?g = "\<lambda>v. v\<lparr>usr_SuspendedAt := (case usr_SuspendedAt v of Some x \<Rightarrow> Some x | None \<Rightarrow> Some (sl_now L)), usr_UpdatedAt := sl_now L\<rparr>"
  let ?f = "\<lambda>v. if usr_ID v = u then ?g v else v"
  have "exec_update (sl_user L) (\<lambda>v. usr_ID v = u) ?g (acc_users a) = (us, Inr ())" using us by (simp add: User_Suspend_def)
  then have "us = map ?f (acc_users a)" by (blast dest: exec_update_Inr)
  moreover have "acc_users a' = us" using suspend_loop_Inr [OF lp, simplified] by simp
  moreover have "find (\<lambda>x. usr_Email x = e) (map ?f (acc_users a)) = map_option ?f (find (\<lambda>x. usr_Email x = e) (acc_users a))"
    by (rule find_map_keep) simp
  ultimately show ?thesis using assms(2) by simp
qed

lemma Suspend_refuses_keys:
  assumes "Suspend L f u a = (a', Inr res)" "APIKeyAuth A l r (acc_keys a') = Inr p"
  shows "pr_UserID p \<noteq> u"
proof -
  obtain us x ks n ds where ks: "APIKey_RevokeAllByUser (sl_keys L) (sl_now L) u (acc_keys a) = (ks, Inr n)"
    and lp: "suspend_loop L f ds \<lparr>RevokedKeyCount = n, TerminatedDeploymentIDs = [], StopJobErrors = Map.empty\<rparr>
       (a\<lparr>acc_users := us, acc_keys := ks\<rparr>) = (a', Inr res)" using assms(1) by (rule Suspend_Inr)
  have "acc_keys a' = ks" using suspend_loop_Inr [OF lp, simplified] by simp
  moreover obtain t k where "find (\<lambda>k. key_DisplayPrefix k = DisplayPrefix t) (acc_keys a') = Some k" "key_RevokedAt k = None" "pr_UserID p = key_UserID k"
    using assms(2) unfolding APIKeyAuth_Inr_iff by auto
  ultimately show ?thesis using RevokeAll_Inr [OF ks] by (metis find_SomeD)
qed

lemma login_opens_session:
  assumes "jwt_contract J" "0 < sc_AccessTokenTTL cfg"
    and "find (\<lambda>x. usr_Email x = e) users = Some usr" "VerifyPassword B (usr_PasswordHash usr) pw" "e \<noteq> []" "pw \<noteq> []" "trim_space e = e"
    and "IssueRefreshToken J cfg c (usr_ID usr) tokens = (t', Inr rt)"
  shows "\<exists>ck rest. LoginHandler B J cfg secure Up c rid (Some (e, pw)) users tokens = (t', ck # rest, RespEmpty 204)
    \<and> (\<forall>r. bearer (ck_Value ck) r \<longrightarrow> (JWTAuth J cfg (ic_now c) r :: KeyView response + principal) =
         Inr \<lparr>pr_APIKeyID = [], pr_UserID = usr_ID usr, pr_OrgID = None, pr_Scopes = []\<rparr>)"
proof -
  let ?cl = "\<lparr>cl_Subject = usr_ID usr, cl_Issuer = sc_Issuer cfg, cl_Audience = [sc_Audience cfg], cl_IssuedAt = ic_now c,
      cl_ExpiresAt = ic_now c + sc_AccessTokenTTL cfg\<rparr>"
  obtain tok where tok: "jwt_Sign J (sc_SigningKey cfg) ?cl = Inr tok" "tok \<noteq> []"
    and parse: "\<forall>now aud. now < cl_ExpiresAt ?cl \<and> aud \<in> set (cl_Audience ?cl) \<longrightarrow>
       (\<exists>c'. jwt_Parse J (sc_SigningKey cfg) [''HS256''] (cl_Issuer ?cl) aud now tok = JwtParsed c' True \<and> cl_Subject c' = cl_Subject ?cl)"
    using assms(1) unfolding jwt_contract_def by blast
  obtain c' where c': "jwt_Parse J (sc_SigningKey cfg) [''HS256''] (sc_Issuer cfg) (sc_Audience cfg) (ic_now c) tok = JwtParsed c' True"
    "cl_Subject c' = usr_ID usr" using parse [rule_format, of "ic_now c" "sc_Audience cfg"] assms(2) by auto
  have auth: "(JWTAuth J cfg (ic_now c) r :: KeyView response + principal) = Inr \<lparr>pr_APIKeyID = [], pr_UserID = usr_ID usr, pr_OrgID = None, pr_Scopes = []\<rparr>"
    if "bearer tok r" for r
    using bearerToken_header [OF that [unfolded bearer_def] tok(2)] by (simp add: JWTAuth_def sessionToken_def c')
  obtain x y where rt: "rt = (x, y)" by (cases rt)
  have "LoginHandler B J cfg secure Up c rid (Some (e, pw)) users tokens =
     (t', setSessionCookies \<lparr>ss_AccessToken = tok, ss_AccessTokenExpiresAt = ic_now c + sc_AccessTokenTTL cfg,
        ss_RefreshToken = x, ss_RefreshTokenExpiresAt = y\<rparr> secure, RespEmpty 204)"
    by (simp add: LoginHandler_def assms(3-8) User_GetByEmail_def query_row_Up IssueSession_def IssueAccessToken_def tok rt)
  then show ?thesis using auth by (simp add: setSessionCookies_def)
qed

section \<open>Properties\<close>

text \<open>
  C25. The suspension route: it changes the accounts only for a bearer of an active key with the scope admin,
  every other request is refused with 400, 401 or 403 and changes nothing, and a session is never such a
  bearer by itself. The scope is however self-service: whoever holds a session can mint a key with
  it, and this key passes the checks of the route.
\<close>

theorem admin_route_gate:
  assumes "argon2_contract A"
  shows "(route_suspend_user A l L r i a = (a', resp) \<longrightarrow> a' = a \<and> resp_status resp \<in> {400, 401, 403}
      \<or> (\<exists>t k. bearerToken r = Some t \<and> k \<in> set (acc_keys a) \<and> key_DisplayPrefix k = DisplayPrefix t \<and> key_RevokedAt k = None
           \<and> VerifyAPIKey A t (key_KeyHash k) = Inr True \<and> ''admin'' \<in> set (key_Scopes k)))
    \<and> (JWTAuth J cfg now rs = (Inr p :: KeyView response + principal) \<longrightarrow>
         (RequireScope ''admin'' rs (Some p) :: unit response + principal) = Inl (apierror_Write 403 CodeForbidden ''forbidden'' (req_ID rs))
         \<and> (\<forall>keys keys' v. route_create_key J cfg now A (Inr raw) (Inr salt) Up newid rs False (Some [''admin'']) keys = (keys', RespBody 201 v) \<longrightarrow>
              (\<forall>r2. bearer (kv_Key v) r2 \<longrightarrow> (\<exists>p2. (APIKeyAuth A Up r2 keys' :: unit response + principal) = Inr p2
                 \<and> (RequireScope ''admin'' r2 (Some p2) :: unit response + principal) = Inr p2))))"
proof (intro conjI impI allI)
  show "a' = a \<and> resp_status resp \<in> {400, 401, 403}
      \<or> (\<exists>t k. bearerToken r = Some t \<and> k \<in> set (acc_keys a) \<and> key_DisplayPrefix k = DisplayPrefix t \<and> key_RevokedAt k = None
           \<and> VerifyAPIKey A t (key_KeyHash k) = Inr True \<and> ''admin'' \<in> set (key_Scopes k))"
    if "route_suspend_user A l L r i a = (a', resp)" using route_suspend_user_changes [OF that] .
next
  assume s: "JWTAuth J cfg now rs = (Inr p :: KeyView response + principal)"
  then show "(RequireScope ''admin'' rs (Some p) :: unit response + principal) = Inl (apierror_Write 403 CodeForbidden ''forbidden'' (req_ID rs))"
    by (simp add: RequireScope_def JWTAuth_scopes)
  fix keys keys' v r2
  assume c: "route_create_key J cfg now A (Inr raw) (Inr salt) Up newid rs False (Some [''admin'']) keys = (keys', RespBody 201 v)" and "bearer (kv_Key v) r2"
  then show "\<exists>p2. (APIKeyAuth A Up r2 keys' :: unit response + principal) = Inr p2 \<and> (RequireScope ''admin'' r2 (Some p2) :: unit response + principal) = Inr p2"
    by (simp add: minted_key_authenticates [OF assms s c] RequireScope_Inr)
qed

definition session_example :: SessionConfig where
  "session_example = \<lparr>sc_SigningKey = ''key'', sc_Issuer = ''redline'', sc_Audience = ''redline-api'', sc_AccessTokenTTL = 900, sc_RefreshTokenTTL = 3600\<rparr>"

definition request_example :: "string \<Rightarrow> request" where
  "request_example t = \<lparr>req_Authorization = ''Bearer '' @ t, req_AccessCookie = None, req_QueryToken = [], req_ID = ''r1''\<rparr>"

lemma example_contracts: "argon2_contract argon_example" "bearer t (request_example t)" "jwt_contract jwt_example"
  by (auto simp: jwt_contract_def jwt_example_def argon2_contract_def argon_example_def is_i64_def bearer_def request_example_def min_def)

theorem admin_route_gate_witness:
  "\<exists>keys' v p2. route_create_key jwt_example session_example 10 argon_example (Inr ''0123456789'') (Inr ''salt'') Up ''k1'' (request_example ''u7'')
       False (Some [''admin'']) [] = (keys', RespBody 201 v)
     \<and> (APIKeyAuth argon_example Up (request_example (kv_Key v)) keys' :: unit response + principal) = Inr p2
     \<and> (RequireScope ''admin'' (request_example (kv_Key v)) (Some p2) :: unit response + principal) = Inr p2"
proof -
  let ?rs = "request_example ''u7''"
  have b: "bearerToken ?rs = Some ''u7''" by (simp add: bearerToken_def request_example_def cut_prefix_def has_prefix_def)
  obtain p where p: "JWTAuth jwt_example session_example 10 ?rs = (Inr p :: KeyView response + principal)"
    by (simp add: JWTAuth_def sessionToken_def b jwt_example_def)
  obtain g where g: "GenerateAPIKey argon_example (Inr ''0123456789'') (Inr ''salt'') = Inr g"
    by (auto simp: GenerateAPIKey_def hashKey_def Let_def)
  obtain keys' v where c: "route_create_key jwt_example session_example 10 argon_example (Inr ''0123456789'') (Inr ''salt'') Up ''k1'' ?rs
      False (Some [''admin'']) [] = (keys', RespBody 201 v)"
    by (simp add: route_create_key_def p CreateAPIKeyHandler_def g APIKey_Create_def insert_row_def)
  show ?thesis
    using admin_route_gate [OF example_contracts(1), of Up undefined ?rs "[]" undefined undefined undefined jwt_example session_example 10 ?rs p
        "''0123456789''" "''salt''" "''k1''"] p c example_contracts(2) by blast
qed

end
