(* ===== verification/Inference.thy ===== *)
theory Inference
  imports Encoding Complex_Main
begin

text \<open>
  The inference backends (\<^verbatim>\<open>internal/inference\<close>): the request and event types (\<^verbatim>\<open>backend.go\<close>), the mock
  (\<^verbatim>\<open>mock.go\<close>), vLLM and SGLang (\<^verbatim>\<open>vllm.go\<close>, \<^verbatim>\<open>vllm_oom.go\<close>), readiness
  (\<^verbatim>\<open>vllm_readiness.go\<close>) and the prefix router. A stream is the list of the events that its channel carries before it
  is closed. Sampling parameters are the rational values of the floats of the request (JSON has no
  \<^verbatim>\<open>NaN\<close>). The engine's HTTP answers, the JSON codec and the instant at which a context ends are parameters.
\<close>

section \<open>Types (\<^verbatim>\<open>backend.go\<close>)\<close>

record Message =
  msg_Role :: string
  msg_Content :: string

record CompletionRequest =
  cq_RequestID :: string
  cq_Model :: string
  cq_Messages :: "Message list"
  cq_Temperature :: rat
  cq_TopP :: rat
  cq_MaxTokens :: int

record Usage =
  us_PromptTokens :: int
  us_CompletionTokens :: int

record CompletionResponse =
  cp_RequestID :: string
  cp_Model :: string
  cp_Content :: string
  cp_FinishReason :: string
  cp_Usage :: Usage

datatype inference_error = CtxCanceled | CtxDeadlineExceeded | ErrCancelled | VllmRequest inference_error | VllmTransport string
  | VllmStatus int string | VllmDecode | VllmNoChoice | VllmStreamRead string | NotReady string

record StreamEvent =
  ev_RequestID :: string
  ev_Content :: string
  ev_Done :: bool
  ev_FinishReason :: string
  ev_Usage :: Usage
  ev_Err :: "inference_error option"

definition no_usage :: Usage where "no_usage = \<lparr>us_PromptTokens = 0, us_CompletionTokens = 0\<rparr>"

text \<open>The three shapes of an event literal.\<close>

definition content_event :: "string \<Rightarrow> string \<Rightarrow> StreamEvent" where
  "content_event i c = \<lparr>ev_RequestID = i, ev_Content = c, ev_Done = False, ev_FinishReason = [], ev_Usage = no_usage, ev_Err = None\<rparr>"

definition done_event :: "string \<Rightarrow> string \<Rightarrow> Usage \<Rightarrow> StreamEvent" where
  "done_event i reason u = \<lparr>ev_RequestID = i, ev_Content = [], ev_Done = True, ev_FinishReason = reason, ev_Usage = u, ev_Err = None\<rparr>"

definition error_event :: "string \<Rightarrow> inference_error \<Rightarrow> StreamEvent" where
  "error_event i e = \<lparr>ev_RequestID = i, ev_Content = [], ev_Done = False, ev_FinishReason = [], ev_Usage = no_usage, ev_Err = Some e\<rparr>"

text \<open>The contract of \<^verbatim>\<open>Backend.Stream\<close>: content events, then exactly one event that is final or an error.\<close>

definition stream_contract :: "string \<Rightarrow> StreamEvent list \<Rightarrow> bool" where
  "stream_contract i evs \<longleftrightarrow> (\<exists>cs e. evs = map (content_event i) cs @ [e] \<and> ((\<exists>reason u. e = done_event i reason u) \<or> (\<exists>x. e = error_event i x)))"

section \<open>Mock backend (\<^verbatim>\<open>mock.go\<close>)\<close>

definition promptTokenCount :: "CompletionRequest \<Rightarrow> int" where
  "promptTokenCount req = sum_list (map (\<lambda>m. int (length (go_fields (msg_Content m)))) (cq_Messages req))"

definition mock_tokens :: "CompletionRequest \<Rightarrow> string list" where
  "mock_tokens req =
     (let lst = (if cq_Messages req \<noteq> [] then msg_Content (last (cq_Messages req)) else []);
          words = go_fields (''mock response to: '' @ lst);
          tokens = map (\<lambda>i. if 0 < i then '' '' @ words ! i else words ! i) [0 ..< length words]
      in if 0 < cq_MaxTokens req \<and> cq_MaxTokens req < int (length tokens) then take (nat (cq_MaxTokens req)) tokens else tokens)"

text \<open>\<open>stop i\<close> is what the select of token \<open>i\<close> sees before the delay has passed.\<close>

fun mock_wait :: "(nat \<Rightarrow> inference_error option) \<Rightarrow> nat \<Rightarrow> string list \<Rightarrow> inference_error option" where
  "mock_wait stop i [] = None"
| "mock_wait stop i (t # ts) = (case stop i of Some e \<Rightarrow> Some e | None \<Rightarrow> mock_wait stop (i + 1) ts)"

definition Mock_Complete :: "(nat \<Rightarrow> inference_error option) \<Rightarrow> CompletionRequest \<Rightarrow> inference_error + CompletionResponse" where
  "Mock_Complete stop req = (let tokens = mock_tokens req in
     case mock_wait stop 0 tokens of
       Some e \<Rightarrow> Inl e
     | None \<Rightarrow> Inr \<lparr>cp_RequestID = cq_RequestID req, cp_Model = cq_Model req, cp_Content = concat tokens, cp_FinishReason = ''stop'',
                    cp_Usage = \<lparr>us_PromptTokens = promptTokenCount req, us_CompletionTokens = int (length tokens)\<rparr>\<rparr>)"

fun mock_emit :: "(nat \<Rightarrow> inference_error option) \<Rightarrow> string \<Rightarrow> StreamEvent \<Rightarrow> nat \<Rightarrow> string list \<Rightarrow> StreamEvent list" where
  "mock_emit stop i fin n [] = [fin]"
| "mock_emit stop i fin n (t # ts) = (case stop n of
      Some e \<Rightarrow> [error_event i e]
    | None \<Rightarrow> content_event i t # mock_emit stop i fin (n + 1) ts)"

definition Mock_Stream :: "(nat \<Rightarrow> inference_error option) \<Rightarrow> CompletionRequest \<Rightarrow> StreamEvent list" where
  "Mock_Stream stop req = (let tokens = mock_tokens req in
     mock_emit stop (cq_RequestID req)
       (done_event (cq_RequestID req) ''stop'' \<lparr>us_PromptTokens = promptTokenCount req, us_CompletionTokens = int (length tokens)\<rparr>) 0 tokens)"

section \<open>vLLM (\<^verbatim>\<open>vllm.go\<close>, \<^verbatim>\<open>vllm_oom.go\<close>)\<close>

record vllmChatRequest =
  vr_Model :: string
  vr_Messages :: "Message list"
  vr_Temperature :: rat
  vr_TopP :: rat
  vr_MaxTokens :: int
  vr_Stream :: bool

record vllmChoice =
  vc_Message :: "Message option"
  vc_Delta :: "Message option"
  vc_FinishReason :: "string option"

record vllmChatResponse =
  vs_Choices :: "vllmChoice list"
  vs_Usage :: "Usage option"

definition toVLLMRequest :: "CompletionRequest \<Rightarrow> bool \<Rightarrow> vllmChatRequest" where
  "toVLLMRequest req stream = \<lparr>vr_Model = cq_Model req, vr_Messages = cq_Messages req, vr_Temperature = cq_Temperature req,
     vr_TopP = cq_TopP req, vr_MaxTokens = cq_MaxTokens req, vr_Stream = stream\<rparr>"

definition maxErrorBodyBytes :: nat where "maxErrorBodyBytes = 4096"

definition newVLLMStatusError :: "int \<Rightarrow> string \<Rightarrow> inference_error" where
  "newVLLMStatusError status body = VllmStatus status (take maxErrorBodyBytes body)"

text \<open>The engine: an answer to a request, with the lines and the end of the scan for a stream; \<open>vb_dec\<close> decodes a response.\<close>

record vllm =
  vb_do :: "vllmChatRequest \<Rightarrow> inference_error + int \<times> string"
  vb_dec :: "string \<Rightarrow> vllmChatResponse option"

definition VLLM_Complete :: "vllm \<Rightarrow> CompletionRequest \<Rightarrow> inference_error + CompletionResponse" where
  "VLLM_Complete V req = (case vb_do V (toVLLMRequest req False) of
      Inl e \<Rightarrow> Inl (VllmRequest e)
    | Inr (status, body) \<Rightarrow>
        if status \<noteq> 200 then Inl (newVLLMStatusError status body)
        else (case vb_dec V body of
          None \<Rightarrow> Inl VllmDecode
        | Some parsed \<Rightarrow> (case vs_Choices parsed of
            [] \<Rightarrow> Inl VllmNoChoice
          | choice # _ \<Rightarrow> (case vc_Message choice of
              None \<Rightarrow> Inl VllmNoChoice
            | Some m \<Rightarrow> Inr \<lparr>cp_RequestID = cq_RequestID req, cp_Model = cq_Model req, cp_Content = msg_Content m,
                cp_FinishReason = (case vc_FinishReason choice of None \<Rightarrow> [] | Some f \<Rightarrow> f),
                cp_Usage = (case vs_Usage parsed of None \<Rightarrow> no_usage | Some u \<Rightarrow> u)\<rparr>))))"

text \<open>The loop of \<^verbatim>\<open>consumeStream\<close> over the lines of the body; \<open>fin\<close> is the error of the scanner when the lines
  are used up, and \<open>cancelled\<close> says whether the stream's context has ended by then.\<close>

fun consume_loop ::
  "(string \<Rightarrow> vllmChatResponse option) \<Rightarrow> bool \<Rightarrow> string option \<Rightarrow> string \<Rightarrow> string list \<Rightarrow> string \<Rightarrow> Usage \<Rightarrow> StreamEvent list" where
  "consume_loop dec cancelled fin i [] finishReason usage = (case fin of
      Some e \<Rightarrow> [error_event i (if cancelled then ErrCancelled else VllmStreamRead e)]
    | None \<Rightarrow> [done_event i finishReason usage])"
| "consume_loop dec cancelled fin i (raw # lines) finishReason usage =
     (let line = trim_space raw in
      if line = [] \<or> \<not> has_prefix line ''data:'' then consume_loop dec cancelled fin i lines finishReason usage
      else let payload = trim_space (drop 5 line) in
        if payload = ''[DONE]'' then [done_event i finishReason usage]
        else (case dec payload of
          None \<Rightarrow> [error_event i VllmDecode]
        | Some chunk \<Rightarrow>
            (let usage' = (case vs_Usage chunk of None \<Rightarrow> usage | Some u \<Rightarrow> u) in
             case vs_Choices chunk of
               [] \<Rightarrow> consume_loop dec cancelled fin i lines finishReason usage'
             | choice # _ \<Rightarrow>
                 (let fr' = (case vc_FinishReason choice of None \<Rightarrow> finishReason | Some f \<Rightarrow> f);
                      more = consume_loop dec cancelled fin i lines fr' usage'
                  in case vc_Delta choice of
                       Some d \<Rightarrow> if msg_Content d \<noteq> [] then content_event i (msg_Content d) # more else more
                     | None \<Rightarrow> more))))"

definition consumeStream :: "(string \<Rightarrow> vllmChatResponse option) \<Rightarrow> bool \<Rightarrow> string list \<Rightarrow> string option \<Rightarrow> CompletionRequest \<Rightarrow> StreamEvent list" where
  "consumeStream dec cancelled lines fin req = consume_loop dec cancelled fin (cq_RequestID req) lines [] no_usage"

text \<open>\<open>split\<close> stands for \<^verbatim>\<open>bufio.Scanner\<close>: the lines of a body and the scanner's error.\<close>

definition VLLM_Stream :: "vllm \<Rightarrow> (string \<Rightarrow> string list \<times> string option) \<Rightarrow> bool \<Rightarrow> CompletionRequest \<Rightarrow> inference_error + StreamEvent list" where
  "VLLM_Stream V split cancelled req = (case vb_do V (toVLLMRequest req True) of
      Inl e \<Rightarrow> Inl (VllmRequest e)
    | Inr (status, body) \<Rightarrow>
        if status \<noteq> 200 then Inl (newVLLMStatusError status body)
        else (case split body of (lines, fin) \<Rightarrow> Inr (consumeStream (vb_dec V) cancelled lines fin req)))"

definition IsCUDAOutOfMemory :: "string option \<Rightarrow> bool" where
  "IsCUDAOutOfMemory err = (case err of None \<Rightarrow> False
    | Some text \<Rightarrow> contains_sub (to_lower text) ''cuda'' \<and> contains_sub (to_lower text) ''out of memory'')"

section \<open>Prefix router (\<^verbatim>\<open>prefix_router.go\<close>)\<close>

datatype routed = SGLang | Fallback

definition Select :: "string list \<Rightarrow> CompletionRequest \<Rightarrow> routed" where
  "Select sharedSystemPrompts req = (case cq_Messages req of
      [] \<Rightarrow> Fallback
    | m # _ \<Rightarrow> if msg_Role m = ''system'' \<and> msg_Content m \<in> set sharedSystemPrompts then SGLang else Fallback)"

section \<open>Readiness (\<^verbatim>\<open>vllm_readiness.go\<close>)\<close>

definition warmup_request :: "string \<Rightarrow> CompletionRequest" where
  "warmup_request model = \<lparr>cq_RequestID = ''readiness-probe'', cq_Model = model, cq_Messages = [\<lparr>msg_Role = ''user'', msg_Content = ''ping''\<rparr>],
     cq_Temperature = 0, cq_TopP = 0, cq_MaxTokens = 1\<rparr>"

definition Probe_Check :: "(inference_error + int) \<Rightarrow> vllm \<Rightarrow> string \<Rightarrow> inference_error + unit" where
  "Probe_Check health V model = (case health of
      Inl e \<Rightarrow> Inl (NotReady ''health check failed'')
    | Inr status \<Rightarrow>
        if status \<noteq> 200 then Inl (NotReady ''health endpoint status'')
        else (case VLLM_Complete V (warmup_request model) of
          Inl e \<Rightarrow> Inl (NotReady ''warmup completion failed'') | Inr _ \<Rightarrow> Inr ()))"

text \<open>\<open>check n\<close> is the outcome of the \<open>n\<close>-th attempt and \<open>over n\<close> says that the context ends in the wait after it. The loop
  has no bound of its own; \<open>None\<close> is a run that never returns.\<close>

partial_function (option) wait_loop :: "(nat \<Rightarrow> inference_error + unit) \<Rightarrow> (nat \<Rightarrow> bool) \<Rightarrow> nat \<Rightarrow> (inference_error + unit) option" where
  "wait_loop check over n = (case check n of
      Inr _ \<Rightarrow> Some (Inr ())
    | Inl e \<Rightarrow> if over n then Some (Inl (NotReady ''context ended'')) else wait_loop check over (n + 1))"

definition WaitReady :: "(nat \<Rightarrow> inference_error + int) \<Rightarrow> (nat \<Rightarrow> vllm) \<Rightarrow> string \<Rightarrow> (nat \<Rightarrow> bool) \<Rightarrow> (inference_error + unit) option" where
  "WaitReady health V model over = wait_loop (\<lambda>n. Probe_Check (health n) (V n) model) over 0"

section \<open>In-flight streams (\<^verbatim>\<open>vllm.go\<close>)\<close>

text \<open>The map from request ids to the cancel functions of running streams, each stream a handle, and the handles whose
  context was cancelled through it.\<close>

record registry =
  rg_inFlight :: "string \<rightharpoonup> nat"
  rg_cancelled :: "nat set"

definition rg_register :: "string \<Rightarrow> nat \<Rightarrow> registry \<Rightarrow> registry" where
  "rg_register i h R = R\<lparr>rg_inFlight := (rg_inFlight R)(i \<mapsto> h)\<rparr>"

definition rg_unregister :: "string \<Rightarrow> registry \<Rightarrow> registry" where
  "rg_unregister i R = R\<lparr>rg_inFlight := (rg_inFlight R)(i := None)\<rparr>"

definition VLLM_Cancel :: "string \<Rightarrow> registry \<Rightarrow> registry" where
  "VLLM_Cancel i R = (case rg_inFlight R i of
      Some h \<Rightarrow> R\<lparr>rg_inFlight := (rg_inFlight R)(i := None), rg_cancelled := insert h (rg_cancelled R)\<rparr>
    | None \<Rightarrow> R)"

text \<open>The mock keeps the same map, from ids to channels; closing a channel cancels the stream that holds it.\<close>

definition Mock_register :: "string \<Rightarrow> nat \<Rightarrow> registry \<Rightarrow> registry" where
  "Mock_register i h R = R\<lparr>rg_inFlight := (rg_inFlight R)(i \<mapsto> h)\<rparr>"

definition Mock_unregister :: "string \<Rightarrow> registry \<Rightarrow> registry" where
  "Mock_unregister i R = R\<lparr>rg_inFlight := (rg_inFlight R)(i := None)\<rparr>"

definition Mock_Cancel :: "string \<Rightarrow> registry \<Rightarrow> registry" where
  "Mock_Cancel i R = (case rg_inFlight R i of
      Some h \<Rightarrow> R\<lparr>rg_cancelled := insert h (rg_cancelled R), rg_inFlight := (rg_inFlight R)(i := None)\<rparr>
    | None \<Rightarrow> R)"

lemma mock_registry: "Mock_register = rg_register" "Mock_unregister = rg_unregister" "Mock_Cancel = VLLM_Cancel"
  by (auto simp: Mock_register_def rg_register_def Mock_unregister_def rg_unregister_def Mock_Cancel_def VLLM_Cancel_def fun_eq_iff
      split: option.splits)

definition no_streams :: registry where
  "no_streams = \<lparr>rg_inFlight = Map.empty, rg_cancelled = {}\<rparr>"

text \<open>The streams as a machine: the registry, the request id of every stream ever started, the streams still running. A
  stream starts (\<^verbatim>\<open>Stream\<close> registers it), ends (\<^verbatim>\<open>consumeStream\<close> unregisters its id), or a handler
  cancels an id. With \<open>uniq\<close> no two running streams have the same request id.\<close>

type_synonym stream_state = "registry \<times> (nat \<rightharpoonup> string) \<times> nat set"

inductive stream_step :: "bool \<Rightarrow> stream_state \<Rightarrow> stream_state \<Rightarrow> bool" for uniq where
  stream_start: "own h = None \<Longrightarrow> (uniq \<Longrightarrow> \<forall>g \<in> live. own g \<noteq> Some i) \<Longrightarrow>
    stream_step uniq (R, own, live) (rg_register i h R, own(h \<mapsto> i), insert h live)"
| stream_finish: "h \<in> live \<Longrightarrow> own h = Some i \<Longrightarrow> stream_step uniq (R, own, live) (rg_unregister i R, own, live - {h})"
| stream_cancel: "stream_step uniq (R, own, live) (VLLM_Cancel i R, own, live)"

section \<open>Contract of the streams\<close>

text \<open>What every client of a backend relies on, and what it may conclude about the content it has received.\<close>

definition streamed_content :: "StreamEvent list \<Rightarrow> string" where
  "streamed_content evs = concat (map ev_Content evs)"

definition stream_final :: "StreamEvent list \<Rightarrow> StreamEvent option" where
  "stream_final evs = find ev_Done evs"

lemma contract_Cons [simp]: "stream_contract i evs \<Longrightarrow> stream_contract i (content_event i c # evs)"
  unfolding stream_contract_def by (elim exE conjE, rule_tac x = "c # cs" in exI, rule_tac x = e in exI) simp

lemma contract_single [simp]: "stream_contract i [done_event i r u]" "stream_contract i [error_event i e]"
  unfolding stream_contract_def by (intro exI [of _ "[]"]; auto)+

lemma contract_nonempty: "stream_contract i evs \<Longrightarrow> evs \<noteq> []"
  by (auto simp: stream_contract_def)

lemma mock_emit_contract: "stream_contract i (mock_emit stop i (done_event i r u) n ts)"
  by (induction ts arbitrary: n) (auto split: option.splits)

lemma consume_loop_contract: "stream_contract i (consume_loop dec cancelled fin i lines fr u)"
proof (induction lines arbitrary: fr u)
  case (Cons raw lines)
  then show ?case by (auto simp: Let_def split: option.splits list.splits)
qed (simp split: option.splits)

lemma Mock_Stream_contract: "stream_contract (cq_RequestID req) (Mock_Stream stop req)"
  by (simp add: Mock_Stream_def Let_def mock_emit_contract)

lemma consumeStream_contract: "stream_contract (cq_RequestID req) (consumeStream dec cancelled lines fin req)"
  by (simp add: consumeStream_def consume_loop_contract)

text \<open>Streaming and completing agree on the mock: with the same interruptions, the stream ends with an error exactly when
  the completion fails, with that error, and otherwise carries its content and its final reason and usage.\<close>

lemma mock_emit_interrupted: "mock_wait stop n ts = Some e \<Longrightarrow> \<exists>k. mock_emit stop i fin n ts = map (content_event i) (take k ts) @ [error_event i e]"
proof (induction ts arbitrary: n)
  case (Cons t ts)
  show ?case
  proof (cases "stop n")
    case None
    then have "mock_wait stop (n + 1) ts = Some e" using Cons.prems by simp
    from Cons.IH [OF this] obtain k where "mock_emit stop i fin (n + 1) ts = map (content_event i) (take k ts) @ [error_event i e]" ..
    then show ?thesis using None by (intro exI [of _ "Suc k"]) simp
  next
    case (Some x)
    then show ?thesis using Cons.prems by (intro exI [of _ 0]) simp
  qed
qed simp

lemma mock_emit_complete: "mock_wait stop n ts = None \<Longrightarrow> mock_emit stop i fin n ts = map (content_event i) ts @ [fin]"
  by (induction ts arbitrary: n) (auto split: option.splits)

lemma streamed_content_events [simp]:
  "streamed_content (map (content_event i) cs @ [e]) = concat cs @ ev_Content e"
  by (induction cs) (simp_all add: streamed_content_def content_event_def)

section \<open>Registry\<close>

lemmas registry_defs = rg_register_def rg_unregister_def VLLM_Cancel_def

definition stream_owned :: "stream_state \<Rightarrow> bool" where
  "stream_owned s \<longleftrightarrow> (case s of (R, own, live) \<Rightarrow> (\<forall>i h. rg_inFlight R i = Some h \<longrightarrow> own h = Some i) \<and> (\<forall>h \<in> live. own h \<noteq> None))"

definition stream_indexed :: "stream_state \<Rightarrow> bool" where
  "stream_indexed s \<longleftrightarrow> (case s of (R, own, live) \<Rightarrow>
     inj_on own live \<and> (\<forall>h \<in> live. \<forall>i. own h = Some i \<longrightarrow> h \<in> rg_cancelled R \<or> rg_inFlight R i = Some h))"

lemma stream_owned_step: "stream_step uniq s s' \<Longrightarrow> stream_owned s \<Longrightarrow> stream_owned s'"
proof (induction rule: stream_step.induct)
  case (stream_start own h live i R)
  then show ?case by (fastforce simp: stream_owned_def registry_defs)
next
  case (stream_finish h live own i R)
  then show ?case by (auto simp: stream_owned_def registry_defs)
next
  case (stream_cancel R own live i)
  then show ?case by (auto simp: stream_owned_def registry_defs split: option.splits)
qed

lemma stream_indexed_step: "stream_step True s s' \<Longrightarrow> stream_owned s \<Longrightarrow> stream_indexed s \<Longrightarrow> stream_indexed s'"
proof (induction rule: stream_step.induct)
  case (stream_start own h live i R)
  have "h \<notin> live" using stream_start(1,3) by (auto simp: stream_owned_def)
  moreover have "Some i \<notin> own ` live" using stream_start(2) by (auto simp: image_iff)
  moreover have "inj_on own live" using stream_start(4) by (simp add: stream_indexed_def)
  moreover have "inj_on (own(h \<mapsto> i)) (insert h live)" using calculation by (auto simp: inj_on_def image_iff)
  ultimately show ?case using stream_start(2,4) by (auto simp: stream_indexed_def registry_defs)
next
  case (stream_finish h live own i R)
  have "own g \<noteq> Some i" if "g \<in> live" "g \<noteq> h" for g using that stream_finish(1,2,4) by (auto simp: stream_indexed_def inj_on_def)
  then show ?case using stream_finish by (auto simp: stream_indexed_def registry_defs inj_on_def)
next
  case (stream_cancel R own live i)
  then show ?case by (auto simp: stream_indexed_def registry_defs split: option.splits)
qed

section \<open>The readiness loop\<close>

lemma wait_loop_skip: "(\<And>m. m < n \<Longrightarrow> (\<exists>e. check m = Inl e) \<and> \<not> over m) \<Longrightarrow> wait_loop check over 0 = wait_loop check over n"
proof (induction n)
  case (Suc n)
  have "wait_loop check over 0 = wait_loop check over n" using Suc by simp
  also obtain e where "check n = Inl e" "\<not> over n" using Suc.prems [of n] by auto
  then have "wait_loop check over n = wait_loop check over (Suc n)" by (simp add: wait_loop.simps [of check over n])
  finally show ?case .
qed simp

lemma wait_loop_result: "wait_loop check over n = Some r \<Longrightarrow> \<exists>m \<ge> n. check m = Inr () \<and> r = Inr () \<or> over m \<and> (\<exists>e. r = Inl e)"
proof (rule wait_loop.raw_induct [of "\<lambda>check over n r. \<exists>m \<ge> n. check m = Inr () \<and> r = Inr () \<or> over m \<and> (\<exists>e. r = Inl e)"])
  fix f check over and n :: nat and r
  assume IH: "\<And>check over (n :: nat) r. f check over n = Some r \<Longrightarrow> \<exists>m \<ge> n. check m = Inr () \<and> r = Inr () \<or> over m \<and> (\<exists>e. r = Inl e)"
    and body: "(case check n of Inl e \<Rightarrow> if over n then Some (Inl (NotReady ''context ended'')) else f check over (n + 1) | Inr x \<Rightarrow> Some (Inr ())) = Some r"
  show "\<exists>m \<ge> n. check m = Inr () \<and> r = Inr () \<or> over m \<and> (\<exists>e. r = Inl e)"
  proof (cases "\<exists>e. check n = Inl e \<and> \<not> over n")
    case True
    then have "f check over (n + 1) = Some r" using body by auto
    from IH [OF this] obtain m where "n + 1 \<le> m" "check m = Inr () \<and> r = Inr () \<or> over m \<and> (\<exists>e. r = Inl e)" by blast
    then show ?thesis by (intro exI [of _ m]) simp
  next
    case False
    then show ?thesis using body by (intro exI [of _ n]) (auto split: sum.splits if_splits)
  qed
qed

section \<open>Properties\<close>

text \<open>
  C33. Readiness: WaitReady returns as soon as an attempt succeeds or the context ends, whichever comes first, and with the
  matching outcome; it reports ready only after an attempt in which the health endpoint answered 200 and a real one-token
  completion succeeded, and it never returns when neither ever happens.
\<close>

theorem wait_ready_live:
  assumes "\<And>m. m < n \<Longrightarrow> (\<exists>e. Probe_Check (health m) (V m) model = Inl e) \<and> \<not> over m"
  shows "(Probe_Check (health n) (V n) model = Inr () \<longrightarrow> WaitReady health V model over = Some (Inr ()))
    \<and> (Probe_Check (health n) (V n) model \<noteq> Inr () \<and> over n \<longrightarrow> (\<exists>e. WaitReady health V model over = Some (Inl e)))
    \<and> (WaitReady health V model over = Some (Inr ()) \<longrightarrow> (\<exists>m c. health m = Inr 200 \<and> VLLM_Complete (V m) (warmup_request model) = Inr c))
    \<and> ((\<forall>m. Probe_Check (health m) (V m) model \<noteq> Inr () \<and> \<not> over m) \<longrightarrow> WaitReady health V model over = None)"
proof -
  let ?c = "\<lambda>n. Probe_Check (health n) (V n) model"
  have skip: "WaitReady health V model over = wait_loop ?c over n" unfolding WaitReady_def by (rule wait_loop_skip) (rule assms)
  note res = wait_loop_result [of ?c over 0, folded WaitReady_def]
  have "\<exists>m c. health m = Inr 200 \<and> VLLM_Complete (V m) (warmup_request model) = Inr c" if "?c m = Inr ()" for m
    using that by (intro exI [of _ m]) (auto simp: Probe_Check_def split: sum.splits if_splits)
  then have "\<exists>m c. health m = Inr 200 \<and> VLLM_Complete (V m) (warmup_request model) = Inr c" if "WaitReady health V model over = Some (Inr ())"
    using res [OF that] by auto
  moreover have "WaitReady health V model over = None" if "\<forall>m. ?c m \<noteq> Inr () \<and> \<not> over m"
    using res that by (cases "WaitReady health V model over") auto
  moreover have "\<exists>e. WaitReady health V model over = Some (Inl e)" if "?c n \<noteq> Inr ()" "over n"
    unfolding skip using that by (cases "?c n") (simp_all add: wait_loop.simps [of ?c over n])
  moreover have "WaitReady health V model over = Some (Inr ())" if "?c n = Inr ()"
    unfolding skip using that by (simp add: wait_loop.simps [of ?c over n])
  ultimately show ?thesis by blast
qed

definition vllm_example :: vllm where
  "vllm_example = \<lparr>vb_do = (\<lambda>_. Inr (200, [])),
     vb_dec = (\<lambda>_. Some \<lparr>vs_Choices = [\<lparr>vc_Message = Some \<lparr>msg_Role = ''assistant'', msg_Content = ''pong''\<rparr>, vc_Delta = None, vc_FinishReason = None\<rparr>], vs_Usage = None\<rparr>)\<rparr>"

theorem wait_ready_live_witness:
  "WaitReady (\<lambda>n. if n < 2 then Inr 503 else Inr 200) (\<lambda>_. vllm_example) ''m'' (\<lambda>_. False) = Some (Inr ())"
proof -
  have "Probe_Check (Inr 200) vllm_example ''m'' = Inr ()" by (simp add: Probe_Check_def VLLM_Complete_def vllm_example_def)
  then show ?thesis
    using wait_ready_live [of 2 "\<lambda>n. if n < 2 then Inr 503 else Inr 200" "\<lambda>_. vllm_example" "''m''" "\<lambda>_. False"] by (simp add: Probe_Check_def)
qed

text \<open>
  On the mock backend a streamed request and a completed one are the same computation: under the same interruptions the
  stream fails exactly when the completion does and with the same error; otherwise its content events concatenate to the
  completion's content and its final event carries the same reason and usage.
\<close>

lemma mock_stream_equals_complete:
  "(case Mock_Complete stop req of
      Inl e \<Rightarrow> \<exists>k. Mock_Stream stop req = map (content_event (cq_RequestID req)) (take k (mock_tokens req)) @ [error_event (cq_RequestID req) e]
    | Inr c \<Rightarrow> streamed_content (Mock_Stream stop req) = cp_Content c
        \<and> stream_final (Mock_Stream stop req) = Some (done_event (cq_RequestID req) (cp_FinishReason c) (cp_Usage c)))"
proof (cases "mock_wait stop 0 (mock_tokens req)")
  case None
  have "find ev_Done (map (content_event i) cs @ [done_event i r u]) = Some (done_event i r u)" for i cs r u
    by (induction cs) (simp_all add: content_event_def done_event_def)
  then show ?thesis using mock_emit_complete [OF None]
    by (simp add: Mock_Complete_def Mock_Stream_def Let_def None stream_final_def) (simp add: done_event_def)
next
  case (Some e)
  then show ?thesis using mock_emit_interrupted [OF Some] by (simp add: Mock_Complete_def Mock_Stream_def Let_def)
qed

text \<open>
  Cancellation by request id: cancelling an id stops only streams started under that id, and when no two running streams share
  an id it stops every running one under it. Request ids are not unique by themselves: two streams under one id
  can reach a state in which one of them is running and no cancellation can stop it.
\<close>

lemma stream_cancel_by_id:
  "(\<forall>uniq R own live i h. (stream_step uniq)\<^sup>*\<^sup>* (no_streams, Map.empty, {}) (R, own, live) \<and>
       h \<in> rg_cancelled (VLLM_Cancel i R) \<and> h \<notin> rg_cancelled R \<longrightarrow> own h = Some i)
   \<and> (\<forall>R own live i h. (stream_step True)\<^sup>*\<^sup>* (no_streams, Map.empty, {}) (R, own, live) \<and>
       h \<in> live \<and> own h = Some i \<longrightarrow> h \<in> rg_cancelled (VLLM_Cancel i R))
   \<and> (\<exists>R own live h. (stream_step False)\<^sup>*\<^sup>* (no_streams, Map.empty, {}) (R, own, live) \<and>
       h \<in> live \<and> (\<forall>i. h \<notin> rg_cancelled (VLLM_Cancel i R)))"
proof (intro conjI allI impI; (elim conjE)?)
  let ?init = "(no_streams, Map.empty, {}) :: stream_state"
  have owned: "stream_owned s" if "(stream_step uniq)\<^sup>*\<^sup>* ?init s" for uniq s
    using that
  proof induction
    case (step y z)
    then show ?case by (blast intro: stream_owned_step)
  qed (simp add: stream_owned_def no_streams_def)
  have indexed: "stream_indexed s" if "(stream_step True)\<^sup>*\<^sup>* ?init s" for s
    using that
  proof induction
    case (step y z)
    then show ?case using owned by (blast intro: stream_indexed_step)
  qed (simp add: stream_indexed_def)
  show "own h = Some i" if "(stream_step uniq)\<^sup>*\<^sup>* ?init (R, own, live)" "h \<in> rg_cancelled (VLLM_Cancel i R)" "h \<notin> rg_cancelled R" for uniq R own live i h
    using owned [OF that(1)] that(2,3) by (auto simp: stream_owned_def VLLM_Cancel_def split: option.splits)
  show "h \<in> rg_cancelled (VLLM_Cancel i R)" if "(stream_step True)\<^sup>*\<^sup>* ?init (R, own, live)" "h \<in> live" "own h = Some i" for R own live i h
    using indexed [OF that(1)] that(2,3) by (auto simp: stream_indexed_def VLLM_Cancel_def split: option.splits)
  let ?R1 = "rg_register ''r'' 1 no_streams" and ?R2 = "rg_register ''r'' 2 (rg_register ''r'' 1 no_streams)"
  let ?own = "Map.empty(1 \<mapsto> ''r'', 2 \<mapsto> ''r'') :: nat \<rightharpoonup> string"
  have "stream_step False ?init (?R1, Map.empty(1 \<mapsto> ''r''), {1})" by (rule stream_start) simp_all
  moreover have "stream_step False (?R1, Map.empty(1 \<mapsto> ''r''), {1}) (?R2, ?own, {2, 1})" by (rule stream_start) simp_all
  moreover have "stream_step False (?R2, ?own, {2, 1}) (rg_unregister ''r'' ?R2, ?own, {2, 1} - {1})" by (rule stream_finish) simp_all
  ultimately have reach: "(stream_step False)\<^sup>*\<^sup>* ?init (rg_unregister ''r'' ?R2, ?own, {2, 1} - {1})"
    by (meson converse_rtranclp_into_rtranclp rtranclp.rtrancl_refl)
  have "2 \<notin> rg_cancelled (VLLM_Cancel i (rg_unregister ''r'' ?R2))" for i
    by (simp add: registry_defs no_streams_def split: option.splits)
  with reach show "\<exists>R own live h. (stream_step False)\<^sup>*\<^sup>* ?init (R, own, live) \<and> h \<in> live \<and> (\<forall>i. h \<notin> rg_cancelled (VLLM_Cancel i R))"
    by (intro exI [of _ "rg_unregister ''r'' ?R2"] exI [of _ ?own] exI [of _ "{2, 1} - {1}"] exI [of _ 2]) simp
qed

lemma stream_cancel_by_id_witness:
  "1 \<in> rg_cancelled (VLLM_Cancel ''r'' (rg_register ''r'' 1 no_streams))"
proof -
  have "(stream_step True)\<^sup>*\<^sup>* (no_streams, Map.empty, {}) (rg_register ''r'' 1 no_streams, Map.empty(1 \<mapsto> ''r''), {1})"
    by (rule r_into_rtranclp, rule stream_start) simp_all
  then show ?thesis
    using stream_cancel_by_id [THEN conjunct2, THEN conjunct1, rule_format, of "rg_register ''r'' 1 no_streams" "Map.empty(1 \<mapsto> ''r'')" "{1}" 1 "''r''"] by simp
qed

end
