(* ===== verification/Chat.thy ===== *)
theory Chat
  imports Inference Http
begin

text \<open>
  The chat completions endpoint (\<^verbatim>\<open>api/chat.go\<close>, \<^verbatim>\<open>api/handler.go\<close>): validation, the sequence length
  limit, the completion under a deadline, and the server-sent events of a streamed answer. The backend is a parameter; the
  locale \<open>stream_source\<close> states what the handler relies on, and is interpreted on the mock and on vLLM. The request id
  comes from \<^verbatim>\<open>httpmw/requestid.go\<close>.
\<close>

section \<open>Request ids (\<^verbatim>\<open>requestid.go\<close>)\<close>

definition generateRequestID :: "string option \<Rightarrow> string" where
  "generateRequestID raw = (case raw of None \<Rightarrow> ''req-unavailable'' | Some bytes \<Rightarrow> hex_encode bytes)"

definition mw_RequestID :: "string \<Rightarrow> string option \<Rightarrow> string" where
  "mw_RequestID header raw = (if header = [] then generateRequestID raw else header)"

section \<open>Requests and responses (\<^verbatim>\<open>chat.go\<close>)\<close>

record ChatCompletionRequest =
  ch_Model :: string
  ch_Messages :: "Message list"
  ch_Temperature :: "rat option"
  ch_TopP :: "rat option"
  ch_MaxTokens :: "int option"
  ch_Stream :: bool

definition validRoles :: "string list" where
  "validRoles = [''system'', ''user'', ''assistant'']"

type_synonym FieldError = "string \<times> string"

definition ValidationError_Error :: "FieldError list \<Rightarrow> string" where
  "ValidationError_Error errs = (case map (\<lambda>(f, m). f @ '': '' @ m) errs of [] \<Rightarrow> [] | p # ps \<Rightarrow> p @ concat (map (\<lambda>q. ''; '' @ q) ps))"

fun message_errors :: "nat \<Rightarrow> Message list \<Rightarrow> FieldError list" where
  "message_errors i [] = []"
| "message_errors i (m # ms) =
     (if msg_Role m \<notin> set validRoles then [(''messages['' @ show_nat i @ ''].role'', ''must be one of system, user, assistant'')] else []) @
     (if trim_space (msg_Content m) = [] then [(''messages['' @ show_nat i @ ''].content'', ''must not be empty'')] else []) @
     message_errors (i + 1) ms"

definition Validate :: "ChatCompletionRequest \<Rightarrow> FieldError list" where
  "Validate r =
     (if trim_space (ch_Model r) = [] then [(''model'', ''must not be empty'')] else []) @
     (if ch_Messages r = [] then [(''messages'', ''must contain at least one message'')] else []) @
     message_errors 0 (ch_Messages r) @
     (case ch_Temperature r of Some t \<Rightarrow> if t < 0 \<or> 2 < t then [(''temperature'', ''must be between 0 and 2'')] else [] | None \<Rightarrow> []) @
     (case ch_TopP r of Some p \<Rightarrow> if p \<le> 0 \<or> 1 < p then [(''top_p'', ''must be greater than 0 and at most 1'')] else [] | None \<Rightarrow> []) @
     (case ch_MaxTokens r of Some n \<Rightarrow> if n \<le> 0 then [(''max_tokens'', ''must be greater than 0'')] else [] | None \<Rightarrow> [])"

record ChatCompletionUsage =
  cu_PromptTokens :: int
  cu_CompletionTokens :: int
  cu_TotalTokens :: int

record ChatCompletionChoice =
  co_Index :: int
  co_Message :: Message
  co_FinishReason :: string

record ChatCompletionResponse =
  cz_ID :: string
  cz_Object :: string
  cz_Created :: int
  cz_Model :: string
  cz_Choices :: "ChatCompletionChoice list"
  cz_Usage :: ChatCompletionUsage

record ChatCompletionChunkDelta =
  dl_Role :: string
  dl_Content :: string

record ChatCompletionChunkChoice =
  cc_Index :: int
  cc_Delta :: ChatCompletionChunkDelta
  cc_FinishReason :: "string option"

record ChatCompletionChunk =
  ck_ID :: string
  ck_Object :: string
  ck_Created :: int
  ck_Model :: string
  ck_Choices :: "ChatCompletionChunkChoice list"
  ck_Usage :: "ChatCompletionUsage option"

section \<open>Handler (\<^verbatim>\<open>handler.go\<close>)\<close>

text \<open>A recorder that is \<^verbatim>\<open>nil\<close> in the code is switched off here.\<close>

record ChatCompletionsLimits =
  lim_MaxSequenceLength :: int
  lim_GenerationTimeout :: int
  lim_TTFT :: bool
  lim_TPOT :: bool
  lim_Quantization :: string
  lim_Watchdog :: bool

fun fields_count :: "int \<Rightarrow> Message list \<Rightarrow> int" where
  "fields_count n [] = n"
| "fields_count n (m # ms) = fields_count (i64 (n + int (length (go_fields (msg_Content m))))) ms"

definition estimatedSequenceLength :: "ChatCompletionRequest \<Rightarrow> int" where
  "estimatedSequenceLength req = (let n = fields_count 0 (ch_Messages req)
     in case ch_MaxTokens req of Some k \<Rightarrow> i64 (n + k) | None \<Rightarrow> n)"

definition toBackendRequest :: "string \<Rightarrow> ChatCompletionRequest \<Rightarrow> CompletionRequest" where
  "toBackendRequest requestID req = \<lparr>cq_RequestID = requestID, cq_Model = ch_Model req, cq_Messages = ch_Messages req,
     cq_Temperature = (case ch_Temperature req of None \<Rightarrow> 0 | Some t \<Rightarrow> t),
     cq_TopP = (case ch_TopP req of None \<Rightarrow> 0 | Some p \<Rightarrow> p),
     cq_MaxTokens = (case ch_MaxTokens req of None \<Rightarrow> 0 | Some n \<Rightarrow> n)\<rparr>"

definition chat_usage :: "Usage \<Rightarrow> ChatCompletionUsage" where
  "chat_usage u = \<lparr>cu_PromptTokens = us_PromptTokens u, cu_CompletionTokens = us_CompletionTokens u,
     cu_TotalTokens = i64 (us_PromptTokens u + us_CompletionTokens u)\<rparr>"

datatype sse = SseData ChatCompletionChunk | SseDone

datatype observation = Touched string | ObservedTTFT string string int | ObservedTPOT string string int

text \<open>The loop over the events; \<open>now n\<close> is the clock read for the \<open>n\<close>-th event.\<close>

fun sse_loop ::
  "ChatCompletionsLimits \<Rightarrow> string \<Rightarrow> string \<Rightarrow> int \<Rightarrow> int \<Rightarrow> (nat \<Rightarrow> int) \<Rightarrow> nat \<Rightarrow> StreamEvent list \<Rightarrow> bool \<Rightarrow> bool \<Rightarrow> int \<Rightarrow> sse list \<times> observation list" where
  "sse_loop L i model created admittedAt now n [] first ttftRecorded lastTokenAt = ([SseDone], [])"
| "sse_loop L i model created admittedAt now n (ev # evs) first ttftRecorded lastTokenAt =
     (if ev_Err ev \<noteq> None then ([], [])
      else if \<not> ev_Done ev then
        (let chunk = \<lparr>ck_ID = ''chatcmpl-'' @ i, ck_Object = ''chat.completion.chunk'', ck_Created = created, ck_Model = model,
               ck_Choices = [\<lparr>cc_Index = 0, cc_Delta = \<lparr>dl_Role = (if first then ''assistant'' else []), dl_Content = ev_Content ev\<rparr>, cc_FinishReason = None\<rparr>],
               ck_Usage = None\<rparr>;
             seen = ev_Content ev \<noteq> [];
             obs = (if seen then
                 (if lim_Watchdog L then [Touched i] else []) @
                 (if \<not> ttftRecorded then (if lim_TTFT L then [ObservedTTFT model (lim_Quantization L) (now n - admittedAt)] else [])
                  else if lim_TPOT L then [ObservedTPOT model (lim_Quantization L) (now n - lastTokenAt)] else [])
               else []);
             (out, obs') = sse_loop L i model created admittedAt now (n + 1) evs False (ttftRecorded \<or> seen) (if seen then now n else lastTokenAt)
         in (SseData chunk # out, obs @ obs'))
      else
        (let chunk = \<lparr>ck_ID = ''chatcmpl-'' @ i, ck_Object = ''chat.completion.chunk'', ck_Created = created, ck_Model = model,
               ck_Choices = [\<lparr>cc_Index = 0, cc_Delta = \<lparr>dl_Role = [], dl_Content = []\<rparr>, cc_FinishReason = Some (ev_FinishReason ev)\<rparr>],
               ck_Usage = Some (chat_usage (ev_Usage ev))\<rparr>;
             (out, obs') = sse_loop L i model created admittedAt now (n + 1) evs first ttftRecorded lastTokenAt
         in (SseData chunk # out, obs')))"

datatype chat_reply = ChatJSON "ChatCompletionResponse response" | ChatSSE "sse list" "observation list"

text \<open>The backend as the handler calls it, with the timeout put on the call (none when not positive).\<close>

record backend =
  be_complete :: "int \<Rightarrow> CompletionRequest \<Rightarrow> inference_error + CompletionResponse"
  be_stream :: "int \<Rightarrow> CompletionRequest \<Rightarrow> inference_error + StreamEvent list"

record chat_env =
  en_flusher :: bool
  en_admitted :: int
  en_created :: int
  en_now :: "nat \<Rightarrow> int"

definition streamChatCompletion :: "backend \<Rightarrow> ChatCompletionsLimits \<Rightarrow> chat_env \<Rightarrow> string \<Rightarrow> ChatCompletionRequest \<Rightarrow> chat_reply" where
  "streamChatCompletion B L E requestID req =
     (if \<not> en_flusher E then ChatJSON (apierror_Write 500 CodeInternal ''streaming not supported'' requestID)
      else case be_stream B (lim_GenerationTimeout L) (toBackendRequest requestID req) of
        Inl e \<Rightarrow> ChatJSON (apierror_Write 500 CodeInternal ''completion failed'' requestID)
      | Inr evs \<Rightarrow> (case sse_loop L requestID (ch_Model req) (en_created E) (en_admitted E) (en_now E) 0 evs True False 0 of (out, obs) \<Rightarrow> ChatSSE out obs))"

fun is_deadline :: "inference_error \<Rightarrow> bool" where
  "is_deadline CtxDeadlineExceeded = True"
| "is_deadline (VllmRequest e) = is_deadline e"
| "is_deadline _ = False"

definition ChatCompletionsHandler :: "backend \<Rightarrow> ChatCompletionsLimits \<Rightarrow> chat_env \<Rightarrow> string \<Rightarrow> ChatCompletionRequest option \<Rightarrow> chat_reply" where
  "ChatCompletionsHandler B L E requestID body = (case body of
      None \<Rightarrow> ChatJSON (apierror_Write 400 CodeValidation ''malformed request body'' requestID)
    | Some req \<Rightarrow>
        if Validate req \<noteq> [] then ChatJSON (apierror_Write 422 CodeValidation (ValidationError_Error (Validate req)) requestID)
        else if 0 < lim_MaxSequenceLength L \<and> lim_MaxSequenceLength L < estimatedSequenceLength req then
          ChatJSON (apierror_Write 422 CodeValidation (''request sequence length '' @ itoa (estimatedSequenceLength req) @ '' exceeds the maximum of ''
            @ itoa (lim_MaxSequenceLength L) @ '' tokens'') requestID)
        else if ch_Stream req then streamChatCompletion B L E requestID req
        else (case be_complete B (lim_GenerationTimeout L) (toBackendRequest requestID req) of
          Inl e \<Rightarrow> if is_deadline e then ChatJSON (apierror_Write 504 CodeTimeout ''generation timed out'' requestID)
                   else ChatJSON (apierror_Write 500 CodeInternal ''completion failed'' requestID)
        | Inr result \<Rightarrow> ChatJSON (RespBody 200 \<lparr>cz_ID = ''chatcmpl-'' @ requestID, cz_Object = ''chat.completion'', cz_Created = en_created E,
            cz_Model = cp_Model result,
            cz_Choices = [\<lparr>co_Index = 0, co_Message = \<lparr>msg_Role = ''assistant'', msg_Content = cp_Content result\<rparr>, co_FinishReason = cp_FinishReason result\<rparr>],
            cz_Usage = chat_usage (cp_Usage result)\<rparr>)))"

section \<open>Server-sent events\<close>

definition content_chunk :: "string \<Rightarrow> string \<Rightarrow> int \<Rightarrow> bool \<Rightarrow> string \<Rightarrow> sse" where
  "content_chunk i model created first c = SseData \<lparr>ck_ID = ''chatcmpl-'' @ i, ck_Object = ''chat.completion.chunk'', ck_Created = created, ck_Model = model,
     ck_Choices = [\<lparr>cc_Index = 0, cc_Delta = \<lparr>dl_Role = (if first then ''assistant'' else []), dl_Content = c\<rparr>, cc_FinishReason = None\<rparr>], ck_Usage = None\<rparr>"

definition finish_chunk :: "string \<Rightarrow> string \<Rightarrow> int \<Rightarrow> string \<Rightarrow> Usage \<Rightarrow> sse" where
  "finish_chunk i model created reason u = SseData \<lparr>ck_ID = ''chatcmpl-'' @ i, ck_Object = ''chat.completion.chunk'', ck_Created = created, ck_Model = model,
     ck_Choices = [\<lparr>cc_Index = 0, cc_Delta = \<lparr>dl_Role = [], dl_Content = []\<rparr>, cc_FinishReason = Some reason\<rparr>], ck_Usage = Some (chat_usage u)\<rparr>"

text \<open>The events of a conforming stream: the role on the first chunk only.\<close>

fun content_chunks :: "string \<Rightarrow> string \<Rightarrow> int \<Rightarrow> bool \<Rightarrow> string list \<Rightarrow> sse list" where
  "content_chunks i model created first [] = []"
| "content_chunks i model created first (c # cs) = content_chunk i model created first c # content_chunks i model created False cs"

text \<open>When the last token arrived.\<close>

fun last_token :: "(nat \<Rightarrow> int) \<Rightarrow> nat \<Rightarrow> string list \<Rightarrow> int \<Rightarrow> int" where
  "last_token now n [] t = t"
| "last_token now n (c # cs) t = last_token now (n + 1) cs (if c \<noteq> [] then now n else t)"

fun latency :: "observation \<Rightarrow> int" where
  "latency (Touched _) = 0"
| "latency (ObservedTTFT _ _ d) = d"
| "latency (ObservedTPOT _ _ d) = d"

fun is_touch :: "observation \<Rightarrow> bool" where
  "is_touch (Touched _) = True"
| "is_touch _ = False"

definition stream_tail :: "string \<Rightarrow> string \<Rightarrow> int \<Rightarrow> StreamEvent \<Rightarrow> sse list" where
  "stream_tail i model created e = (if ev_Err e \<noteq> None then [] else [finish_chunk i model created (ev_FinishReason e) (ev_Usage e), SseDone])"

definition final_event :: "StreamEvent \<Rightarrow> bool" where
  "final_event e \<longleftrightarrow> ev_Err e \<noteq> None \<or> ev_Done e"

lemma sse_loop_sse:
  assumes "final_event e"
  shows "fst (sse_loop L i model created adm now n (map (content_event j) cs @ [e]) first rec lst) =
    content_chunks i model created first cs @ stream_tail i model created e"
proof (induction cs arbitrary: n first rec lst)
  case Nil
  then show ?case using assms by (auto simp: stream_tail_def finish_chunk_def final_event_def)
next
  case (Cons c cs)
  have step: "fst (case p of (out, obs') \<Rightarrow> (x # out, f obs')) = x # fst p" for x :: sse and f :: "observation list \<Rightarrow> observation list" and p by (cases p) simp
  show ?case using Cons.IH [of "n + 1" False] by (simp add: content_event_def content_chunk_def Let_def step)
qed

lemma snd_prefix_obs: "snd (case p of (out, obs') \<Rightarrow> (f out, o1 @ obs')) = o1 @ snd p"
  by (cases p) simp

lemma sse_loop_obs:
  assumes "final_event e" "lim_TTFT L" "lim_TPOT L" "lim_Watchdog L"
  shows "sum_list (map latency (snd (sse_loop L i model created adm now n (map (content_event j) cs @ [e]) first rec lst))) =
      (let t0 = (if rec then lst else adm) in last_token now n cs t0 - t0)
    \<and> length (filter is_touch (snd (sse_loop L i model created adm now n (map (content_event j) cs @ [e]) first rec lst))) = length (filter (\<lambda>c. c \<noteq> []) cs)"
proof (induction cs arbitrary: n first rec lst)
  case Nil
  then show ?case using assms(1) by (cases "ev_Err e") (simp_all add: Let_def final_event_def)
next
  case (Cons c cs)
  show ?case using Cons.IH [of "n + 1" False "rec \<or> c \<noteq> []" "if c \<noteq> [] then now n else lst"] assms(2-4)
    by (auto simp: content_event_def Let_def snd_prefix_obs)
qed

text \<open>What the handler relies on, and what a client of the endpoint sees.\<close>

locale stream_source =
  fixes stream :: "'r \<Rightarrow> StreamEvent list" and rid :: "'r \<Rightarrow> string"
  assumes contract: "stream_contract (rid r) (stream r)"
begin

lemma stream_split: "\<exists>cs e. stream r = map (content_event (rid r)) cs @ [e] \<and> final_event e \<and> ev_Content e = []"
  using contract [of r] unfolding stream_contract_def
  by (elim exE conjE disjE) (fastforce simp: final_event_def done_event_def error_event_def)+

lemma sse_of_stream:
  "\<exists>cs e. streamed_content (stream r) = concat cs \<and> last (stream r) = e \<and>
     fst (sse_loop L i model created adm now 0 (stream r) True False 0) = content_chunks i model created True cs @ stream_tail i model created e \<and>
     (lim_TTFT L \<and> lim_TPOT L \<and> lim_Watchdog L \<longrightarrow>
        sum_list (map latency (snd (sse_loop L i model created adm now 0 (stream r) True False 0))) = last_token now 0 cs adm - adm \<and>
        length (filter is_touch (snd (sse_loop L i model created adm now 0 (stream r) True False 0))) = length (filter (\<lambda>c. c \<noteq> []) cs))"
proof -
  obtain cs e where s: "stream r = map (content_event (rid r)) cs @ [e]" "final_event e" "ev_Content e = []" using stream_split by blast
  show ?thesis unfolding s(1) using s(2,3) sse_loop_sse [OF s(2)] sse_loop_obs [OF s(2)]
    by (intro exI [of _ cs] exI [of _ e]) (simp add: Let_def)
qed

end

interpretation mock_streams: stream_source "\<lambda>(stop, req). Mock_Stream stop req" "\<lambda>(stop, req). cq_RequestID req"
  by unfold_locales (auto simp: Mock_Stream_contract)

interpretation vllm_streams: stream_source "\<lambda>(dec, cancelled, lines, fin, req). consumeStream dec cancelled lines fin req" "\<lambda>(dec, cancelled, lines, fin, req). cq_RequestID req"
  by unfold_locales (auto simp: consumeStream_contract)

lemma message_errors_Nil: "message_errors i ms = [] \<longleftrightarrow> (\<forall>m \<in> set ms. msg_Role m \<in> set validRoles \<and> trim_space (msg_Content m) \<noteq> [])"
  by (induction ms arbitrary: i) auto

definition well_formed :: "ChatCompletionRequest \<Rightarrow> bool" where
  "well_formed r \<longleftrightarrow> trim_space (ch_Model r) \<noteq> [] \<and> ch_Messages r \<noteq> [] \<and>
     (\<forall>m \<in> set (ch_Messages r). msg_Role m \<in> {''system'', ''user'', ''assistant''} \<and> trim_space (msg_Content m) \<noteq> []) \<and>
     pred_option (\<lambda>t. 0 \<le> t \<and> t \<le> 2) (ch_Temperature r) \<and> pred_option (\<lambda>p. 0 < p \<and> p \<le> 1) (ch_TopP r) \<and> pred_option (\<lambda>n. 0 < n) (ch_MaxTokens r)"

lemma Validate_Nil: "Validate r = [] \<longleftrightarrow> well_formed r"
proof -
  have "(case ch_Temperature r of Some t \<Rightarrow> if t < 0 \<or> 2 < t then [x] else [] | None \<Rightarrow> []) = [] \<longleftrightarrow> pred_option (\<lambda>t. 0 \<le> t \<and> t \<le> 2) (ch_Temperature r)" for x :: FieldError
    by (cases "ch_Temperature r") (simp_all add: not_less)
  moreover have "(case ch_TopP r of Some p \<Rightarrow> if p \<le> 0 \<or> 1 < p then [x] else [] | None \<Rightarrow> []) = [] \<longleftrightarrow> pred_option (\<lambda>p. 0 < p \<and> p \<le> 1) (ch_TopP r)" for x :: FieldError
    by (cases "ch_TopP r") (simp_all add: not_less not_le)
  moreover have "(case ch_MaxTokens r of Some n \<Rightarrow> if n \<le> 0 then [x] else [] | None \<Rightarrow> []) = [] \<longleftrightarrow> pred_option (\<lambda>n. 0 < n) (ch_MaxTokens r)" for x :: FieldError
    by (cases "ch_MaxTokens r") (simp_all add: not_le)
  ultimately show ?thesis by (simp add: Validate_def well_formed_def message_errors_Nil validRoles_def)
qed

text \<open>The words of the prompt and the tokens asked for, as a mathematical sum.\<close>

definition sequence_length :: "ChatCompletionRequest \<Rightarrow> int" where
  "sequence_length r = sum_list (map (\<lambda>m. int (length (go_fields (msg_Content m)))) (ch_Messages r)) + (case ch_MaxTokens r of None \<Rightarrow> 0 | Some k \<Rightarrow> k)"

lemma fields_count_exact:
  "0 \<le> n \<Longrightarrow> n + sum_list (map (\<lambda>m. int (length (go_fields (msg_Content m)))) ms) < 2 ^ 63 \<Longrightarrow>
    fields_count n ms = n + sum_list (map (\<lambda>m. int (length (go_fields (msg_Content m)))) ms)"
proof (induction ms arbitrary: n)
  case (Cons m ms)
  let ?k = "int (length (go_fields (msg_Content m)))"
  have pos: "0 \<le> sum_list (map (\<lambda>m. int (length (go_fields (msg_Content m)))) ms)" by (rule sum_list_nonneg) auto
  then have "i64 (n + ?k) = n + ?k" using Cons.prems by (intro i64_id_nonneg) simp_all
  then show ?case using Cons.IH [of "n + ?k"] Cons.prems by simp
qed simp

lemma estimatedSequenceLength_exact:
  assumes "Validate r = []" "sequence_length r < 2 ^ 63"
  shows "estimatedSequenceLength r = sequence_length r"
proof -
  let ?w = "sum_list (map (\<lambda>m. int (length (go_fields (msg_Content m)))) (ch_Messages r))"
  have w: "0 \<le> ?w" by (rule sum_list_nonneg) auto
  show ?thesis
  proof (cases "ch_MaxTokens r")
    case None
    then show ?thesis using assms(2) fields_count_exact [of 0 "ch_Messages r"] by (simp add: estimatedSequenceLength_def sequence_length_def)
  next
    case (Some k)
    have k: "0 < k" using assms(1) by (simp add: Validate_Nil well_formed_def Some)
    then have "fields_count 0 (ch_Messages r) = ?w" using assms(2) Some by (simp add: fields_count_exact sequence_length_def)
    then show ?thesis using Some assms(2) w k by (simp add: estimatedSequenceLength_def sequence_length_def i64_id_nonneg)
  qed
qed

section \<open>Properties\<close>

text \<open>
  Streaming through vLLM, end to end: whatever lines the engine sends, a streamed answer is content chunks carrying exactly the
  received deltas, the role on the first one only; then, when the stream ended well, one chunk with finish reason and usage and
  the terminator, and nothing at all after an error. With all recorders on, the recorded latencies add up to the time from admission to
  the last token, and every token touches the watchdog once.
\<close>

lemma chat_stream_shape:
  assumes "be_stream B (lim_GenerationTimeout L) (toBackendRequest i req) = VLLM_Stream V split cancelled (toBackendRequest i req)" "en_flusher E"
    and "vb_do V (toVLLMRequest (toBackendRequest i req) True) = Inr (200, body)" "split body = (lines, fin)"
  shows "\<exists>out obs cs. streamChatCompletion B L E i req = ChatSSE out obs
    \<and> streamed_content (consumeStream (vb_dec V) cancelled lines fin (toBackendRequest i req)) = concat cs
    \<and> out = content_chunks i (ch_Model req) (en_created E) True cs
          @ stream_tail i (ch_Model req) (en_created E) (last (consumeStream (vb_dec V) cancelled lines fin (toBackendRequest i req)))
    \<and> (lim_TTFT L \<and> lim_TPOT L \<and> lim_Watchdog L \<longrightarrow>
         sum_list (map latency obs) = last_token (en_now E) 0 cs (en_admitted E) - en_admitted E \<and>
         length (filter is_touch obs) = length (filter (\<lambda>c. c \<noteq> []) cs))"
proof -
  let ?evs = "consumeStream (vb_dec V) cancelled lines fin (toBackendRequest i req)"
  have run: "streamChatCompletion B L E i req =
      (case sse_loop L i (ch_Model req) (en_created E) (en_admitted E) (en_now E) 0 ?evs True False 0 of (out, obs) \<Rightarrow> ChatSSE out obs)"
    using assms by (simp add: streamChatCompletion_def VLLM_Stream_def)
  obtain out obs where lp: "sse_loop L i (ch_Model req) (en_created E) (en_admitted E) (en_now E) 0 ?evs True False 0 = (out, obs)" by fastforce
  show ?thesis
    using vllm_streams.sse_of_stream [of "(vb_dec V, cancelled, lines, fin, toBackendRequest i req)" L i "ch_Model req" "en_created E" "en_admitted E" "en_now E"]
    by (simp add: run lp)
qed

definition backend_example :: "vllm \<Rightarrow> backend" where
  "backend_example V = \<lparr>be_complete = (\<lambda>_. VLLM_Complete V), be_stream = (\<lambda>_. VLLM_Stream V (\<lambda>_. ([''data: x'', [], ''data: [DONE]''], None)) False)\<rparr>"

definition delta_example :: vllm where
  "delta_example = \<lparr>vb_do = (\<lambda>_. Inr (200, [])),
     vb_dec = (\<lambda>_. Some \<lparr>vs_Choices = [\<lparr>vc_Message = None, vc_Delta = Some \<lparr>msg_Role = [], msg_Content = ''hi''\<rparr>, vc_FinishReason = Some ''stop''\<rparr>], vs_Usage = None\<rparr>)\<rparr>"

definition chat_request_example :: "int option \<Rightarrow> ChatCompletionRequest" where
  "chat_request_example k = \<lparr>ch_Model = ''m'', ch_Messages = [\<lparr>msg_Role = ''user'', msg_Content = ''a''\<rparr>], ch_Temperature = None, ch_TopP = Some 1,
     ch_MaxTokens = k, ch_Stream = True\<rparr>"

lemma chat_stream_shape_witness:
  "\<exists>out obs. streamChatCompletion (backend_example delta_example)
      \<lparr>lim_MaxSequenceLength = 0, lim_GenerationTimeout = 0, lim_TTFT = True, lim_TPOT = True, lim_Quantization = ''fp16'', lim_Watchdog = True\<rparr>
      \<lparr>en_flusher = True, en_admitted = 3, en_created = 1, en_now = (\<lambda>n. 10 + int n)\<rparr> ''r'' (chat_request_example None) = ChatSSE out obs
     \<and> out \<noteq> [] \<and> last out = SseDone \<and> sum_list (map latency obs) = 7"
proof -
  let ?L = "\<lparr>lim_MaxSequenceLength = 0, lim_GenerationTimeout = 0, lim_TTFT = True, lim_TPOT = True, lim_Quantization = ''fp16'', lim_Watchdog = True\<rparr>"
  let ?E = "\<lparr>en_flusher = True, en_admitted = 3, en_created = 1, en_now = (\<lambda>n. 10 + int n)\<rparr>"
  let ?req = "toBackendRequest ''r'' (chat_request_example None)"
  let ?lines = "[''data: x'', [], ''data: [DONE]'']"
  have ev: "consumeStream (vb_dec delta_example) False ?lines None ?req = [content_event ''r'' ''hi'', done_event ''r'' ''stop'' no_usage]"
    by (simp add: consumeStream_def delta_example_def toBackendRequest_def trim_space_def trim_def is_space_def has_prefix_def)
  obtain out obs cs where o: "streamChatCompletion (backend_example delta_example) ?L ?E ''r'' (chat_request_example None) = ChatSSE out obs" "''hi'' = concat cs"
    "out = content_chunks ''r'' ''m'' 1 True cs @ stream_tail ''r'' ''m'' 1 (done_event ''r'' ''stop'' no_usage)"
    using chat_stream_shape [of "backend_example delta_example" ?L "''r''" "chat_request_example None" delta_example "\<lambda>_. (?lines, None)" False ?E "[]" ?lines None, unfolded ev]
    by (auto simp: backend_example_def delta_example_def streamed_content_def content_event_def done_event_def chat_request_example_def)
  have "sum_list (map latency obs) = 7" using o(1) ev
    by (auto simp: streamChatCompletion_def backend_example_def VLLM_Stream_def delta_example_def chat_request_example_def content_event_def done_event_def)
  then show ?thesis using o by (intro exI [of _ out] exI [of _ obs]) (simp add: stream_tail_def done_event_def)
qed



end
