(* ===== verification/Routes.thy ===== *)
theory Routes
  imports Handlers Chat Resilience
begin

text \<open>
  The chat routes as \<^verbatim>\<open>app/app.go\<close> composes them: the watchdog around the authentication, the abuse guard, the rate
  limiter and the handler, on the state that all requests share: the Redis server, the account tables and the watchdog.
  A request is one step; the calls inside it have links of their own, so any of them may fail. The body is what the
  outermost middleware read. The two JSON decoders of the body (the handler's and the guard's) and the backend are
  parameters.
\<close>

section \<open>Composition (\<^verbatim>\<open>app.go\<close>)\<close>

datatype chat_endpoint = ChatAPI | ChatDashboard

definition chat_class :: "chat_endpoint \<Rightarrow> string" where
  "chat_class e = (case e of ChatAPI \<Rightarrow> ''chat'' | ChatDashboard \<Rightarrow> ''dashboard-chat'')"

record gateway =
  gw_argon :: argon2
  gw_session :: SessionConfig
  gw_ChatRateLimit :: int
  gw_ChatRateLimitWindow :: int
  gw_MaxSequenceLength :: int
  gw_GenerationTimeout :: int
  gw_backend :: backend
  gw_decode :: "string \<Rightarrow> ChatCompletionRequest option"
  gw_contents :: "string \<Rightarrow> string list option"

record 's gateway_state =
  gs_redis :: 's
  gs_accounts :: accounts
  gs_watchdog :: Watchdog

text \<open>What one request brings and what happens to its calls: \<open>cr_started\<close> and \<open>cr_touch\<close> are the clock of the
  watchdog, \<open>cr_clock\<close> the clock of the token check.\<close>

record chat_call =
  cr_endpoint :: chat_endpoint
  cr_request :: request
  cr_body :: string
  cr_keys :: "pgerr link"
  cr_clock :: int
  cr_guard :: guard_call
  cr_limit :: limiter_call
  cr_env :: chat_env
  cr_started :: int
  cr_touch :: "nat \<Rightarrow> int"

definition reducedChatLimit :: int where "reducedChatLimit = 10"
definition reducedChatWindow :: int where "reducedChatWindow = 60 * 1000000000"

definition chat_limits :: "gateway \<Rightarrow> ChatCompletionsLimits" where
  "chat_limits G = \<lparr>lim_MaxSequenceLength = gw_MaxSequenceLength G, lim_GenerationTimeout = gw_GenerationTimeout G,
     lim_TTFT = True, lim_TPOT = True, lim_Quantization = ''none'', lim_Watchdog = True\<rparr>"

definition chat_authenticate :: "('y) jwt_scheme \<Rightarrow> gateway \<Rightarrow> chat_call \<Rightarrow> apikey list \<Rightarrow> ChatCompletionResponse response + principal" where
  "chat_authenticate J G c keys = (case cr_endpoint c of
      ChatAPI \<Rightarrow> APIKeyAuth (gw_argon G) (cr_keys c) (cr_request c) keys
    | ChatDashboard \<Rightarrow> JWTAuth J (gw_session G) (cr_clock c) (cr_request c))"

text \<open>How far a request gets; a passed request carries whether the limiter failed and let it through undecided.\<close>

datatype chat_gate = GateAuth "ChatCompletionResponse response" | GateReduced | GateLimited int | GatePass principal bool

definition chat_gates ::
  "('s, 'x) redis_scheme \<Rightarrow> ('y) jwt_scheme \<Rightarrow> gateway \<Rightarrow> chat_call \<Rightarrow> 's \<times> accounts \<Rightarrow> ('s \<times> accounts) \<times> chat_gate" where
  "chat_gates R J G c sa = (case chat_authenticate J G c (acc_keys (snd sa)) of
      Inl resp \<Rightarrow> (sa, GateAuth resp)
    | Inr p \<Rightarrow>
       (case AbuseGuardMiddleware R (NewAbuseDetector DefaultAbuseThresholds) (NewEscalator DefaultEscalationThresholds) InferenceJobID
               reducedChatLimit reducedChatWindow (cr_guard c) (Some p) (gw_contents G (cr_body c)) sa of
          (sa1, False) \<Rightarrow> (sa1, GateReduced)
        | (sa1, True) \<Rightarrow>
           (case Allow R (lc_link (cr_limit c)) (lc_nonce (cr_limit c)) (lc_now (cr_limit c)) (PrincipalRouteKey (chat_class (cr_endpoint c)) (Some p))
                   (gw_ChatRateLimit G) (gw_ChatRateLimitWindow G) (fst sa1) of
              (s2, res) \<Rightarrow> ((s2, snd sa1), case RateLimit_handler res of
                  RateRejected n \<Rightarrow> GateLimited n | RatePassed \<Rightarrow> GatePass p (isl res)))))"

definition chat_answer :: "gateway \<Rightarrow> chat_call \<Rightarrow> chat_gate \<Rightarrow> int option \<times> chat_reply" where
  "chat_answer G c g = (case g of
      GateAuth resp \<Rightarrow> (None, ChatJSON resp)
    | GateReduced \<Rightarrow> (None, ChatJSON (apierror_Write 429 CodeRateLimited
        ''this account's rate limit has been reduced due to detected abuse patterns'' (req_ID (cr_request c))))
    | GateLimited n \<Rightarrow> (Some n, ChatJSON (apierror_Write 429 CodeRateLimited ''rate limit exceeded'' (req_ID (cr_request c))))
    | GatePass p _ \<Rightarrow> (None, ChatCompletionsHandler (gw_backend G) (chat_limits G) (cr_env c) (req_ID (cr_request c)) (gw_decode G (cr_body c))))"

fun touch_all :: "(nat \<Rightarrow> int) \<Rightarrow> nat \<Rightarrow> observation list \<Rightarrow> Watchdog \<Rightarrow> Watchdog" where
  "touch_all now n [] w = w"
| "touch_all now n (x # xs) w = touch_all now (Suc n) xs (case x of Touched i \<Rightarrow> Watchdog_Touch (now n) i w | _ \<Rightarrow> w)"

definition reply_touches :: "chat_reply \<Rightarrow> observation list" where
  "reply_touches r = (case r of ChatJSON _ \<Rightarrow> [] | ChatSSE _ obs \<Rightarrow> obs)"

definition chat_route ::
  "('s, 'x) redis_scheme \<Rightarrow> ('y) jwt_scheme \<Rightarrow> gateway \<Rightarrow> chat_call \<Rightarrow> 's gateway_state \<Rightarrow> 's gateway_state \<times> int option \<times> chat_reply" where
  "chat_route R J G c w =
     (let (sa, g) = chat_gates R J G c (gs_redis w, gs_accounts w);
          (retry, reply) = chat_answer G c g
      in (\<lparr>gs_redis = fst sa, gs_accounts = snd sa,
           gs_watchdog = Watchdog_Middleware (cr_started c) (req_ID (cr_request c)) (cr_body c)
             (touch_all (cr_touch c) 0 (reply_touches reply)) (gs_watchdog w)\<rparr>, retry, reply))"

section \<open>Runs\<close>

abbreviation chat_time :: "chat_call \<Rightarrow> int" where
  "chat_time c \<equiv> lc_now (cr_limit c)"

text \<open>The requests in the order of their limiter calls; the log has the requests that reached the handler.\<close>

fun chat_run ::
  "('s, 'x) redis_scheme \<Rightarrow> ('y) jwt_scheme \<Rightarrow> gateway \<Rightarrow> chat_call list \<Rightarrow> 's gateway_state \<times> (chat_call \<times> principal \<times> bool) list \<Rightarrow>
   's gateway_state \<times> (chat_call \<times> principal \<times> bool) list" where
  "chat_run R J G [] st = st"
| "chat_run R J G (c # cs) (w, served) =
     (let w1 = w\<lparr>gs_redis := TICK R (chat_time c) (gs_redis w)\<rparr>
      in chat_run R J G cs (fst (chat_route R J G c w1),
           case snd (chat_gates R J G c (gs_redis w1, gs_accounts w1)) of GatePass p failed \<Rightarrow> (c, p, failed) # served | _ \<Rightarrow> served))"

definition call_nonces :: "chat_call list \<Rightarrow> string list" where
  "call_nonces cs = concat (map (\<lambda>c. case lc_nonce (cr_limit c) of Inr m \<Rightarrow> [m] | Inl _ \<Rightarrow> []) cs)"

text \<open>The requests of the log that the limiter decided on, for one key and one window.\<close>

definition counted :: "string \<Rightarrow> int \<Rightarrow> int \<Rightarrow> chat_call \<times> principal \<times> bool \<Rightarrow> bool" where
  "counted k W u e = (case e of (c, p, failed) \<Rightarrow>
     \<not> failed \<and> PrincipalRouteKey (chat_class (cr_endpoint c)) (Some p) = k \<and> u - W < chat_time c \<and> chat_time c \<le> u)"

section \<open>The guard leaves the limiter's keys alone\<close>

lemma Allow_admits:
  assumes "snd (Allow R l (Inr n) t k limit window s) = Inr d" "Allowed d"
  shows "admits R k limit window \<lparr>rl_time = t, rl_member = n, rl_link = l\<rparr> s"
proof -
  let ?sc = "slidingWindowScript R k t (tdiv window 1000000) limit n s"
  have "l = Up" "allow_result (snd ?sc) = Inr d" using assms(1) by (cases l; simp add: Allow_def)+
  moreover from this have "snd ?sc = ArrReply [IntReply 1, IntReply 0]"
    using assms(2) by (auto simp: slidingWindowScript_def Let_def allow_result_def asInt64_def split: if_splits)
  ultimately show ?thesis by (simp add: admits_def)
qed


definition not_abuse :: "string \<Rightarrow> bool" where
  "not_abuse k \<longleftrightarrow> (\<forall>x. k \<noteq> ''abuse:'' @ x)"

lemma not_abuse_keys:
  assumes "not_abuse k"
  shows "k \<noteq> cadenceKey u" "k \<noteq> entropyKey u" "k \<noteq> churnKey u" "k \<noteq> reducedKey u" "k \<noteq> violationKey u" "k \<noteq> ''abuse:reducedbudget:'' @ u"
  using assms by (simp_all add: not_abuse_def cadenceKey_def entropyKey_def churnKey_def reducedKey_def violationKey_def)

lemma not_abuse_route: "not_abuse (PrincipalRouteKey cl po)"
  by (simp add: not_abuse_def PrincipalRouteKey_def split: option.split)

lemma fst_case_sum: "fst (case p of (s, Inl e) \<Rightarrow> (s, f e) | (s, Inr r) \<Rightarrow> (s, g r)) = fst p"
  by (auto split: prod.split sum.split)

text \<open>The invariant of a run: the admitted calls of one key, no window too full, and at least as many as the log counts.\<close>

definition chat_inv :: "('s, 'x) redis_scheme \<Rightarrow> string \<Rightarrow> int \<Rightarrow> int \<Rightarrow> int \<Rightarrow> 's \<Rightarrow> (chat_call \<times> principal \<times> bool) list \<Rightarrow> rl_call list \<Rightarrow> bool" where
  "chat_inv R k W limit T s served adm \<longleftrightarrow> rl_inv R k W T s adm \<and> distinct (map rl_member adm)
     \<and> (\<forall>u. int (length (filter (in_window W u) adm)) \<le> limit)
     \<and> (\<forall>u. length (filter (counted k W u) served) \<le> length (filter (in_window W u) adm))"

context redis_frame
begin

lemma Allow_same: "k \<noteq> key \<Longrightarrow> same_at R k s (fst (Allow R l m t key limit window s))"
proof -
  assume k: "k \<noteq> key"
  note st = same_at_steps [OF k]
  have "same_at R k s (fst (slidingWindowScript R key t (tdiv window 1000000) limit n s))" for n
    unfolding slidingWindowScript_def Let_def using same_at_trans [OF same_at_trans [OF st(2) st(1)] st(4)] st(2) by simp
  then have "same_at R k s (fst (roundtrip l (slidingWindowScript R key t (tdiv window 1000000) limit n) s))" for n
    by (rule same_at_roundtrip)
  then show ?thesis by (auto simp: Allow_def fst_case_sum split: sum.split)
qed

lemma check_signal_same: "k \<noteq> key \<Longrightarrow> same_at R k s (fst (check_signal R c key limit window s))"
  unfolding check_signal_def fst_case_sum by (rule Allow_same)

lemma violation_calls_same:
  assumes "not_abuse k"
  shows "same_at R k s (fst (Violation_Incr R l (violationKey u) s))" (is ?incr)
    and "same_at R k s (fst (Violation_Expire R l (violationKey u) ttl s))" (is ?expire)
    and "same_at R k s (fst (Reduce R l u ttl s))" (is ?reduce)
proof -
  note v = same_at_steps [OF not_abuse_keys(5) [OF assms, of u]] and r = same_at_steps [OF not_abuse_keys(4) [OF assms, of u]]
  have "same_at R k s (fst (roundtrip l (\<lambda>s. case int_of_value (string_at R s (violationKey u)) of
      None \<Rightarrow> (s, None) | Some n \<Rightarrow> (INCR R (violationKey u) s, Some (n + 1))) s))"
    by (rule same_at_roundtrip) (simp add: v split: option.split)
  then show ?incr unfolding Violation_Incr_def by (auto split: prod.splits sum.splits option.splits)
  have "same_at R k s (fst (roundtrip l (\<lambda>s. (PEXPIRE R (violationKey u) (expire_seconds ttl * 1000) s, ())) s))"
    by (rule same_at_roundtrip) (simp add: v)
  then show ?expire unfolding Violation_Expire_def by (auto split: prod.splits sum.splits)
  have "same_at R k s (fst (roundtrip l (\<lambda>s. (SET R (reducedKey u) ''1'' (tdiv ttl 1000000) s, ())) s))"
    by (rule same_at_roundtrip) (simp add: r)
  then show ?reduce unfolding Reduce_def by (auto split: prod.splits sum.splits)
qed

lemma RecordViolation_same:
  assumes "not_abuse k"
  shows "same_at R k s (fst (fst (RecordViolation R th L jobID u (s, a))))"
proof -
  note calls = violation_calls_same [OF assms]
  obtain s1 r1 where i: "Violation_Incr R (vl_incr L) (violationKey u) s = (s1, r1)" by fastforce
  have s1: "same_at R k s s1" using calls(1) [of s "vl_incr L" u] by (simp add: i)
  show ?thesis
  proof (cases r1)
    case (Inr count)
    obtain s2 r2 where e: "(if count = 1 then Violation_Expire R (vl_expire L) (violationKey u) (ViolationWindow th) s1 else (s1, Inr ())) = (s2, r2)"
      by fastforce
    have s2: "same_at R k s s2"
      using calls(2) [of s1 "vl_expire L" u "ViolationWindow th"] e s1 by (auto split: if_splits intro: same_at_trans)
    have s3: "same_at R k s (fst (Reduce R (vl_reduce L) u (ReducedRateTTL th) s2))" by (rule same_at_trans [OF s2 calls(3)])
    show ?thesis using s2 s3 by (auto simp: RecordViolation_def i Inr e split: prod.splits sum.splits)
  qed (simp add: RecordViolation_def i s1)
qed

lemma AbuseGuard_same:
  assumes "not_abuse k"
  shows "same_at R k s (fst (fst (AbuseGuardMiddleware R th eth jobID rl rw g po msgs (s, a))))"
proof (cases po)
  case (Some p)
  let ?u = "pr_UserID p"
  note keys = not_abuse_keys [OF assms, of ?u]
  obtain s1 reject where b: "(if IsReduced R (gc_reduced g) ?u s = Inr True
      then (case check_signal R (gc_budget g) (''abuse:reducedbudget:'' @ ?u) rl rw s of (s', r) \<Rightarrow> (s', r = Inr True)) else (s, False)) = (s1, reject)" by fastforce
  have s1: "same_at R k s s1"
    using b check_signal_same [OF keys(6), of s "gc_budget g" rl rw] by (auto split: if_splits prod.splits)
  obtain s2 r2 where c: "CheckRequestCadence R th (gc_cadence g) ?u s1 = (s2, r2)" by fastforce
  have s2: "same_at R k s s2"
    using same_at_trans [OF s1 check_signal_same [OF keys(1)]] c unfolding CheckRequestCadence_def by (metis fst_conv)
  let ?prompt = "case msgs of None \<Rightarrow> [] | Some ms \<Rightarrow> concat ms"
  obtain s3 flagged where f: "(if \<not> r2 = Inr True \<and> ?prompt \<noteq> []
      then (case CheckPromptEntropy R th (gc_entropy g) ?u ?prompt s2 of (s', r) \<Rightarrow> (s', r = Inr True)) else (s2, r2 = Inr True)) = (s3, flagged)" by fastforce
  have "same_at R k s2 (fst (CheckPromptEntropy R th (gc_entropy g) ?u ?prompt s2))"
    unfolding CheckPromptEntropy_def by (simp add: check_signal_same [OF keys(2)])
  then have s3: "same_at R k s s3" using f s2 by (auto split: if_splits prod.splits intro: same_at_trans)
  have s4: "same_at R k s (fst (fst (RecordViolation R eth (gc_violation g) jobID ?u (s3, a))))"
    by (rule same_at_trans [OF s3 RecordViolation_same [OF assms]])
  show ?thesis unfolding AbuseGuardMiddleware_def Some Let_def option.case prod.case b c f using s1 s3 s4 by simp
qed (simp add: AbuseGuardMiddleware_def)

lemma rl_inv_same: "same_at R k s s' \<Longrightarrow> rl_inv R k W T s adm \<Longrightarrow> rl_inv R k W T s' adm"
  by (simp add: same_at_def rl_inv_def zset_ok_def zset_at_def)

text \<open>One request, as the limiter sees it: a request on another key changes nothing, one on the key that the limiter
  decides to pass is a new admitted call with room in its window.\<close>

lemma chat_gates_step:
  assumes inv: "rl_inv R k W (chat_time c) (fst sa) adm" and clk: "CLOCK R (fst sa) = chat_time c" and k: "not_abuse k"
    and W: "0 < W" "tdiv (gw_ChatRateLimitWindow G) 1000000 = W"
    and m: "\<And>n. lc_nonce (cr_limit c) = Inr n \<Longrightarrow> n \<notin> rl_member ` set adm" "distinct (map rl_member adm)"
    and run: "chat_gates R J G c sa = (sa', g)"
  obtains "rl_inv R k W (chat_time c) (fst sa') adm" "\<And>p. g = GatePass p False \<Longrightarrow> PrincipalRouteKey (chat_class (cr_endpoint c)) (Some p) \<noteq> k"
  | x where "rl_inv R k W (chat_time c) (fst sa') (x # adm)" "rl_time x = chat_time c" "lc_nonce (cr_limit c) = Inr (rl_member x)"
      "int (length (filter (in_window W (chat_time c)) adm)) < gw_ChatRateLimit G"
proof (cases "chat_authenticate J G c (acc_keys (snd sa))")
  case (Inl resp)
  then show thesis using run inv that(1) by (auto simp: chat_gates_def)
next
  case (Inr p)
  let ?key = "PrincipalRouteKey (chat_class (cr_endpoint c)) (Some p)"
  obtain sa1 pass where gd: "AbuseGuardMiddleware R (NewAbuseDetector DefaultAbuseThresholds) (NewEscalator DefaultEscalationThresholds) InferenceJobID
      reducedChatLimit reducedChatWindow (cr_guard c) (Some p) (gw_contents G (cr_body c)) sa = (sa1, pass)" by fastforce
  have "same_at R k (fst sa) (fst sa1)" using AbuseGuard_same [OF k, where s = "fst sa" and a = "snd sa"] gd by (metis fst_conv prod.collapse)
  then have i1: "rl_inv R k W (chat_time c) (fst sa1) adm" and c1: "CLOCK R (fst sa1) = chat_time c"
    using rl_inv_same [OF _ inv] clk by (auto simp: same_at_def)
  show thesis
  proof (cases "pass \<and> ?key = k")
    case False
    have "same_at R k (fst sa1) (fst sa')" using run False Allow_same [of k ?key "fst sa1" "lc_link (cr_limit c)" "lc_nonce (cr_limit c)" "chat_time c" "gw_ChatRateLimit G" "gw_ChatRateLimitWindow G"] by (auto simp: chat_gates_def Inr gd split: prod.splits bool.splits)
    moreover have "g = GatePass q False \<Longrightarrow> q = p \<and> pass" for q
      using run by (auto simp: chat_gates_def Inr gd split: prod.splits bool.splits rate_outcome.splits)
    ultimately show thesis using that(1) rl_inv_same [OF _ i1] False by metis
  next
    case True
    let ?A = "\<lambda>n. Allow R (lc_link (cr_limit c)) n (chat_time c) k (gw_ChatRateLimit G) (gw_ChatRateLimitWindow G) (fst sa1)"
    have st: "fst sa' = fst (?A (lc_nonce (cr_limit c)))"
      and ps: "\<And>q. g = GatePass q False \<Longrightarrow> \<exists>d. snd (?A (lc_nonce (cr_limit c))) = Inr d \<and> Allowed d"
      using run True by (auto simp: chat_gates_def Inr gd RateLimit_handler_def isl_def split: prod.splits bool.splits rate_outcome.splits sum.splits if_splits)
    show thesis
    proof (cases "lc_nonce (cr_limit c)")
      case (Inl e)
      then have "fst sa' = fst sa1" "\<And>q. g \<noteq> GatePass q False" using st ps by (auto simp: Allow_def)
      then show thesis using that(1) i1 by simp
    next
      case n: (Inr n)
      let ?x = "\<lparr>rl_time = chat_time c, rl_member = n, rl_link = lc_link (cr_limit c)\<rparr>"
      note step = rl_step_at [of k W ?x "fst sa1" adm "gw_ChatRateLimitWindow G" "gw_ChatRateLimit G", simplified, OF i1 c1 W m(1) [OF n] m(2)]
      show thesis
      proof (cases "admits R k (gw_ChatRateLimit G) (gw_ChatRateLimitWindow G) ?x (fst sa1)")
        case True
        then show thesis using that(2) [of ?x] step st n by simp
      next
        case False
        then have "\<not> (\<exists>d. snd (?A (Inr n)) = Inr d \<and> Allowed d)" using Allow_admits [of R "lc_link (cr_limit c)" n] by auto
        then show thesis using that(1) step(1) st ps n False by auto
      qed
    qed
  qed
qed

lemma chat_run_step:
  assumes inv: "chat_inv R k W (gw_ChatRateLimit G) T (gs_redis w) served adm" and T: "T \<le> chat_time c" and k: "not_abuse k"
    and W: "0 < W" "tdiv (gw_ChatRateLimitWindow G) 1000000 = W"
    and m: "\<And>n. lc_nonce (cr_limit c) = Inr n \<Longrightarrow> n \<notin> rl_member ` set adm"
    and w1: "w1 = w\<lparr>gs_redis := TICK R (chat_time c) (gs_redis w)\<rparr>"
    and s1: "served1 = (case snd (chat_gates R J G c (gs_redis w1, gs_accounts w1)) of GatePass p failed \<Rightarrow> (c, p, failed) # served | _ \<Rightarrow> served)"
  shows "\<exists>adm1. chat_inv R k W (gw_ChatRateLimit G) (chat_time c) (gs_redis (fst (chat_route R J G c w1))) served1 adm1
    \<and> rl_member ` set adm1 \<subseteq> rl_member ` set adm \<union> set (call_nonces [c])"
proof -
  obtain sa g where g: "chat_gates R J G c (gs_redis w1, gs_accounts w1) = (sa, g)" by fastforce
  have r: "gs_redis (fst (chat_route R J G c w1)) = fst sa" by (simp add: chat_route_def g Let_def split: prod.split)
  have i0: "rl_inv R k W T (gs_redis w) adm" and ds: "distinct (map rl_member adm)"
    and bd: "\<forall>u. int (length (filter (in_window W u) adm)) \<le> gw_ChatRateLimit G"
    and cn: "\<And>u. length (filter (counted k W u) served) \<le> length (filter (in_window W u) adm)"
    using inv by (simp_all add: chat_inv_def)
  have i1: "rl_inv R k W (chat_time c) (fst (gs_redis w1, gs_accounts w1)) adm" and c1: "CLOCK R (fst (gs_redis w1, gs_accounts w1)) = chat_time c"
    using rl_inv_tick [OF i0 T] by (simp_all add: w1 clock_tick)
  have sv: "filter (counted k W u) served1 = (if \<exists>p. g = GatePass p False \<and> counted k W u (c, p, False)
      then (c, (THE p. g = GatePass p False), False) # filter (counted k W u) served else filter (counted k W u) served)" for u
    unfolding s1 g by (cases g) (auto simp: counted_def)
  show ?thesis
  proof (rule chat_gates_step [OF i1 c1 k W _ ds g], goal_cases)
    case (1 n)
    then show ?case by (rule m)
  next
    case 2
    then have "filter (counted k W u) served1 = filter (counted k W u) served" for u by (auto simp: sv counted_def)
    then show ?case using 2(1) ds bd cn r by (intro exI [of _ adm]) (simp add: chat_inv_def)
  next
    case (3 x)
    have old: "\<forall>c' \<in> set adm. rl_time c' \<le> rl_time x" using i1 3(2) by (simp add: rl_inv_def)
    have "length (filter (counted k W u) served1) \<le> length (filter (in_window W u) (x # adm))" for u
      using cn [of u] 3(2) by (auto simp: sv counted_def in_window_def)
    moreover have "int (length (filter (in_window W u) (x # adm))) \<le> gw_ChatRateLimit G" for u
      by (rule window_extend [OF bd old]) (use 3(2,4) in simp)
    moreover have "distinct (map rl_member (x # adm))" using ds m [OF 3(3)] by simp
    ultimately show ?case using 3(1,3) r by (intro exI [of _ "x # adm"]) (simp add: chat_inv_def call_nonces_def)
  qed
qed

lemma chat_run_bound:
  assumes "chat_inv R k W (gw_ChatRateLimit G) T (gs_redis w) served adm" "not_abuse k" "0 < W" "tdiv (gw_ChatRateLimitWindow G) 1000000 = W"
    and "sorted (map chat_time cs)" "\<forall>c \<in> set cs. T \<le> chat_time c" "distinct (call_nonces cs)"
    and "set (call_nonces cs) \<inter> rl_member ` set adm = {}"
  shows "int (length (filter (counted k W u) (snd (chat_run R J G cs (w, served))))) \<le> gw_ChatRateLimit G"
  using assms(1,5-8)
proof (induction cs arbitrary: T w served adm)
  case Nil
  then have "length (filter (counted k W u) served) \<le> length (filter (in_window W u) adm)"
    "int (length (filter (in_window W u) adm)) \<le> gw_ChatRateLimit G" by (simp_all add: chat_inv_def)
  then show ?case by simp
next
  case (Cons c cs)
  let ?w1 = "w\<lparr>gs_redis := TICK R (chat_time c) (gs_redis w)\<rparr>"
  have n: "call_nonces (c # cs) = call_nonces [c] @ call_nonces cs" by (simp add: call_nonces_def)
  have m: "n \<notin> rl_member ` set adm" if "lc_nonce (cr_limit c) = Inr n" for n
    using Cons.prems(5) that unfolding n by (auto simp: call_nonces_def)
  have T: "T \<le> chat_time c" using Cons.prems(3) by simp
  obtain adm1 where a: "chat_inv R k W (gw_ChatRateLimit G) (chat_time c) (gs_redis (fst (chat_route R J G c ?w1)))
      (case snd (chat_gates R J G c (gs_redis ?w1, gs_accounts ?w1)) of GatePass p failed \<Rightarrow> (c, p, failed) # served | _ \<Rightarrow> served) adm1"
    and sub: "rl_member ` set adm1 \<subseteq> rl_member ` set adm \<union> set (call_nonces [c])"
    using chat_run_step [OF Cons.prems(1) T assms(2-4) m refl refl] by blast
  have "set (call_nonces cs) \<inter> rl_member ` set adm1 = {}" using sub Cons.prems(4,5) unfolding n by auto
  then show ?case using Cons.IH [OF a] Cons.prems(2,4) unfolding n by (simp add: Let_def)
qed

end

section \<open>Properties\<close>

definition tracked :: "Watchdog \<Rightarrow> string set" where
  "tracked w = fst ` set (wd_requests w)"

lemma tracked_Start: "tracked (Watchdog_Start now i p w) = insert i (tracked w)"
  by (simp add: tracked_def Watchdog_Start_def dom_update)

lemma tracked_Forget: "tracked (Watchdog_Forget i w) = tracked w - {i}"
  unfolding tracked_def Watchdog_Forget_def set_map [symmetric] by (simp add: delete_keys)

lemma tracked_Touch: "tracked (Watchdog_Touch now i w) = tracked w"
proof (cases "map_of (wd_requests w) i")
  case (Some e)
  then have "i \<in> fst ` set (wd_requests w)" by (force dest: map_of_SomeD)
  then show ?thesis using Some by (cases e) (auto simp: tracked_def Watchdog_Touch_def dom_update)
qed (simp add: Watchdog_Touch_def)

lemma tracked_touch_all: "tracked (touch_all now n xs w) = tracked w"
  by (induction xs arbitrary: n w) (auto simp: tracked_Touch split: observation.split)

lemma tracked_chat_route:
  "tracked (gs_watchdog (fst (chat_route R J G c w))) \<subseteq> tracked (gs_watchdog w)"
  by (auto simp: chat_route_def Let_def Watchdog_Middleware_def tracked_Start tracked_Forget tracked_touch_all split: prod.split)

lemma tracked_chat_run: "tracked (gs_watchdog (fst (chat_run R J G cs (w, served)))) \<subseteq> tracked (gs_watchdog w)"
proof (induction cs arbitrary: w served)
  case (Cons c cs)
  let ?w1 = "w\<lparr>gs_redis := TICK R (chat_time c) (gs_redis w)\<rparr>"
  have "tracked (gs_watchdog (fst (chat_route R J G c ?w1))) \<subseteq> tracked (gs_watchdog w)"
    using tracked_chat_route [of R J G c ?w1] by simp
  then show ?case using order_trans [OF Cons.IH] by (simp add: Let_def)
qed simp


text \<open>Two requests of one session within a second, under a limit of one per minute: the second one is rejected.\<close>

definition gateway_example :: gateway where
  "gateway_example = \<lparr>gw_argon = argon_example, gw_session = session_example, gw_ChatRateLimit = 1, gw_ChatRateLimitWindow = 60 * 1000000000,
     gw_MaxSequenceLength = 0, gw_GenerationTimeout = 0, gw_backend = \<lparr>be_complete = (\<lambda>_ _. Inl CtxDeadlineExceeded), be_stream = (\<lambda>_ _. Inr [])\<rparr>,
     gw_decode = (\<lambda>_. Some (chat_request_example None)), gw_contents = (\<lambda>_. None)\<rparr>"

definition call_example :: "int \<Rightarrow> string \<Rightarrow> chat_call" where
  "call_example t m = (let l = \<lparr>lc_link = Up, lc_nonce = Inr m, lc_now = t\<rparr> in
     \<lparr>cr_endpoint = ChatDashboard, cr_request = request_example ''u7'', cr_body = [], cr_keys = Up, cr_clock = 10,
      cr_guard = \<lparr>gc_reduced = Up, gc_budget = l, gc_cadence = l, gc_entropy = l,
        gc_violation = \<lparr>vl_incr = Up, vl_expire = Up, vl_reduce = Up, vl_suspend = suspend_up\<rparr>\<rparr>,
      cr_limit = l, cr_env = \<lparr>en_flusher = True, en_admitted = 0, en_created = 0, en_now = (\<lambda>_. 0)\<rparr>, cr_started = 0, cr_touch = (\<lambda>_. 0)\<rparr>)"

definition gateway_start :: "mem gateway_state" where
  "gateway_start = \<lparr>gs_redis = mem_empty, gs_accounts = \<lparr>acc_users = [], acc_keys = [], acc_deps = [], acc_stopped = []\<rparr>, gs_watchdog = NewWatchdog 30\<rparr>"

lemma gates_quiet:
  assumes "chat_authenticate J G c (acc_keys a) = Inr p" "gw_contents G (cr_body c) = None"
    and "IsReduced R (gc_reduced (cr_guard c)) (pr_UserID p) s = Inr False"
    and "CheckRequestCadence R DefaultAbuseThresholds (gc_cadence (cr_guard c)) (pr_UserID p) s = (s1, Inr False)"
    and "Allow R (lc_link (cr_limit c)) (lc_nonce (cr_limit c)) (lc_now (cr_limit c)) (PrincipalRouteKey (chat_class (cr_endpoint c)) (Some p))
           (gw_ChatRateLimit G) (gw_ChatRateLimitWindow G) s1 = (s2, Inr d)"
  shows "chat_gates R J G c (s, a) = ((s2, a), if Allowed d then GatePass p False else GateLimited (retry_seconds (RetryAfter d)))"
proof -
  have "NewAbuseDetector DefaultAbuseThresholds = DefaultAbuseThresholds" by (simp add: NewAbuseDetector_def DefaultAbuseThresholds_def)
  then show ?thesis using assms
    by (simp add: chat_gates_def AbuseGuardMiddleware_def RateLimit_handler_def Let_def)
qed

definition principal_example :: principal where
  "principal_example = \<lparr>pr_APIKeyID = [], pr_UserID = ''7'', pr_OrgID = None, pr_Scopes = []\<rparr>"

definition quiet_step :: "int \<Rightarrow> string \<Rightarrow> mem \<Rightarrow> mem \<times> (limiter_error + bool) \<times> (limiter_error + Decision)" where
  "quiet_step t m s = (let l = \<lparr>lc_link = Up, lc_nonce = Inr m, lc_now = t\<rparr>;
     (s1, r1) = CheckRequestCadence mem_redis DefaultAbuseThresholds l ''7'' (TICK mem_redis t s);
     (s2, r2) = Allow mem_redis Up (Inr m) t ''ratelimit:dashboard-chat:7'' 1 60000000000 s1 in (s2, r1, r2))"

lemmas quiet_eval = quiet_step_def CheckRequestCadence_def check_signal_def Allow_def slidingWindowScript_def Let_def
  mem_empty_def m_zset_def mem_put_def mem_at_def mem_dl_def zdrop_def zput_def allow_result_def asInt64_def DefaultAbuseThresholds_def
  cadenceKey_def tdiv_def i64_def

lemma quiet_steps:
  "snd (quiet_step 1 ''a'' mem_empty) = (Inr False, Inr \<lparr>Allowed = True, RetryAfter = 0\<rparr>)"
  "snd (quiet_step 2 ''b'' (fst (quiet_step 1 ''a'' mem_empty))) = (Inr False, Inr \<lparr>Allowed = False, RetryAfter = 59999000000\<rparr>)"
  "IsReduced mem_redis Up ''7'' (TICK mem_redis 1 mem_empty) = Inr False"
  "IsReduced mem_redis Up ''7'' (TICK mem_redis 2 (fst (quiet_step 1 ''a'' mem_empty))) = Inr False"
  by (simp_all add: quiet_eval IsReduced_def reducedKey_def)

lemma gates_example:
  assumes "IsReduced mem_redis Up ''7'' (TICK mem_redis t s) = Inr False" "snd (quiet_step t m s) = (Inr False, Inr d)"
  shows "chat_gates mem_redis jwt_example gateway_example (call_example t m) (TICK mem_redis t s, a) =
    ((fst (quiet_step t m s), a), if Allowed d then GatePass principal_example False else GateLimited (retry_seconds (RetryAfter d)))"
proof -
  let ?l = "\<lparr>lc_link = Up, lc_nonce = Inr m, lc_now = t\<rparr>"
  have auth: "chat_authenticate jwt_example gateway_example (call_example t m) (acc_keys a) = Inr principal_example"
    by (simp add: chat_authenticate_def call_example_def Let_def JWTAuth_def sessionToken_def request_example_def jwt_example_def principal_example_def
        bearerToken_def cut_prefix_def has_prefix_def)
  obtain s1 r1 where c: "CheckRequestCadence mem_redis DefaultAbuseThresholds ?l ''7'' (TICK mem_redis t s) = (s1, r1)" by fastforce
  obtain s2 r2 where l: "Allow mem_redis Up (Inr m) t ''ratelimit:dashboard-chat:7'' 1 60000000000 s1 = (s2, r2)" by fastforce
  have q: "quiet_step t m s = (s2, r1, r2)" by (simp only: quiet_step_def Let_def c l prod.case)
  show ?thesis
    using gates_quiet [OF auth, of mem_redis "TICK mem_redis t s" s1 s2 d] assms c l
    by (simp add: q call_example_def gateway_example_def principal_example_def PrincipalRouteKey_def chat_class_def Let_def)
qed

lemma chat_route_state:
  "gs_redis (fst (chat_route R J G c w)) = fst (fst (chat_gates R J G c (gs_redis w, gs_accounts w)))"
  "gs_accounts (fst (chat_route R J G c w)) = snd (fst (chat_gates R J G c (gs_redis w, gs_accounts w)))"
  by (simp_all add: chat_route_def Let_def split: prod.split)

lemma chat_example_run:
  "snd (chat_run mem_redis jwt_example gateway_example [call_example 1 ''a'', call_example 2 ''b''] (gateway_start, [])) =
     [(call_example 1 ''a'', principal_example, False)]"
proof -
  have t: "chat_time (call_example t m) = t" for t m by (simp add: call_example_def Let_def)
  show ?thesis using gates_example [OF quiet_steps(3,1)] gates_example [OF quiet_steps(4,2)]
    by (simp add: t Let_def chat_route_state gateway_start_def del: mem_redis_sel)
qed


end
