(* ===== verification/Operations.thy ===== *)
theory Operations
  imports Inference Http
begin

text \<open>
  Start-up and operation of the gateway: configuration (\<^verbatim>\<open>config/config.go\<close>), schema migrations
  (\<^verbatim>\<open>db/migrate.go\<close>), health (\<^verbatim>\<open>health/health.go\<close>), the model catalogue (\<^verbatim>\<open>api/models.go\<close>) and benchmark
  runs (\<^verbatim>\<open>bench/suite.go\<close>, \<^verbatim>\<open>api/benchmarks.go\<close>, \<^verbatim>\<open>db/benchmark_runs.go\<close>). The SQL of a migration acts on an abstract schema
  through a parameter; the YAML decoder is a parameter.
\<close>

section \<open>Configuration (\<^verbatim>\<open>config.go\<close>)\<close>

record Config =
  cf_ListenAddr :: string
  cf_Environment :: string
  cf_LogLevel :: string
  cf_MetricsListenAddr :: string
  cf_DatabaseURL :: string
  cf_DBMaxConns :: int
  cf_DBConnectTimeout :: int
  cf_JWTSigningKey :: string
  cf_JWTIssuer :: string
  cf_JWTAudience :: string
  cf_AccessTokenTTL :: int
  cf_RefreshTokenTTL :: int
  cf_RedisAddr :: string
  cf_RedisPassword :: string
  cf_RedisDB :: int
  cf_RedisPoolSize :: int
  cf_RedisMaxRetries :: int
  cf_RedisDialTimeout :: int
  cf_RequestTimeout :: int
  cf_CORSAllowedOrigins :: "string list"
  cf_ChatRateLimit :: int
  cf_ChatRateLimitWindow :: int
  cf_MockBackendTokenDelay :: int
  cf_MaxSequenceLength :: int
  cf_GenerationTimeout :: int
  cf_IdleTimeout :: int
  cf_NomadAddr :: string

definition second_ns :: int where "second_ns = 1000000000"

definition config_defaults :: Config where
  "config_defaults = \<lparr>cf_ListenAddr = '':8080'', cf_Environment = ''development'', cf_LogLevel = ''info'', cf_MetricsListenAddr = '':9090'',
     cf_DatabaseURL = [], cf_DBMaxConns = 10, cf_DBConnectTimeout = 5 * second_ns, cf_JWTSigningKey = [], cf_JWTIssuer = ''redline'',
     cf_JWTAudience = ''redline-api'', cf_AccessTokenTTL = 15 * 60 * second_ns, cf_RefreshTokenTTL = 30 * 24 * 3600 * second_ns,
     cf_RedisAddr = [], cf_RedisPassword = [], cf_RedisDB = 0, cf_RedisPoolSize = 10, cf_RedisMaxRetries = 3,
     cf_RedisDialTimeout = 5 * second_ns, cf_RequestTimeout = 30 * second_ns, cf_CORSAllowedOrigins = [], cf_ChatRateLimit = 60,
     cf_ChatRateLimitWindow = 60 * second_ns, cf_MockBackendTokenDelay = 0, cf_MaxSequenceLength = 8192, cf_GenerationTimeout = 60 * second_ns,
     cf_IdleTimeout = 15 * 60 * second_ns, cf_NomadAddr = []\<rparr>"

text \<open>\<open>env\<close> is \<^verbatim>\<open>os.Getenv\<close>, empty for an unset variable.\<close>

definition env_or :: "(string \<Rightarrow> string) \<Rightarrow> string \<Rightarrow> string \<Rightarrow> string" where
  "env_or env name old = (if env name \<noteq> [] then env name else old)"

definition parse_i32 :: "string \<Rightarrow> int option" where
  "parse_i32 v = (case parse_int v of Some n \<Rightarrow> if - (2 ^ 31) \<le> n \<and> n < 2 ^ 31 then Some n else None | None \<Rightarrow> None)"

definition applyEnvOverrides :: "(string \<Rightarrow> string) \<Rightarrow> Config \<Rightarrow> Config" where
  "applyEnvOverrides env c = c\<lparr>cf_ListenAddr := env_or env ''REDLINE_LISTEN_ADDR'' (cf_ListenAddr c),
     cf_MetricsListenAddr := env_or env ''REDLINE_METRICS_LISTEN_ADDR'' (cf_MetricsListenAddr c),
     cf_Environment := env_or env ''REDLINE_ENVIRONMENT'' (cf_Environment c),
     cf_LogLevel := env_or env ''REDLINE_LOG_LEVEL'' (cf_LogLevel c),
     cf_DatabaseURL := env_or env ''REDLINE_DATABASE_URL'' (cf_DatabaseURL c),
     cf_DBMaxConns := (case parse_i32 (env ''REDLINE_DB_MAX_CONNS'') of
        Some n \<Rightarrow> if env ''REDLINE_DB_MAX_CONNS'' \<noteq> [] then n else cf_DBMaxConns c | None \<Rightarrow> cf_DBMaxConns c),
     cf_JWTSigningKey := env_or env ''REDLINE_JWT_SIGNING_KEY'' (cf_JWTSigningKey c),
     cf_RedisAddr := env_or env ''REDLINE_REDIS_ADDR'' (cf_RedisAddr c),
     cf_RedisPassword := env_or env ''REDLINE_REDIS_PASSWORD'' (cf_RedisPassword c)\<rparr>"

datatype config_error = ParseConfig | ReadConfig string | SharedMetricsAddr | MissingKeys "string list"

definition config_validate :: "Config \<Rightarrow> config_error option" where
  "config_validate c =
     (let m1 = (if cf_ListenAddr c = [] then [''listen_addr''] else []) @ (if cf_MetricsListenAddr c = [] then [''metrics_listen_addr''] else [])
      in if cf_MetricsListenAddr c = cf_ListenAddr c \<and> cf_ListenAddr c \<noteq> [] then Some SharedMetricsAddr
         else let missing = m1 @ (if cf_Environment c = [] then [''environment''] else []) @ (if cf_LogLevel c = [] then [''log_level''] else []) @
                (if cf_DatabaseURL c = [] then [''database_url''] else []) @ (if cf_JWTSigningKey c = [] then [''jwt_signing_key''] else []) @
                (if cf_RedisAddr c = [] then [''redis_addr''] else [])
              in if missing \<noteq> [] then Some (MissingKeys missing) else None)"

datatype file_read = FileData string | FileMissing | FileError string

text \<open>\<open>yaml\<close> lays a document over a configuration.\<close>

definition config_Load :: "(string \<Rightarrow> Config \<Rightarrow> Config option) \<Rightarrow> (string \<Rightarrow> file_read) \<Rightarrow> (string \<Rightarrow> string) \<Rightarrow> string \<Rightarrow> config_error + Config" where
  "config_Load yaml readFile env path =
     (let finish = (\<lambda>c. let c' = applyEnvOverrides env c in case config_validate c' of Some e \<Rightarrow> Inl e | None \<Rightarrow> Inr c')
      in if path = [] then finish config_defaults
         else case readFile path of
             FileData d \<Rightarrow> (case yaml d config_defaults of None \<Rightarrow> Inl ParseConfig | Some c \<Rightarrow> finish c)
           | FileMissing \<Rightarrow> finish config_defaults
           | FileError e \<Rightarrow> Inl (ReadConfig e))"

section \<open>Migrations (\<^verbatim>\<open>migrate.go\<close>)\<close>

record Migration =
  mg_Version :: int
  mg_Name :: string
  mg_SQL :: string

datatype migrate_error = ReadDirFailed | MalformedName string | MalformedVersion string | ReadMigration string | DuplicateVersion int
  | AcquireFailed pgerr | LockFailed pgerr | EnsureTableFailed pgerr | ReadAppliedFailed pgerr
  | BeginMigration int pgerr | ApplyFailed int string | RecordFailed int pgerr | CommitMigration int pgerr

definition parseMigrationFilename :: "string \<Rightarrow> migrate_error + int \<times> string" where
  "parseMigrationFilename filename =
     (let base = (case cut_suffix filename ''.sql'' of Some b \<Rightarrow> b | None \<Rightarrow> filename)
      in case go_cut base (CHR ''_'') of
           None \<Rightarrow> Inl (MalformedName filename)
         | Some (v, name) \<Rightarrow> (case parse_int v of None \<Rightarrow> Inl (MalformedVersion filename) | Some version \<Rightarrow> Inr (version, name)))"

text \<open>A directory entry: name, directory flag, and the content when it can be read.\<close>

fun load_loop :: "(string \<times> bool \<times> string option) list \<Rightarrow> migrate_error + Migration list" where
  "load_loop [] = Inr []"
| "load_loop ((name, isDir, data) # es) =
     (if isDir \<or> \<not> has_suffix name ''.sql'' then load_loop es
      else case parseMigrationFilename name of
          Inl e \<Rightarrow> Inl e
        | Inr (version, n) \<Rightarrow> (case data of
            None \<Rightarrow> Inl (ReadMigration name)
          | Some sql \<Rightarrow> (case load_loop es of Inl e \<Rightarrow> Inl e | Inr ms \<Rightarrow> Inr (\<lparr>mg_Version = version, mg_Name = n, mg_SQL = sql\<rparr> # ms))))"

fun duplicate_version :: "Migration list \<Rightarrow> int option" where
  "duplicate_version (a # b # ms) = (if mg_Version b = mg_Version a then Some (mg_Version b) else duplicate_version (b # ms))"
| "duplicate_version _ = None"

definition LoadMigrations :: "(string \<times> bool \<times> string option) list option \<Rightarrow> migrate_error + Migration list" where
  "LoadMigrations dir = (case dir of
      None \<Rightarrow> Inl ReadDirFailed
    | Some entries \<Rightarrow> (case load_loop entries of
        Inl e \<Rightarrow> Inl e
      | Inr ms \<Rightarrow> let sorted_ms = sort_key mg_Version ms
                  in case duplicate_version sorted_ms of Some v \<Rightarrow> Inl (DuplicateVersion v) | None \<Rightarrow> Inr sorted_ms))"

text \<open>The database: an abstract schema and the rows of \<^verbatim>\<open>schema_migrations\<close>, the calls of one migration as their links.
  \<open>run\<close> executes a script on the schema, or fails.\<close>

record tx_links =
  tx_begin :: "pgerr link"
  tx_record :: "pgerr link"
  tx_commit :: "pgerr link"

type_synonym 's schema_state = "'s \<times> (int \<times> string) list"

definition applyMigration :: "(string \<Rightarrow> 's \<Rightarrow> string + 's) \<Rightarrow> tx_links \<Rightarrow> Migration \<Rightarrow> 's schema_state \<Rightarrow> 's schema_state \<times> (migrate_error + unit)" where
  "applyMigration run k mig st = (case st of (s, rows) \<Rightarrow>
     (case tx_begin k of
        Down e \<Rightarrow> (st, Inl (BeginMigration (mg_Version mig) e)) | Lost e \<Rightarrow> (st, Inl (BeginMigration (mg_Version mig) e))
      | Up \<Rightarrow> (case run (mg_SQL mig) s of
          Inl e \<Rightarrow> (st, Inl (ApplyFailed (mg_Version mig) e))
        | Inr s' \<Rightarrow>
            if list_ex (\<lambda>(v, _). v = mg_Version mig) rows then (st, Inl (RecordFailed (mg_Version mig) (PgError uniqueViolationCode)))
            else (case tx_record k of
              Down e \<Rightarrow> (st, Inl (RecordFailed (mg_Version mig) e)) | Lost e \<Rightarrow> (st, Inl (RecordFailed (mg_Version mig) e))
            | Up \<Rightarrow> (let st' = (s', rows @ [(mg_Version mig, mg_Name mig)]) in
                case tx_commit k of
                  Down e \<Rightarrow> (st, Inl (CommitMigration (mg_Version mig) e))
                | Lost e \<Rightarrow> (st', Inl (CommitMigration (mg_Version mig) e))
                | Up \<Rightarrow> (st', Inr ()))))))"

fun migrate_loop ::
  "(string \<Rightarrow> 's \<Rightarrow> string + 's) \<Rightarrow> (int \<Rightarrow> tx_links) \<Rightarrow> int list \<Rightarrow> Migration list \<Rightarrow> int list \<Rightarrow> 's schema_state \<Rightarrow>
   's schema_state \<times> int list \<times> migrate_error option" where
  "migrate_loop run ks already [] applied st = (st, applied, None)"
| "migrate_loop run ks already (m # ms) applied st =
     (if mg_Version m \<in> set already then migrate_loop run ks already ms applied st
      else case applyMigration run (ks (mg_Version m)) m st of
          (st', Inl e) \<Rightarrow> (st', applied, Some e)
        | (st', Inr _) \<Rightarrow> migrate_loop run ks already ms (applied @ [mg_Version m]) st')"

definition appliedVersions :: "pgerr link \<Rightarrow> 's schema_state \<Rightarrow> migrate_error + int list" where
  "appliedVersions l st = (case l of Up \<Rightarrow> Inr (map fst (snd st)) | Down e \<Rightarrow> Inl (ReadAppliedFailed e) | Lost e \<Rightarrow> Inl (ReadAppliedFailed e))"

text \<open>The whole run holds the advisory lock, so runs of several replicas follow one another.\<close>

record migrate_links =
  ml_acquire :: "pgerr link"
  ml_lock :: "pgerr link"
  ml_table :: "pgerr link"
  ml_read :: "pgerr link"
  ml_tx :: "int \<Rightarrow> tx_links"

definition Migrate :: "(string \<Rightarrow> 's \<Rightarrow> string + 's) \<Rightarrow> migrate_links \<Rightarrow> Migration list \<Rightarrow> 's schema_state \<Rightarrow> 's schema_state \<times> int list \<times> migrate_error option" where
  "Migrate run K migrations st = (case ml_acquire K of
      Down e \<Rightarrow> (st, [], Some (AcquireFailed e)) | Lost e \<Rightarrow> (st, [], Some (AcquireFailed e))
    | Up \<Rightarrow> (case ml_lock K of
        Down e \<Rightarrow> (st, [], Some (LockFailed e)) | Lost e \<Rightarrow> (st, [], Some (LockFailed e))
      | Up \<Rightarrow> (case ml_table K of
          Down e \<Rightarrow> (st, [], Some (EnsureTableFailed e)) | Lost e \<Rightarrow> (st, [], Some (EnsureTableFailed e))
        | Up \<Rightarrow> (case appliedVersions (ml_read K) st of
            Inl e \<Rightarrow> (st, [], Some e)
          | Inr already \<Rightarrow> migrate_loop run (ml_tx K) already migrations [] st))))"

section \<open>Health (\<^verbatim>\<open>health.go\<close>)\<close>

record health_result =
  hr_Name :: string
  hr_OK :: bool
  hr_Error :: string

record health_report =
  hp_OK :: bool
  hp_Checks :: "health_result list"

text \<open>A check and the outcome of its probe.\<close>

fun evaluate_loop :: "(string \<times> string option) list \<Rightarrow> health_report \<Rightarrow> health_report" where
  "evaluate_loop [] rep = rep"
| "evaluate_loop ((name, err) # cs) rep = (case err of
      None \<Rightarrow> evaluate_loop cs (rep\<lparr>hp_Checks := hp_Checks rep @ [\<lparr>hr_Name = name, hr_OK = True, hr_Error = []\<rparr>]\<rparr>)
    | Some e \<Rightarrow> evaluate_loop cs (rep\<lparr>hp_OK := False, hp_Checks := hp_Checks rep @ [\<lparr>hr_Name = name, hr_OK = False, hr_Error = e\<rparr>]\<rparr>))"

definition Evaluate :: "(string \<times> string option) list \<Rightarrow> health_report" where
  "Evaluate checks = evaluate_loop checks \<lparr>hp_OK = True, hp_Checks = []\<rparr>"

definition LivenessHandler :: "string response" where
  "LivenessHandler = RespBody 200 ''ok''"

definition ReadinessHandler :: "(string \<times> string option) list \<Rightarrow> health_report response" where
  "ReadinessHandler checks = (let report = Evaluate checks in RespBody (if hp_OK report then 200 else 503) report)"

lemma evaluate_loop_exact:
  "evaluate_loop cs rep = \<lparr>hp_OK = (hp_OK rep \<and> list_all (\<lambda>(_, err). err = None) cs),
     hp_Checks = hp_Checks rep @ map (\<lambda>(n, err). \<lparr>hr_Name = n, hr_OK = (err = None), hr_Error = (case err of None \<Rightarrow> [] | Some e \<Rightarrow> e)\<rparr>) cs\<rparr>"
  by (induction cs rep rule: evaluate_loop.induct) (auto split: option.splits)

section \<open>Model catalogue (\<^verbatim>\<open>models.go\<close>)\<close>

record ModelObject =
  mo_ID :: string
  mo_Object :: string
  mo_Created :: int
  mo_OwnedBy :: string

definition unix :: "int \<Rightarrow> int" where "unix t = t div second_ns"

definition ModelsHandler :: "pgerr link \<Rightarrow> string \<Rightarrow> model_row list \<Rightarrow> ModelObject list response" where
  "ModelsHandler l requestID models = (case Model_List l models of
      Inl e \<Rightarrow> WriteStorageError requestID e
    | Inr ms \<Rightarrow> RespBody 200 (map (\<lambda>m. \<lparr>mo_ID = nm_RepoURL (mdl_fields m), mo_Object = ''model'', mo_Created = unix (mdl_CreatedAt m), mo_OwnedBy = ''redline''\<rparr>) ms))"

record ModelDetailView =
  md_ID :: string
  md_fields :: new_model
  md_CreatedAt :: int

definition model_detail_view :: "model_row \<Rightarrow> ModelDetailView" where
  "model_detail_view m = \<lparr>md_ID = mdl_ID m, md_fields = mdl_fields m, md_CreatedAt = unix (mdl_CreatedAt m)\<rparr>"

definition ModelCatalogHandler :: "pgerr link \<Rightarrow> string \<Rightarrow> model_row list \<Rightarrow> ModelDetailView list response" where
  "ModelCatalogHandler l requestID models = (case Model_List l models of
      Inl e \<Rightarrow> WriteStorageError requestID e | Inr ms \<Rightarrow> RespBody 200 (map model_detail_view ms))"

definition ModelDetailHandler :: "pgerr link \<Rightarrow> string \<Rightarrow> string \<Rightarrow> model_row list \<Rightarrow> ModelDetailView response" where
  "ModelDetailHandler l requestID i models = (case Model_GetByID l i models of
      Inl e \<Rightarrow> WriteStorageError requestID e | Inr m \<Rightarrow> RespBody 200 (model_detail_view m))"

section \<open>Benchmarks (\<^verbatim>\<open>bench/suite.go\<close>, \<^verbatim>\<open>db/benchmark_runs.go\<close>, \<^verbatim>\<open>api/benchmarks.go\<close>)\<close>

record Task =
  tk_Name :: string
  tk_Prompt :: string
  tk_ExpectedSubstring :: string

definition DefaultSuite :: "Task list" where
  "DefaultSuite =
     [\<lparr>tk_Name = ''arithmetic-addition'', tk_Prompt = ''What is 12 + 7? Answer with just the number.'', tk_ExpectedSubstring = ''19''\<rparr>,
      \<lparr>tk_Name = ''arithmetic-multiplication'', tk_Prompt = ''What is 6 * 7? Answer with just the number.'', tk_ExpectedSubstring = ''42''\<rparr>,
      \<lparr>tk_Name = ''factual-capital'', tk_Prompt = ''What is the capital of France? Answer with just the city name.'', tk_ExpectedSubstring = ''paris''\<rparr>,
      \<lparr>tk_Name = ''factual-ordering'', tk_Prompt = ''Which is larger, 100 or 99? Answer with just the number.'', tk_ExpectedSubstring = ''100''\<rparr>,
      \<lparr>tk_Name = ''instruction-following'', tk_Prompt = ''Repeat the word '' @ [CHR 0x27] @ ''redline'' @ [CHR 0x27] @ '' exactly once.'', tk_ExpectedSubstring = ''redline''\<rparr>]"

record TaskResult =
  tr_Task :: Task
  tr_Response :: string
  tr_Passed :: bool

record bench_result =
  br_Tasks :: "TaskResult list"
  br_PassedCount :: int
  br_Score :: rat

record SamplingConfig =
  sg_Model :: string
  sg_Temperature :: rat
  sg_TopP :: rat
  sg_Seed :: "int option"

definition bench_request :: "SamplingConfig \<Rightarrow> Task \<Rightarrow> CompletionRequest" where
  "bench_request cfg task = \<lparr>cq_RequestID = ''bench-'' @ tk_Name task, cq_Model = sg_Model cfg,
     cq_Messages = [\<lparr>msg_Role = ''user'', msg_Content = tk_Prompt task\<rparr>], cq_Temperature = sg_Temperature cfg, cq_TopP = sg_TopP cfg, cq_MaxTokens = 0\<rparr>"

definition bench_task :: "(CompletionRequest \<Rightarrow> inference_error + CompletionResponse) \<Rightarrow> SamplingConfig \<Rightarrow> Task \<Rightarrow> TaskResult" where
  "bench_task completeF cfg task = (case completeF (bench_request cfg task) of
      Inl _ \<Rightarrow> \<lparr>tr_Task = task, tr_Response = [], tr_Passed = False\<rparr>
    | Inr resp \<Rightarrow> \<lparr>tr_Task = task, tr_Response = cp_Content resp,
        tr_Passed = contains_sub (to_lower (cp_Content resp)) (to_lower (tk_ExpectedSubstring task))\<rparr>)"

definition bench_Run :: "(CompletionRequest \<Rightarrow> inference_error + CompletionResponse) \<Rightarrow> Task list \<Rightarrow> SamplingConfig \<Rightarrow> bench_result" where
  "bench_Run completeF suite cfg =
     (let tasks = map (bench_task completeF cfg) suite; passed = int (length (filter tr_Passed tasks))
      in \<lparr>br_Tasks = tasks, br_PassedCount = passed, br_Score = (if suite \<noteq> [] then of_int passed / of_nat (length suite) else 0)\<rparr>)"

record NewBenchmarkRun =
  nb_DeploymentID :: string
  nb_ModelID :: string
  nb_Precision :: string
  nb_Temperature :: rat
  nb_TopP :: rat
  nb_Seed :: "int option"
  nb_TaskCount :: int
  nb_PassedCount :: int
  nb_Score :: rat

record BenchmarkRun =
  bk_ID :: string
  bk_fields :: NewBenchmarkRun
  bk_CreatedAt :: int

definition BenchmarkRun_Create :: "pgerr link \<Rightarrow> string \<Rightarrow> int \<Rightarrow> NewBenchmarkRun \<Rightarrow> BenchmarkRun list \<Rightarrow> BenchmarkRun list \<times> (db_error + BenchmarkRun)" where
  "BenchmarkRun_Create l newid now run t = insert_row l (\<lambda>b. bk_ID b = newid) \<lparr>bk_ID = newid, bk_fields = run, bk_CreatedAt = now\<rparr> t"

definition BenchmarkRun_ListByModel :: "pgerr link \<Rightarrow> string \<Rightarrow> BenchmarkRun list \<Rightarrow> db_error + BenchmarkRun list" where
  "BenchmarkRun_ListByModel l modelID t = query_rows l (\<lambda>b. nb_ModelID (bk_fields b) = modelID) bk_CreatedAt t"

record BenchmarkRunView =
  bv_ID :: string
  bv_fields :: NewBenchmarkRun
  bv_CreatedAt :: int
  bv_Tasks :: "TaskResult list"

definition benchmarkRunView :: "BenchmarkRun \<Rightarrow> BenchmarkRunView" where
  "benchmarkRunView b = \<lparr>bv_ID = bk_ID b, bv_fields = bk_fields b, bv_CreatedAt = unix (bk_CreatedAt b), bv_Tasks = []\<rparr>"

record createBenchmarkRunRequest =
  cb_DeploymentID :: string
  cb_Precision :: string
  cb_Temperature :: rat
  cb_TopP :: rat
  cb_Seed :: "int option"

definition CreateBenchmarkRunHandler ::
  "pgerr link \<Rightarrow> pgerr link \<Rightarrow> (CompletionRequest \<Rightarrow> inference_error + CompletionResponse) \<Rightarrow> string \<Rightarrow> int \<Rightarrow> string \<Rightarrow> createBenchmarkRunRequest option \<Rightarrow>
   deployments \<Rightarrow> BenchmarkRun list \<Rightarrow> BenchmarkRun list \<times> BenchmarkRunView response" where
  "CreateBenchmarkRunHandler lg lc completeF newid now requestID body deployments runs = (case body of
      None \<Rightarrow> (runs, apierror_Write 400 CodeValidation ''malformed request body'' requestID)
    | Some req \<Rightarrow>
        if cb_DeploymentID req = [] then (runs, apierror_Write 400 CodeValidation ''deployment_id is required'' requestID)
        else if cb_Temperature req < 0 \<or> 2 < cb_Temperature req then (runs, apierror_Write 400 CodeValidation ''temperature must be between 0 and 2'' requestID)
        else if cb_TopP req \<le> 0 \<or> 1 < cb_TopP req then (runs, apierror_Write 400 CodeValidation ''top_p must be greater than 0 and at most 1'' requestID)
        else (case Deployment_GetByID lg (cb_DeploymentID req) deployments of
            Inl e \<Rightarrow> (runs, WriteStorageError requestID e)
          | Inr d \<Rightarrow>
              (let precision = (if cb_Precision req = [] then ''fp16'' else cb_Precision req);
                   result = bench_Run completeF DefaultSuite \<lparr>sg_Model = dep_ModelID d, sg_Temperature = cb_Temperature req, sg_TopP = cb_TopP req, sg_Seed = cb_Seed req\<rparr>
               in case BenchmarkRun_Create lc newid now \<lparr>nb_DeploymentID = dep_ID d, nb_ModelID = dep_ModelID d, nb_Precision = precision,
                    nb_Temperature = cb_Temperature req, nb_TopP = cb_TopP req, nb_Seed = cb_Seed req, nb_TaskCount = int (length (br_Tasks result)),
                    nb_PassedCount = br_PassedCount result, nb_Score = br_Score result\<rparr> runs of
                      (runs', Inl e) \<Rightarrow> (runs', WriteStorageError requestID e)
                    | (runs', Inr b) \<Rightarrow> (runs', RespBody 201 ((benchmarkRunView b)\<lparr>bv_Tasks := br_Tasks result\<rparr>)))))"

definition ListBenchmarkRunsHandler :: "pgerr link \<Rightarrow> string \<Rightarrow> string \<Rightarrow> BenchmarkRun list \<Rightarrow> BenchmarkRunView list response" where
  "ListBenchmarkRunsHandler l requestID modelID runs =
     (if modelID = [] then apierror_Write 400 CodeValidation ''model_id query parameter is required'' requestID
      else case BenchmarkRun_ListByModel l modelID runs of Inl e \<Rightarrow> WriteStorageError requestID e | Inr bs \<Rightarrow> RespBody 200 (map benchmarkRunView bs))"

text \<open>A score is between zero and one, and the seed has no influence: it is stored but never reaches the backend.\<close>

lemma bench_Run_score: "0 \<le> br_Score (bench_Run c suite cfg) \<and> br_Score (bench_Run c suite cfg) \<le> 1"
proof -
  have "length (filter tr_Passed (map (bench_task c cfg) suite)) \<le> length suite" using length_filter_le [of tr_Passed "map (bench_task c cfg) suite"] by simp
  then show ?thesis by (auto simp: bench_Run_def Let_def divide_le_eq_1)
qed

lemma bench_Run_seed: "bench_Run c suite (cfg\<lparr>sg_Seed := x\<rparr>) = bench_Run c suite cfg"
  by (simp add: bench_Run_def bench_task_def [abs_def] bench_request_def [abs_def])

section \<open>Facts about configuration\<close>

text \<open>A configuration that loads has every required key, and its metrics listener is not the public one.\<close>

lemma config_Load_valid:
  assumes "config_Load yaml readFile env path = Inr c"
  shows "cf_ListenAddr c \<noteq> [] \<and> cf_MetricsListenAddr c \<noteq> [] \<and> cf_MetricsListenAddr c \<noteq> cf_ListenAddr c \<and> cf_Environment c \<noteq> [] \<and> cf_LogLevel c \<noteq> []
    \<and> cf_DatabaseURL c \<noteq> [] \<and> cf_JWTSigningKey c \<noteq> [] \<and> cf_RedisAddr c \<noteq> []"
proof -
  have "config_validate c = None" using assms
    by (auto simp: config_Load_def Let_def split: if_splits file_read.splits option.splits)
  then show ?thesis by (auto simp: config_validate_def Let_def split: if_splits)
qed

section \<open>Facts about migrations\<close>

lemma duplicate_version_None: "sorted (map mg_Version ms) \<Longrightarrow> duplicate_version ms = None \<Longrightarrow> sorted_wrt (<) (map mg_Version ms)"
proof (induction ms rule: duplicate_version.induct)
  case (1 a b ms)
  then have s: "sorted_wrt (<) (map mg_Version (b # ms))" and ab: "mg_Version a < mg_Version b" by (auto split: if_splits)
  then show ?case by (auto dest: order.strict_trans)
qed simp_all

lemma LoadMigrations_sorted: "LoadMigrations dir = Inr ms \<Longrightarrow> sorted_wrt (<) (map mg_Version ms)"
  by (auto simp: LoadMigrations_def Let_def split: option.splits sum.splits intro!: duplicate_version_None)

text \<open>The scripts of a list of migrations, one after the other.\<close>

fun run_all :: "(string \<Rightarrow> 's \<Rightarrow> string + 's) \<Rightarrow> Migration list \<Rightarrow> 's \<Rightarrow> string + 's" where
  "run_all run [] s = Inr s"
| "run_all run (m # ms) s = (case run (mg_SQL m) s of Inl e \<Rightarrow> Inl e | Inr s' \<Rightarrow> run_all run ms s')"

lemma run_all_append: "run_all run (ms @ [m]) s = (case run_all run ms s of Inl e \<Rightarrow> Inl e | Inr s' \<Rightarrow> run (mg_SQL m) s')"
  by (induction ms arbitrary: s) (auto split: sum.splits)

definition at_prefix :: "(string \<Rightarrow> 's \<Rightarrow> string + 's) \<Rightarrow> 's \<Rightarrow> Migration list \<Rightarrow> nat \<Rightarrow> 's schema_state \<Rightarrow> bool" where
  "at_prefix run s0 ms k st \<longleftrightarrow> k \<le> length ms \<and> snd st = map (\<lambda>m. (mg_Version m, mg_Name m)) (take k ms) \<and> run_all run (take k ms) s0 = Inr (fst st)"

lemma applyMigration_prefix:
  assumes "at_prefix run s0 ms k st" "k < length ms" "applyMigration run l (ms ! k) st = (st', r)"
  shows "(r = Inr () \<longrightarrow> at_prefix run s0 ms (Suc k) st') \<and> (at_prefix run s0 ms k st' \<or> at_prefix run s0 ms (Suc k) st')"
proof -
  have "take (Suc k) ms = take k ms @ [ms ! k]" using assms(2) by (rule take_Suc_conv_app_nth)
  then show ?thesis using assms
    by (auto simp: applyMigration_def at_prefix_def run_all_append Let_def split: link.splits sum.splits if_splits prod.splits)
qed

lemma migrate_loop_rest:
  assumes "distinct (map mg_Version ms)"
  shows "at_prefix run s0 ms k st \<Longrightarrow> set already \<subseteq> mg_Version ` set (take k ms) \<Longrightarrow>
    migrate_loop run ks already (drop k ms) app st = (st', app', e) \<Longrightarrow>
    \<exists>k'. at_prefix run s0 ms k' st' \<and> k \<le> k' \<and> (e = None \<longrightarrow> k' = length ms \<and> app' = app @ map mg_Version (drop k ms))"
proof (induction "length ms - k" arbitrary: k st app)
  case 0
  then show ?case by (intro exI [of _ k]) (simp add: at_prefix_def)
next
  case (Suc n)
  then have k: "k < length ms" by simp
  have d: "drop k ms = ms ! k # drop (Suc k) ms" using k by (rule Cons_nth_drop_Suc [symmetric])
  have new: "mg_Version (ms ! k) \<notin> mg_Version ` set (take k ms)"
    using assms k by (auto simp: in_set_conv_nth distinct_conv_nth)
  have nin: "mg_Version (ms ! k) \<notin> set already" using new Suc.prems(2) by blast
  obtain st1 r where a: "applyMigration run (ks (mg_Version (ms ! k))) (ms ! k) st = (st1, r)" by fastforce
  note P = applyMigration_prefix [OF Suc.prems(1) k a]
  show ?case
  proof (cases r)
    case (Inl x)
    then have "st' = st1" "e = Some x" using Suc.prems(3) nin a by (simp_all add: d)
    then show ?thesis using P le_SucI by blast
  next
    case (Inr u)
    then have run: "migrate_loop run ks already (drop (Suc k) ms) (app @ [mg_Version (ms ! k)]) st1 = (st', app', e)"
      using Suc.prems(3) nin a by (simp add: d)
    have "set already \<subseteq> mg_Version ` set (take (Suc k) ms)" using Suc.prems(2) k by (auto simp: take_Suc_conv_app_nth)
    moreover have "n = length ms - Suc k" "at_prefix run s0 ms (Suc k) st1" using Suc.hyps(2) P Inr by simp_all
    ultimately obtain k' where "at_prefix run s0 ms k' st'" "Suc k \<le> k'"
      "e = None \<longrightarrow> k' = length ms \<and> app' = (app @ [mg_Version (ms ! k)]) @ map mg_Version (drop (Suc k) ms)"
      using Suc.hyps(1) [OF _ _ _ run] by blast
    then show ?thesis using d by (intro exI [of _ k']) simp
  qed
qed

lemma migrate_loop_skip: "mg_Version ` set xs \<subseteq> set already \<Longrightarrow> migrate_loop run ks already (xs @ ys) app st = migrate_loop run ks already ys app st"
  by (induction xs) auto

lemma Migrate_prefix:
  assumes "distinct (map mg_Version ms)" "at_prefix run s0 ms k st" "Migrate run K ms st = (st', app, e)"
  shows "\<exists>k'. at_prefix run s0 ms k' st' \<and> k \<le> k' \<and> (e = None \<longrightarrow> k' = length ms \<and> app = map mg_Version (drop k ms))"
proof (cases "ml_acquire K = Up \<and> ml_lock K = Up \<and> ml_table K = Up \<and> ml_read K = Up")
  case True
  let ?already = "map fst (snd st)"
  have al: "set ?already = mg_Version ` set (take k ms)" using assms(2) by (force simp: at_prefix_def)
  have "migrate_loop run (ml_tx K) ?already ms [] st = migrate_loop run (ml_tx K) ?already (take k ms @ drop k ms) [] st" by simp
  also have "\<dots> = migrate_loop run (ml_tx K) ?already (drop k ms) [] st" by (rule migrate_loop_skip) (simp only: al subset_refl)
  finally have "migrate_loop run (ml_tx K) ?already (drop k ms) [] st = (st', app, e)" using assms(3) True by (simp add: Migrate_def appliedVersions_def)
  from migrate_loop_rest [OF assms(1,2) _ this] show ?thesis using al by simp
next
  case False
  then have "st' = st \<and> e \<noteq> None" using assms(3) by (auto simp: Migrate_def appliedVersions_def split: link.splits)
  then show ?thesis using assms(2) by blast
qed

section \<open>Properties\<close>

text \<open>
  C40. Migrations are applied in version order and exactly once: starting from an empty record, after any number of runs by any replicas, with
  connections, scripts, records and commits failing anywhere, the schema is the result of the first few
  migrations, each run once, and the record lists exactly those; a run that reports success has applied all the remaining
  ones, and a later run applies nothing.
\<close>

theorem migrations_exactly_once:
  assumes "LoadMigrations dir = Inr ms"
  shows "\<exists>k. at_prefix run s0 ms k (fold (\<lambda>K st. fst (Migrate run K ms st)) Ks (s0, []))
    \<and> (\<forall>K st' app. Migrate run K ms (fold (\<lambda>K st. fst (Migrate run K ms st)) Ks (s0, [])) = (st', app, None) \<longrightarrow>
        at_prefix run s0 ms (length ms) st' \<and> app = map mg_Version (drop k ms)
        \<and> (\<forall>K' st'' app''. Migrate run K' ms st' = (st'', app'', None) \<longrightarrow> st'' = st' \<and> app'' = []))"
proof -
  have d: "distinct (map mg_Version ms)" using LoadMigrations_sorted [OF assms] by (simp add: strict_sorted_iff)
  have "\<exists>k. at_prefix run s0 ms k (fold (\<lambda>K st. fst (Migrate run K ms st)) Ks st)" if "at_prefix run s0 ms k st" for k st
    using that
  proof (induction Ks arbitrary: k st)
    case (Cons K Ks)
    obtain st1 app e where m: "Migrate run K ms st = (st1, app, e)" by (metis prod_cases3)
    then have "fold (\<lambda>K st. fst (Migrate run K ms st)) (K # Ks) st = fold (\<lambda>K st. fst (Migrate run K ms st)) Ks st1" by simp
    then show ?case using Migrate_prefix [OF d Cons.prems m] Cons.IH by metis
  qed auto
  moreover have "at_prefix run s0 ms 0 (s0, [])" by (simp add: at_prefix_def)
  ultimately obtain k where k: "at_prefix run s0 ms k (fold (\<lambda>K st. fst (Migrate run K ms st)) Ks (s0, []))" by blast
  have full: "st'' = st' \<and> app'' = []" if "at_prefix run s0 ms (length ms) st'" "Migrate run K' ms st' = (st'', app'', None)" for K' st' st'' app''
    using Migrate_prefix [OF d that] that(1) by (cases st', cases st'') (auto simp: at_prefix_def)
  show ?thesis
  proof (intro exI [of _ k] conjI allI impI k)
    fix K st' app
    assume m: "Migrate run K ms (fold (\<lambda>K st. fst (Migrate run K ms st)) Ks (s0, [])) = (st', app, None)"
    from Migrate_prefix [OF d k m] show "at_prefix run s0 ms (length ms) st'" "app = map mg_Version (drop k ms)" by auto
    then show "st'' = st'" "app'' = []" if "Migrate run K' ms st' = (st'', app'', None)" for K' st'' app'' using full that by blast+
  qed
qed

definition links_up :: migrate_links where
  "links_up = \<lparr>ml_acquire = Up, ml_lock = Up, ml_table = Up, ml_read = Up, ml_tx = (\<lambda>_. \<lparr>tx_begin = Up, tx_record = Up, tx_commit = Up\<rparr>)\<rparr>"

theorem migrations_exactly_once_witness:
  "\<exists>st. at_prefix (\<lambda>q s. Inr (s @ q)) [] [\<lparr>mg_Version = 1, mg_Name = ''a'', mg_SQL = ''X''\<rparr>, \<lparr>mg_Version = 2, mg_Name = ''b'', mg_SQL = ''Y''\<rparr>] 2 st \<and> fst st = ''XY''"
proof -
  let ?ms = "[\<lparr>mg_Version = 1, mg_Name = ''a'', mg_SQL = ''X''\<rparr>, \<lparr>mg_Version = 2, mg_Name = ''b'', mg_SQL = ''Y''\<rparr>]"
  let ?run = "\<lambda>q s. Inr (s @ q) :: string + string"
  have n: "parseMigrationFilename ''2_b.sql'' = Inr (2, ''b'')" "parseMigrationFilename ''1_a.sql'' = Inr (1, ''a'')" by code_simp+
  have suf: "has_suffix ''2_b.sql'' ''.sql''" "has_suffix ''1_a.sql'' ''.sql''" by code_simp+
  have load: "LoadMigrations (Some [(''2_b.sql'', False, Some ''Y''), (''1_a.sql'', False, Some ''X'')]) = Inr ?ms"
    by (simp add: LoadMigrations_def n suf)
  have "\<exists>st' app. Migrate ?run links_up ?ms ([], []) = (st', app, None) \<and> fst st' = ''XY''"
    by (simp add: Migrate_def links_up_def appliedVersions_def applyMigration_def)
  then obtain st' app where m: "Migrate ?run links_up ?ms ([], []) = (st', app, None)" "fst st' = ''XY''" by blast
  have "at_prefix ?run [] ?ms (length ?ms) st'"
    using migrations_exactly_once [OF load, of ?run "[]" "[]"] m(1) by (cases st') auto
  then show ?thesis using m(2) by (intro exI [of _ st']) (simp add: numeral_2_eq_2)
qed



end
