(* ===== verification/Telemetry.thy ===== *)
theory Telemetry
  imports Http Float64
begin

text \<open>
  Runs and their telemetry: the repositories of \<^verbatim>\<open>inference_runs.go\<close>, \<^verbatim>\<open>telemetry_samples.go\<close> and
  \<^verbatim>\<open>orgs.go\<close>, the retention job (\<^verbatim>\<open>telemetry_retention.go\<close>), the live hub
  (\<^verbatim>\<open>telemetry/hub.go\<close>, \<^verbatim>\<open>publisher.go\<close>, \<^verbatim>\<open>gpu_publisher.go\<close>) and the cost of a session
  (\<^verbatim>\<open>billing/cost.go\<close>, \<^verbatim>\<open>api/session_cost.go\<close>). Milliseconds, bytes and dollars that are floats in the code are rational
  numbers here; rounding is left out. The utilisation of a device is the double that was read. Times are nanoseconds.
\<close>

section \<open>Runs, samples and organisations\<close>

record InferenceRun =
  ir_ID :: string
  ir_DeploymentID :: string
  ir_ModelID :: string
  ir_UserID :: string
  ir_StartedAt :: int
  ir_CompletedAt :: "int option"
  ir_PromptTokens :: int
  ir_CompletionTokens :: int
  ir_AllocationID :: "string option"
  ir_TTFTMs :: "rat option"
  ir_TPOTMs :: "rat option"
  ir_VRAMPeakBytes :: "int option"
  ir_CostUSD :: "rat option"

definition InferenceRun_Create ::
  "pgerr link \<Rightarrow> string \<Rightarrow> int \<Rightarrow> string \<Rightarrow> string \<Rightarrow> string \<Rightarrow> string \<Rightarrow> InferenceRun list \<Rightarrow> InferenceRun list \<times> (db_error + InferenceRun)" where
  "InferenceRun_Create l newid now deploymentID modelID userID allocationID t =
     insert_row l (\<lambda>r. ir_ID r = newid)
       \<lparr>ir_ID = newid, ir_DeploymentID = deploymentID, ir_ModelID = modelID, ir_UserID = userID, ir_StartedAt = now, ir_CompletedAt = None,
        ir_PromptTokens = 0, ir_CompletionTokens = 0, ir_AllocationID = Some allocationID, ir_TTFTMs = None, ir_TPOTMs = None,
        ir_VRAMPeakBytes = None, ir_CostUSD = None\<rparr> t"

definition InferenceRun_GetByID :: "pgerr link \<Rightarrow> string \<Rightarrow> InferenceRun list \<Rightarrow> db_error + InferenceRun" where
  "InferenceRun_GetByID l i t = query_row l (\<lambda>r. ir_ID r = i) t"

record RunTelemetry =
  rtm_PromptTokens :: int
  rtm_CompletionTokens :: int
  rtm_TTFTMs :: "rat option"
  rtm_TPOTMs :: "rat option"
  rtm_VRAMPeakBytes :: "int option"
  rtm_CostUSD :: "rat option"

definition CompleteWithTelemetry ::
  "pgerr link \<Rightarrow> int \<Rightarrow> string \<Rightarrow> RunTelemetry \<Rightarrow> InferenceRun list \<Rightarrow> InferenceRun list \<times> (db_error + unit)" where
  "CompleteWithTelemetry l now i m t = exec_update l (\<lambda>r. ir_ID r = i)
     (\<lambda>r. r\<lparr>ir_CompletedAt := Some now, ir_PromptTokens := rtm_PromptTokens m, ir_CompletionTokens := rtm_CompletionTokens m,
            ir_TTFTMs := rtm_TTFTMs m, ir_TPOTMs := rtm_TPOTMs m, ir_VRAMPeakBytes := rtm_VRAMPeakBytes m, ir_CostUSD := rtm_CostUSD m\<rparr>) t"

record TelemetrySample =
  sm_ID :: nat
  sm_RunID :: string
  sm_SampledAt :: int
  sm_TTFTMs :: "rat option"
  sm_TPOTMs :: "rat option"
  sm_VRAMBytes :: "int option"

text \<open>The foreign key to \<^verbatim>\<open>inference_runs\<close> refuses a sample of an unknown run.\<close>

definition TelemetrySample_Create ::
  "pgerr link \<Rightarrow> nat \<Rightarrow> int \<Rightarrow> string \<Rightarrow> rat option \<Rightarrow> rat option \<Rightarrow> int option \<Rightarrow> InferenceRun list \<Rightarrow> TelemetrySample list \<Rightarrow>
   TelemetrySample list \<times> (db_error + TelemetrySample)" where
  "TelemetrySample_Create l newid now runID ttft tpot vram runs t =
     (if list_ex (\<lambda>r. ir_ID r = runID) runs
      then insert_row l (\<lambda>s. sm_ID s = newid) \<lparr>sm_ID = newid, sm_RunID = runID, sm_SampledAt = now, sm_TTFTMs = ttft, sm_TPOTMs = tpot, sm_VRAMBytes = vram\<rparr> t
      else (t, Inl (DbFailure (PgError ''23503''))))"

definition query_asc :: "pgerr link \<Rightarrow> ('r \<Rightarrow> bool) \<Rightarrow> ('r \<Rightarrow> int) \<Rightarrow> 'r list \<Rightarrow> db_error + 'r list" where
  "query_asc l p k t = (case snd (roundtrip l (\<lambda>t. (t, sort_key k (filter p t))) t) of Inl e \<Rightarrow> Inl (mapError e) | Inr rs \<Rightarrow> Inr rs)"

definition TelemetrySample_ListByRun :: "pgerr link \<Rightarrow> string \<Rightarrow> TelemetrySample list \<Rightarrow> db_error + TelemetrySample list" where
  "TelemetrySample_ListByRun l runID t = query_asc l (\<lambda>s. sm_RunID s = runID) sm_SampledAt t"

record Org =
  og_ID :: string
  og_Name :: string
  og_CreatedAt :: int
  og_UpdatedAt :: int

definition Org_Create :: "pgerr link \<Rightarrow> string \<Rightarrow> int \<Rightarrow> string \<Rightarrow> Org list \<Rightarrow> Org list \<times> (db_error + Org)" where
  "Org_Create l newid now name t = insert_row l (\<lambda>g. og_ID g = newid) \<lparr>og_ID = newid, og_Name = name, og_CreatedAt = now, og_UpdatedAt = now\<rparr> t"

definition Org_GetByID :: "pgerr link \<Rightarrow> string \<Rightarrow> Org list \<Rightarrow> db_error + Org" where
  "Org_GetByID l i t = query_row l (\<lambda>g. og_ID g = i) t"

definition Org_List :: "pgerr link \<Rightarrow> Org list \<Rightarrow> db_error + Org list" where
  "Org_List l t = query_asc l (\<lambda>_. True) og_CreatedAt t"

section \<open>Retention (\<^verbatim>\<open>telemetry_retention.go\<close>)\<close>

record TelemetryHourlyAggregate =
  ha_ModelID :: string
  ha_BucketHour :: int
  ha_TTFTSumMs :: rat
  ha_TTFTCount :: int
  ha_TPOTSumMs :: rat
  ha_TPOTCount :: int
  ha_VRAMSumBytes :: rat
  ha_VRAMCount :: int
  ha_VRAMMaxBytes :: "int option"

definition safeAvg :: "rat \<Rightarrow> int \<Rightarrow> rat option" where
  "safeAvg s count = (if count = 0 then None else Some (s / of_int count))"

definition AvgTTFTMs :: "TelemetryHourlyAggregate \<Rightarrow> rat option" where "AvgTTFTMs a = safeAvg (ha_TTFTSumMs a) (ha_TTFTCount a)"
definition AvgTPOTMs :: "TelemetryHourlyAggregate \<Rightarrow> rat option" where "AvgTPOTMs a = safeAvg (ha_TPOTSumMs a) (ha_TPOTCount a)"
definition AvgVRAMBytes :: "TelemetryHourlyAggregate \<Rightarrow> rat option" where "AvgVRAMBytes a = safeAvg (ha_VRAMSumBytes a) (ha_VRAMCount a)"

text \<open>The SQL aggregates over a nullable column, and \<^verbatim>\<open>GREATEST\<close>, which ignores \<open>NULL\<close>.\<close>

definition sql_sum :: "('r \<Rightarrow> 'v option) \<Rightarrow> 'r list \<Rightarrow> 'v :: comm_monoid_add" where
  "sql_sum f rs = sum_list (map (\<lambda>r. case f r of None \<Rightarrow> 0 | Some v \<Rightarrow> v) rs)"

definition sql_count :: "('r \<Rightarrow> 'v option) \<Rightarrow> 'r list \<Rightarrow> int" where
  "sql_count f rs = int (length (filter (\<lambda>r. f r \<noteq> None) rs))"

fun greatest :: "int option \<Rightarrow> int option \<Rightarrow> int option" where
  "greatest None b = b"
| "greatest (Some a) None = Some a"
| "greatest (Some a) (Some b) = Some (max a b)"

definition sql_max :: "('r \<Rightarrow> int option) \<Rightarrow> 'r list \<Rightarrow> int option" where
  "sql_max f rs = foldr (\<lambda>r. greatest (f r)) rs None"

definition hour_ns :: int where "hour_ns = 3600 * 1000000000"

definition date_trunc_hour :: "int \<Rightarrow> int" where
  "date_trunc_hour t = t - t mod hour_ns"

text \<open>The join with the runs gives a sample its model; its group is the model and the hour.\<close>

definition sample_key :: "InferenceRun list \<Rightarrow> TelemetrySample \<Rightarrow> (string \<times> int) option" where
  "sample_key runs s = map_option (\<lambda>r. (ir_ModelID r, date_trunc_hour (sm_SampledAt s))) (find (\<lambda>r. ir_ID r = sm_RunID s) runs)"

definition group_row :: "string \<times> int \<Rightarrow> TelemetrySample list \<Rightarrow> TelemetryHourlyAggregate" where
  "group_row k ss = \<lparr>ha_ModelID = fst k, ha_BucketHour = snd k,
     ha_TTFTSumMs = sql_sum sm_TTFTMs ss, ha_TTFTCount = sql_count sm_TTFTMs ss,
     ha_TPOTSumMs = sql_sum sm_TPOTMs ss, ha_TPOTCount = sql_count sm_TPOTMs ss,
     ha_VRAMSumBytes = of_int (sql_sum sm_VRAMBytes ss), ha_VRAMCount = sql_count sm_VRAMBytes ss,
     ha_VRAMMaxBytes = sql_max sm_VRAMBytes ss\<rparr>"

definition merge_row :: "TelemetryHourlyAggregate \<Rightarrow> TelemetryHourlyAggregate \<Rightarrow> TelemetryHourlyAggregate" where
  "merge_row a x = a\<lparr>ha_TTFTSumMs := ha_TTFTSumMs a + ha_TTFTSumMs x, ha_TTFTCount := ha_TTFTCount a + ha_TTFTCount x,
     ha_TPOTSumMs := ha_TPOTSumMs a + ha_TPOTSumMs x, ha_TPOTCount := ha_TPOTCount a + ha_TPOTCount x,
     ha_VRAMSumBytes := ha_VRAMSumBytes a + ha_VRAMSumBytes x, ha_VRAMCount := ha_VRAMCount a + ha_VRAMCount x,
     ha_VRAMMaxBytes := greatest (ha_VRAMMaxBytes a) (ha_VRAMMaxBytes x)\<rparr>"

definition ha_key :: "TelemetryHourlyAggregate \<Rightarrow> string \<times> int" where
  "ha_key a = (ha_ModelID a, ha_BucketHour a)"

text \<open>\<^verbatim>\<open>INSERT \<dots> ON CONFLICT DO UPDATE\<close> of one group.\<close>

definition upsert_row :: "TelemetryHourlyAggregate \<Rightarrow> TelemetryHourlyAggregate list \<Rightarrow> TelemetryHourlyAggregate list" where
  "upsert_row x t = (if list_ex (\<lambda>a. ha_key a = ha_key x) t then map (\<lambda>a. if ha_key a = ha_key x then merge_row a x else a) t else t @ [x])"

definition downsample :: "InferenceRun list \<Rightarrow> TelemetrySample list \<Rightarrow> TelemetryHourlyAggregate list \<Rightarrow> TelemetryHourlyAggregate list" where
  "downsample runs old t =
     fold (\<lambda>k. upsert_row (group_row k (filter (\<lambda>s. sample_key runs s = Some k) old))) (remdups (List.map_filter (sample_key runs) old)) t"

datatype retention_error = BeginFailed pgerr | DownsampleFailed pgerr | PruneFailed pgerr | CommitFailed pgerr

type_synonym telemetry_state = "TelemetrySample list \<times> TelemetryHourlyAggregate list"

text \<open>One transaction: nothing is visible before the commit, and a commit whose reply is lost has either happened or not.\<close>

definition Retention_Run ::
  "pgerr link \<Rightarrow> pgerr link \<Rightarrow> pgerr link \<Rightarrow> pgerr link \<Rightarrow> InferenceRun list \<Rightarrow> int \<Rightarrow> int \<Rightarrow> telemetry_state \<Rightarrow> telemetry_state \<times> (retention_error + int)" where
  "Retention_Run lb li ld lc runs now threshold st = (case st of (samples, aggs) \<Rightarrow>
     let old = filter (\<lambda>s. sm_SampledAt s < now - threshold) samples;
         st' = (filter (\<lambda>s. \<not> sm_SampledAt s < now - threshold) samples, downsample runs old aggs)
     in case lb of Down e \<Rightarrow> (st, Inl (BeginFailed e)) | Lost e \<Rightarrow> (st, Inl (BeginFailed e))
     | Up \<Rightarrow> (case li of Down e \<Rightarrow> (st, Inl (DownsampleFailed e)) | Lost e \<Rightarrow> (st, Inl (DownsampleFailed e))
       | Up \<Rightarrow> (case ld of Down e \<Rightarrow> (st, Inl (PruneFailed e)) | Lost e \<Rightarrow> (st, Inl (PruneFailed e))
         | Up \<Rightarrow> (case lc of Down e \<Rightarrow> (st, Inl (CommitFailed e)) | Lost e \<Rightarrow> (st', Inl (CommitFailed e))
           | Up \<Rightarrow> (st', Inr (int (length old)))))))"

definition ListHourlyAggregates :: "pgerr link \<Rightarrow> string \<Rightarrow> TelemetryHourlyAggregate list \<Rightarrow> db_error + TelemetryHourlyAggregate list" where
  "ListHourlyAggregates l modelID t = query_asc l (\<lambda>a. ha_ModelID a = modelID) ha_BucketHour t"

section \<open>Live telemetry (\<^verbatim>\<open>telemetry\<close>)\<close>

record Sample =
  sp_RunID :: string
  sp_TTFTMs :: "rat option"
  sp_TPOTMs :: "rat option"
  sp_VRAMBytes :: "int option"
  sp_VRAMTotalBytes :: "int option"
  sp_GPUUtilizationPct :: "f64 option"
  sp_SampledAt :: int

definition subscriberBufferSize :: nat where "subscriberBufferSize = 32"

text \<open>The subscribers with the unread samples of their channels; a subscriber is a number that is never reused.\<close>

record hub =
  hb_subs :: "(nat \<times> Sample list) list"
  hb_next :: nat

definition NewHub :: hub where "NewHub = \<lparr>hb_subs = [], hb_next = 0\<rparr>"

definition Subscribe :: "hub \<Rightarrow> hub \<times> nat" where
  "Subscribe h = (h\<lparr>hb_subs := hb_subs h @ [(hb_next h, [])], hb_next := hb_next h + 1\<rparr>, hb_next h)"

definition unsubscribe :: "nat \<Rightarrow> hub \<Rightarrow> hub" where
  "unsubscribe i h = h\<lparr>hb_subs := filter (\<lambda>(j, _). j \<noteq> i) (hb_subs h)\<rparr>"

definition hub_Publish :: "Sample \<Rightarrow> hub \<Rightarrow> hub" where
  "hub_Publish s h = h\<lparr>hb_subs := map (\<lambda>(j, buf). (j, if length buf < subscriberBufferSize then buf @ [s] else buf)) (hb_subs h)\<rparr>"

definition SubscriberCount :: "hub \<Rightarrow> nat" where
  "SubscriberCount h = length (hb_subs h)"

text \<open>A subscriber reads the oldest sample of its channel.\<close>

definition hub_receive :: "nat \<Rightarrow> hub \<Rightarrow> hub \<times> Sample option" where
  "hub_receive i h = (case map_of (hb_subs h) i of
      Some (s # _) \<Rightarrow> (h\<lparr>hb_subs := map (\<lambda>(j, buf). (j, if j = i then tl buf else buf)) (hb_subs h)\<rparr>, Some s)
    | _ \<Rightarrow> (h, None))"

definition blank_sample :: "string \<Rightarrow> int \<Rightarrow> Sample" where
  "blank_sample i now = \<lparr>sp_RunID = i, sp_TTFTMs = None, sp_TPOTMs = None, sp_VRAMBytes = None, sp_VRAMTotalBytes = None, sp_GPUUtilizationPct = None,
     sp_SampledAt = now\<rparr>"

text \<open>\<^verbatim>\<open>Duration.Milliseconds\<close> truncates.\<close>

definition ObserveTimeToFirstToken :: "string \<Rightarrow> int \<Rightarrow> int \<Rightarrow> hub \<Rightarrow> hub" where
  "ObserveTimeToFirstToken model d now h = hub_Publish ((blank_sample model now)\<lparr>sp_TTFTMs := Some (of_int (tdiv d 1000000))\<rparr>) h"

definition ObserveInterTokenLatency :: "string \<Rightarrow> int \<Rightarrow> int \<Rightarrow> hub \<Rightarrow> hub" where
  "ObserveInterTokenLatency model d now h = hub_Publish ((blank_sample model now)\<lparr>sp_TPOTMs := Some (of_int (tdiv d 1000000))\<rparr>) h"

record GPUSample =
  gs_DeviceIndex :: string
  gs_UtilizationPercent :: f64
  gs_VRAMUsedBytes :: int
  gs_VRAMTotalBytes :: int

text \<open>One tick of \<^verbatim>\<open>PublishGPUSamples\<close>; a failed poll publishes nothing.\<close>

definition publish_gpu_tick :: "(string + GPUSample list) \<Rightarrow> int \<Rightarrow> hub \<Rightarrow> hub" where
  "publish_gpu_tick readings now h = (case readings of
      Inl _ \<Rightarrow> h
    | Inr gs \<Rightarrow> fold (\<lambda>g. hub_Publish ((blank_sample (''gpu:'' @ gs_DeviceIndex g) now)\<lparr>sp_VRAMBytes := Some (gs_VRAMUsedBytes g),
        sp_VRAMTotalBytes := Some (gs_VRAMTotalBytes g), sp_GPUUtilizationPct := Some (gs_UtilizationPercent g)\<rparr>)) gs h)"

section \<open>Cost of a session (\<^verbatim>\<open>billing/cost.go\<close>, \<^verbatim>\<open>api/session_cost.go\<close>)\<close>

type_synonym HourlyRates = "(string \<times> rat) list"

definition RateFor :: "HourlyRates \<Rightarrow> string \<Rightarrow> rat option" where
  "RateFor rates gpuModel = map_of rates gpuModel"

definition ComputeCost :: "int \<Rightarrow> rat \<Rightarrow> rat" where
  "ComputeCost wallTime hourlyRate = of_int wallTime / of_int hour_ns * hourlyRate"

definition defaultGPUHourlyRates :: HourlyRates where
  "defaultGPUHourlyRates = [(''A100'', 5 / 2), (''H100'', 9 / 2), (''L40S'', 9 / 5)]"

record SessionCostView =
  sc_DeploymentID :: string
  sc_GPUModel :: string
  sc_HourlyRateUSD :: "rat option"
  sc_ElapsedSeconds :: rat
  sc_CostUSD :: "rat option"
  sc_ProjectedHourlyUSD :: "rat option"
  sc_IdleSeconds :: rat
  sc_IdleTimeoutSeconds :: rat
  sc_SecondsUntilReap :: rat

definition seconds :: "int \<Rightarrow> rat" where "seconds d = of_int d / 1000000000"

definition SessionCostHandler :: "pgerr link \<Rightarrow> HourlyRates \<Rightarrow> int \<Rightarrow> int \<Rightarrow> string \<Rightarrow> string \<Rightarrow> deployments \<Rightarrow> SessionCostView response" where
  "SessionCostHandler l rates idleTimeout now requestID i deployments = (case Deployment_GetByID l i deployments of
      Inl e \<Rightarrow> WriteStorageError requestID e
    | Inr d \<Rightarrow>
        (let elapsed = now - dep_CreatedAt d; idleFor = now - dep_UpdatedAt d;
             until = (if seconds (idleTimeout - idleFor) < 0 then 0 else seconds (idleTimeout - idleFor));
             rate = (case dep_GPUModel d of None \<Rightarrow> None | Some g \<Rightarrow> RateFor rates g)
         in RespBody 200 \<lparr>sc_DeploymentID = dep_ID d, sc_GPUModel = (case dep_GPUModel d of None \<Rightarrow> [] | Some g \<Rightarrow> g), sc_HourlyRateUSD = rate,
              sc_ElapsedSeconds = seconds elapsed, sc_CostUSD = map_option (ComputeCost elapsed) rate, sc_ProjectedHourlyUSD = rate,
              sc_IdleSeconds = seconds idleFor, sc_IdleTimeoutSeconds = seconds idleTimeout, sc_SecondsUntilReap = until\<rparr>))"

section \<open>The hub\<close>

definition hub_ok :: "hub \<Rightarrow> bool" where
  "hub_ok h \<longleftrightarrow> distinct (map fst (hb_subs h)) \<and> (\<forall>(j, buf) \<in> set (hb_subs h). j < hb_next h \<and> length buf \<le> subscriberBufferSize)"

inductive hub_step :: "hub \<Rightarrow> hub \<Rightarrow> bool" where
  hub_subscribe: "hub_step h (fst (Subscribe h))"
| hub_unsubscribe: "hub_step h (unsubscribe i h)"
| hub_publish: "hub_step h (hub_Publish s h)"
| hub_read: "hub_step h (fst (hub_receive i h))"

lemma hub_ok_map:
  assumes "hub_ok h" "\<And>j b. length b \<le> subscriberBufferSize \<Longrightarrow> length (f j b) \<le> subscriberBufferSize"
  shows "hub_ok (h\<lparr>hb_subs := map (\<lambda>(j, b). (j, f j b)) (hb_subs h)\<rparr>)"
proof -
  have "fst \<circ> (\<lambda>(j, b). (j, f j b)) = fst" by auto
  then show ?thesis using assms by (auto simp: hub_ok_def)
qed

lemma hub_step_ok: "hub_step h h' \<Longrightarrow> hub_ok h \<Longrightarrow> hub_ok h'"
proof (induction rule: hub_step.induct)
  case (hub_subscribe h)
  then show ?case by (force simp: hub_ok_def Subscribe_def)
next
  case (hub_unsubscribe h i)
  then show ?case by (auto simp: hub_ok_def unsubscribe_def distinct_map_filter)
next
  case (hub_publish h s)
  then show ?case unfolding hub_Publish_def by (rule hub_ok_map) simp
next
  case (hub_read h i)
  have "hub_ok (h\<lparr>hb_subs := map (\<lambda>(j, buf). (j, if j = i then tl buf else buf)) (hb_subs h)\<rparr>)" using hub_read by (rule hub_ok_map) auto
  then show ?case using hub_read by (simp add: hub_receive_def split: option.splits list.splits)
qed

text \<open>Publishing never blocks on a full subscriber, and every subscriber with room gets the sample in order.\<close>

lemma hub_publish_delivers:
  assumes "hub_ok h" "map_of (hb_subs h) i = Some buf"
  shows "map_of (hb_subs (hub_Publish s h)) i = Some (if length buf < subscriberBufferSize then buf @ [s] else buf)"
proof -
  have "map_of (map (\<lambda>(j, b). (j, f b)) xs) i = map_option f (map_of xs i)" for f :: "Sample list \<Rightarrow> Sample list" and xs
    by (induction xs) auto
  then show ?thesis using assms(2) by (simp add: hub_Publish_def)
qed

section \<open>Aggregation\<close>

lemma greatest_None [simp]: "greatest a None = a"
  by (cases a) simp_all

lemma greatest_assoc: "greatest (greatest a b) c = greatest a (greatest b c)"
  by (cases a; cases b; cases c) (simp_all add: max.assoc)

lemma greatest_comm: "greatest a b = greatest b a"
  by (cases a; cases b) (simp_all add: max.commute)

lemma greatest_left_comm: "greatest a (greatest b c) = greatest b (greatest a c)"
  by (metis greatest_assoc greatest_comm)

lemma sql_sum_split: "sql_sum f (filter P rs) + sql_sum f (filter (\<lambda>r. \<not> P r) rs) = sql_sum f rs"
  by (induction rs) (auto simp: sql_sum_def add.assoc add.left_commute)

lemma sql_count_split: "sql_count f (filter P rs) + sql_count f (filter (\<lambda>r. \<not> P r) rs) = sql_count f rs"
  by (induction rs) (auto simp: sql_count_def)

lemma sql_max_split: "greatest (sql_max f (filter P rs)) (sql_max f (filter (\<lambda>r. \<not> P r) rs)) = sql_max f rs"
  by (induction rs) (simp_all add: sql_max_def greatest_assoc, metis greatest_left_comm)

lemma group_row_split: "merge_row (group_row k (filter P ss)) (group_row k (filter (\<lambda>s. \<not> P s) ss)) = group_row k ss"
  by (simp add: merge_row_def group_row_def sql_sum_split sql_count_split sql_max_split flip: of_int_add)

lemma merge_row_assoc: "merge_row (merge_row a x) y = merge_row a (merge_row x y)"
  by (simp add: merge_row_def greatest_assoc add.assoc)

lemma merge_row_empty [simp]: "merge_row a (group_row k []) = a"
  by (simp add: merge_row_def group_row_def sql_sum_def sql_count_def sql_max_def)

lemma merge_empty_row [simp]: "merge_row (group_row k []) (group_row k ss) = group_row k ss"
  by (simp add: merge_row_def group_row_def sql_sum_def sql_count_def sql_max_def)

lemma ha_key_row [simp]: "ha_key (group_row k ss) = k" "ha_key (merge_row a x) = ha_key a"
  by (simp_all add: ha_key_def group_row_def merge_row_def)

text \<open>The stored row of a bucket (an empty one when there is none).\<close>

definition stored :: "TelemetryHourlyAggregate list \<Rightarrow> string \<times> int \<Rightarrow> TelemetryHourlyAggregate" where
  "stored t k = (case find (\<lambda>a. ha_key a = k) t of Some a \<Rightarrow> a | None \<Rightarrow> group_row k [])"

lemma stored_upsert:
  "stored (upsert_row (group_row j ss) t) k = (if k = j then merge_row (stored t k) (group_row j ss) else stored t k)"
proof (cases "list_ex (\<lambda>a. ha_key a = j) t")
  case True
  let ?g = "\<lambda>a. if ha_key a = j then merge_row a (group_row j ss) else a"
  have "find (\<lambda>a. ha_key a = k) (map ?g t) = map_option ?g (find (\<lambda>a. ha_key a = k) t)" by (rule find_map_keep) simp
  moreover have "find (\<lambda>a. ha_key a = j) t \<noteq> None" using True by (auto simp: find_None_iff list_ex_iff)
  ultimately show ?thesis using True by (auto simp: stored_def upsert_row_def dest: find_SomeD split: option.splits)
next
  case False
  then have "find (\<lambda>a. ha_key a = j) t = None" by (simp add: find_None_ex)
  then show ?thesis using False by (auto simp: stored_def upsert_row_def find_append split: option.splits)
qed

lemma stored_fold:
  "distinct ks \<Longrightarrow> stored (fold (\<lambda>k. upsert_row (group_row k (G k))) ks t) k = (if k \<in> set ks then merge_row (stored t k) (group_row k (G k)) else stored t k)"
  by (induction ks arbitrary: t) (auto simp: stored_upsert)

lemma map_filter_none: "k \<notin> set (List.map_filter f xs) \<Longrightarrow> filter (\<lambda>s. f s = Some k) xs = []"
  by (induction xs) (auto simp: List.map_filter_simps split: option.splits)

lemma stored_downsample:
  "stored (downsample runs old t) k = merge_row (stored t k) (group_row k (filter (\<lambda>s. sample_key runs s = Some k) old))"
proof (cases "k \<in> set (List.map_filter (sample_key runs) old)")
  case True
  then show ?thesis by (simp add: downsample_def stored_fold)
next
  case False
  then have "filter (\<lambda>s. sample_key runs s = Some k) old = []" by (rule map_filter_none)
  then show ?thesis using False by (simp add: downsample_def stored_fold)
qed

text \<open>What a query over both tables reports for a bucket.\<close>

definition bucket_total :: "InferenceRun list \<Rightarrow> telemetry_state \<Rightarrow> string \<times> int \<Rightarrow> TelemetryHourlyAggregate" where
  "bucket_total runs st k = merge_row (stored (snd st) k) (group_row k (filter (\<lambda>s. sample_key runs s = Some k) (fst st)))"

lemma bucket_total_downsample:
  "bucket_total runs (filter (\<lambda>s. \<not> P s) samples, downsample runs (filter P samples) aggs) k = bucket_total runs (samples, aggs) k"
proof -
  let ?key = "\<lambda>s. sample_key runs s = Some k"
  have comm: "filter ?key (filter Q samples) = filter Q (filter ?key samples)" for Q by (simp add: filter_filter conj_commute)
  have "merge_row (group_row k (filter ?key (filter P samples))) (group_row k (filter ?key (filter (\<lambda>s. \<not> P s) samples))) = group_row k (filter ?key samples)"
    unfolding comm by (rule group_row_split)
  then show ?thesis by (simp only: bucket_total_def fst_conv snd_conv stored_downsample merge_row_assoc)
qed

lemma Retention_Run_total: "bucket_total runs (fst (Retention_Run lb li ld lc runs now threshold st)) k = bucket_total runs st k"
proof -
  obtain samples aggs where st: "st = (samples, aggs)" by fastforce
  have "fst (Retention_Run lb li ld lc runs now threshold st) \<in> {st, (filter (\<lambda>s. \<not> sm_SampledAt s < now - threshold) samples,
      downsample runs (filter (\<lambda>s. sm_SampledAt s < now - threshold) samples) aggs)}"
    by (simp add: Retention_Run_def st Let_def split: link.splits)
  then show ?thesis using bucket_total_downsample [of runs "\<lambda>s. sm_SampledAt s < now - threshold" samples aggs k] st by auto
qed

section \<open>Properties\<close>



end
