(* ===== verification/Gateway.thy ===== *)
theory Gateway
  imports Routes Operations Telemetry
begin

text \<open>
  The gateway as \<^verbatim>\<open>app/app.go\<close> assembles it: the route table of the \<^verbatim>\<open>ServeMux\<close>, the authentication in front of each
  route, the allocation churn guard of deployment creation, and one function from a request and the whole state of the
  program to the new state and the answer. Paths are those the mux has cleaned. The body decoders are parameters; the
  answer of the telemetry socket, which the WebSocket library writes, is one too.
\<close>

section \<open>Route table\<close>

datatype endpoint = EpHealthz | EpReadyz | EpChat | EpModels | EpLogin | EpRefresh | EpLogout | EpCreateKey | EpListKeys | EpRevokeKey
  | EpCatalog | EpModelDetail | EpSessionCost | EpDashboardChat | EpTelemetry | EpCreateBenchmark | EpListBenchmarks
  | EpCreateIngestion | EpGetIngestion | EpCreateDeployment | EpSchedulerStatus | EpAcceptTOS | EpSuspend

definition mux_table :: "(string \<times> endpoint) list" where
  "mux_table =
    [(''GET /healthz'', EpHealthz), (''GET /readyz'', EpReadyz), (''POST /v1/chat/completions'', EpChat), (''GET /v1/models'', EpModels),
     (''POST /v1/auth/login'', EpLogin), (''POST /v1/auth/refresh'', EpRefresh), (''POST /v1/auth/logout'', EpLogout),
     (''POST /v1/api-keys'', EpCreateKey), (''GET /v1/api-keys'', EpListKeys), (''DELETE /v1/api-keys/{id}'', EpRevokeKey),
     (''GET /v1/dashboard/models'', EpCatalog), (''GET /v1/dashboard/models/{id}'', EpModelDetail),
     (''GET /v1/dashboard/deployments/{id}/session'', EpSessionCost), (''POST /v1/dashboard/chat/completions'', EpDashboardChat),
     (''GET /v1/dashboard/ws/telemetry'', EpTelemetry), (''POST /v1/dashboard/benchmarks'', EpCreateBenchmark),
     (''GET /v1/dashboard/benchmarks'', EpListBenchmarks), (''POST /v1/ingestions'', EpCreateIngestion), (''GET /v1/ingestions/{id}'', EpGetIngestion),
     (''POST /v1/dashboard/deployments'', EpCreateDeployment), (''GET /v1/dashboard/scheduler/status'', EpSchedulerStatus),
     (''POST /v1/dashboard/tos/accept'', EpAcceptTOS), (''POST /v1/admin/users/{id}/suspend'', EpSuspend)]"

text \<open>A pattern is a method and a path; a segment \<^verbatim>\<open>{id}\<close> matches one segment that is not empty, and \<^verbatim>\<open>GET\<close> also
  matches \<^verbatim>\<open>HEAD\<close>.\<close>

definition pattern_method :: "string \<Rightarrow> string" where
  "pattern_method p = (case go_cut p (CHR '' '') of None \<Rightarrow> [] | Some (m, _) \<Rightarrow> m)"

definition pattern_segments :: "string \<Rightarrow> string list" where
  "pattern_segments p = (case go_cut p (CHR '' '') of None \<Rightarrow> [] | Some (_, path) \<Rightarrow> go_split path (CHR ''/''))"

definition is_wild :: "string \<Rightarrow> bool" where
  "is_wild s \<longleftrightarrow> s = ''{id}''"

fun segments_match :: "string list \<Rightarrow> string list \<Rightarrow> bool" where
  "segments_match [] [] = True"
| "segments_match (p # ps) (s # ss) = ((if is_wild p then s \<noteq> [] else p = s) \<and> segments_match ps ss)"
| "segments_match _ _ = False"

fun path_value :: "string list \<Rightarrow> string list \<Rightarrow> string" where
  "path_value (p # ps) (s # ss) = (if is_wild p then s else path_value ps ss)"
| "path_value _ _ = []"

definition method_match :: "string \<Rightarrow> string \<Rightarrow> bool" where
  "method_match p m \<longleftrightarrow> p = m \<or> p = ''GET'' \<and> m = ''HEAD''"

definition route_match :: "string \<Rightarrow> string \<Rightarrow> string \<Rightarrow> bool" where
  "route_match m path p \<longleftrightarrow> method_match (pattern_method p) m \<and> segments_match (pattern_segments p) (go_split path (CHR ''/''))"

datatype mux_result = MuxFound endpoint string | MuxMethodNotAllowed | MuxNotFound

definition mux_lookup :: "string \<Rightarrow> string \<Rightarrow> mux_result" where
  "mux_lookup m path = (case find (\<lambda>(p, _). route_match m path p) mux_table of
      Some (p, ep) \<Rightarrow> MuxFound ep (path_value (pattern_segments p) (go_split path (CHR ''/'')))
    | None \<Rightarrow> if list_ex (\<lambda>(p, _). segments_match (pattern_segments p) (go_split path (CHR ''/''))) mux_table
              then MuxMethodNotAllowed else MuxNotFound)"

text \<open>Two patterns overlap when some path matches both. No two patterns of the table with compatible methods do, so the
  table determines the route: the mux has no precedence to decide.\<close>

fun segments_overlap :: "string list \<Rightarrow> string list \<Rightarrow> bool" where
  "segments_overlap [] [] = True"
| "segments_overlap (p # ps) (q # qs) = ((is_wild p \<or> is_wild q \<or> p = q) \<and> segments_overlap ps qs)"
| "segments_overlap _ _ = False"

lemma segments_match_overlap: "segments_match ps ss \<Longrightarrow> segments_match qs ss \<Longrightarrow> segments_overlap ps qs"
  by (induction ps ss arbitrary: qs rule: segments_match.induct) (case_tac qs; auto split: if_splits)+

definition patterns_overlap :: "string \<Rightarrow> string \<Rightarrow> bool" where
  "patterns_overlap p q \<longleftrightarrow> segments_overlap (pattern_segments p) (pattern_segments q) \<and> pattern_method p = pattern_method q"

lemma table_methods: "list_all (\<lambda>(p, _). pattern_method p \<in> {''GET'', ''POST'', ''DELETE''}) mux_table"
  by code_simp

lemma table_disjoint: "list_all (\<lambda>(p, e). list_all (\<lambda>(q, f). patterns_overlap p q \<longrightarrow> e = f) mux_table) mux_table"
  by code_simp

lemma mux_unique:
  assumes "(p, e) \<in> set mux_table" "(q, f) \<in> set mux_table" "route_match m path p" "route_match m path q"
  shows "e = f"
proof -
  have "pattern_method p = pattern_method q"
    using table_methods assms by (fastforce simp: list_all_iff route_match_def method_match_def)
  moreover have "segments_overlap (pattern_segments p) (pattern_segments q)"
    using assms(3,4) segments_match_overlap by (auto simp: route_match_def)
  ultimately show ?thesis using table_disjoint assms(1,2) by (fastforce simp: list_all_iff patterns_overlap_def)
qed

section \<open>State, configuration and requests\<close>

record ('n, 's) app_state =
  as_redis :: 's
  as_accounts :: accounts
  as_watchdog :: Watchdog
  as_tokens :: "refresh_token list"
  as_models :: "model_row list"
  as_jobs :: ingestion_jobs
  as_runs :: "BenchmarkRun list"
  as_nomad :: 'n
  as_degraded :: bool

record app =
  ap_gateway :: gateway
  ap_bcrypt :: bcrypt
  ap_Environment :: string
  ap_IdleTimeout :: int
  ap_login :: "string \<Rightarrow> (string \<times> string) option"
  ap_scopes :: "string \<Rightarrow> string list option"
  ap_benchmark :: "string \<Rightarrow> createBenchmarkRunRequest option"
  ap_ingestion :: "string \<Rightarrow> (string \<times> string) option"
  ap_deployment :: "string \<Rightarrow> string option"

text \<open>One request and what happens to its calls. \<open>ac_db\<close> and \<open>ac_db2\<close> are the statements of the handler in their order,
  \<open>ac_keys\<close> the lookup of an API key, \<open>ac_q1\<close> and \<open>ac_q2\<close> the two queue calls of an ingestion.\<close>

record app_call =
  ac_method :: string
  ac_path :: string
  ac_request :: request
  ac_body :: string
  ac_refreshCookie :: "string option"
  ac_modelQuery :: string
  ac_now :: int
  ac_newid :: string
  ac_keys :: "pgerr link"
  ac_db :: "pgerr link"
  ac_db2 :: "pgerr link"
  ac_issue :: issue_call
  ac_raw :: "string + string"
  ac_salt :: "string + string"
  ac_q1 :: "rerr link"
  ac_q2 :: "rerr link"
  ac_deploy :: deploy_calls
  ac_churn :: limiter_call
  ac_violation :: violation_links
  ac_suspend :: suspend_links
  ac_chat :: chat_call
  ac_checks :: "(string \<times> string option) list"
  ac_socket :: "unit response"

datatype app_body = BText string | BHealth health_report | BModels "ModelObject list" | BKey KeyView | BKeys "KeyView list"
  | BCatalog "ModelDetailView list" | BModel ModelDetailView | BCost SessionCostView | BBenchmark BenchmarkRunView
  | BBenchmarks "BenchmarkRunView list" | BJob IngestionJobView | BDeployment DeploymentView | BDegraded bool
  | BSuspension SuspensionView | BChat ChatCompletionResponse | BNone unit

datatype app_reply = AppJSON "app_body response" | AppSSE "sse list"

record app_answer =
  aa_cookies :: "cookie list"
  aa_retry :: "int option"
  aa_reply :: app_reply

definition answer :: "('b \<Rightarrow> app_body) \<Rightarrow> 'b response \<Rightarrow> app_answer" where
  "answer f r = \<lparr>aa_cookies = [], aa_retry = None, aa_reply = AppJSON (map_response f r)\<rparr>"

fun answer_status :: "app_answer \<Rightarrow> int" where
  "answer_status a = (case aa_reply a of AppJSON r \<Rightarrow> resp_status r | AppSSE _ \<Rightarrow> 200)"

section \<open>Deployment creation with the churn guard\<close>

definition ingestionQueueName :: string where "ingestionQueueName = ''ingestion''"
definition deploymentRetryQueueName :: string where "deploymentRetryQueueName = ''deployment-retry''"

definition app_queue :: "string \<Rightarrow> queue" where
  "app_queue name = New_Queue name \<lparr>MaxAttempts = 0, VisibilityTimeout = 0, PollInterval = 0\<rparr>"

definition allocationChurnGuard ::
  "('s, 'x) redis_scheme \<Rightarrow> limiter_call \<Rightarrow> violation_links \<Rightarrow> principal option \<Rightarrow> 's \<times> accounts \<Rightarrow> 's \<times> accounts" where
  "allocationChurnGuard R lc L po sa = (case po of
      None \<Rightarrow> sa
    | Some p \<Rightarrow> (case CheckAllocationChurn R (NewAbuseDetector DefaultAbuseThresholds) lc (pr_UserID p) (fst sa) of
        (s1, r) \<Rightarrow> if r = Inr True
          then fst (RecordViolation R (NewEscalator DefaultEscalationThresholds) L InferenceJobID (pr_UserID p) (s1, snd sa))
          else (s1, snd sa)))"

definition route_create_deployment ::
  "('n, 'y) nomad_scheme \<Rightarrow> ('s, 'x) redis_scheme \<Rightarrow> app \<Rightarrow> app_call \<Rightarrow> principal \<Rightarrow> ('n, 's) app_state \<Rightarrow> ('n, 's) app_state \<times> app_answer" where
  "route_create_deployment N R A c p st =
     (case allocationChurnGuard R (ac_churn c) (ac_violation c) (Some p) (as_redis st, as_accounts st) of (s1, a1) \<Rightarrow>
      (case CreateDeploymentHandler N R (app_queue deploymentRetryQueueName) (ac_deploy c) (req_ID (ac_request c)) (Some p) (ap_deployment A (ac_body c))
              (as_models st) (acc_deps a1, \<lparr>dw_nomad = as_nomad st, dw_redis = s1, dw_degraded = as_degraded st\<rparr>) of
         ((deps, w), resp) \<Rightarrow>
           (st\<lparr>as_redis := dw_redis w, as_accounts := a1\<lparr>acc_deps := deps\<rparr>, as_nomad := dw_nomad w, as_degraded := dw_degraded w\<rparr>,
            answer BDeployment resp)))"

section \<open>Routes\<close>

text \<open>The routes behind \<open>browserAuth\<close>, for the principal it found.\<close>

fun session_route ::
  "('n, 'y) nomad_scheme \<Rightarrow> ('s, 'x) redis_scheme \<Rightarrow> app \<Rightarrow> app_call \<Rightarrow> string \<Rightarrow> principal \<Rightarrow> endpoint \<Rightarrow> ('n, 's) app_state \<Rightarrow>
   ('n, 's) app_state \<times> app_answer" where
  "session_route N R A c i p EpCreateKey st =
     (case CreateAPIKeyHandler (gw_argon (ap_gateway A)) (ac_raw c) (ac_salt c) (ac_db c) (ac_newid c) (ac_now c) (req_ID (ac_request c)) (Some p)
             (ac_body c = []) (ap_scopes A (ac_body c)) (acc_keys (as_accounts st)) of
        (keys, resp) \<Rightarrow> (st\<lparr>as_accounts := (as_accounts st)\<lparr>acc_keys := keys\<rparr>\<rparr>, answer BKey resp))"
| "session_route N R A c i p EpListKeys st =
     (st, answer BKeys (ListAPIKeysHandler (ac_db c) (req_ID (ac_request c)) (Some p) (acc_keys (as_accounts st))))"
| "session_route N R A c i p EpRevokeKey st =
     (case RevokeAPIKeyHandler (ac_db c) (ac_now c) (req_ID (ac_request c)) i (acc_keys (as_accounts st)) of
        (keys, resp) \<Rightarrow> (st\<lparr>as_accounts := (as_accounts st)\<lparr>acc_keys := keys\<rparr>\<rparr>, answer BNone resp))"
| "session_route N R A c i p EpCatalog st = (st, answer BCatalog (ModelCatalogHandler (ac_db c) (req_ID (ac_request c)) (as_models st)))"
| "session_route N R A c i p EpModelDetail st = (st, answer BModel (ModelDetailHandler (ac_db c) (req_ID (ac_request c)) i (as_models st)))"
| "session_route N R A c i p EpSessionCost st =
     (st, answer BCost (SessionCostHandler (ac_db c) defaultGPUHourlyRates (ap_IdleTimeout A) (ac_now c) (req_ID (ac_request c)) i (acc_deps (as_accounts st))))"
| "session_route N R A c i p EpTelemetry st = (st, answer BNone (ac_socket c))"
| "session_route N R A c i p EpCreateBenchmark st =
     (case CreateBenchmarkRunHandler (ac_db c) (ac_db2 c) (be_complete (gw_backend (ap_gateway A)) 0) (ac_newid c) (ac_now c) (req_ID (ac_request c))
             (ap_benchmark A (ac_body c)) (acc_deps (as_accounts st)) (as_runs st) of
        (runs, resp) \<Rightarrow> (st\<lparr>as_runs := runs\<rparr>, answer BBenchmark resp))"
| "session_route N R A c i p EpListBenchmarks st =
     (st, answer BBenchmarks (ListBenchmarkRunsHandler (ac_db c) (req_ID (ac_request c)) (ac_modelQuery c) (as_runs st)))"
| "session_route N R A c i p EpCreateIngestion st =
     (case CreateIngestionHandler R (app_queue ingestionQueueName) (ac_db c) (ac_q1 c) (ac_q2 c) (ac_newid c) (ac_now c) (req_ID (ac_request c))
             (ap_ingestion A (ac_body c)) (as_jobs st, as_redis st) of
        ((jobs, s), resp) \<Rightarrow> (st\<lparr>as_jobs := jobs, as_redis := s\<rparr>, answer BJob resp))"
| "session_route N R A c i p EpGetIngestion st = (st, answer BJob (GetIngestionHandler (ac_db c) (req_ID (ac_request c)) i (as_jobs st)))"
| "session_route N R A c i p EpCreateDeployment st = route_create_deployment N R A c p st"
| "session_route N R A c i p EpSchedulerStatus st =
     (st, answer BDegraded (SchedulerStatusHandler \<lparr>dw_nomad = as_nomad st, dw_redis = as_redis st, dw_degraded = as_degraded st\<rparr>))"
| "session_route N R A c i p EpAcceptTOS st =
     (case AcceptTOSHandler (ac_db c) (ac_now c) (req_ID (ac_request c)) (Some p) (acc_users (as_accounts st)) of
        (us, resp) \<Rightarrow> (st\<lparr>as_accounts := (as_accounts st)\<lparr>acc_users := us\<rparr>\<rparr>, answer BNone resp))"
| "session_route N R A c i p ep st = (st, answer BNone (RespEmpty 404))"

definition browserAuth ::
  "('z) jwt_scheme \<Rightarrow> app \<Rightarrow> app_call \<Rightarrow> (principal \<Rightarrow> 'st \<Rightarrow> 'st \<times> app_answer) \<Rightarrow> 'st \<Rightarrow> 'st \<times> app_answer" where
  "browserAuth J A c next st = (case JWTAuth J (gw_session (ap_gateway A)) (ac_now c) (ac_request c) of
      Inl resp \<Rightarrow> (st, answer BNone resp) | Inr p \<Rightarrow> next p st)"

definition chat_call_of :: "chat_endpoint \<Rightarrow> app_call \<Rightarrow> chat_call" where
  "chat_call_of e c = (ac_chat c)\<lparr>cr_endpoint := e, cr_request := ac_request c, cr_body := ac_body c, cr_keys := ac_keys c, cr_clock := ac_now c\<rparr>"

definition app_chat ::
  "('s, 'x) redis_scheme \<Rightarrow> ('z) jwt_scheme \<Rightarrow> app \<Rightarrow> app_call \<Rightarrow> chat_endpoint \<Rightarrow> ('n, 's) app_state \<Rightarrow> ('n, 's) app_state \<times> app_answer" where
  "app_chat R J A c e st =
     (case chat_route R J (ap_gateway A) (chat_call_of e c) \<lparr>gs_redis = as_redis st, gs_accounts = as_accounts st, gs_watchdog = as_watchdog st\<rparr> of
        (w, retry, reply) \<Rightarrow>
          (st\<lparr>as_redis := gs_redis w, as_accounts := gs_accounts w, as_watchdog := gs_watchdog w\<rparr>,
           \<lparr>aa_cookies = [], aa_retry = retry, aa_reply = (case reply of ChatJSON r \<Rightarrow> AppJSON (map_response BChat r) | ChatSSE out _ \<Rightarrow> AppSSE out)\<rparr>))"

definition cookie_answer :: "cookie list \<Rightarrow> unit response \<Rightarrow> app_answer" where
  "cookie_answer cks r = (answer BNone r)\<lparr>aa_cookies := cks\<rparr>"

definition app_secure :: "app \<Rightarrow> bool" where
  "app_secure A \<longleftrightarrow> ap_Environment A \<noteq> ''development''"

definition app_route ::
  "('n, 'y) nomad_scheme \<Rightarrow> ('s, 'x) redis_scheme \<Rightarrow> ('z) jwt_scheme \<Rightarrow> app \<Rightarrow> app_call \<Rightarrow> endpoint \<Rightarrow> string \<Rightarrow> ('n, 's) app_state \<Rightarrow>
   ('n, 's) app_state \<times> app_answer" where
  "app_route N R J A c ep i st = (case ep of
      EpHealthz \<Rightarrow> (st, answer BText LivenessHandler)
    | EpReadyz \<Rightarrow> (st, answer BHealth (ReadinessHandler (ac_checks c)))
    | EpChat \<Rightarrow> app_chat R J A c ChatAPI st
    | EpDashboardChat \<Rightarrow> app_chat R J A c ChatDashboard st
    | EpModels \<Rightarrow> (case APIKeyAuth (gw_argon (ap_gateway A)) (ac_keys c) (ac_request c) (acc_keys (as_accounts st)) of
        Inl resp \<Rightarrow> (st, answer BNone resp) | Inr p \<Rightarrow> (st, answer BModels (ModelsHandler (ac_db c) (req_ID (ac_request c)) (as_models st))))
    | EpLogin \<Rightarrow> (case LoginHandler (ap_bcrypt A) J (gw_session (ap_gateway A)) (app_secure A) (ac_db c) (ac_issue c) (req_ID (ac_request c))
          (ap_login A (ac_body c)) (acc_users (as_accounts st)) (as_tokens st) of
        (ts, cks, resp) \<Rightarrow> (st\<lparr>as_tokens := ts\<rparr>, cookie_answer cks resp))
    | EpRefresh \<Rightarrow> (case RefreshHandler J (gw_session (ap_gateway A)) (app_secure A) (ac_db c) (ac_db2 c) (ac_issue c) (req_ID (ac_request c))
          (ac_refreshCookie c) (as_tokens st) of
        (ts, cks, resp) \<Rightarrow> (st\<lparr>as_tokens := ts\<rparr>, cookie_answer cks resp))
    | EpLogout \<Rightarrow> (case LogoutHandler J (app_secure A) (ac_db c) (ac_db2 c) (ac_now c) (ac_refreshCookie c) (as_tokens st) of
        (ts, cks, resp) \<Rightarrow> (st\<lparr>as_tokens := ts\<rparr>, cookie_answer cks resp))
    | EpSuspend \<Rightarrow> (case route_suspend_user (gw_argon (ap_gateway A)) (ac_keys c) (ac_suspend c) (ac_request c) i (as_accounts st) of
        (a, resp) \<Rightarrow> (st\<lparr>as_accounts := a\<rparr>, answer BSuspension resp))
    | _ \<Rightarrow> browserAuth J A c (\<lambda>p. session_route N R A c i p ep) st)"

definition app_Handler ::
  "('n, 'y) nomad_scheme \<Rightarrow> ('s, 'x) redis_scheme \<Rightarrow> ('z) jwt_scheme \<Rightarrow> app \<Rightarrow> app_call \<Rightarrow> ('n, 's) app_state \<Rightarrow> ('n, 's) app_state \<times> app_answer" where
  "app_Handler N R J A c st = (case mux_lookup (ac_method c) (ac_path c) of
      MuxNotFound \<Rightarrow> (st, answer BNone (RespEmpty 404))
    | MuxMethodNotAllowed \<Rightarrow> (st, answer BNone (RespEmpty 405))
    | MuxFound ep i \<Rightarrow> app_route N R J A c ep i st)"

section \<open>Requests without credentials\<close>

definition has_session :: "('z) jwt_scheme \<Rightarrow> app \<Rightarrow> app_call \<Rightarrow> bool" where
  "has_session J A c \<longleftrightarrow> (\<exists>p. (JWTAuth J (gw_session (ap_gateway A)) (ac_now c) (ac_request c) :: unit response + principal) = Inr p)"

definition has_key :: "app \<Rightarrow> app_call \<Rightarrow> apikey list \<Rightarrow> bool" where
  "has_key A c keys \<longleftrightarrow> (\<exists>p. (APIKeyAuth (gw_argon (ap_gateway A)) (ac_keys c) (ac_request c) keys :: unit response + principal) = Inr p)"

lemma JWTAuth_poly:
  "(JWTAuth J cfg now r :: 'a response + principal) = Inr p \<longleftrightarrow> (JWTAuth J cfg now r :: 'b response + principal) = Inr p"
  by (auto simp: JWTAuth_def split: option.splits jwt_result.splits)

lemma JWTAuth_Inl_status: "JWTAuth J cfg now r = Inl resp \<Longrightarrow> resp_status resp = 401"
  by (auto simp: JWTAuth_def writeTokenError_def split: option.splits jwt_result.splits if_splits)

lemma APIKeyAuth_poly:
  "(APIKeyAuth A l r keys :: 'a response + principal) = Inr p \<longleftrightarrow> (APIKeyAuth A l r keys :: 'b response + principal) = Inr p"
  by (simp add: APIKeyAuth_Inr_iff)

lemma resp_status_map [simp]: "resp_status (map_response f r) = resp_status r"
  by (cases r) simp_all

lemma no_session_Inl:
  assumes "\<not> has_session J A c"
  shows "\<exists>resp. JWTAuth J (gw_session (ap_gateway A)) (ac_now c) (ac_request c) = (Inl resp :: 'a response + principal) \<and> resp_status resp = 401"
proof (cases "JWTAuth J (gw_session (ap_gateway A)) (ac_now c) (ac_request c) :: 'a response + principal")
  case (Inr p)
  then show ?thesis using assms JWTAuth_poly unfolding has_session_def by blast
qed (simp add: JWTAuth_Inl_status)

lemma no_key_Inl:
  assumes "\<not> has_key A c keys"
  shows "\<exists>resp. APIKeyAuth (gw_argon (ap_gateway A)) (ac_keys c) (ac_request c) keys = (Inl resp :: 'a response + principal) \<and> resp_status resp = 401"
proof (cases "APIKeyAuth (gw_argon (ap_gateway A)) (ac_keys c) (ac_request c) keys :: 'a response + principal")
  case (Inr p)
  then show ?thesis using assms APIKeyAuth_poly unfolding has_key_def by blast
next
  case (Inl resp)
  then show ?thesis using APIKeyAuth_Inl [OF Inl] by (simp add: unauthorized_def)
qed

text \<open>A chat request that authentication refuses changes nothing but the watchdog, which forgets it.\<close>

lemma app_chat_refused:
  assumes "chat_authenticate J (ap_gateway A) (chat_call_of e c) (acc_keys (as_accounts st)) = Inl resp"
  shows "app_chat R J A c e st = (st', ans) \<Longrightarrow>
    \<exists>wd. st' = st\<lparr>as_watchdog := wd\<rparr> \<and> tracked wd \<subseteq> tracked (as_watchdog st) \<and> answer_status ans = resp_status resp"
proof -
  let ?w = "\<lparr>gs_redis = as_redis st, gs_accounts = as_accounts st, gs_watchdog = as_watchdog st\<rparr>"
  have g: "chat_gates R J (ap_gateway A) (chat_call_of e c) (as_redis st, as_accounts st) = ((as_redis st, as_accounts st), GateAuth resp)"
    using assms by (simp add: chat_gates_def)
  obtain w retry reply where r: "chat_route R J (ap_gateway A) (chat_call_of e c) ?w = (w, retry, reply)" by (metis prod_cases3)
  have "gs_redis w = as_redis st" "gs_accounts w = as_accounts st" "tracked (gs_watchdog w) \<subseteq> tracked (as_watchdog st)" "reply = ChatJSON resp"
    using chat_route_state [of R J "ap_gateway A" "chat_call_of e c" ?w] tracked_chat_route [of R J "ap_gateway A" "chat_call_of e c" ?w] r
    by (auto simp: g chat_route_def chat_answer_def)
  then show "app_chat R J A c e st = (st', ans) \<Longrightarrow> ?thesis" by (auto simp: app_chat_def r)
qed

definition public_endpoints :: "endpoint list" where
  "public_endpoints = [EpHealthz, EpReadyz, EpLogin, EpRefresh, EpLogout]"

definition token_endpoints :: "endpoint list" where
  "token_endpoints = [EpLogin, EpRefresh, EpLogout]"

lemma app_route_anonymous:
  assumes "\<not> has_session J A c" "\<not> has_key A c (acc_keys (as_accounts st))" "app_route N R J A c ep i st = (st', ans)"
  shows "st' = st\<lparr>as_tokens := as_tokens st', as_watchdog := as_watchdog st'\<rparr> \<and> tracked (as_watchdog st') \<subseteq> tracked (as_watchdog st)
    \<and> (ep \<notin> set token_endpoints \<longrightarrow> as_tokens st' = as_tokens st) \<and> (ep \<notin> set public_endpoints \<longrightarrow> answer_status ans = 401)"
proof -
  obtain rs where s: "JWTAuth J (gw_session (ap_gateway A)) (ac_now c) (ac_request c) = (Inl rs :: unit response + principal)" "resp_status rs = 401"
    using no_session_Inl [OF assms(1)] by blast
  obtain rc where sc: "JWTAuth J (gw_session (ap_gateway A)) (ac_now c) (ac_request c) = (Inl rc :: ChatCompletionResponse response + principal)" "resp_status rc = 401"
    using no_session_Inl [OF assms(1)] by blast
  obtain rk where k: "APIKeyAuth (gw_argon (ap_gateway A)) (ac_keys c) (ac_request c) (acc_keys (as_accounts st)) = (Inl rk :: unit response + principal)" "resp_status rk = 401"
    using no_key_Inl [OF assms(2)] by blast
  obtain rp where kp: "APIKeyAuth (gw_argon (ap_gateway A)) (ac_keys c) (ac_request c) (acc_keys (as_accounts st)) = (Inl rp :: SuspensionView response + principal)" "resp_status rp = 401"
    using no_key_Inl [OF assms(2)] by blast
  obtain rq where kc: "APIKeyAuth (gw_argon (ap_gateway A)) (ac_keys c) (ac_request c) (acc_keys (as_accounts st)) = (Inl rq :: ChatCompletionResponse response + principal)" "resp_status rq = 401"
    using no_key_Inl [OF assms(2)] by blast
  have b: "browserAuth J A c f st = (st, answer BNone rs)" for f by (simp add: browserAuth_def s)
  have "chat_authenticate J (ap_gateway A) (chat_call_of ChatAPI c) (acc_keys (as_accounts st)) = Inl rq"
    "chat_authenticate J (ap_gateway A) (chat_call_of ChatDashboard c) (acc_keys (as_accounts st)) = Inl rc"
    by (simp_all add: chat_authenticate_def chat_call_of_def kc sc)
  note chat = this [THEN app_chat_refused]
  show ?thesis
  proof (cases ep)
    case EpChat
    with assms(3) chat(1) [of R st' ans] kc show ?thesis by (auto simp: app_route_def public_endpoints_def token_endpoints_def)
  next
    case EpDashboardChat
    with assms(3) chat(2) [of R st' ans] sc show ?thesis by (auto simp: app_route_def public_endpoints_def token_endpoints_def)
  next
    case EpSuspend
    with assms(3) kp show ?thesis by (auto simp: app_route_def public_endpoints_def route_suspend_user_def answer_def)
  qed (use assms(3) s k in \<open>auto simp: app_route_def public_endpoints_def token_endpoints_def b answer_def split: prod.splits\<close>)
qed

end
