(* ===== verification/Isolation.thy ===== *)
theory Isolation
  imports Gateway
begin

text \<open>
  What one tenant's requests can do to another tenant's rows, over the whole gateway: the accounts, keys and deployments of
  the others after any request that carries a session, whatever fails on the way. Suspension, the one operation of the
  request path that writes many rows, touches only the account it is for.
\<close>

section \<open>Rows of another account\<close>

definition others_same :: "string \<Rightarrow> accounts \<Rightarrow> accounts \<Rightarrow> bool" where
  "others_same v a a' \<longleftrightarrow>
     filter (\<lambda>r. usr_ID r = v) (acc_users a') = filter (\<lambda>r. usr_ID r = v) (acc_users a)
   \<and> filter (\<lambda>k. key_UserID k = v) (acc_keys a') = filter (\<lambda>k. key_UserID k = v) (acc_keys a)
   \<and> filter (\<lambda>d. dep_UserID d = Some v) (acc_deps a') = filter (\<lambda>d. dep_UserID d = Some v) (acc_deps a)"

lemma others_same_refl [simp]: "others_same v a a"
  by (simp add: others_same_def)

lemma others_same_trans [trans]: "others_same v a b \<Longrightarrow> others_same v b c \<Longrightarrow> others_same v a c"
  by (simp add: others_same_def)

lemma exec_update_others:
  assumes "\<And>r. p r \<Longrightarrow> \<not> q r \<and> \<not> q (f r)"
  shows "filter q (fst (exec_update l p f t)) = filter q t"
  using exec_update_state [of l p f t] filter_update_other [of p q f t, OF assms] by auto

lemma insert_row_others: "\<not> q r \<Longrightarrow> filter q (fst (insert_row l clash r t)) = filter q t"
  using insert_row_state [of l clash r t] by auto

text \<open>Terminating deployments by id keeps the rows that have none of these ids.\<close>

lemma terminate_row_keeps [simp]: "dep_ID (terminate_row now I r) = dep_ID r" "dep_UserID (terminate_row now I r) = dep_UserID r"
  by (simp_all add: terminate_row_def)

lemma Terminate_state:
  "fst (Deployment_Terminate l l2 now i t) = t \<or> fst (Deployment_Terminate l l2 now i t) = map (terminate_row now {i}) t"
  by (cases l) (auto simp: Deployment_Terminate_def sql_update_def terminate_row_def split: sum.split)

definition ids_apart :: "string \<Rightarrow> string set \<Rightarrow> deployments \<Rightarrow> bool" where
  "ids_apart v I t \<longleftrightarrow> (\<forall>r \<in> set t. dep_ID r \<in> I \<longrightarrow> dep_UserID r \<noteq> Some v)"

lemma Terminate_others:
  assumes "ids_apart v I t" "i \<in> I"
  shows "filter (\<lambda>d. dep_UserID d = Some v) (fst (Deployment_Terminate l l2 now i t)) = filter (\<lambda>d. dep_UserID d = Some v) t"
    and "ids_apart v I (fst (Deployment_Terminate l l2 now i t))"
proof -
  have "filter (\<lambda>d. dep_UserID d = Some v) (map (terminate_row now {i}) t) = filter (\<lambda>d. dep_UserID d = Some v) t"
    using assms by (induction t) (auto simp: ids_apart_def terminate_row_def)
  then show "filter (\<lambda>d. dep_UserID d = Some v) (fst (Deployment_Terminate l l2 now i t)) = filter (\<lambda>d. dep_UserID d = Some v) t"
    using Terminate_state [of l l2 now i t] by auto
  show "ids_apart v I (fst (Deployment_Terminate l l2 now i t))"
    using Terminate_state [of l l2 now i t] assms(1) by (auto simp: ids_apart_def)
qed

lemma suspend_loop_others:
  "ids_apart v (dep_ID ` set ds) (acc_deps a) \<Longrightarrow> others_same v a (fst (suspend_loop L f ds res a))"
proof (induction ds arbitrary: res a)
  case (Cons d ds)
  obtain a1 res1 where st: "(case sl_stop L (f (dep_ID d)) of
            None \<Rightarrow> (a\<lparr>acc_stopped := f (dep_ID d) # acc_stopped a\<rparr>, res)
          | Some e \<Rightarrow> (a, res\<lparr>StopJobErrors := (StopJobErrors res)(dep_ID d \<mapsto> e)\<rparr>)) = (a1, res1)" by fastforce
  have a1: "acc_users a1 = acc_users a" "acc_keys a1 = acc_keys a" "acc_deps a1 = acc_deps a" using st by (auto split: option.splits)
  obtain t r where t: "Deployment_Terminate (sl_term L (dep_ID d)) (sl_read L (dep_ID d)) (sl_now L) (dep_ID d) (acc_deps a1) = (t, r)" by fastforce
  let ?a2 = "a1\<lparr>acc_deps := t\<rparr>"
  note o = Terminate_others [OF Cons.prems, of "dep_ID d" "sl_term L (dep_ID d)" "sl_read L (dep_ID d)" "sl_now L", folded a1(3), unfolded t]
  have s2: "others_same v a ?a2" using o(1) a1 by (simp add: others_same_def)
  have "ids_apart v (dep_ID ` set ds) (acc_deps ?a2)" using o(2) by (simp add: ids_apart_def)
  from others_same_trans [OF s2 Cons.IH [OF this]] show ?case using s2 by (auto simp: st t split: sum.split)
qed simp

lemma Suspend_others:
  assumes "v \<noteq> u" "distinct (map dep_ID (acc_deps a))"
  shows "others_same v a (fst (Suspend L f u a))"
proof -
  obtain us r1 where us: "User_Suspend (sl_user L) (sl_now L) u (acc_users a) = (us, r1)" by fastforce
  obtain ks r2 where ks: "APIKey_RevokeAllByUser (sl_keys L) (sl_now L) u (acc_keys a) = (ks, r2)" by fastforce
  have "filter (\<lambda>r. usr_ID r = v) (fst (User_Suspend (sl_user L) (sl_now L) u (acc_users a))) = filter (\<lambda>r. usr_ID r = v) (acc_users a)"
    unfolding User_Suspend_def by (rule exec_update_others) (use assms(1) in auto)
  then have fu: "filter (\<lambda>r. usr_ID r = v) us = filter (\<lambda>r. usr_ID r = v) (acc_users a)" by (simp add: us)
  have "ks = acc_keys a \<or> ks = map (\<lambda>k. if key_UserID k = u \<and> key_RevokedAt k = None then k\<lparr>key_RevokedAt := Some (sl_now L)\<rparr> else k) (acc_keys a)"
    using ks by (cases "sl_keys L") (auto simp: APIKey_RevokeAllByUser_def sql_update_def)
  then have fk: "filter (\<lambda>k. key_UserID k = v) ks = filter (\<lambda>k. key_UserID k = v) (acc_keys a)"
    using filter_update_other [of "\<lambda>k. key_UserID k = u \<and> key_RevokedAt k = None" "\<lambda>k. key_UserID k = v"
      "\<lambda>k. k\<lparr>key_RevokedAt := Some (sl_now L)\<rparr>" "acc_keys a"] assms(1) by auto
  let ?a1 = "a\<lparr>acc_users := us, acc_keys := ks\<rparr>"
  have s1: "others_same v a ?a1" "others_same v a (a\<lparr>acc_users := us\<rparr>)" using fu fk by (simp_all add: others_same_def)
  have "others_same v a (fst (suspend_loop L f ds res ?a1))"
    if "Deployment_ListLiveByUser (sl_list L) u (acc_deps a) = Inr ds" for ds res
  proof -
    have "set ds \<subseteq> {d \<in> set (acc_deps a). dep_UserID d = Some u}" using that by (auto simp: Deployment_ListLiveByUser_def dest: query_rows_set)
    then have "ids_apart v (dep_ID ` set ds) (acc_deps ?a1)" using assms by (fastforce simp: ids_apart_def dest: distinct_map [THEN iffD1, THEN conjunct2, THEN inj_onD])
    then show ?thesis by (rule others_same_trans [OF s1(1) suspend_loop_others])
  qed
  then show ?thesis using s1 by (auto simp: Suspend_def us ks Let_def split: sum.splits)
qed

section \<open>The request path suspends only its own account\<close>

lemma RecordViolation_accounts:
  "snd (fst (RecordViolation R th L f u (s, a))) \<in> {a, fst (Suspend (vl_suspend L) f u a)}"
  by (auto simp: RecordViolation_def split: prod.splits sum.splits if_splits)

lemma AbuseGuard_accounts:
  "snd (fst (AbuseGuardMiddleware R th eth f rl rw g (Some p) msgs (s, a))) \<in> {a, fst (Suspend (vl_suspend (gc_violation g)) f (pr_UserID p) a)}"
  using RecordViolation_accounts [of R eth "gc_violation g" f "pr_UserID p"]
  by (auto simp: AbuseGuardMiddleware_def Let_def split: prod.splits)

lemma chat_gates_accounts:
  assumes "chat_authenticate J G c (acc_keys a) = Inr p"
  shows "snd (fst (chat_gates R J G c (s, a))) \<in> {a, fst (Suspend (vl_suspend (gc_violation (cr_guard c))) InferenceJobID (pr_UserID p) a)}"
proof -
  obtain sa1 pass where g: "AbuseGuardMiddleware R (NewAbuseDetector DefaultAbuseThresholds) (NewEscalator DefaultEscalationThresholds) InferenceJobID
      reducedChatLimit reducedChatWindow (cr_guard c) (Some p) (gw_contents G (cr_body c)) (s, a) = (sa1, pass)" by fastforce
  have "snd (fst (chat_gates R J G c (s, a))) = snd sa1" using assms by (auto simp: chat_gates_def g split: prod.split bool.split)
  then show ?thesis using AbuseGuard_accounts [of R _ _ InferenceJobID reducedChatLimit reducedChatWindow "cr_guard c" p] g by (metis fst_conv)
qed

lemma churn_guard_accounts:
  "snd (allocationChurnGuard R lc L (Some p) (s, a)) \<in> {a, fst (Suspend (vl_suspend L) InferenceJobID (pr_UserID p) a)}"
  using RecordViolation_accounts [of R _ L InferenceJobID "pr_UserID p"]
  by (auto simp: allocationChurnGuard_def split: prod.splits)

lemma CreateDeployment_deps:
  "fst (fst (CreateDeploymentHandler N R q C rid (Some p) body models (deps, w))) = deps
   \<or> (\<exists>m. fst (fst (CreateDeploymentHandler N R q C rid (Some p) body models (deps, w))) =
        fst (Deployment_Create (dc_create C) (dc_newid C) (dc_now C) m (pr_UserID p) deps))"
  by (auto simp: CreateDeploymentHandler_def Let_def split: option.splits sum.splits prod.splits dispatch_result.splits) (metis fst_conv)+

lemma CreateDeployment_others:
  assumes "v \<noteq> pr_UserID p"
  shows "filter (\<lambda>d. dep_UserID d = Some v) (fst (fst (CreateDeploymentHandler N R q C rid (Some p) body models (deps, w)))) =
    filter (\<lambda>d. dep_UserID d = Some v) deps"
proof -
  have "filter (\<lambda>d. dep_UserID d = Some v) (fst (Deployment_Create l i now m (pr_UserID p) deps)) = filter (\<lambda>d. dep_UserID d = Some v) deps" for l i now m
    unfolding Deployment_Create_def by (rule insert_row_others) (use assms in simp)
  then show ?thesis using CreateDeployment_deps [of N R q C rid p body models deps w] by auto
qed

lemma route_create_deployment_others:
  assumes "v \<noteq> pr_UserID p" "distinct (map dep_ID (acc_deps (as_accounts st)))"
  shows "others_same v (as_accounts st) (as_accounts (fst (route_create_deployment N R A c p st)))"
proof -
  obtain s1 a1 where g: "allocationChurnGuard R (ac_churn c) (ac_violation c) (Some p) (as_redis st, as_accounts st) = (s1, a1)" by fastforce
  have "others_same v (as_accounts st) a1"
    using churn_guard_accounts [of R "ac_churn c" "ac_violation c" p "as_redis st" "as_accounts st"] Suspend_others [OF assms] by (auto simp: g)
  moreover have "others_same v a1 (as_accounts (fst (route_create_deployment N R A c p st)))"
    using CreateDeployment_others [OF assms(1), of N R "app_queue deploymentRetryQueueName" "ac_deploy c" "req_ID (ac_request c)" "ap_deployment A (ac_body c)"
        "as_models st" "acc_deps a1" "\<lparr>dw_nomad = as_nomad st, dw_redis = s1, dw_degraded = as_degraded st\<rparr>"]
    by (auto simp: route_create_deployment_def g others_same_def split: prod.split)
  ultimately show ?thesis by (rule others_same_trans)
qed

lemma app_chat_others:
  assumes "chat_authenticate J (ap_gateway A) (chat_call_of e c) (acc_keys (as_accounts st)) = Inr p"
    and "v \<noteq> pr_UserID p" "distinct (map dep_ID (acc_deps (as_accounts st)))"
  shows "others_same v (as_accounts st) (as_accounts (fst (app_chat R J A c e st)))"
proof -
  let ?w = "\<lparr>gs_redis = as_redis st, gs_accounts = as_accounts st, gs_watchdog = as_watchdog st\<rparr>"
  have "as_accounts (fst (app_chat R J A c e st)) = gs_accounts (fst (chat_route R J (ap_gateway A) (chat_call_of e c) ?w))"
    by (simp add: app_chat_def split: prod.split)
  then show ?thesis
    using chat_gates_accounts [OF assms(1), of R "as_redis st"] Suspend_others [OF assms(2,3)] by (auto simp: chat_route_state)
qed

lemma CreateAPIKey_others:
  assumes "v \<noteq> pr_UserID p"
  shows "filter (\<lambda>k. key_UserID k = v) (fst (CreateAPIKeyHandler A raw salt l i now rid (Some p) nb body keys)) = filter (\<lambda>k. key_UserID k = v) keys"
proof -
  have "filter (\<lambda>k. key_UserID k = v) (fst (APIKey_Create l i now k keys)) = filter (\<lambda>k. key_UserID k = v) keys" if "nk_UserID k = pr_UserID p" for k
    unfolding APIKey_Create_def by (rule insert_row_others) (use assms that in simp)
  note c = this
  show ?thesis
  proof (cases "GenerateAPIKey A raw salt")
    case (Inr g)
    then show ?thesis using c [of "\<lparr>nk_UserID = pr_UserID p, nk_OrgID = None, nk_KeyHash = gk_Hash g, nk_DisplayPrefix = gk_DisplayPrefix g, nk_Scopes = _\<rparr>"]
      by (auto simp: CreateAPIKeyHandler_def split: option.split sum.split prod.split) (metis fst_conv)+
  qed (auto simp: CreateAPIKeyHandler_def split: option.split)
qed

lemma AcceptTOS_others:
  assumes "v \<noteq> pr_UserID p"
  shows "filter (\<lambda>r. usr_ID r = v) (fst (AcceptTOSHandler l now rid (Some p) us)) = filter (\<lambda>r. usr_ID r = v) us"
proof -
  have "filter (\<lambda>r. usr_ID r = v) (fst (User_AcceptTOS l now (pr_UserID p) us)) = filter (\<lambda>r. usr_ID r = v) us"
    unfolding User_AcceptTOS_def by (rule exec_update_others) (use assms in auto)
  then show ?thesis by (auto simp: AcceptTOSHandler_def split: sum.splits prod.splits)
qed

lemma submit_reaches: "i \<noteq> [] \<Longrightarrow> \<exists>n' r. SubmitJobIdempotent N li Up (Some i) n = (n', Inr r)"
  by (cases li; cases "live_job N n i") (auto simp: SubmitJobIdempotent_def SubmitJob_def)

lemma revoke_route_any_owner:
  assumes "session_route N R A c i p EpRevokeKey st = (st', ans)" "i \<noteq> []" "ac_db c = Up"
    and "find (\<lambda>k. key_ID k = i \<and> key_RevokedAt k = None) (acc_keys (as_accounts st)) \<noteq> None"
  shows "answer_status ans = 204 \<and> (\<forall>k \<in> set (acc_keys (as_accounts st')). key_ID k = i \<longrightarrow> key_RevokedAt k \<noteq> None)"
proof -
  let ?keys = "map (\<lambda>k. if key_ID k = i \<and> key_RevokedAt k = None then k\<lparr>key_RevokedAt := Some (ac_now c)\<rparr> else k) (acc_keys (as_accounts st))"
  have "APIKey_Revoke (ac_db c) (ac_now c) i (acc_keys (as_accounts st)) = (?keys, Inr ())"
    unfolding APIKey_Revoke_def assms(3) exec_update_Up using assms(4) by (simp only: if_False)
  then have "RevokeAPIKeyHandler (ac_db c) (ac_now c) (req_ID (ac_request c)) i (acc_keys (as_accounts st)) = (?keys, RespEmpty 204)"
    by (simp only: RevokeAPIKeyHandler_def assms(2) if_False prod.case sum.case)
  then have k: "acc_keys (as_accounts st') = ?keys" and s: "answer_status ans = 204" using assms(1) by (auto simp: answer_def)
  have "\<forall>k \<in> set ?keys. key_ID k = i \<longrightarrow> key_RevokedAt k \<noteq> None" by (rule update_post) auto
  then show ?thesis unfolding k by (intro conjI s)
qed

section \<open>Properties\<close>


text \<open>One route at a time: of the routes a session reaches, only the revocation of keys touches another account.\<close>

lemma app_route_others:
  assumes session: "(JWTAuth J (gw_session (ap_gateway A)) (ac_now c) (ac_request c) :: unit response + principal) = Inr p"
    and nokey: "\<not> has_key A c (acc_keys (as_accounts st))" and ids: "distinct (map dep_ID (acc_deps (as_accounts st)))"
    and v: "v \<noteq> pr_UserID p" and r: "app_route N R J A c ep j st = (st', ans)" and ep: "ep \<noteq> EpRevokeKey"
  shows "others_same v (as_accounts st) (as_accounts st')"
proof -
  obtain rk where k: "APIKeyAuth (gw_argon (ap_gateway A)) (ac_keys c) (ac_request c) (acc_keys (as_accounts st)) = (Inl rk :: unit response + principal)"
    using no_key_Inl [OF nokey] by blast
  obtain rp where kp: "APIKeyAuth (gw_argon (ap_gateway A)) (ac_keys c) (ac_request c) (acc_keys (as_accounts st)) = (Inl rp :: SuspensionView response + principal)"
    using no_key_Inl [OF nokey] by blast
  obtain rq where kc: "APIKeyAuth (gw_argon (ap_gateway A)) (ac_keys c) (ac_request c) (acc_keys (as_accounts st)) = (Inl rq :: ChatCompletionResponse response + principal)"
    using no_key_Inl [OF nokey] by blast
  have api: "chat_authenticate J (ap_gateway A) (chat_call_of ChatAPI c) (acc_keys (as_accounts st)) = Inl rq"
    and dash: "chat_authenticate J (ap_gateway A) (chat_call_of ChatDashboard c) (acc_keys (as_accounts st)) = Inr p"
    using session JWTAuth_poly by (simp_all add: chat_authenticate_def chat_call_of_def kc) blast
  have b: "browserAuth J A c f st = f p st" for f by (simp add: browserAuth_def session)
  show ?thesis
  proof (cases ep)
    case EpChat
    with app_chat_refused [OF api, of R st' ans] r show ?thesis by (auto simp: app_route_def)
  next
    case EpDashboardChat
    with app_chat_others [OF dash v ids, of R] r show ?thesis by (simp add: app_route_def)
  next
    case EpCreateDeployment
    with route_create_deployment_others [OF v ids, of N R A c] r show ?thesis by (simp add: app_route_def b)
  next
    case EpCreateKey
    with CreateAPIKey_others [OF v] r show ?thesis by (auto simp: app_route_def b others_same_def split: prod.splits) (metis fst_conv)
  next
    case EpAcceptTOS
    with AcceptTOS_others [OF v] r show ?thesis by (auto simp: app_route_def b others_same_def split: prod.splits) (metis fst_conv)
  next
    case EpSuspend
    with r kp show ?thesis by (auto simp: app_route_def route_suspend_user_def)
  qed (use r ep k in \<open>auto simp: app_route_def b split: prod.splits\<close>)
qed


text \<open>
  C27. The suspension that comes too early: when the churn guard of deployment creation suspends the account, the request
  goes on. The account is suspended, its keys are revoked and its former deployments terminated, but the answer is 201
  and a fresh deployment of the suspended account is live, with a running job in Nomad that nothing stops.
\<close>

theorem churn_suspension_deploys:
  assumes "nomad_server N" "pr_UserID p \<noteq> []"
    and "CheckAllocationChurn R (NewAbuseDetector DefaultAbuseThresholds) (ac_churn c) (pr_UserID p) (as_redis st) = (s1, Inr True)"
    and "RecordViolation R (NewEscalator DefaultEscalationThresholds) (ac_violation c) InferenceJobID (pr_UserID p) (s1, as_accounts st) = ((s2, a2), Inr EscalationSuspended)"
    and "ap_deployment A (ac_body c) = Some m" "m \<noteq> []" "Model_GetByID (dc_model (ac_deploy c)) m (as_models st) = Inr model"
    and "dc_create (ac_deploy c) = Up" "dc_register (ac_deploy c) = Up" "\<not> list_ex (\<lambda>d. dep_ID d = dc_newid (ac_deploy c)) (acc_deps a2)"
  shows "\<exists>st' ans d. route_create_deployment N R A c p st = (st', ans) \<and> answer_status ans = 201
    \<and> (\<forall>r \<in> set (acc_users (as_accounts st')). usr_ID r = pr_UserID p \<longrightarrow> User_Suspended r)
    \<and> (\<forall>k \<in> set (acc_keys (as_accounts st')). key_UserID k = pr_UserID p \<longrightarrow> key_RevokedAt k \<noteq> None)
    \<and> filter (\<lambda>d. dep_UserID d = Some (pr_UserID p) \<and> live_state d) (acc_deps (as_accounts st')) = [d]
    \<and> live_job N (as_nomad st') (InferenceJobID (dep_ID d))"
proof -
  let ?C = "ac_deploy c"
  let ?d = "\<lparr>dep_ID = dc_newid ?C, dep_ModelID = m, dep_UserID = Some (pr_UserID p), dep_AllocationID = None, dep_State = ''queued'',
     dep_CreatedAt = dc_now ?C, dep_UpdatedAt = dc_now ?C, dep_GPUModel = None\<rparr>"
  obtain res where sus: "Suspend (vl_suspend (ac_violation c)) InferenceJobID (pr_UserID p) (as_accounts st) = (a2, Inr res)"
    using assms(4) by (auto simp: RecordViolation_def split: prod.splits sum.splits if_splits)
  have g: "allocationChurnGuard R (ac_churn c) (ac_violation c) (Some p) (as_redis st, as_accounts st) = (s2, a2)"
    by (simp add: allocationChurnGuard_def assms(3,4))
  have cr: "Deployment_Create (dc_create ?C) (dc_newid ?C) (dc_now ?C) m (pr_UserID p) (acc_deps a2) = (acc_deps a2 @ [?d], Inr ?d)"
    using assms(2,8,10) by (simp add: Deployment_Create_def insert_row_Inr)
  let ?i = "InferenceJobID (dc_newid ?C)"
  obtain n r where sub: "SubmitJobIdempotent N (dc_info ?C) (dc_register ?C) (Some ?i) (as_nomad st) = (n, Inr r)"
    using submit_reaches [of ?i N "dc_info ?C" "as_nomad st"] assms(9) by (auto simp: InferenceJobID_def)
  let ?w = "\<lparr>dw_nomad = n, dw_redis = s2, dw_degraded = False\<rparr>"
  have dis: "DispatchJob N R (app_queue deploymentRetryQueueName) (dc_info ?C) (dc_register ?C) (dc_hset ?C) (dc_lpush ?C) (dc_newid ?C)
      (ij_ID (buildJob (dc_newid ?C) model)) \<lparr>dw_nomad = as_nomad st, dw_redis = s2, dw_degraded = as_degraded st\<rparr> = (?w, DispatchSubmitted (fst r))"
    using sub by (simp add: DispatchJob_def buildJob_def BuildInferenceJob_def Let_def split: prod.split)
  have h: "route_create_deployment N R A c p st =
      (st\<lparr>as_redis := s2, as_accounts := a2\<lparr>acc_deps := acc_deps a2 @ [?d]\<rparr>, as_nomad := n, as_degraded := False\<rparr>,
       answer BDeployment (RespBody 201 \<lparr>dv_ID = dc_newid ?C, dv_ModelID = m, dv_State = ''queued'', dv_Queued = False, dv_Degraded = False\<rparr>))"
    by (simp add: route_create_deployment_def g CreateDeploymentHandler_def assms(5-7) cr dis Degraded_def)
  have "\<not> (dep_UserID d = Some (pr_UserID p) \<and> live_state d)" if "d \<in> set (acc_deps a2)" for d
    using Suspend_result(3) [OF sus] that by blast
  then have f: "filter (\<lambda>d. dep_UserID d = Some (pr_UserID p) \<and> live_state d) (acc_deps a2 @ [?d]) = [?d]"
    by (simp add: live_state_def filter_empty_conv)
  have "live_job N n ?i" by (rule nomad_server.submit_ok(1) [OF assms(1) sub])
  then show ?thesis using Suspend_result(1,2) [OF sus] f by (simp add: h answer_def)
qed

text \<open>A gateway with one foreign API key, and requests to it.\<close>

definition app_example :: app where
  "app_example = \<lparr>ap_gateway = gateway_example, ap_bcrypt = \<lparr>bc_Generate = Inr, bc_Compare = (\<lambda>h p. True)\<rparr>, ap_Environment = ''production'',
     ap_IdleTimeout = 0, ap_login = (\<lambda>_. None), ap_scopes = (\<lambda>_. None), ap_benchmark = (\<lambda>_. None), ap_ingestion = (\<lambda>_. None),
     ap_deployment = (\<lambda>_. Some ''m1'')\<rparr>"

definition app_call_example :: "string \<Rightarrow> string \<Rightarrow> request \<Rightarrow> app_call" where
  "app_call_example m path r = \<lparr>ac_method = m, ac_path = path, ac_request = r, ac_body = ''{}'', ac_refreshCookie = None, ac_modelQuery = [],
     ac_now = 10, ac_newid = ''n1'', ac_keys = Up, ac_db = Up, ac_db2 = Up, ac_issue = \<lparr>ic_now = 10, ic_raw = Inr ''abc'', ic_link = Up, ic_newid = ''t1''\<rparr>,
     ac_raw = Inr ''raw'', ac_salt = Inr ''salt'', ac_q1 = Up, ac_q2 = Up,
     ac_deploy = \<lparr>dc_model = Up, dc_create = Up, dc_info = Up, dc_register = Up, dc_hset = Up, dc_lpush = Up, dc_newid = ''d9'', dc_now = 10\<rparr>,
     ac_churn = \<lparr>lc_link = Up, lc_nonce = Inr ''z'', lc_now = 10\<rparr>,
     ac_violation = \<lparr>vl_incr = Up, vl_expire = Up, vl_reduce = Up, vl_suspend = suspend_up\<rparr>, ac_suspend = suspend_up,
     ac_chat = call_example 10 ''z'', ac_checks = [], ac_socket = RespEmpty 501\<rparr>"

definition foreign_key :: apikey where
  "foreign_key = \<lparr>key_ID = ''k9'', key_UserID = ''v'', key_OrgID = None, key_KeyHash = [], key_DisplayPrefix = ''rl_x'', key_Scopes = [],
     key_LastUsedAt = None, key_RevokedAt = None, key_CreatedAt = 0\<rparr>"

definition app_start :: "mem \<Rightarrow> (string \<Rightarrow> string option option, mem) app_state" where
  "app_start s = \<lparr>as_redis = s, as_accounts = \<lparr>acc_users = [\<lparr>usr_ID = ''7'', usr_Email = ''e'', usr_PasswordHash = [], usr_TOSAcceptedAt = None,
       usr_SuspendedAt = None, usr_CreatedAt = 0, usr_UpdatedAt = 0\<rparr>], acc_keys = [foreign_key], acc_deps = [], acc_stopped = []\<rparr>,
     as_watchdog = NewWatchdog 30, as_tokens = [],
     as_models = [\<lparr>mdl_ID = ''m1'', mdl_CreatedAt = 0, mdl_fields = \<lparr>nm_RepoURL = [], nm_Revision = [], nm_RevisionSHA = [], nm_Architecture = [],
       nm_ParameterCount = 0, nm_Dtype = [], nm_FP16Bytes = 1, nm_FP8Bytes = 1, nm_Int4Bytes = 1, nm_KVCacheBytes = 0, nm_License = []\<rparr>, mdl_sha = None\<rparr>],
     as_jobs = [], as_runs = [], as_nomad = (\<lambda>_. None), as_degraded = False\<rparr>"

lemma no_example_key: "\<not> has_key app_example (app_call_example m path (request_example ''u7'')) (acc_keys (as_accounts (app_start s)))"
  by (simp add: has_key_def APIKeyAuth_Inr_iff app_start_def foreign_key_def app_call_example_def request_example_def DisplayPrefix_def Let_def take_Cons')

lemma example_session:
  "(JWTAuth jwt_example (gw_session (ap_gateway app_example)) (ac_now (app_call_example m path (request_example ''u7'')))
      (ac_request (app_call_example m path (request_example ''u7''))) :: unit response + principal) = Inr principal_example"
  by (simp add: JWTAuth_def sessionToken_def request_example_def jwt_example_def principal_example_def app_call_example_def
      bearerToken_def cut_prefix_def has_prefix_def)



text \<open>Ten deployments in the window and five violations on record.\<close>

definition churn_mem :: mem where
  "churn_mem = \<lparr>mval = [''abuse:churn:7'' \<mapsto> RZset [(''a'', 1), (''b'', 1), (''c'', 1), (''d'', 1), (''e'', 1), (''f'', 1), (''g'', 1), (''h'', 1), (''i'', 1), (''j'', 1)],
     ''abuse:violations:7'' \<mapsto> RString ''5''], mdl = Map.empty, mclk = 10\<rparr>"

lemma churn_flagged:
  "\<exists>s1. CheckAllocationChurn mem_redis (NewAbuseDetector DefaultAbuseThresholds) \<lparr>lc_link = Up, lc_nonce = Inr ''z'', lc_now = 10\<rparr> ''7'' churn_mem = (s1, Inr True)
     \<and> m_str s1 ''abuse:violations:7'' = Some ''5''"
  by (simp add: CheckAllocationChurn_def NewAbuseDetector_def churnKey_def churn_mem_def quiet_eval m_str_def)

lemma churn_suspends:
  assumes "m_str s1 ''abuse:violations:7'' = Some ''5''"
  shows "\<exists>s2 a2. RecordViolation mem_redis (NewEscalator DefaultEscalationThresholds) \<lparr>vl_incr = Up, vl_expire = Up, vl_reduce = Up, vl_suspend = suspend_up\<rparr>
     InferenceJobID ''7'' (s1, as_accounts (app_start churn_mem)) = ((s2, a2), Inr EscalationSuspended) \<and> acc_deps a2 = []"
proof -
  have "int_of_value (Some ''5'') = Some 5" by code_simp
  then show ?thesis using assms
    by (simp add: RecordViolation_def Violation_Incr_def violationKey_def NewEscalator_def DefaultEscalationThresholds_def app_start_def Suspend_def suspend_up_def
        User_Suspend_def exec_update_Up APIKey_RevokeAllByUser_def Deployment_ListLiveByUser_def query_rows_def sql_update_def)
qed

theorem churn_suspension_deploys_witness:
  "\<exists>st' ans d. route_create_deployment mem_nomad mem_redis app_example (app_call_example ''POST'' ''/v1/dashboard/deployments'' (request_example ''u7''))
       principal_example (app_start churn_mem) = (st', ans) \<and> answer_status ans = 201
     \<and> filter (\<lambda>d. dep_UserID d = Some ''7'' \<and> live_state d) (acc_deps (as_accounts st')) = [d]
     \<and> live_job mem_nomad (as_nomad st') (InferenceJobID (dep_ID d))"
proof -
  let ?c = "app_call_example ''POST'' ''/v1/dashboard/deployments'' (request_example ''u7'')"
  obtain s1 where s1: "CheckAllocationChurn mem_redis (NewAbuseDetector DefaultAbuseThresholds) (ac_churn ?c) (pr_UserID principal_example)
      (as_redis (app_start churn_mem)) = (s1, Inr True)" and five: "m_str s1 ''abuse:violations:7'' = Some ''5''"
    using churn_flagged by (auto simp: app_call_example_def principal_example_def app_start_def)
  obtain s2 a2 where s2: "RecordViolation mem_redis (NewEscalator DefaultEscalationThresholds) (ac_violation ?c) InferenceJobID (pr_UserID principal_example)
      (s1, as_accounts (app_start churn_mem)) = ((s2, a2), Inr EscalationSuspended)" and nd: "acc_deps a2 = []"
    using churn_suspends [OF five] by (auto simp: app_call_example_def principal_example_def)
  obtain model where m: "Model_GetByID (dc_model (ac_deploy ?c)) ''m1'' (as_models (app_start churn_mem)) = Inr model"
    by (simp add: Model_GetByID_def query_row_Up app_call_example_def app_start_def)
  show ?thesis
    using churn_suspension_deploys [OF memn.nomad_server_axioms _ s1 s2 _ _ m, of app_example] nd
    by (simp add: app_example_def app_call_example_def principal_example_def) blast
qed

end
