(* ===== verification/Ingestion.thy ===== *)
theory Ingestion
  imports ArtifactHeader Database Placement JobQueue
begin

text \<open>
  The ingestion of a model (\<^verbatim>\<open>internal/ingest\<close>): the upstream API client (\<^verbatim>\<open>manifest.go\<close>),
  architecture and parameter count (\<^verbatim>\<open>architecture.go\<close>), deduplication (\<^verbatim>\<open>dedup.go\<close>), the
  orchestrator that drives a job to its end (\<^verbatim>\<open>orchestrator.go\<close>), and the queue handler of
  \<^verbatim>\<open>app/app.go\<close>. The upstream host is a function from a request to a status and a body; the JSON decoders at
  the types of the client are parameters.
\<close>

section \<open>Upstream client (\<^verbatim>\<open>manifest.go\<close>)\<close>

record Manifest =
  mn_RevisionSHA :: string
  mn_Files :: "ManifestFile list"

record ModelConfig =
  mc_ModelType :: string
  mc_Architectures :: "string list"
  mc_NumHiddenLayers :: int
  mc_NumAttentionHeads :: int
  mc_NumKeyValueHeads :: int
  mc_HiddenSize :: int
  mc_MaxPositionEmbeddings :: int

record treeEntry =
  tn_Type :: string
  tn_Path :: string
  tn_Size :: int
  tn_OID :: string

datatype ingest_error = IngNotFound | IngRequest string | IngStatus int | IngDecode | IngNoSHA | IngQuota quota_error
  | IngLookup db_error | IngNoWeights string | IngHeader header_error | IngModel db_error | IngJob db_error | IngPhase string ingest_error

record upstream =
  up_baseURL :: string
  up_get :: "string \<Rightarrow> string + int \<times> string"
  up_revision :: "string \<Rightarrow> string option"
  up_tree :: "string \<Rightarrow> treeEntry list option"
  up_config :: "string \<Rightarrow> ModelConfig option"
  up_license :: "string \<Rightarrow> string option"

text \<open>\<^verbatim>\<open>url.PathEscape\<close>.\<close>

definition path_unreserved :: "char \<Rightarrow> bool" where
  "path_unreserved c \<longleftrightarrow> segment_char c \<or> c \<in> set ''~$&+=:@''"

definition upper_hex :: "nat \<Rightarrow> char" where "upper_hex n = ''0123456789ABCDEF'' ! n"

definition PathEscape :: "string \<Rightarrow> string" where
  "PathEscape s = concat (map (\<lambda>c. if path_unreserved c then [c]
     else let n = of_char c :: nat in [CHR ''%'', upper_hex (n div 16), upper_hex (n mod 16)]) s)"

definition getJSON :: "upstream \<Rightarrow> (string \<Rightarrow> 'a option) \<Rightarrow> string \<Rightarrow> ingest_error + 'a" where
  "getJSON U dec endpoint = (case up_get U endpoint of
      Inl e \<Rightarrow> Inl (IngRequest e)
    | Inr (status, body) \<Rightarrow>
        if status = 404 then Inl IngNotFound
        else if status \<noteq> 200 then Inl (IngStatus status)
        else (case dec body of None \<Rightarrow> Inl IngDecode | Some x \<Rightarrow> Inr x))"

definition fetchRevisionSHA :: "upstream \<Rightarrow> Reference \<Rightarrow> ingest_error + string" where
  "fetchRevisionSHA U r = (case getJSON U (up_revision U)
       (up_baseURL U @ ''/api/models/'' @ RepoID r @ ''/revision/'' @ PathEscape (ref_Revision r)) of
      Inl e \<Rightarrow> Inl e
    | Inr sha \<Rightarrow> if sha = [] then Inl IngNoSHA else Inr sha)"

definition fetchFileTree :: "upstream \<Rightarrow> Reference \<Rightarrow> ingest_error + ManifestFile list" where
  "fetchFileTree U r = (case getJSON U (up_tree U)
       (up_baseURL U @ ''/api/models/'' @ RepoID r @ ''/tree/'' @ PathEscape (ref_Revision r) @ ''?recursive=true'') of
      Inl e \<Rightarrow> Inl e
    | Inr es \<Rightarrow> Inr (map (\<lambda>e. \<lparr>mf_Path = tn_Path e, mf_Size = tn_Size e, mf_OID = tn_OID e\<rparr>) (filter (\<lambda>e. tn_Type e = ''file'') es)))"

definition FetchManifest :: "upstream \<Rightarrow> Reference \<Rightarrow> ingest_error + Manifest" where
  "FetchManifest U r = (case fetchRevisionSHA U r of
      Inl e \<Rightarrow> Inl e
    | Inr sha \<Rightarrow> (case fetchFileTree U r of
        Inl e \<Rightarrow> Inl e | Inr files \<Rightarrow> Inr \<lparr>mn_RevisionSHA = sha, mn_Files = files\<rparr>))"

definition FetchConfig :: "upstream \<Rightarrow> Reference \<Rightarrow> ingest_error + ModelConfig option" where
  "FetchConfig U r = (case getJSON U (up_config U)
       (up_baseURL U @ ''/'' @ RepoID r @ ''/resolve/'' @ PathEscape (ref_Revision r) @ ''/config.json'') of
      Inl e \<Rightarrow> if e = IngNotFound then Inr None else Inl e
    | Inr cfg \<Rightarrow> Inr (Some cfg))"

definition FileURL :: "upstream \<Rightarrow> Reference \<Rightarrow> string \<Rightarrow> string" where
  "FileURL U r path = up_baseURL U @ ''/'' @ RepoID r @ ''/resolve/'' @ PathEscape (ref_Revision r) @ ''/'' @ path"

definition FetchLicense :: "upstream \<Rightarrow> Reference \<Rightarrow> ingest_error + string" where
  "FetchLicense U r = (case getJSON U (up_license U) (up_baseURL U @ ''/api/models/'' @ RepoID r) of
      Inl e \<Rightarrow> if e = IngNotFound then Inr [] else Inl e
    | Inr l \<Rightarrow> Inr l)"

section \<open>Architecture (\<^verbatim>\<open>architecture.go\<close>)\<close>

fun shape_loop :: "int \<Rightarrow> int list \<Rightarrow> int" where
  "shape_loop n [] = n"
| "shape_loop n (d # ds) = shape_loop (i64 (n * d)) ds"

definition shapeElementCount :: "int list \<Rightarrow> int" where
  "shapeElementCount shape = shape_loop 1 shape"

definition ParameterCount :: "Header \<Rightarrow> int" where
  "ParameterCount h = sum_i64 0 (map (\<lambda>t. shapeElementCount (ti_Shape t)) (hd_Tensors h))"

definition Geometry :: "ModelConfig \<Rightarrow> ModelGeometry" where
  "Geometry c = \<lparr>NumLayers = mc_NumHiddenLayers c, NumAttentionHeads = mc_NumAttentionHeads c, NumKeyValueHeads = mc_NumKeyValueHeads c,
     HiddenSize = mc_HiddenSize c, ContextLength = mc_MaxPositionEmbeddings c\<rparr>"

definition tensorNamingSignatures :: "(string \<times> string list \<times> string) list" where
  "tensorNamingSignatures =
     [(''llama'', [''model.layers.''], ''model.embed_tokens.''),
      (''gpt2'', [''transformer.h.''], ''transformer.wte.''),
      (''gpt-neox'', [''gpt_neox.layers.''], ''gpt_neox.embed_in.''),
      (''bert'', [''bert.encoder.layer.''], ''bert.embeddings.''),
      (''falcon'', [''transformer.h.''], ''transformer.word_embeddings.'')]"

definition hasAnyPrefix :: "Header \<Rightarrow> string list \<Rightarrow> bool" where
  "hasAnyPrefix h ps \<longleftrightarrow> list_ex (\<lambda>t. list_ex (has_prefix (ti_Name t)) ps) (hd_Tensors h)"

fun signature_loop :: "Header \<Rightarrow> (string \<times> string list \<times> string) list \<Rightarrow> string" where
  "signature_loop h [] = ''unknown''"
| "signature_loop h ((family, requiredAny, requiredExtra) # sigs) =
     (if hasAnyPrefix h requiredAny \<and> hasAnyPrefix h [requiredExtra] then family else signature_loop h sigs)"

definition inferArchitectureFromTensorNames :: "Header \<Rightarrow> string" where
  "inferArchitectureFromTensorNames h = signature_loop h tensorNamingSignatures"

fun cut_first_suffix :: "string \<Rightarrow> string list \<Rightarrow> string" where
  "cut_first_suffix name [] = name"
| "cut_first_suffix name (s # ss) = (case cut_suffix name s of Some trimmed \<Rightarrow> trimmed | None \<Rightarrow> cut_first_suffix name ss)"

definition normalizeArchitectureClassName :: "string \<Rightarrow> string" where
  "normalizeArchitectureClassName className = cut_first_suffix (to_lower className) [''forcausallm'', ''lmheadmodel'', ''model'']"

definition InferArchitecture :: "ModelConfig option \<Rightarrow> Header \<Rightarrow> string" where
  "InferArchitecture config h = (case config of
      None \<Rightarrow> inferArchitectureFromTensorNames h
    | Some c \<Rightarrow> if mc_Architectures c \<noteq> [] \<and> hd (mc_Architectures c) \<noteq> [] then normalizeArchitectureClassName (hd (mc_Architectures c))
        else if mc_ModelType c \<noteq> [] then to_lower (mc_ModelType c)
        else inferArchitectureFromTensorNames h)"

section \<open>Deduplication (\<^verbatim>\<open>dedup.go\<close>)\<close>

definition FindExistingArtifact :: "pgerr link \<Rightarrow> string \<Rightarrow> model_row list \<Rightarrow> ingest_error + model_row option" where
  "FindExistingArtifact l sha models = (case Model_GetByRevisionSHA l sha models of
      Inl e \<Rightarrow> if e = ErrNotFound then Inr None else Inl (IngLookup e)
    | Inr m \<Rightarrow> Inr (Some m))"

section \<open>Orchestrator (\<^verbatim>\<open>orchestrator.go\<close>)\<close>

definition findWeightFile :: "ManifestFile list \<Rightarrow> ManifestFile option" where
  "findWeightFile files = find (\<lambda>f. has_suffix (mf_Path f) ''.safetensors'') files"

definition dominantDtype :: "Header \<Rightarrow> string" where
  "dominantDtype h = (case hd_Tensors h of [] \<Rightarrow> [] | t # _ \<Rightarrow> ti_Dtype t)"

text \<open>What one run depends on: the upstream host, the range fetcher (by URL), the JSON decoder of the header, the text
  of an error, and for every database call its link, the clock and the id of a new row.\<close>

record 'j orchestrator =
  or_upstream :: upstream
  or_fetch :: "string \<Rightarrow> range_fetcher"
  or_json :: "'j header_json"
  or_quota :: Quota
  or_text :: "ingest_error \<Rightarrow> string"
  or_dedup :: "pgerr link"
  or_start :: "pgerr link"
  or_done :: "pgerr link"
  or_verify :: "pgerr link"
  or_create :: "pgerr link"
  or_complete :: "pgerr link"
  or_fail :: "pgerr link"
  or_now :: int
  or_newid :: string

type_synonym ingest_state = "ingestion_jobs \<times> model_row list"

definition orch_fail :: "('j, 'x) orchestrator_scheme \<Rightarrow> string \<Rightarrow> ingest_error \<Rightarrow> ingest_state \<Rightarrow> ingest_state \<times> (ingest_error + unit)" where
  "orch_fail K jobID cause st = (case st of (jobs, models) \<Rightarrow>
     ((fst (IngestionJob_Fail (or_fail K) (or_now K) jobID (or_text K cause) jobs), models), Inl cause))"

text \<open>The part of \<^verbatim>\<open>Run\<close> after the header is read, and the whole.\<close>

definition new_model_of :: "Reference \<Rightarrow> string \<Rightarrow> ModelConfig option \<Rightarrow> string \<Rightarrow> Header \<Rightarrow> new_model" where
  "new_model_of r sha config license h =
     (let paramCount = ParameterCount h;
          geometry = (case config of None \<Rightarrow> \<lparr>NumLayers = 0, NumAttentionHeads = 0, NumKeyValueHeads = 0, HiddenSize = 0, ContextLength = 0\<rparr>
                      | Some c \<Rightarrow> Geometry c);
          footprint = ComputeVRAMFootprint paramCount geometry
      in \<lparr>nm_RepoURL = RepoID r, nm_Revision = ref_Revision r, nm_RevisionSHA = sha, nm_Architecture = InferArchitecture config h,
          nm_ParameterCount = paramCount, nm_Dtype = dominantDtype h, nm_FP16Bytes = TotalBytes (FP16 footprint),
          nm_FP8Bytes = TotalBytes (FP8 footprint), nm_Int4Bytes = TotalBytes (INT4 footprint),
          nm_KVCacheBytes = KVCacheBytes (FP16 footprint), nm_License = license\<rparr>)"

definition orch_register ::
  "('j, 'x) orchestrator_scheme \<Rightarrow> string \<Rightarrow> Reference \<Rightarrow> string \<Rightarrow> Header \<Rightarrow> ingest_state \<Rightarrow> ingest_state \<times> (ingest_error + unit)" where
  "orch_register K jobID r sha h st = (case st of (jobs, models) \<Rightarrow>
     (case FetchConfig (or_upstream K) r of
        Inl e \<Rightarrow> orch_fail K jobID (IngPhase ''fetch config'' e) (jobs, models)
      | Inr config \<Rightarrow> (case FetchLicense (or_upstream K) r of
          Inl e \<Rightarrow> orch_fail K jobID (IngPhase ''fetch license'' e) (jobs, models)
        | Inr license \<Rightarrow> (case Model_Create (or_create K) (or_newid K) (or_now K) (new_model_of r sha config license h) models of
            (models', Inl e) \<Rightarrow> orch_fail K jobID (IngModel e) (jobs, models')
          | (models', Inr m) \<Rightarrow> (case IngestionJob_Complete (or_complete K) (or_now K) jobID (mdl_ID m) jobs of
              (jobs', Inl e) \<Rightarrow> ((jobs', models'), Inl (IngJob e)) | (jobs', Inr _) \<Rightarrow> ((jobs', models'), Inr ()))))))"

definition orch_download ::
  "('j, 'x) orchestrator_scheme \<Rightarrow> string \<Rightarrow> Reference \<Rightarrow> string \<Rightarrow> ManifestFile \<Rightarrow> ingest_state \<Rightarrow> ingest_state \<times> (ingest_error + unit)" where
  "orch_download K jobID r sha weightFile st = (case st of (jobs, models) \<Rightarrow>
     (case IngestionJob_UpdateProgress (or_start K) (or_now K) jobID (mf_Size weightFile) 0 jobs of
        (jobs1, Inl e) \<Rightarrow> ((jobs1, models), Inl (IngJob e))
      | (jobs1, Inr _) \<Rightarrow>
         (case FetchHeader (or_json K) (or_fetch K (FileURL (or_upstream K) r (mf_Path weightFile))) \<lparr>hl_MaxHeaderBytes = 0, hl_MaxTensorCount = 0\<rparr> of
            Inl e \<Rightarrow> orch_fail K jobID (IngHeader e) (jobs1, models)
          | Inr h \<Rightarrow> (case IngestionJob_UpdateProgress (or_done K) (or_now K) jobID (mf_Size weightFile) (mf_Size weightFile) jobs1 of
              (jobs2, Inl e) \<Rightarrow> ((jobs2, models), Inl (IngJob e))
            | (jobs2, Inr _) \<Rightarrow> (case IngestionJob_UpdateState (or_verify K) (or_now K) jobID IngestionStateVerifying jobs2 of
                (jobs3, Inl e) \<Rightarrow> ((jobs3, models), Inl (IngJob e))
              | (jobs3, Inr _) \<Rightarrow> orch_register K jobID r sha h (jobs3, models))))))"

definition Orchestrator_Run ::
  "('j, 'x) orchestrator_scheme \<Rightarrow> string \<Rightarrow> Reference \<Rightarrow> ingest_state \<Rightarrow> ingest_state \<times> (ingest_error + unit)" where
  "Orchestrator_Run K jobID r st = (case st of (jobs, models) \<Rightarrow>
     (case FetchManifest (or_upstream K) r of
        Inl e \<Rightarrow> orch_fail K jobID (IngPhase ''fetch manifest'' e) st
      | Inr manifest \<Rightarrow> (case EnforceQuota (mn_Files manifest) (or_quota K) of
          Inl e \<Rightarrow> orch_fail K jobID (IngQuota e) st
        | Inr _ \<Rightarrow> (case FindExistingArtifact (or_dedup K) (mn_RevisionSHA manifest) models of
            Inl e \<Rightarrow> orch_fail K jobID e st
          | Inr (Some m) \<Rightarrow> (case IngestionJob_Complete (or_complete K) (or_now K) jobID (mdl_ID m) jobs of
              (jobs', Inl e) \<Rightarrow> ((jobs', models), Inl (IngJob e)) | (jobs', Inr _) \<Rightarrow> ((jobs', models), Inr ()))
          | Inr None \<Rightarrow> (case findWeightFile (mn_Files manifest) of
              None \<Rightarrow> orch_fail K jobID (IngNoWeights (RepoID r)) st
            | Some weightFile \<Rightarrow> orch_download K jobID r (mn_RevisionSHA manifest) weightFile st)))))"

section \<open>Queue handler (\<^verbatim>\<open>app/app.go\<close>)\<close>

datatype handler_error = HandlerLookup db_error | HandlerIngest ingest_error

definition ingestionJobHandler ::
  "('j, 'x) orchestrator_scheme \<Rightarrow> (string \<Rightarrow> parsed_url option) \<Rightarrow> (reference_error \<Rightarrow> string) \<Rightarrow> pgerr link \<Rightarrow> string \<Rightarrow> ingest_state \<Rightarrow>
   ingest_state \<times> (handler_error + unit)" where
  "ingestionJobHandler K parse text l payload st = (case st of (jobs, models) \<Rightarrow>
     (case IngestionJob_GetByID l payload jobs of
        Inl e \<Rightarrow> (st, Inl (HandlerLookup e))
      | Inr record \<Rightarrow> (case ParseReference parse (job_RepoURL record) of
          Inl e \<Rightarrow> ((fst (IngestionJob_Fail (or_fail K) (or_now K) (job_ID record) (text e) jobs), models), Inr ())
        | Inr r \<Rightarrow> (case Orchestrator_Run K (job_ID record) (r\<lparr>ref_Revision := job_Revision record\<rparr>) st of
            (st', Inl e) \<Rightarrow> (st', Inl (HandlerIngest e)) | (st', Inr _) \<Rightarrow> (st', Inr ())))))"

section \<open>Facts\<close>

text \<open>A run touches only the rows of its own job and keeps what was asked for; all rows of that job satisfy a condition.\<close>

definition only_job :: "string \<Rightarrow> ingestion_jobs \<Rightarrow> ingestion_jobs \<Rightarrow> bool" where
  "only_job i jobs jobs' \<longleftrightarrow> list_all2 (\<lambda>a b. job_ID b = job_ID a \<and> job_RepoURL b = job_RepoURL a \<and> job_Revision b = job_Revision a
     \<and> (job_ID a \<noteq> i \<longrightarrow> b = a)) jobs jobs'"

definition job_row :: "string \<Rightarrow> (ingestion_job \<Rightarrow> bool) \<Rightarrow> ingestion_jobs \<Rightarrow> bool" where
  "job_row i P jobs \<longleftrightarrow> (\<exists>j \<in> set jobs. job_ID j = i) \<and> (\<forall>j \<in> set jobs. job_ID j = i \<longrightarrow> P j)"

lemma only_job_refl [simp]: "only_job i jobs jobs"
  by (simp add: only_job_def list_all2_refl)

lemma only_job_trans: "only_job i a b \<Longrightarrow> only_job i b c \<Longrightarrow> only_job i a c"
  unfolding only_job_def by (erule (1) list_all2_trans [rotated]) auto

lemma only_job_update:
  "(\<And>j. job_ID (f j) = job_ID j \<and> job_RepoURL (f j) = job_RepoURL j \<and> job_Revision (f j) = job_Revision j) \<Longrightarrow> only_job i jobs (map (\<lambda>j. if job_ID j = i then f j else j) jobs)"
  by (simp add: only_job_def list_all2_conv_all_nth)

lemma job_row_update:
  assumes "\<And>j. job_ID (f j) = job_ID j" "\<And>j. P (f j)" "job_row i Q jobs"
  shows "job_row i P (map (\<lambda>j. if job_ID j = i then f j else j) jobs)"
  using assms by (fastforce simp: job_row_def split: if_splits)

lemma job_row_find: "job_row i P jobs \<Longrightarrow> find (\<lambda>j. job_ID j = i) jobs \<noteq> None"
  by (auto simp: job_row_def find_None_iff)

lemma job_update_Up:
  assumes "job_row i Q jobs" "\<And>j. job_ID (f j) = job_ID j \<and> job_RepoURL (f j) = job_RepoURL j \<and> job_Revision (f j) = job_Revision j" "\<And>j. P (f j)"
  shows "\<exists>jobs'. exec_update Up (\<lambda>j. job_ID j = i) f jobs = (jobs', Inr ()) \<and> only_job i jobs jobs' \<and> job_row i P jobs'"
  using job_row_find [OF assms(1)] job_row_update [of f P, OF assms(2) [THEN conjunct1] assms(3,1)] only_job_update [of f, OF assms(2)]
  by (simp add: exec_update_Up)

text \<open>What a run that reaches a result has recorded.\<close>

definition run_recorded ::
  "('j, 'x) orchestrator_scheme \<Rightarrow> string \<Rightarrow> (model_row \<Rightarrow> bool) \<Rightarrow> ingest_state \<Rightarrow> ingest_state \<times> (ingest_error + unit) \<Rightarrow> bool" where
  "run_recorded K i M st out \<longleftrightarrow> (case (st, out) of ((jobs, models), ((jobs', models'), res)) \<Rightarrow>
     only_job i jobs jobs' \<and> set models \<subseteq> set models' \<and>
     (case res of
        Inl e \<Rightarrow> job_row i (\<lambda>j. job_State j = IngestionStateFailed \<and> job_ErrorMessage j = Some (or_text K e)) jobs'
      | Inr _ \<Rightarrow> (\<exists>m \<in> set models'. M m \<and> job_row i (\<lambda>j. job_State j = IngestionStateCached \<and> job_ModelID j = Some (mdl_ID m)) jobs')))"

lemma orch_fail_recorded:
  assumes "or_fail K = Up" "job_row i Q jobs" "only_job i jobs0 jobs" "set models0 \<subseteq> set models"
  shows "run_recorded K i M (jobs0, models0) (orch_fail K i e (jobs, models))"
  using job_update_Up [OF assms(2), of "\<lambda>j. j\<lparr>job_State := IngestionStateFailed, job_ErrorMessage := Some (or_text K e), job_UpdatedAt := or_now K\<rparr>"
      "\<lambda>j. job_State j = IngestionStateFailed \<and> job_ErrorMessage j = Some (or_text K e)"] assms(1,3,4)
  by (auto simp: run_recorded_def orch_fail_def IngestionJob_Fail_def intro: only_job_trans)

lemma complete_recorded:
  assumes "or_complete K = Up" "job_row i Q jobs" "only_job i jobs0 jobs" "set models0 \<subseteq> set models" "m \<in> set models" "M m"
  shows "run_recorded K i M (jobs0, models0) (case IngestionJob_Complete (or_complete K) (or_now K) i (mdl_ID m) jobs of
      (jobs', Inl e) \<Rightarrow> ((jobs', models), Inl (IngJob e)) | (jobs', Inr _) \<Rightarrow> ((jobs', models), Inr ()))"
  using job_update_Up [OF assms(2), of "\<lambda>j. j\<lparr>job_State := IngestionStateCached, job_ModelID := Some (mdl_ID m), job_UpdatedAt := or_now K\<rparr>"
      "\<lambda>j. job_State j = IngestionStateCached \<and> job_ModelID j = Some (mdl_ID m)"] assms(1,3-)
  by (auto simp: run_recorded_def IngestionJob_Complete_def intro: only_job_trans)

lemma insert_row_keeps: "insert_row l clash r t = (t', res) \<Longrightarrow> set t \<subseteq> set t'"
  using insert_row_state [of l clash r t] by auto

lemma Model_Create_keeps: "Model_Create l i now m t = (t', res) \<Longrightarrow> set t \<subseteq> set t'"
  unfolding Model_Create_def Let_def by (rule insert_row_keeps)

lemma orch_register_recorded:
  assumes "or_complete K = Up" "or_fail K = Up" "job_row i Q jobs" "only_job i jobs0 jobs"
    and "\<And>c l m. mdl_fields m = new_model_of r sha c l h \<Longrightarrow> mdl_sha m = Some sha \<Longrightarrow> M m" "sha \<noteq> []"
  shows "run_recorded K i M (jobs0, models) (orch_register K i r sha h (jobs, models))"
proof (cases "FetchConfig (or_upstream K) r")
  case (Inl e)
  then show ?thesis using orch_fail_recorded [OF assms(2-4)] by (simp add: orch_register_def)
next
  case c: (Inr config)
  show ?thesis
  proof (cases "FetchLicense (or_upstream K) r")
    case (Inl e)
    then show ?thesis using c orch_fail_recorded [OF assms(2-4)] by (simp add: orch_register_def)
  next
    case l: (Inr license)
    let ?m = "new_model_of r sha config license h"
    obtain models' res where mc: "Model_Create (or_create K) (or_newid K) (or_now K) ?m models = (models', res)" by fastforce
    have sub: "set models \<subseteq> set models'"
      using mc by (rule Model_Create_keeps)
    show ?thesis
    proof (cases res)
      case (Inl e)
      then show ?thesis using c l mc orch_fail_recorded [OF assms(2-4) sub] by (simp add: orch_register_def)
    next
      case (Inr m)
      have "m \<in> set models'" "mdl_fields m = ?m" "mdl_sha m = Some sha" using mc assms(6) unfolding Inr Model_Create_def Let_def
        by (auto simp: insert_row_Inr new_model_of_def Let_def)
      then show ?thesis using c l mc Inr complete_recorded [OF assms(1,3,4) sub, of m M] assms(5) by (simp add: orch_register_def)
    qed
  qed
qed

lemma orch_download_recorded:
  assumes "or_start K = Up" "or_done K = Up" "or_verify K = Up" "or_complete K = Up" "or_fail K = Up" "job_row i Q jobs"
    and M: "\<And>h c l m. FetchHeader (or_json K) (or_fetch K (FileURL (or_upstream K) r (mf_Path w))) \<lparr>hl_MaxHeaderBytes = 0, hl_MaxTensorCount = 0\<rparr> = Inr h \<Longrightarrow>
      mdl_fields m = new_model_of r sha c l h \<Longrightarrow> mdl_sha m = Some sha \<Longrightarrow> M m" and "sha \<noteq> []"
  shows "run_recorded K i M (jobs, models) (orch_download K i r sha w (jobs, models))"
proof -
  have upd: "\<exists>jobs'. IngestionJob_UpdateProgress Up (or_now K) i t d jb = (jobs', Inr ()) \<and> only_job i jb jobs' \<and> job_row i (\<lambda>_. True) jobs'"
    if "job_row i Q' jb" for t d jb Q'
    unfolding IngestionJob_UpdateProgress_def using that by (rule job_update_Up) simp_all
  have upds: "\<exists>jobs'. IngestionJob_UpdateState Up (or_now K) i s jb = (jobs', Inr ()) \<and> only_job i jb jobs' \<and> job_row i (\<lambda>_. True) jobs'"
    if "job_row i Q' jb" for s jb Q'
    unfolding IngestionJob_UpdateState_def using that by (rule job_update_Up) simp_all
  obtain j1 where j1: "IngestionJob_UpdateProgress Up (or_now K) i (mf_Size w) 0 jobs = (j1, Inr ())" "only_job i jobs j1" "job_row i (\<lambda>_. True) j1"
    using upd [OF assms(6)] by blast
  show ?thesis
  proof (cases "FetchHeader (or_json K) (or_fetch K (FileURL (or_upstream K) r (mf_Path w))) \<lparr>hl_MaxHeaderBytes = 0, hl_MaxTensorCount = 0\<rparr>")
    case (Inl e)
    then show ?thesis using j1 orch_fail_recorded [OF assms(5) j1(3,2)] assms(1) by (simp add: orch_download_def)
  next
    case (Inr h)
    obtain j2 where j2: "IngestionJob_UpdateProgress Up (or_now K) i (mf_Size w) (mf_Size w) j1 = (j2, Inr ())" "only_job i j1 j2" "job_row i (\<lambda>_. True) j2"
      using upd [OF j1(3)] by blast
    obtain j3 where j3: "IngestionJob_UpdateState Up (or_now K) i IngestionStateVerifying j2 = (j3, Inr ())" "only_job i j2 j3" "job_row i (\<lambda>_. True) j3"
      using upds [OF j2(3)] by blast
    have "only_job i jobs j3" using j1(2) j2(2) j3(2) by (blast intro: only_job_trans)
    from orch_register_recorded [OF assms(4,5) j3(3) this M [OF Inr] assms(8)] show ?thesis
      using j1 j2 j3 Inr assms(1-3) by (simp add: orch_download_def)
  qed
qed

section \<open>Properties\<close>

text \<open>
  An ingestion job ends: when the job's row exists and the calls on the job table are answered, a run returns
  with the row \<^verbatim>\<open>failed\<close>, carrying exactly the text of the error it returns, or \<^verbatim>\<open>cached\<close> and
  pointing at a stored model, and no other job's row changes. A job is \<^verbatim>\<open>cached\<close> only for a manifest within the quota,
  and the model has the commit of that manifest: it was in the table before, or its parameter count is that of
  the safetensors header of the first weight file.
\<close>

lemma ingestion_terminal:
  assumes "or_start K = Up" "or_done K = Up" "or_verify K = Up" "or_complete K = Up" "or_fail K = Up"
    and "job_row i (\<lambda>_. True) jobs"
  shows "run_recorded K i
    (\<lambda>m. \<exists>mn. FetchManifest (or_upstream K) r = Inr mn \<and> EnforceQuota (mn_Files mn) (or_quota K) = Inr () \<and> mdl_sha m = Some (mn_RevisionSHA mn)
       \<and> (m \<in> set models \<or>
          (\<exists>w h. findWeightFile (mn_Files mn) = Some w \<and> nm_ParameterCount (mdl_fields m) = ParameterCount h
             \<and> FetchHeader (or_json K) (or_fetch K (FileURL (or_upstream K) r (mf_Path w))) \<lparr>hl_MaxHeaderBytes = 0, hl_MaxTensorCount = 0\<rparr> = Inr h)))
    (jobs, models) (Orchestrator_Run K i r (jobs, models))" (is "run_recorded K i ?M _ _")
proof (cases "FetchManifest (or_upstream K) r")
  case (Inl e)
  then show ?thesis using orch_fail_recorded [OF assms(5,6)] by (simp add: Orchestrator_Run_def)
next
  case mn: (Inr mn)
  note fail = orch_fail_recorded [OF assms(5,6) only_job_refl subset_refl, of ?M models]
  have sha: "mn_RevisionSHA mn \<noteq> []" using mn
    by (auto simp: FetchManifest_def fetchRevisionSHA_def split: sum.splits if_splits)
  show ?thesis
  proof (cases "EnforceQuota (mn_Files mn) (or_quota K)")
    case (Inl e)
    then show ?thesis using mn fail by (simp add: Orchestrator_Run_def)
  next
    case q: (Inr u)
    then have q: "EnforceQuota (mn_Files mn) (or_quota K) = Inr ()" by simp
    consider (lookup) e where "FindExistingArtifact (or_dedup K) (mn_RevisionSHA mn) models = Inl e"
      | (existing) m where "FindExistingArtifact (or_dedup K) (mn_RevisionSHA mn) models = Inr (Some m)"
      | (none) "FindExistingArtifact (or_dedup K) (mn_RevisionSHA mn) models = Inr None" "findWeightFile (mn_Files mn) = None"
      | (weights) w where "FindExistingArtifact (or_dedup K) (mn_RevisionSHA mn) models = Inr None" "findWeightFile (mn_Files mn) = Some w"
      by (metis not_Some_eq sum.exhaust)
    then show ?thesis
    proof cases
      case lookup
      then show ?thesis using mn q fail by (simp add: Orchestrator_Run_def)
    next
      case existing
      then have m: "m \<in> set models" "mdl_sha m = Some (mn_RevisionSHA mn)"
        by (auto simp: FindExistingArtifact_def Model_GetByRevisionSHA_def query_row_Inr split: sum.splits if_splits dest: find_SomeD)
      show ?thesis using existing mn q m complete_recorded [OF assms(4,6) only_job_refl subset_refl m(1), of ?M]
        by (simp add: Orchestrator_Run_def)
    next
      case none
      then show ?thesis using mn q fail by (simp add: Orchestrator_Run_def)
    next
      case weights
      have "run_recorded K i ?M (jobs, models) (orch_download K i r (mn_RevisionSHA mn) w (jobs, models))"
        by (rule orch_download_recorded [OF assms _ sha]) (use mn q weights(2) in \<open>auto simp: new_model_of_def Let_def\<close>)
      then show ?thesis using weights mn q by (simp add: Orchestrator_Run_def)
    qed
  qed
qed

definition orchestrator_example :: "tensorEntry orchestrator" where
  "orchestrator_example = \<lparr>or_upstream = \<lparr>up_baseURL = ''https://huggingface.co'', up_get = (\<lambda>_. Inr (200, [])), up_revision = (\<lambda>_. Some ''abc''),
       up_tree = (\<lambda>_. Some [\<lparr>tn_Type = ''file'', tn_Path = ''m.safetensors'', tn_Size = 12, tn_OID = ''o''\<rparr>]), up_config = (\<lambda>_. None),
       up_license = (\<lambda>_. Some ''mit'')\<rparr>,
     or_fetch = (\<lambda>_. fetch_example), or_json = json_example, or_quota = DefaultQuota, or_text = (\<lambda>_. ''error''), or_dedup = Up, or_start = Up,
     or_done = Up, or_verify = Up, or_create = Up, or_complete = Up, or_fail = Up, or_now = 7, or_newid = ''m1''\<rparr>"

definition job_example :: ingestion_job where
  "job_example = \<lparr>job_ID = ''j'', job_RepoURL = ''o/n'', job_Revision = ''main'', job_State = IngestionStateQueued, job_BytesTotal = 0,
     job_BytesDownloaded = 0, job_ErrorMessage = None, job_ModelID = None, job_CreatedAt = 0, job_UpdatedAt = 0\<rparr>"

text \<open>The configuration does not decode, so the run fails in its last phase, after the header has been read.\<close>

lemma ingestion_terminal_witness:
  "\<exists>out. Orchestrator_Run orchestrator_example ''j'' \<lparr>ref_Owner = ''o'', ref_Name = ''n'', ref_Revision = ''main''\<rparr> ([job_example], []) = out
     \<and> snd out = Inl (IngPhase ''fetch config'' IngDecode)
     \<and> job_row ''j'' (\<lambda>j. job_State j = IngestionStateFailed \<and> job_ErrorMessage j = Some ''error'') (fst (fst out))"
proof -
  let ?r = "\<lparr>ref_Owner = ''o'', ref_Name = ''n'', ref_Revision = ''main''\<rparr>"
  let ?run = "Orchestrator_Run orchestrator_example ''j'' ?r ([job_example], [])"
  have n: "le_nat (le_bytes 8 2) = 2" by (simp add: le_nat_bytes)
  have h: "\<exists>h. FetchHeader json_example fetch_example \<lparr>hl_MaxHeaderBytes = 0, hl_MaxTensorCount = 0\<rparr> = Inr h"
    by (simp add: FetchHeader_def ReadHeaderLength_def fetch_example_def safetensorsHeaderPrefixBytes_def limits_normalize_def
        DefaultMaxHeaderBytes_def DefaultMaxTensorCount_def n decodeHeader_def json_example_def metadataKey_def validateTensorEntry_def
        validDtypes_def maxShapeRank_def)
  have res: "snd ?run = Inl (IngPhase ''fetch config'' IngDecode)"
    using h by (auto simp: Orchestrator_Run_def FetchManifest_def fetchRevisionSHA_def fetchFileTree_def getJSON_def orchestrator_example_def
        EnforceQuota_def DefaultQuota_def quota_normalize_def FindExistingArtifact_def Model_GetByRevisionSHA_def query_row_def
        findWeightFile_def has_suffix_def orch_download_def IngestionJob_UpdateProgress_def IngestionJob_UpdateState_def exec_update_Up
        job_example_def orch_register_def FetchConfig_def orch_fail_def Let_def i64_def)
  have "run_recorded orchestrator_example ''j'' M ([job_example], []) ?run
    \<Longrightarrow> job_row ''j'' (\<lambda>j. job_State j = IngestionStateFailed \<and> job_ErrorMessage j = Some ''error'') (fst (fst ?run))" for M
    using res by (auto simp: run_recorded_def orchestrator_example_def split: sum.splits)
  moreover have "job_row ''j'' (\<lambda>_. True) [job_example]" by (simp add: job_row_def job_example_def)
  ultimately show ?thesis using res ingestion_terminal [of orchestrator_example "''j''" "[job_example]" ?r "[]"]
    by (simp add: orchestrator_example_def)
qed

end
