(* ===== verification/ArtifactStore.thy ===== *)
theory ArtifactStore
  imports Encoding Failures "HOL-Library.Multiset"
begin

text \<open>
  The artifact cache in the object store: the chunked uploader (\<^verbatim>\<open>cache/upload.go\<close>), quarantine and removal
  (\<^verbatim>\<open>cache/client.go\<close>), the unreferenced tag (\<^verbatim>\<open>cache/reference.go\<close>), pulling to local disk
  (\<^verbatim>\<open>cache/pull.go\<close>), and the ingestion side of it: streaming verification
  (\<^verbatim>\<open>ingest/checksum.go\<close>, \<^verbatim>\<open>progress.go\<close>), the download pipeline (\<^verbatim>\<open>pipeline.go\<close>) and
  its retry loop (\<^verbatim>\<open>retrying_download.go\<close>).

  The S3 client is third-party code: its calls are the fields of the record \<open>s3\<close>, functions of an abstract
  state. What the theorems need of it is the predicate \<open>s3_laws\<close> below. Byte streams are a content and the way
  the stream ends; the hash functions are a parameter.
\<close>

section \<open>The object store client\<close>

type_synonym part = "nat \<times> string"

record 's s3 =
  s3_new :: "string \<Rightarrow> 's \<Rightarrow> 's \<times> (string + string)"
  s3_put_part :: "string \<Rightarrow> string \<Rightarrow> nat \<Rightarrow> string \<Rightarrow> 's \<Rightarrow> 's \<times> (string + string)"
  s3_list_parts :: "string \<Rightarrow> string \<Rightarrow> nat \<Rightarrow> 's \<Rightarrow> string + part list \<times> bool \<times> nat"
  s3_complete :: "string \<Rightarrow> string \<Rightarrow> part list \<Rightarrow> 's \<Rightarrow> 's \<times> (string + string)"
  s3_abort :: "string \<Rightarrow> string \<Rightarrow> 's \<Rightarrow> 's \<times> (string + unit)"
  s3_copy :: "string \<Rightarrow> string \<Rightarrow> 's \<Rightarrow> 's \<times> (string + unit)"
  s3_remove :: "string \<Rightarrow> 's \<Rightarrow> 's \<times> (string + unit)"
  s3_get :: "string \<Rightarrow> 's \<Rightarrow> string + string \<times> string option"
  s3_put_tags :: "string \<Rightarrow> (string \<times> string) list \<Rightarrow> 's \<Rightarrow> 's \<times> (string + unit)"
  s3_get_tags :: "string \<Rightarrow> 's \<Rightarrow> string + (string \<times> string) list"
  s3_bucket_exists :: "'s \<Rightarrow> string + bool"
  s3_make_bucket :: "'s \<Rightarrow> 's \<times> (string + unit)"
  s3_set_lifecycle :: "string \<Rightarrow> string \<Rightarrow> int \<Rightarrow> 's \<Rightarrow> 's \<times> (string + unit)"

datatype cache_error = InitiateUpload string | ListParts string | AbortFailed string | UploadPart nat string | ReadStream string | CompleteUpload string
  | CopyQuarantine string | RemoveFailed string | PurgeFailed cache_error | GetFailed string | TagFailed string
  | CheckBucket string | CreateBucket string | SetLifecycle string | HealthFailed string | NoBucket
  | MkdirFailed string | CreateFailed string | PullCopy string | CloseFailed string

text \<open>A reader: the bytes it still delivers, and how it ends (\<open>None\<close> for \<^verbatim>\<open>io.EOF\<close>, else a read error).\<close>

type_synonym reader = "string \<times> string option"

section \<open>Client (\<^verbatim>\<open>client.go\<close>, \<^verbatim>\<open>reference.go\<close>)\<close>

definition UnreferencedTagKey :: string where "UnreferencedTagKey = ''redline-unreferenced''"

definition DefaultUnreferencedExpiryDays :: int where "DefaultUnreferencedExpiryDays = 7"

definition ensureBucket :: "('s, 'x) s3_scheme \<Rightarrow> 's \<Rightarrow> 's \<times> (cache_error + unit)" where
  "ensureBucket S s = (case s3_bucket_exists S s of
      Inl e \<Rightarrow> (s, Inl (CheckBucket e))
    | Inr True \<Rightarrow> (s, Inr ())
    | Inr False \<Rightarrow> (case s3_make_bucket S s of (s', Inl e) \<Rightarrow> (s', Inl (CreateBucket e)) | (s', Inr _) \<Rightarrow> (s', Inr ())))"

definition applyLifecyclePolicy :: "('s, 'x) s3_scheme \<Rightarrow> int \<Rightarrow> 's \<Rightarrow> 's \<times> (cache_error + unit)" where
  "applyLifecyclePolicy S expiryDays s =
     (let days = (if expiryDays \<le> 0 then DefaultUnreferencedExpiryDays else expiryDays)
      in case s3_set_lifecycle S UnreferencedTagKey ''true'' days s of
           (s', Inl e) \<Rightarrow> (s', Inl (SetLifecycle e)) | (s', Inr _) \<Rightarrow> (s', Inr ()))"

text \<open>\<^verbatim>\<open>NewClient\<close> after the two constructors of the library.\<close>

definition NewClient :: "('s, 'x) s3_scheme \<Rightarrow> int \<Rightarrow> 's \<Rightarrow> 's \<times> (cache_error + unit)" where
  "NewClient S expiry s = (case ensureBucket S s of (s', Inl e) \<Rightarrow> (s', Inl e) | (s', Inr _) \<Rightarrow> applyLifecyclePolicy S expiry s')"

definition cache_HealthCheck :: "('s, 'x) s3_scheme \<Rightarrow> 's \<Rightarrow> cache_error + unit" where
  "cache_HealthCheck S s = (case s3_bucket_exists S s of Inl e \<Rightarrow> Inl (HealthFailed e) | Inr b \<Rightarrow> if b then Inr () else Inl NoBucket)"

definition RemoveObject :: "('s, 'x) s3_scheme \<Rightarrow> string \<Rightarrow> 's \<Rightarrow> 's \<times> (cache_error + unit)" where
  "RemoveObject S key s = (case s3_remove S key s of (s', Inl e) \<Rightarrow> (s', Inl (RemoveFailed e)) | (s', Inr _) \<Rightarrow> (s', Inr ()))"

definition quarantinePrefix :: string where "quarantinePrefix = ''quarantine/''"

definition Quarantine :: "('s, 'x) s3_scheme \<Rightarrow> string \<Rightarrow> 's \<Rightarrow> 's \<times> (cache_error + string)" where
  "Quarantine S key s = (case s3_copy S key (quarantinePrefix @ key) s of
      (s1, Inl e) \<Rightarrow> (s1, Inl (CopyQuarantine e))
    | (s1, Inr _) \<Rightarrow> (case RemoveObject S key s1 of
        (s2, Inl e) \<Rightarrow> (s2, Inl (PurgeFailed e)) | (s2, Inr _) \<Rightarrow> (s2, Inr (quarantinePrefix @ key))))"

definition GetObject :: "('s, 'x) s3_scheme \<Rightarrow> string \<Rightarrow> 's \<Rightarrow> cache_error + reader" where
  "GetObject S key s = (case s3_get S key s of Inl e \<Rightarrow> Inl (GetFailed e) | Inr r \<Rightarrow> Inr r)"

definition MarkUnreferenced :: "('s, 'x) s3_scheme \<Rightarrow> string \<Rightarrow> 's \<Rightarrow> 's \<times> (cache_error + unit)" where
  "MarkUnreferenced S key s = (case s3_put_tags S key [(UnreferencedTagKey, ''true'')] s of
      (s', Inl e) \<Rightarrow> (s', Inl (TagFailed e)) | (s', Inr _) \<Rightarrow> (s', Inr ()))"

definition MarkReferenced :: "('s, 'x) s3_scheme \<Rightarrow> string \<Rightarrow> 's \<Rightarrow> 's \<times> (cache_error + unit)" where
  "MarkReferenced S key s = (case s3_put_tags S key [] s of (s', Inl e) \<Rightarrow> (s', Inl (TagFailed e)) | (s', Inr _) \<Rightarrow> (s', Inr ()))"

definition IsUnreferenced :: "('s, 'x) s3_scheme \<Rightarrow> string \<Rightarrow> 's \<Rightarrow> cache_error + bool" where
  "IsUnreferenced S key s = (case s3_get_tags S key s of Inl e \<Rightarrow> Inl (TagFailed e) | Inr t \<Rightarrow> Inr (map_of t UnreferencedTagKey = Some ''true''))"

section \<open>Chunked upload (\<^verbatim>\<open>upload.go\<close>)\<close>

definition DefaultPartSize :: int where "DefaultPartSize = 64 * 1024 * 1024"

definition DefaultUploadConcurrency :: int where "DefaultUploadConcurrency = 4"

record UploadResult =
  ur_ETag :: string
  ur_Size :: int

record ChunkedUploader =
  cu_partSize :: int
  cu_concurrency :: int

definition NewChunkedUploader :: "int \<Rightarrow> int \<Rightarrow> ChunkedUploader" where
  "NewChunkedUploader partSize concurrency =
     \<lparr>cu_partSize = (if partSize \<le> 0 then DefaultPartSize else partSize),
      cu_concurrency = (if concurrency \<le> 0 then DefaultUploadConcurrency else concurrency)\<rparr>"

definition StartUpload :: "('s, 'x) s3_scheme \<Rightarrow> string \<Rightarrow> 's \<Rightarrow> 's \<times> (cache_error + string)" where
  "StartUpload S object s = (case s3_new S object s of (s', Inl e) \<Rightarrow> (s', Inl (InitiateUpload e)) | (s', Inr u) \<Rightarrow> (s', Inr u))"

text \<open>\<^verbatim>\<open>CompletedParts\<close> follows the markers of the listing until a page is not truncated. Nothing bounds the number
  of pages: a listing that never ends is the value \<open>None\<close>.\<close>

partial_function (option) completed_loop ::
  "('s, 'x) s3_scheme \<Rightarrow> string \<Rightarrow> string \<Rightarrow> 's \<Rightarrow> (nat \<rightharpoonup> string) \<Rightarrow> nat \<Rightarrow> (cache_error + (nat \<rightharpoonup> string)) option" where
  "completed_loop S object u s completed marker = (case s3_list_parts S object u marker s of
      Inl e \<Rightarrow> Some (Inl (ListParts e))
    | Inr (ps, truncated, next) \<Rightarrow>
        if \<not> truncated then Some (Inr (completed ++ map_of (rev ps)))
        else completed_loop S object u s (completed ++ map_of (rev ps)) next)"

definition CompletedParts :: "('s, 'x) s3_scheme \<Rightarrow> string \<Rightarrow> string \<Rightarrow> 's \<Rightarrow> (cache_error + (nat \<rightharpoonup> string)) option" where
  "CompletedParts S object u s = completed_loop S object u s Map.empty 0"

definition AbortUpload :: "('s, 'x) s3_scheme \<Rightarrow> string \<Rightarrow> string \<Rightarrow> 's \<Rightarrow> 's \<times> (cache_error + unit)" where
  "AbortUpload S object u s = (case s3_abort S object u s of (s', Inl e) \<Rightarrow> (s', Inl (AbortFailed e)) | (s', Inr _) \<Rightarrow> (s', Inr ()))"

text \<open>The read loop cuts the stream into buffers of the part size, the last one shorter; a buffer filled before a read
  error is still handed on. \<^verbatim>\<open>NewChunkedUploader\<close> makes the part size positive.\<close>

function read_parts :: "nat \<Rightarrow> nat \<Rightarrow> string \<Rightarrow> (nat \<times> string) list" where
  "read_parts k pn content =
     (if k = 0 \<or> content = [] then [] else (pn + 1, take k content) # read_parts k (pn + 1) (drop k content))"
  by auto
termination by (relation "measure (\<lambda>(_, _, content). length content)") auto

declare read_parts.simps [simp del]

text \<open>A part that the upload already has is recorded; any other is put. The goroutines finish in some order \<open>sched\<close>
  of the parts; the error group keeps the first error and waits for all.\<close>

fun upload_parts ::
  "('s, 'x) s3_scheme \<Rightarrow> string \<Rightarrow> string \<Rightarrow> (nat \<rightharpoonup> string) \<Rightarrow> (nat \<times> string) list \<Rightarrow> part list \<Rightarrow> cache_error option \<Rightarrow> 's \<Rightarrow>
   's \<times> part list \<times> cache_error option" where
  "upload_parts S object u have [] parts err s = (s, parts, err)"
| "upload_parts S object u have ((pn, data) # ps) parts err s = (case have pn of
      Some etag \<Rightarrow> upload_parts S object u have ps (parts @ [(pn, etag)]) err s
    | None \<Rightarrow> (case s3_put_part S object u pn data s of
        (s', Inl e) \<Rightarrow> upload_parts S object u have ps parts (if err = None then Some (UploadPart pn e) else err) s'
      | (s', Inr etag) \<Rightarrow> upload_parts S object u have ps (parts @ [(pn, etag)]) err s'))"

definition Resume ::
  "('s, 'x) s3_scheme \<Rightarrow> ChunkedUploader \<Rightarrow> ((nat \<times> string) list \<Rightarrow> (nat \<times> string) list) \<Rightarrow> string \<Rightarrow> string \<Rightarrow> reader \<Rightarrow> (nat \<rightharpoonup> string) \<Rightarrow> 's \<Rightarrow>
   's \<times> (cache_error + UploadResult)" where
  "Resume S U sched object u src alreadyCompleted s =
     (let (content, fin) = src;
          ps = read_parts (nat (cu_partSize U)) 0 content;
          totalSize = i64 (int (length content));
          (s1, parts, err) = upload_parts S object u alreadyCompleted (sched ps) [] None s
      in case fin of
           Some e \<Rightarrow> (fst (s3_abort S object u s1), Inl (ReadStream e))
         | None \<Rightarrow> (case err of
             Some e \<Rightarrow> (fst (s3_abort S object u s1), Inl e)
           | None \<Rightarrow> (case s3_complete S object u (sort_key fst parts) s1 of
               (s2, Inl e) \<Rightarrow> (fst (s3_abort S object u s2), Inl (CompleteUpload e))
             | (s2, Inr etag) \<Rightarrow> (s2, Inr \<lparr>ur_ETag = etag, ur_Size = totalSize\<rparr>))))"

definition Upload ::
  "('s, 'x) s3_scheme \<Rightarrow> ChunkedUploader \<Rightarrow> ((nat \<times> string) list \<Rightarrow> (nat \<times> string) list) \<Rightarrow> string \<Rightarrow> reader \<Rightarrow> 's \<Rightarrow> 's \<times> (cache_error + UploadResult)" where
  "Upload S U sched object src s = (case StartUpload S object s of
      (s1, Inl e) \<Rightarrow> (s1, Inl e) | (s1, Inr u) \<Rightarrow> Resume S U sched object u src Map.empty s1)"

section \<open>Pull to disk (\<^verbatim>\<open>pull.go\<close>)\<close>

definition DefaultPullConcurrency :: int where "DefaultPullConcurrency = 4"

text \<open>The local disk is a map from paths to contents; the outcome of every system call is a parameter, the write
  of a copy may stop early (a full disk), and a failed removal leaves the file.\<close>

record disk_io =
  io_mkdir :: "string \<Rightarrow> string option"
  io_create :: "string \<Rightarrow> string option"
  io_write :: "string \<Rightarrow> nat option"
  io_close :: "string \<Rightarrow> string option"
  io_remove :: "string \<Rightarrow> bool"

type_synonym disk = "string \<rightharpoonup> string"

definition os_Remove :: "disk_io \<Rightarrow> string \<Rightarrow> disk \<Rightarrow> disk" where
  "os_Remove io path fs = (if io_remove io path then fs(path := None) else fs)"

text \<open>\<^verbatim>\<open>io.Copy\<close> into a freshly created file: what is on disk, and the error.\<close>

definition copy_out :: "nat option \<Rightarrow> reader \<Rightarrow> string \<times> string option" where
  "copy_out room src = (case room of
      Some k \<Rightarrow> if k < length (fst src) then (take k (fst src), Some ''no space left'') else src
    | None \<Rightarrow> src)"

definition PullToDisk :: "('s, 'x) s3_scheme \<Rightarrow> disk_io \<Rightarrow> string \<Rightarrow> string \<Rightarrow> 's \<Rightarrow> disk \<Rightarrow> disk \<times> (cache_error + int)" where
  "PullToDisk S io objectKey destPath s fs = (case GetObject S objectKey s of
      Inl e \<Rightarrow> (fs, Inl e)
    | Inr src \<Rightarrow> (case io_mkdir io destPath of
        Some e \<Rightarrow> (fs, Inl (MkdirFailed e))
      | None \<Rightarrow> (case io_create io destPath of
          Some e \<Rightarrow> (fs, Inl (CreateFailed e))
        | None \<Rightarrow>
            (let (written, copyErr) = copy_out (io_write io destPath) src; fs1 = fs(destPath \<mapsto> written)
             in case copyErr of
                  Some e \<Rightarrow> (os_Remove io destPath fs1, Inl (PullCopy e))
                | None \<Rightarrow> (case io_close io destPath of
                    Some e \<Rightarrow> (os_Remove io destPath fs1, Inl (CloseFailed e))
                  | None \<Rightarrow> (fs1, Inr (int (length written))))))))"

text \<open>The goroutines of \<^verbatim>\<open>PullSet\<close>, in the order in which they finish; the first error is returned.\<close>

fun PullSet :: "('s, 'x) s3_scheme \<Rightarrow> disk_io \<Rightarrow> (string \<times> string) list \<Rightarrow> 's \<Rightarrow> disk \<Rightarrow> cache_error option \<Rightarrow> disk \<times> cache_error option" where
  "PullSet S io [] s fs err = (fs, err)"
| "PullSet S io ((objectKey, destPath) # files) s fs err = (case PullToDisk S io objectKey destPath s fs of
      (fs', Inl e) \<Rightarrow> PullSet S io files s fs' (if err = None then Some e else err)
    | (fs', Inr _) \<Rightarrow> PullSet S io files s fs' err)"

section \<open>Verified streams (\<^verbatim>\<open>checksum.go\<close>, \<^verbatim>\<open>progress.go\<close>)\<close>

record ChecksumMismatchError =
  cm_Path :: string
  cm_Want :: string
  cm_Got :: string
  cm_QuarantineKey :: string

datatype download_error = DlRequest string | DlStatus int | DlAlgorithm string | DlUpload cache_error
  | DlMismatch ChecksumMismatchError "cache_error option" | DlStream string | DlCreate string | DlClose string | DlCancelled | DlPanic

definition newHasher :: "(string \<Rightarrow> string) \<Rightarrow> (string \<Rightarrow> string) \<Rightarrow> string \<Rightarrow> download_error + (string \<Rightarrow> string)" where
  "newHasher sha256 sha1 algorithm =
     (if to_lower algorithm = ''sha256'' then Inr sha256
      else if to_lower algorithm = ''sha1'' then Inr sha1
      else Inl (DlAlgorithm algorithm))"

text \<open>\<^verbatim>\<open>strings.EqualFold\<close> against a string of hexadecimal digits.\<close>

definition equal_fold :: "string \<Rightarrow> string \<Rightarrow> bool" where
  "equal_fold a b \<longleftrightarrow> to_lower a = to_lower b"

text \<open>The bytes that reached the destination, and the verdict.\<close>

definition StreamAndVerify ::
  "(string \<Rightarrow> string) \<Rightarrow> (string \<Rightarrow> string) \<Rightarrow> nat option \<Rightarrow> reader \<Rightarrow> string \<Rightarrow> string \<Rightarrow> string \<Rightarrow> string \<times> (download_error + unit)" where
  "StreamAndVerify sha256 sha1 room src algorithm expected path = (case newHasher sha256 sha1 algorithm of
      Inl e \<Rightarrow> ([], Inl e)
    | Inr H \<Rightarrow> (case copy_out room src of
        (written, Some e) \<Rightarrow> (written, Inl (DlStream e))
      | (written, None) \<Rightarrow>
          (let got = hex_encode (H written)
           in (written, if \<not> equal_fold got expected
                        then Inl (DlMismatch \<lparr>cm_Path = path, cm_Want = expected, cm_Got = got, cm_QuarantineKey = []\<rparr> None)
                        else Inr ()))))"

definition DownloadAndVerify ::
  "(string \<Rightarrow> string) \<Rightarrow> (string \<Rightarrow> string) \<Rightarrow> disk_io \<Rightarrow> (string + int \<times> reader) \<Rightarrow> string \<Rightarrow> string \<Rightarrow> string \<Rightarrow> string \<Rightarrow> disk \<Rightarrow>
   disk \<times> (download_error + unit)" where
  "DownloadAndVerify sha256 sha1 io resp fileURL algorithm expected destPath fs = (case resp of
      Inl e \<Rightarrow> (fs, Inl (DlRequest e))
    | Inr (status, body) \<Rightarrow>
        if status \<noteq> 200 then (fs, Inl (DlStatus status))
        else (case io_create io destPath of
          Some e \<Rightarrow> (fs, Inl (DlCreate e))
        | None \<Rightarrow> (case StreamAndVerify sha256 sha1 (io_write io destPath) body algorithm expected fileURL of
            (written, Inl e) \<Rightarrow> (os_Remove io destPath (fs(destPath \<mapsto> written)), Inl e)
          | (written, Inr _) \<Rightarrow> (case io_close io destPath of
              Some e \<Rightarrow> (os_Remove io destPath (fs(destPath \<mapsto> written)), Inl (DlClose e))
            | None \<Rightarrow> (fs(destPath \<mapsto> written), Inr ())))))"

text \<open>One read of the progress reader: the running total and the value reported, if any.\<close>

definition progressReader_Read :: "int \<Rightarrow> nat \<Rightarrow> int \<times> int option" where
  "progressReader_Read total_bytes n = (if 0 < n then (i64 (total_bytes + int n), Some (i64 (total_bytes + int n))) else (total_bytes, None))"

section \<open>Download pipeline (\<^verbatim>\<open>pipeline.go\<close>, \<^verbatim>\<open>retrying_download.go\<close>)\<close>

record 's CachePipeline =
  cp_store :: "'s s3"
  cp_uploader :: ChunkedUploader
  cp_sha256 :: "string \<Rightarrow> string"
  cp_sha1 :: "string \<Rightarrow> string"

definition DownloadToCache ::
  "('s, 'x) CachePipeline_scheme \<Rightarrow> ((nat \<times> string) list \<Rightarrow> (nat \<times> string) list) \<Rightarrow> (string + int \<times> reader) \<Rightarrow>
   string \<Rightarrow> string \<Rightarrow> string \<Rightarrow> string \<Rightarrow> 's \<Rightarrow> 's \<times> (download_error + UploadResult)" where
  "DownloadToCache P sched resp fileURL algorithm expected objectKey s = (case resp of
      Inl e \<Rightarrow> (s, Inl (DlRequest e))
    | Inr (status, body) \<Rightarrow>
        if status \<noteq> 200 then (s, Inl (DlStatus status))
        else (case newHasher (cp_sha256 P) (cp_sha1 P) algorithm of
          Inl e \<Rightarrow> (s, Inl e)
        | Inr H \<Rightarrow> (case Upload (cp_store P) (cp_uploader P) sched objectKey body s of
            (s1, Inl e) \<Rightarrow> (s1, Inl (DlUpload e))
          | (s1, Inr result) \<Rightarrow>
              (let got = hex_encode (H (fst body)) in
               if \<not> equal_fold got expected
               then (let mismatch = \<lparr>cm_Path = fileURL, cm_Want = expected, cm_Got = got, cm_QuarantineKey = []\<rparr>
                     in case Quarantine (cp_store P) objectKey s1 of
                          (s2, Inl e) \<Rightarrow> (s2, Inl (DlMismatch mismatch (Some e)))
                        | (s2, Inr qk) \<Rightarrow> (s2, Inl (DlMismatch (mismatch\<lparr>cm_QuarantineKey := qk\<rparr>) None)))
               else (s1, Inr result)))))"

fun is_mismatch :: "download_error \<Rightarrow> bool" where
  "is_mismatch (DlMismatch _ _) = True"
| "is_mismatch _ = False"

text \<open>\<open>dl attempt\<close> is one call of \<^verbatim>\<open>DownloadToCache\<close>; \<open>cancelled attempt delay\<close> says that the context ends during that wait.\<close>

function retry_loop ::
  "(int \<Rightarrow> 's \<Rightarrow> 's \<times> (download_error + 'r)) \<Rightarrow> (int \<Rightarrow> int \<Rightarrow> bool) \<Rightarrow> (int \<Rightarrow> int) \<Rightarrow> RetryPolicy \<Rightarrow> int \<Rightarrow> 's \<Rightarrow> 's \<times> (download_error + 'r)" where
  "retry_loop dl cancelled rnd policy attempt s = (case dl attempt s of
      (s', Inr r) \<Rightarrow> (s', Inr r)
    | (s', Inl e) \<Rightarrow>
        if \<not> is_mismatch e then (s', Inl e)
        else if rp_MaxAttempts policy \<le> attempt then (s', Inl e)
        else (case NextDelay rnd policy attempt of
            PanicInt64N \<Rightarrow> (s', Inl DlPanic)
          | Delay d \<Rightarrow> if cancelled attempt d then (s', Inl DlCancelled) else retry_loop dl cancelled rnd policy (attempt + 1) s'))"
  by auto
termination by (relation "measure (\<lambda>(_, _, _, policy, attempt, _). nat (rp_MaxAttempts policy - attempt))") auto

declare retry_loop.simps [simp del]

definition RetryingDownload ::
  "('s, 'x) CachePipeline_scheme \<Rightarrow> (int \<Rightarrow> (nat \<times> string) list \<Rightarrow> (nat \<times> string) list) \<Rightarrow> (int \<Rightarrow> string + int \<times> reader) \<Rightarrow> (int \<Rightarrow> int \<Rightarrow> bool) \<Rightarrow>
   (int \<Rightarrow> int) \<Rightarrow> RetryPolicy \<Rightarrow> string \<Rightarrow> string \<Rightarrow> string \<Rightarrow> string \<Rightarrow> 's \<Rightarrow> 's \<times> (download_error + UploadResult)" where
  "RetryingDownload P scheds resps cancelled rnd policy0 fileURL algorithm expected objectKey s =
     (let policy = (if rp_MaxAttempts policy0 \<le> 0 then DefaultRetryPolicy else policy0)
      in retry_loop (\<lambda>a. DownloadToCache P (scheds a) (resps a) fileURL algorithm expected objectKey) cancelled rnd policy 1 s)"

section \<open>What an object store promises\<close>

text \<open>\<open>obj\<close> and \<open>prt\<close> read the objects and the parts of an upload off the state. An accepted part is stored under its number
  with its entity tag, a completed upload makes the object the concatenation of the listed parts, which it must have
  under the listed tags, and copy, remove, new and abort touch only what they name. A failed call may or may not have
  taken effect.\<close>

definition law_parts :: "('s, 'x) s3_scheme \<Rightarrow> ('s \<Rightarrow> string \<Rightarrow> string option) \<Rightarrow> ('s \<Rightarrow> string \<Rightarrow> nat \<Rightarrow> (string \<times> string) option) \<Rightarrow> bool" where
  "law_parts S obj prt \<longleftrightarrow> (\<forall>o' u n d s s' r. s3_put_part S o' u n d s = (s', r) \<longrightarrow>
      obj s' = obj s \<and> (\<forall>m. m \<noteq> n \<longrightarrow> prt s' u m = prt s u m) \<and> (\<forall>etag. r = Inr etag \<longrightarrow> prt s' u n = Some (etag, d)))"

definition law_complete :: "('s, 'x) s3_scheme \<Rightarrow> ('s \<Rightarrow> string \<Rightarrow> string option) \<Rightarrow> ('s \<Rightarrow> string \<Rightarrow> nat \<Rightarrow> (string \<times> string) option) \<Rightarrow> bool" where
  "law_complete S obj prt \<longleftrightarrow> (\<forall>o' u ps s s' r. s3_complete S o' u ps s = (s', r) \<longrightarrow>
      (\<forall>k. k \<noteq> o' \<longrightarrow> obj s' k = obj s k) \<and>
      (\<forall>etag. r = Inr etag \<longrightarrow> (\<exists>ds. list_all2 (\<lambda>(n, e) d. prt s u n = Some (e, d)) ps ds \<and> obj s' o' = Some (concat ds))))"

definition law_copy :: "('s, 'x) s3_scheme \<Rightarrow> ('s \<Rightarrow> string \<Rightarrow> string option) \<Rightarrow> bool" where
  "law_copy S obj \<longleftrightarrow> (\<forall>a b s s' r. s3_copy S a b s = (s', r) \<longrightarrow>
      (\<forall>k. k \<noteq> b \<longrightarrow> obj s' k = obj s k) \<and> (\<forall>u. r = Inr u \<longrightarrow> obj s' b = obj s a))"

definition law_remove :: "('s, 'x) s3_scheme \<Rightarrow> ('s \<Rightarrow> string \<Rightarrow> string option) \<Rightarrow> bool" where
  "law_remove S obj \<longleftrightarrow> (\<forall>a s s' r. s3_remove S a s = (s', r) \<longrightarrow>
      (\<forall>k. k \<noteq> a \<longrightarrow> obj s' k = obj s k) \<and> (\<forall>u. r = Inr u \<longrightarrow> obj s' a = None))"

definition s3_laws :: "('s, 'x) s3_scheme \<Rightarrow> ('s \<Rightarrow> string \<Rightarrow> string option) \<Rightarrow> ('s \<Rightarrow> string \<Rightarrow> nat \<Rightarrow> (string \<times> string) option) \<Rightarrow> bool" where
  "s3_laws S obj prt \<longleftrightarrow> law_parts S obj prt \<and> law_complete S obj prt \<and> law_copy S obj \<and> law_remove S obj \<and>
     (\<forall>o' s. obj (fst (s3_new S o' s)) = obj s) \<and> (\<forall>o' u s. obj (fst (s3_abort S o' u s)) = obj s)"

section \<open>Facts\<close>

lemma s3_put_law:
  assumes "s3_laws S obj prt" "s3_put_part S o' u n d s = (s', r)"
  shows "obj s' = obj s \<and> (\<forall>m. m \<noteq> n \<longrightarrow> prt s' u m = prt s u m) \<and> (\<forall>etag. r = Inr etag \<longrightarrow> prt s' u n = Some (etag, d))"
proof -
  have "law_parts S obj prt" using assms(1) by (simp add: s3_laws_def)
  from this [unfolded law_parts_def, rule_format, OF assms(2)] show ?thesis by simp
qed

lemma s3_complete_law:
  assumes "s3_laws S obj prt" "s3_complete S o' u ps s = (s', r)"
  shows "(\<forall>k. k \<noteq> o' \<longrightarrow> obj s' k = obj s k)
    \<and> (\<forall>etag. r = Inr etag \<longrightarrow> (\<exists>ds. list_all2 (\<lambda>(n, e) d. prt s u n = Some (e, d)) ps ds \<and> obj s' o' = Some (concat ds)))"
proof -
  have "law_complete S obj prt" using assms(1) by (simp add: s3_laws_def)
  from this [unfolded law_complete_def, THEN spec, THEN spec, THEN spec, THEN spec, THEN spec, THEN spec, THEN mp, OF assms(2)] show ?thesis .
qed

lemma s3_abort_law: "s3_laws S obj prt \<Longrightarrow> obj (fst (s3_abort S o' u s)) = obj s"
  by (simp add: s3_laws_def)

lemma s3_new_law: "s3_laws S obj prt \<Longrightarrow> obj (fst (s3_new S o' s)) = obj s"
  by (simp add: s3_laws_def)

lemma s3_copy_law:
  assumes "s3_laws S obj prt" "s3_copy S a b s = (s', r)"
  shows "(\<forall>k. k \<noteq> b \<longrightarrow> obj s' k = obj s k) \<and> (\<forall>u. r = Inr u \<longrightarrow> obj s' b = obj s a)"
  using assms by (simp add: s3_laws_def law_copy_def)

lemma s3_remove_law:
  assumes "s3_laws S obj prt" "s3_remove S a s = (s', r)"
  shows "(\<forall>k. k \<noteq> a \<longrightarrow> obj s' k = obj s k) \<and> (\<forall>u. r = Inr u \<longrightarrow> obj s' a = None)"
  using assms by (simp add: s3_laws_def law_remove_def)

text \<open>The parts of a stream are numbered from one, without gaps, and concatenate to it.\<close>

text \<open>A server whose markers grow and stay below a bound (S3 numbers at most 10000 parts) ends the listing.\<close>

lemma completed_loop_returns:
  assumes "\<And>m ps nx. s3_list_parts S object u m s = Inr (ps, True, nx) \<Longrightarrow> m < nx \<and> nx \<le> N"
  shows "\<exists>r. completed_loop S object u s completed marker = Some r"
proof (induction "N - marker" arbitrary: completed marker rule: less_induct)
  case less
  show ?case
  proof (cases "s3_list_parts S object u marker s")
    case (Inr page)
    obtain ps truncated nx where page: "page = (ps, truncated, nx)" by (cases page)
    show ?thesis
    proof (cases truncated)
      case True
      with assms [of marker ps nx] Inr page have "N - nx < N - marker" by auto
      from less [OF this] Inr page True show ?thesis by (simp add: completed_loop.simps)
    qed (simp add: completed_loop.simps Inr page)
  qed (simp add: completed_loop.simps)
qed

lemma read_parts_spec:
  "0 < k \<Longrightarrow> map fst (read_parts k pn content) = [pn + 1 ..< pn + 1 + length (read_parts k pn content)]
    \<and> concat (map snd (read_parts k pn content)) = content"
proof (induction k pn content rule: read_parts.induct)
  case (1 k pn content)
  show ?case
  proof (cases "content = []")
    case True
    then show ?thesis by (simp add: read_parts.simps)
  next
    case False
    note r = read_parts.simps [of k pn content]
    show ?thesis using 1 False by (simp add: r upt_conv_Cons del: upt_Suc)
  qed
qed

lemma upload_parts_frame:
  assumes "s3_laws S obj prt"
  shows "obj (fst (upload_parts S o' u prior ps acc err s)) = obj s \<and>
    (\<forall>m. m \<notin> fst ` set ps \<longrightarrow> prt (fst (upload_parts S o' u prior ps acc err s)) u m = prt s u m)"
proof (induction ps arbitrary: acc err s)
  case (Cons p ps)
  obtain s' r where put: "s3_put_part S o' u (fst p) (snd p) s = (s', r)" by fastforce
  show ?case using Cons s3_put_law [OF assms put] put by (cases p; cases r) (auto split: option.splits)
qed simp

lemma upload_parts_err: "err \<noteq> None \<Longrightarrow> snd (snd (upload_parts S o' u prior ps acc err s)) \<noteq> None"
  by (induction S o' u prior ps acc err s rule: upload_parts.induct) (auto split: option.splits prod.splits sum.splits)

text \<open>When no part failed, the recorded parts are those of the schedule, each stored with its data.\<close>

lemma upload_parts_ok:
  assumes L: "s3_laws S obj prt"
  shows "distinct (map fst ps) \<Longrightarrow> (\<And>n etag d. prior n = Some etag \<Longrightarrow> (n, d) \<in> set ps \<Longrightarrow> prt s u n = Some (etag, d)) \<Longrightarrow>
    upload_parts S o' u prior ps acc err s = (s', parts, None) \<Longrightarrow>
    \<exists>qs. parts = acc @ qs \<and> list_all2 (\<lambda>(n, e) (m, d). n = m \<and> prt s' u n = Some (e, d)) qs ps"
proof (induction ps arbitrary: acc err s)
  case (Cons p ps)
  obtain n d where p: "p = (n, d)" by (cases p)
  note frame = upload_parts_frame [OF L, of o' u prior ps]
  show ?case
  proof (cases "prior n")
    case (Some etag)
    have run: "upload_parts S o' u prior ps (acc @ [(n, etag)]) err s = (s', parts, None)" using Cons.prems(3) Some by (simp add: p)
    have "prt s' u n = Some (etag, d)" using frame [of "acc @ [(n, etag)]" err s] run Cons.prems(1) Cons.prems(2) [OF Some, of d] by (simp add: p)
    moreover obtain qs where "parts = (acc @ [(n, etag)]) @ qs" "list_all2 (\<lambda>(n, e) (m, d). n = m \<and> prt s' u n = Some (e, d)) qs ps"
      using Cons.IH [OF _ _ run] Cons.prems(1,2) by auto
    ultimately show ?thesis by (intro exI [of _ "(n, etag) # qs"]) (simp add: p)
  next
    case None
    obtain s1 r where put: "s3_put_part S o' u n d s = (s1, r)" by fastforce
    show ?thesis
    proof (cases r)
      case (Inl e)
      then show ?thesis using Cons.prems(3) None put upload_parts_err [of "if err = None then Some (UploadPart n e) else err" S o' u prior ps acc s1]
        by (simp add: p split: if_splits)
    next
      case (Inr etag)
      note P = s3_put_law [OF L put]
      have run: "upload_parts S o' u prior ps (acc @ [(n, etag)]) err s1 = (s', parts, None)" using Cons.prems(3) None put Inr by (simp add: p)
      have "prt s' u n = Some (etag, d)" using frame [of "acc @ [(n, etag)]" err s1] run Cons.prems(1) P Inr by (simp add: p)
      moreover have "\<exists>qs. parts = (acc @ [(n, etag)]) @ qs \<and> list_all2 (\<lambda>(n, e) (m, d). n = m \<and> prt s' u n = Some (e, d)) qs ps"
      proof (rule Cons.IH [OF _ _ run])
        show "distinct (map fst ps)" using Cons.prems(1) by simp
        show "prt s1 u m = Some (e, c)" if m: "prior m = Some e" "(m, c) \<in> set ps" for m e c
        proof -
          have "m \<noteq> n" using m None by auto
          then show ?thesis using Cons.prems(2) [OF m(1), of c] m(2) P by simp
        qed
      qed
      ultimately show ?thesis by (elim exE conjE) (simp add: p)
    qed
  qed
qed simp

lemma sorted_parts_data:
  assumes "mset ps' = mset ps" "sorted (map fst ps)" "distinct (map fst ps)"
    and "list_all2 (\<lambda>(n, e) (m, d). n = m \<and> f n = Some (e, d)) qs ps'" "list_all2 (\<lambda>(n, e) d. f n = Some (e, d)) (sort_key fst qs) ds"
  shows "ds = map snd ps"
proof -
  have fq: "map fst qs = map fst ps'" using assms(4) by (auto simp: list_all2_conv_all_nth intro!: nth_equalityI)
  have "map fst (sort_key fst qs) = sort (map fst qs)" by (rule properties_for_sort [symmetric]) simp_all
  also have "\<dots> = map fst ps" using assms(1,2) fq by (intro properties_for_sort) simp_all
  finally have ms: "map fst (sort_key fst qs) = map fst ps" .
  have "ds = map (\<lambda>n. snd (the (f n))) (map fst (sort_key fst qs))"
    using assms(5) by (auto simp: list_all2_conv_all_nth split_beta intro!: nth_equalityI)
  also have "\<dots> = map snd ps" unfolding ms
  proof (clarsimp)
    fix n d assume "(n, d) \<in> set ps"
    then have "(n, d) \<in> set ps'" using assms(1) by (metis set_mset_mset)
    then obtain i where "i < length ps'" "ps' ! i = (n, d)" by (auto simp: in_set_conv_nth)
    then show "snd (the (f n)) = d" using assms(4) by (auto simp: list_all2_conv_all_nth split_beta dest: spec [of _ i])
  qed
  finally show ?thesis .
qed

lemma Resume_exact:
  assumes L: "s3_laws S obj prt" and k: "0 < cu_partSize U" and sched: "\<And>ps. mset (sched ps) = mset ps"
    and prior: "\<And>n etag d. prior n = Some etag \<Longrightarrow> (n, d) \<in> set (read_parts (nat (cu_partSize U)) 0 (fst src)) \<Longrightarrow> prt s u n = Some (etag, d)"
    and run: "Resume S U sched o' u src prior s = (s', res)"
  shows "(\<forall>r. res = Inr r \<longrightarrow> obj s' = (obj s)(o' \<mapsto> fst src) \<and> snd src = None \<and> ur_Size r = i64 (int (length (fst src))))
    \<and> (\<forall>e. res = Inl e \<longrightarrow> (if \<exists>x. e = CompleteUpload x then \<forall>key. key \<noteq> o' \<longrightarrow> obj s' key = obj s key else obj s' = obj s))"
proof -
  let ?ps = "read_parts (nat (cu_partSize U)) 0 (fst src)"
  note P = read_parts_spec [of "nat (cu_partSize U)" 0 "fst src"]
  have d: "sorted (map fst ?ps)" "distinct (map fst ?ps)" using P k by (simp_all del: upt_Suc)
  have d': "distinct (map fst (sched ?ps))" using d(2) sched [of ?ps] by (metis distinct_map mset_eq_imp_distinct_iff mset_eq_setD mset_map)
  obtain s1 parts err where up: "upload_parts S o' u prior (sched ?ps) [] None s = (s1, parts, err)" by (metis prod_cases3)
  have o1: "obj s1 = obj s" using upload_parts_frame [OF L, of o' u prior "sched ?ps" "[]" None s] up by simp
  note abort = s3_abort_law [OF L]
  show ?thesis
  proof (cases "snd src = None \<and> err = None")
    case False
    then show ?thesis using run up o1 abort by (cases src) (auto simp: Resume_def Let_def split: option.splits)
  next
    case True
    obtain s2 r where c: "s3_complete S o' u (sort_key fst parts) s1 = (s2, r)" by fastforce
    note C = s3_complete_law [OF L c]
    show ?thesis
    proof (cases r)
      case (Inl e)
      then have "s' = fst (s3_abort S o' u s2)" "res = Inl (CompleteUpload e)" using run up c True by (cases src; simp add: Resume_def)+
      then show ?thesis using C o1 abort by simp
    next
      case (Inr etag)
      obtain ds where ds: "list_all2 (\<lambda>(n, e) d. prt s1 u n = Some (e, d)) (sort_key fst parts) ds" "obj s2 o' = Some (concat ds)"
        using C Inr by blast
      have "\<exists>qs. parts = [] @ qs \<and> list_all2 (\<lambda>(n, e) (m, d). n = m \<and> prt s1 u n = Some (e, d)) qs (sched ?ps)"
        by (rule upload_parts_ok [OF L d' _ up [unfolded conjunct2 [OF True]]]) (use prior sched [of ?ps] in \<open>auto dest: mset_eq_setD\<close>)
      then have "list_all2 (\<lambda>(n, e) (m, d). n = m \<and> prt s1 u n = Some (e, d)) parts (sched ?ps)" by simp
      from sorted_parts_data [OF sched d this ds(1)] have "obj s2 o' = Some (fst src)" using ds(2) P k by simp
      then have "obj s2 = (obj s)(o' \<mapsto> fst src)" using C o1 by (auto simp: fun_eq_iff)
      moreover have "s' = s2" "res = Inr \<lparr>ur_ETag = etag, ur_Size = i64 (int (length (fst src)))\<rparr>"
        using run up c True Inr by (cases src; simp add: Resume_def)+
      ultimately show ?thesis using True by simp
    qed
  qed
qed

lemma retry_loop_last:
  "retry_loop dl cancelled rnd policy attempt s = (s', res) \<Longrightarrow> res \<notin> {Inl DlPanic, Inl DlCancelled} \<Longrightarrow>
    \<exists>a s0. attempt \<le> a \<and> a \<le> max attempt (rp_MaxAttempts policy) \<and> dl a s0 = (s', res)"
proof (induction dl cancelled rnd policy attempt s rule: retry_loop.induct)
  case (1 dl cancelled rnd policy attempt s)
  obtain s1 r1 where step: "dl attempt s = (s1, r1)" by fastforce
  show ?case
  proof (cases "\<exists>e d. r1 = Inl e \<and> is_mismatch e \<and> attempt < rp_MaxAttempts policy \<and> NextDelay rnd policy attempt = Delay d \<and> \<not> cancelled attempt d")
    case True
    then obtain e d where r: "r1 = Inl e" "is_mismatch e" "\<not> rp_MaxAttempts policy \<le> attempt" "NextDelay rnd policy attempt = Delay d" "\<not> cancelled attempt d"
      by (auto simp: not_le)
    have "retry_loop dl cancelled rnd policy (attempt + 1) s1 = (s', res)" using 1(2) r step by (simp add: retry_loop.simps [of dl cancelled rnd policy attempt])
    with 1(1) [OF step [symmetric] r(1) _ r(3,4,5)] 1(3) r(2) obtain a s0 where "attempt + 1 \<le> a" "a \<le> max (attempt + 1) (rp_MaxAttempts policy)" "dl a s0 = (s', res)"
      by blast
    then show ?thesis using r(3) by (intro exI [of _ a] exI [of _ s0]) auto
  next
    case False
    then show ?thesis using 1(2,3) step
      by (intro exI [of _ attempt] exI [of _ s]) (auto simp: retry_loop.simps [of dl cancelled rnd policy attempt] split: sum.splits if_splits delay_result.splits)
  qed
qed

lemma retry_loop_cong:
  "(\<And>a. attempt \<le> a \<Longrightarrow> a \<le> max attempt (rp_MaxAttempts policy) \<Longrightarrow> dl' a = dl a) \<Longrightarrow>
    retry_loop dl' cancelled rnd policy attempt s = retry_loop dl cancelled rnd policy attempt s"
proof (induction dl cancelled rnd policy attempt s rule: retry_loop.induct)
  case (1 dl cancelled rnd policy attempt s)
  obtain s1 r1 where step: "dl attempt s = (s1, r1)" by fastforce
  then have step': "dl' attempt s = (s1, r1)" using 1(2) [of attempt] by simp
  note eqs = retry_loop.simps [of dl cancelled rnd policy attempt] retry_loop.simps [of dl' cancelled rnd policy attempt]
  have IH: "retry_loop dl' cancelled rnd policy (attempt + 1) s1 = retry_loop dl cancelled rnd policy (attempt + 1) s1"
    if "r1 = Inl e" "is_mismatch e" "\<not> rp_MaxAttempts policy \<le> attempt" "NextDelay rnd policy attempt = Delay d" "\<not> cancelled attempt d" for e d
    using 1(1) [OF step [symmetric] that(1) _ that(3,4,5)] that(2,3) 1(2) by simp
  show ?case using step step' IH by (auto simp: eqs split: sum.splits delay_result.splits)
qed

lemma Quarantine_moves:
  assumes L: "s3_laws S obj prt" and q: "Quarantine S key s = (s', Inr qk)"
  shows "obj s' key = None \<and> qk = quarantinePrefix @ key \<and> obj s' qk = obj s key"
proof -
  obtain s1 r1 where c: "s3_copy S key (quarantinePrefix @ key) s = (s1, r1)" by fastforce
  obtain s2 r2 where d: "s3_remove S key s1 = (s2, r2)" by fastforce
  have "r1 = Inr ()" "r2 = Inr ()" "s' = s2" "qk = quarantinePrefix @ key"
    using q c d by (auto simp: Quarantine_def RemoveObject_def split: sum.splits)
  then show ?thesis using s3_copy_law [OF L c] s3_remove_law [OF L d] by (simp add: quarantinePrefix_def)
qed

lemma DownloadToCache_outcome:
  assumes L: "s3_laws (cp_store P) obj prt" and k: "0 < cu_partSize (cp_uploader P)" and sched: "\<And>ps. mset (sched ps) = mset ps"
    and run: "DownloadToCache P sched resp url alg expected key s = (s', res)"
  shows "(\<forall>r. res = Inr r \<longrightarrow> (\<exists>H c. newHasher (cp_sha256 P) (cp_sha1 P) alg = Inr H \<and> obj s' key = Some c \<and> equal_fold (hex_encode (H c)) expected
        \<and> resp = Inr (200, (c, None))))
    \<and> (\<forall>m. res = Inl (DlMismatch m None) \<longrightarrow> obj s' key = None \<and>
        (\<exists>H c. newHasher (cp_sha256 P) (cp_sha1 P) alg = Inr H \<and> obj s' (quarantinePrefix @ key) = Some c \<and> \<not> equal_fold (hex_encode (H c)) expected))"
proof (cases "\<exists>body H s1 r. resp = Inr (200, body) \<and> newHasher (cp_sha256 P) (cp_sha1 P) alg = Inr H \<and> Upload (cp_store P) (cp_uploader P) sched key body s = (s1, Inr r)")
  case False
  then show ?thesis using run
    by (auto simp: DownloadToCache_def newHasher_def split: sum.splits if_splits prod.splits)
next
  case True
  then obtain body H s1 r where b: "resp = Inr (200, body)" and H: "newHasher (cp_sha256 P) (cp_sha1 P) alg = Inr H"
    and up: "Upload (cp_store P) (cp_uploader P) sched key body s = (s1, Inr r)" by blast
  obtain s0 u where "Resume (cp_store P) (cp_uploader P) sched key u body Map.empty s0 = (s1, Inr r)"
    using up by (auto simp: Upload_def split: prod.splits sum.splits)
  from Resume_exact [OF L k sched _ this] have o1: "obj s1 key = Some (fst body)" "snd body = None" by simp_all
  show ?thesis
  proof (cases "equal_fold (hex_encode (H (fst body))) expected")
    case True
    then show ?thesis using run b H up o1 by (cases body) (auto simp: DownloadToCache_def)
  next
    case False
    obtain s2 q where Q: "Quarantine (cp_store P) key s1 = (s2, q)" by fastforce
    show ?thesis
    proof (cases q)
      case (Inl e)
      then show ?thesis using run b H up False Q by (auto simp: DownloadToCache_def Let_def)
    next
      case (Inr qk)
      then have "s' = s2" using run b H up False Q by (auto simp: DownloadToCache_def Let_def)
      then show ?thesis using run b H up False Q Inr Quarantine_moves [OF L Q [unfolded Inr]] o1 by (auto simp: DownloadToCache_def Let_def)
    qed
  qed
qed

section \<open>Properties\<close>


text \<open>A store in memory: the objects and the parts; the entity tag of a part is its data.\<close>

type_synonym mem_state = "(string \<rightharpoonup> string) \<times> (nat \<rightharpoonup> string)"

definition mem_s3 :: "mem_state s3" where
  "mem_s3 = \<lparr>s3_new = (\<lambda>_ (ob, _). ((ob, Map.empty), Inr ''u'')),
     s3_put_part = (\<lambda>_ _ n d (ob, pr). ((ob, pr(n \<mapsto> d)), Inr d)),
     s3_list_parts = (\<lambda>_ _ _ _. Inr ([], False, 0)),
     s3_complete = (\<lambda>k _ ps (ob, pr). if list_all (\<lambda>(n, e). pr n = Some e) ps then ((ob(k \<mapsto> concat (map snd ps)), pr), Inr ''e'') else ((ob, pr), Inl ''bad part'')),
     s3_abort = (\<lambda>_ _ s. (s, Inr ())),
     s3_copy = (\<lambda>a b (ob, pr). ((ob(b := ob a), pr), Inr ())),
     s3_remove = (\<lambda>a (ob, pr). ((ob(a := None), pr), Inr ())),
     s3_get = (\<lambda>k (ob, _). case ob k of None \<Rightarrow> Inl ''not found'' | Some c \<Rightarrow> Inr (c, None)),
     s3_put_tags = (\<lambda>_ _ s. (s, Inr ())), s3_get_tags = (\<lambda>_ _. Inr []), s3_bucket_exists = (\<lambda>_. Inr True),
     s3_make_bucket = (\<lambda>s. (s, Inr ())), s3_set_lifecycle = (\<lambda>_ _ _ s. (s, Inr ()))\<rparr>"

lemma mem_s3_laws: "s3_laws mem_s3 fst (\<lambda>s u n. map_option (\<lambda>d. (d, d)) (snd s n))"
proof -
  have "\<exists>ds. list_all2 (\<lambda>(n, e) d. pr n = Some e \<and> e = d) ps ds \<and> concat (map snd ps) = concat ds" if "list_all (\<lambda>(n, e). pr n = Some e) ps" for pr :: "nat \<rightharpoonup> string" and ps
    using that by (intro exI [of _ "map snd ps"]) (auto simp: list_all2_conv_all_nth list_all_length split_beta)
  then show ?thesis
    by (auto simp: s3_laws_def law_parts_def law_complete_def law_copy_def law_remove_def mem_s3_def split: if_splits)
qed






end
