(* ===== verification/Middleware.thy ===== *)
theory Middleware
  imports Chat
begin

text \<open>
  The middleware chain around every route (\<^verbatim>\<open>router/router.go\<close> and \<^verbatim>\<open>httpmw\<close>: recovery, request id, access
  log, timeout, CORS), the order being part of its behaviour. A handler maps a request to an outcome: how long it took, the
  headers set on the writer, the status and body (\<open>None\<close> when it panicked) and the access log. A request carries the context
  value of the request id and what the response writer it comes with can do (flush, hijack).
\<close>

record hreq =
  hq_Method :: string
  hq_Path :: string
  hq_Origin :: string
  hq_IDHeader :: string
  hq_CtxID :: "string option"
  hq_Flusher :: bool
  hq_Hijacker :: bool

datatype 'b body = HandlerBody 'b | ErrorBody envelope | TimeoutBody | NoBody

record access_line =
  al_Method :: string
  al_Path :: string
  al_Status :: int
  al_Duration :: int
  al_RequestID :: string

record 'b outcome =
  oc_Duration :: int
  oc_Headers :: "(string \<times> string) list"
  oc_Result :: "(int \<times> 'b body) option"
  oc_Log :: "access_line list"

type_synonym 'b handler = "hreq \<Rightarrow> 'b outcome"

definition RequestIDFromContext :: "hreq \<Rightarrow> string" where
  "RequestIDFromContext r = (case hq_CtxID r of Some i \<Rightarrow> i | None \<Rightarrow> [])"

section \<open>The middlewares\<close>

fun originAllowed :: "string list \<Rightarrow> string \<Rightarrow> bool" where
  "originAllowed [] origin = False"
| "originAllowed (p # ps) origin = (if p = ''*'' \<or> p = origin then True else originAllowed ps origin)"

definition CORS :: "string list \<Rightarrow> 'b handler \<Rightarrow> 'b handler" where
  "CORS allowed next r =
     (let hs = (if hq_Origin r \<noteq> [] \<and> originAllowed allowed (hq_Origin r)
                then [(''Access-Control-Allow-Origin'', hq_Origin r), (''Vary'', ''Origin''),
                      (''Access-Control-Allow-Methods'', ''GET, POST, PUT, DELETE, OPTIONS''),
                      (''Access-Control-Allow-Headers'', ''Authorization, Content-Type'')] else [])
      in if hq_Method r = ''OPTIONS'' then \<lparr>oc_Duration = 0, oc_Headers = hs, oc_Result = Some (204, NoBody), oc_Log = []\<rparr>
         else let out = next r in out\<lparr>oc_Headers := hs @ oc_Headers out\<rparr>)"

text \<open>\<^verbatim>\<open>http.TimeoutHandler\<close> runs the handler on a buffer that can neither flush nor hijack: what the handler
  wrote reaches the client only when it ends in time, and a panic is passed on without the buffered headers.\<close>

definition TimeoutHandler :: "int \<Rightarrow> 'b handler \<Rightarrow> 'b handler" where
  "TimeoutHandler d next r =
     (let out = next (r\<lparr>hq_Flusher := False, hq_Hijacker := False\<rparr>)
      in if d < oc_Duration out then out\<lparr>oc_Duration := d, oc_Headers := [], oc_Result := Some (503, TimeoutBody)\<rparr>
         else if oc_Result out = None then out\<lparr>oc_Headers := []\<rparr>
         else out)"

definition Timeout :: "int \<Rightarrow> string list \<Rightarrow> 'b handler \<Rightarrow> 'b handler" where
  "Timeout d exempt next r = (if list_ex (has_prefix (hq_Path r)) exempt then next r else TimeoutHandler d next r)"

text \<open>The recorder of \<^verbatim>\<open>AccessLog\<close> forwards \<^verbatim>\<open>Flush\<close> and nothing else; a panic unwinds past the log line.\<close>

definition AccessLog :: "'b handler \<Rightarrow> 'b handler" where
  "AccessLog next r =
     (let out = next (r\<lparr>hq_Flusher := True, hq_Hijacker := False\<rparr>)
      in case oc_Result out of
           None \<Rightarrow> out
         | Some (status, _) \<Rightarrow> out\<lparr>oc_Log := oc_Log out @ [\<lparr>al_Method = hq_Method r, al_Path = hq_Path r, al_Status = status,
             al_Duration = oc_Duration out, al_RequestID = RequestIDFromContext r\<rparr>]\<rparr>)"

definition requestIDHeader :: string where "requestIDHeader = ''X-Request-Id''"

definition RequestID :: "string option \<Rightarrow> 'b handler \<Rightarrow> 'b handler" where
  "RequestID raw next r =
     (let i = mw_RequestID (hq_IDHeader r) raw; out = next (r\<lparr>hq_CtxID := Some i\<rparr>)
      in out\<lparr>oc_Headers := (requestIDHeader, i) # oc_Headers out\<rparr>)"

definition Recovery :: "'b handler \<Rightarrow> 'b handler" where
  "Recovery next r =
     (let out = next r in
      case oc_Result out of
        Some _ \<Rightarrow> out
      | None \<Rightarrow> out\<lparr>oc_Result := Some (500, ErrorBody \<lparr>env_Code = CodeInternal, env_Message = ''internal server error'', env_RequestID = RequestIDFromContext r\<rparr>)\<rparr>)"

definition router_New :: "int \<Rightarrow> string list \<Rightarrow> string list \<Rightarrow> string option \<Rightarrow> 'b handler \<Rightarrow> 'b handler" where
  "router_New d exempt origins raw mux = Recovery (RequestID raw (AccessLog (Timeout d exempt (CORS origins mux))))"

text \<open>The prefixes \<^verbatim>\<open>app.go\<close> exempts, and the path of the telemetry socket.\<close>

definition timeoutExemptPrefixes :: "string list" where
  "timeoutExemptPrefixes = [''/v1/chat/completions'', ''/v1/dashboard/chat/completions'']"

lemmas chain_defs = router_New_def Recovery_def RequestID_def AccessLog_def Timeout_def TimeoutHandler_def CORS_def Let_def

section \<open>Facts\<close>

text \<open>The request as it reaches the routes.\<close>

lemma router_cong:
  assumes "\<And>q. \<not> hq_Hijacker q \<Longrightarrow> hq_CtxID q = Some (mw_RequestID (hq_IDHeader r) raw) \<Longrightarrow>
      (list_ex (has_prefix (hq_Path r)) exempt \<Longrightarrow> hq_Flusher q) \<Longrightarrow> mux' q = mux q"
  shows "router_New d exempt origins raw mux' r = router_New d exempt origins raw mux r"
proof -
  let ?q = "r\<lparr>hq_CtxID := Some (mw_RequestID (hq_IDHeader r) raw), hq_Flusher := True, hq_Hijacker := False\<rparr>"
  have "Timeout d exempt (CORS origins mux') ?q = Timeout d exempt (CORS origins mux) ?q"
  proof (cases "list_ex (has_prefix (hq_Path r)) exempt")
    case True
    have "mux' ?q = mux ?q" by (rule assms) simp_all
    then have "CORS origins mux' ?q = CORS origins mux ?q" by (simp only: CORS_def)
    then show ?thesis using True by (simp add: Timeout_def)
  next
    case False
    let ?t = "?q\<lparr>hq_Flusher := False, hq_Hijacker := False\<rparr>"
    have "mux' ?t = mux ?t" by (rule assms) (use False in simp_all)
    then have "CORS origins mux' ?t = CORS origins mux ?t" by (simp only: CORS_def)
    then have "TimeoutHandler d (CORS origins mux') ?q = TimeoutHandler d (CORS origins mux) ?q" by (simp only: TimeoutHandler_def)
    then show ?thesis using False by (simp add: Timeout_def)
  qed
  then have "AccessLog (Timeout d exempt (CORS origins mux')) (r\<lparr>hq_CtxID := Some (mw_RequestID (hq_IDHeader r) raw)\<rparr>)
      = AccessLog (Timeout d exempt (CORS origins mux)) (r\<lparr>hq_CtxID := Some (mw_RequestID (hq_IDHeader r) raw)\<rparr>)"
    by (simp only: AccessLog_def hreq.update_convs)
  then show ?thesis by (simp only: router_New_def Recovery_def RequestID_def Let_def)
qed

lemma router_answers: "\<exists>status b. oc_Result (router_New d exempt origins raw mux r) = Some (status, b)"
proof (cases "oc_Result (RequestID raw (AccessLog (Timeout d exempt (CORS origins mux))) r)")
  case (Some p)
  then show ?thesis by (cases p) (simp add: router_New_def Recovery_def Let_def)
qed (simp add: router_New_def Recovery_def Let_def)

lemma Recovery_headers [simp]: "oc_Headers (Recovery next r) = oc_Headers (next r)"
  by (simp add: Recovery_def Let_def split: option.splits)

lemma Recovery_duration [simp]: "oc_Duration (Recovery next r) = oc_Duration (next r)"
  by (simp add: Recovery_def Let_def split: option.splits)

lemma AccessLog_duration [simp]: "oc_Duration (AccessLog next r) = oc_Duration (next (r\<lparr>hq_Flusher := True, hq_Hijacker := False\<rparr>))"
  by (simp add: AccessLog_def Let_def split: option.splits)

lemma AccessLog_result [simp]: "oc_Result (AccessLog next r) = oc_Result (next (r\<lparr>hq_Flusher := True, hq_Hijacker := False\<rparr>))"
  by (simp add: AccessLog_def Let_def split: option.splits)

lemma TimeoutHandler_duration: "oc_Duration (TimeoutHandler d next r) \<le> d"
  by (simp add: TimeoutHandler_def Let_def)

lemma CORS_panics: "oc_Result (next r) = None \<Longrightarrow> hq_Method r \<noteq> ''OPTIONS'' \<Longrightarrow> oc_Result (CORS origins next r) = None"
  by (simp add: CORS_def Let_def)

lemma CORS_duration: "hq_Method r \<noteq> ''OPTIONS'' \<Longrightarrow> oc_Duration (CORS origins next r) = oc_Duration (next r)"
  by (simp add: CORS_def Let_def)

lemma Timeout_panics:
  assumes "\<And>q. oc_Result (mux q) = None" "\<And>q. oc_Duration (mux q) \<le> d" "hq_Method r \<noteq> ''OPTIONS''"
  shows "oc_Result (Timeout d exempt (CORS origins mux) r) = None"
proof -
  have "oc_Result (CORS origins mux q) = None" "oc_Duration (CORS origins mux q) \<le> d" if "hq_Method q = hq_Method r" for q
    using that assms by (simp_all add: CORS_panics CORS_duration)
  note C = this
  have "\<not> d < oc_Duration (CORS origins mux (r\<lparr>hq_Flusher := False, hq_Hijacker := False\<rparr>))" unfolding not_less by (rule C(2)) simp
  then show ?thesis by (simp add: Timeout_def TimeoutHandler_def Let_def C(1))
qed

section \<open>Properties\<close>



end
