(* ===== verification/Rollups.thy ===== *)
theory Rollups
  imports Telemetry
begin

text \<open>
  Rollups of completed runs (\<^verbatim>\<open>db/telemetry_rollups.go\<close>): the query of \<^verbatim>\<open>ComputeModelRollups\<close> clause by clause over the tables
  of theories \<open>Telemetry\<close> and \<open>Database\<close>. The rows come in the order in which their groups are first seen; the lemmas
  do not depend on it. As in \<open>Telemetry\<close>, floats are rational numbers and times nanoseconds.
\<close>

section \<open>The query\<close>

text \<open>\<^verbatim>\<open>percentile_cont (f) WITHIN GROUP (ORDER BY c)\<close>: the value at the fraction \<open>f\<close> of the sorted non-null values, with linear
  interpolation between the two neighbours.\<close>

definition interpolate :: "rat list \<Rightarrow> rat \<Rightarrow> rat" where
  "interpolate vs pos = (let lo = nat \<lfloor>pos\<rfloor>; hi = nat \<lceil>pos\<rceil> in vs ! lo + (pos - of_nat lo) * (vs ! hi - vs ! lo))"

definition percentile_cont :: "rat \<Rightarrow> ('r \<Rightarrow> rat option) \<Rightarrow> 'r list \<Rightarrow> rat option" where
  "percentile_cont f c rs = (let vs = sort (List.map_filter c rs)
     in if vs = [] then None else Some (interpolate vs (f * of_nat (length vs - 1))))"

definition sql_sum_null :: "('r \<Rightarrow> rat option) \<Rightarrow> 'r list \<Rightarrow> rat option" where
  "sql_sum_null c rs = (if List.map_filter c rs = [] then None else Some (sum_list (List.map_filter c rs)))"

record ModelRollup =
  ru_ModelID :: string
  ru_GPUModel :: string
  ru_Window :: int
  ru_RunCount :: int
  ru_TTFTP50Ms :: "rat option"
  ru_TTFTP95Ms :: "rat option"
  ru_TTFTP99Ms :: "rat option"
  ru_TPOTP50Ms :: "rat option"
  ru_TPOTP95Ms :: "rat option"
  ru_TPOTP99Ms :: "rat option"
  ru_ThroughputTokensPerSec :: "rat option"
  ru_TotalCostUSD :: "rat option"

definition run_time :: "InferenceRun \<Rightarrow> int" where
  "run_time r = (case ir_CompletedAt r of None \<Rightarrow> 0 | Some c \<Rightarrow> c - ir_StartedAt r)"

definition throughput :: "InferenceRun list \<Rightarrow> rat option" where
  "throughput rs = (let t = seconds (sum_list (map run_time rs))
     in if t = 0 then None else Some (of_int (sum_list (map ir_CompletionTokens rs)) / t))"

text \<open>The \<^verbatim>\<open>JOIN\<close> with the deployments and the \<^verbatim>\<open>WHERE\<close> clause; the group of a run is its model and the hardware of its
  deployment, where \<open>NULL\<close> is a group of its own.\<close>

definition in_rollup :: "int \<Rightarrow> int \<Rightarrow> InferenceRun \<Rightarrow> bool" where
  "in_rollup now window r \<longleftrightarrow> ir_CompletedAt r \<noteq> None \<and> now - window \<le> ir_StartedAt r"

definition rollup_key :: "deployments \<Rightarrow> InferenceRun \<Rightarrow> (string \<times> string option) option" where
  "rollup_key deps r = map_option (\<lambda>d. (ir_ModelID r, dep_GPUModel d)) (find (\<lambda>d. dep_ID d = ir_DeploymentID r) deps)"

definition rollup_row :: "int \<Rightarrow> string \<times> string option \<Rightarrow> InferenceRun list \<Rightarrow> ModelRollup" where
  "rollup_row window k rs = \<lparr>ru_ModelID = fst k, ru_GPUModel = (case snd k of None \<Rightarrow> ''unknown'' | Some g \<Rightarrow> g), ru_Window = window,
     ru_RunCount = int (length rs),
     ru_TTFTP50Ms = percentile_cont (1 / 2) ir_TTFTMs rs, ru_TTFTP95Ms = percentile_cont (95 / 100) ir_TTFTMs rs,
     ru_TTFTP99Ms = percentile_cont (99 / 100) ir_TTFTMs rs,
     ru_TPOTP50Ms = percentile_cont (1 / 2) ir_TPOTMs rs, ru_TPOTP95Ms = percentile_cont (95 / 100) ir_TPOTMs rs,
     ru_TPOTP99Ms = percentile_cont (99 / 100) ir_TPOTMs rs,
     ru_ThroughputTokensPerSec = throughput rs, ru_TotalCostUSD = sql_sum_null ir_CostUSD rs\<rparr>"

definition rollup_rows :: "int \<Rightarrow> int \<Rightarrow> InferenceRun list \<Rightarrow> deployments \<Rightarrow> ModelRollup list" where
  "rollup_rows now window runs deps = (let rs = filter (in_rollup now window) runs
     in map (\<lambda>k. rollup_row window k (filter (\<lambda>r. rollup_key deps r = Some k) rs)) (remdups (List.map_filter (rollup_key deps) rs)))"

definition ComputeModelRollups :: "pgerr link \<Rightarrow> int \<Rightarrow> int \<Rightarrow> InferenceRun list \<Rightarrow> deployments \<Rightarrow> db_error + ModelRollup list" where
  "ComputeModelRollups l now window runs deps =
     (case snd (roundtrip l (\<lambda>t. (t, rollup_rows now window runs deps)) ()) of Inl e \<Rightarrow> Inl (mapError e) | Inr rows \<Rightarrow> Inr rows)"

section \<open>Percentiles are ordered\<close>

lemma interpolate_index:
  assumes "pos \<le> of_nat (length vs - 1)" "vs \<noteq> []"
  shows "nat \<lceil>pos\<rceil> < length vs" "nat \<lfloor>pos\<rfloor> \<le> nat \<lceil>pos\<rceil>"
proof -
  have "\<lceil>pos\<rceil> \<le> int (length vs - 1)" using assms(1) by (simp add: ceiling_le_iff)
  then show "nat \<lceil>pos\<rceil> < length vs" using assms(2) by (cases vs) auto
  show "nat \<lfloor>pos\<rfloor> \<le> nat \<lceil>pos\<rceil>" by (rule nat_mono [OF floor_le_ceiling])
qed

lemma interpolate_bounds:
  assumes "sorted vs" "0 \<le> pos" "pos \<le> of_nat (length vs - 1)" "vs \<noteq> []"
  shows "vs ! nat \<lfloor>pos\<rfloor> \<le> interpolate vs pos" "interpolate vs pos \<le> vs ! nat \<lceil>pos\<rceil>"
proof -
  let ?lo = "nat \<lfloor>pos\<rfloor>" and ?hi = "nat \<lceil>pos\<rceil>"
  note i = interpolate_index [OF assms(3,4)]
  have d: "0 \<le> vs ! ?hi - vs ! ?lo" using sorted_nth_mono [OF assms(1) i(2,1)] by simp
  have lo: "of_nat ?lo = (of_int \<lfloor>pos\<rfloor> :: rat)" using assms(2) by simp
  have f: "0 \<le> pos - of_nat ?lo" "pos - of_nat ?lo \<le> 1" unfolding lo by linarith+
  show "vs ! ?lo \<le> interpolate vs pos" using d f(1) by (simp add: interpolate_def Let_def)
  have "(pos - of_nat ?lo) * (vs ! ?hi - vs ! ?lo) \<le> 1 * (vs ! ?hi - vs ! ?lo)" using d f(2) by (rule mult_right_mono [rotated])
  then show "interpolate vs pos \<le> vs ! ?hi" by (simp add: interpolate_def Let_def)
qed

lemma interpolate_mono:
  assumes "sorted vs" "0 \<le> p" "p \<le> q" "q \<le> of_nat (length vs - 1)" "vs \<noteq> []"
  shows "interpolate vs p \<le> interpolate vs q"
proof (cases "\<lceil>p\<rceil> \<le> \<lfloor>q\<rfloor>")
  case True
  have "nat \<lfloor>q\<rfloor> < length vs" using interpolate_index [OF assms(4,5)] by simp
  moreover have "nat \<lceil>p\<rceil> \<le> nat \<lfloor>q\<rfloor>" using True by simp
  ultimately have "vs ! nat \<lceil>p\<rceil> \<le> vs ! nat \<lfloor>q\<rfloor>" using assms(1) by (intro sorted_nth_mono)
  moreover have "interpolate vs p \<le> vs ! nat \<lceil>p\<rceil>" using assms by (intro interpolate_bounds(2)) auto
  moreover have "vs ! nat \<lfloor>q\<rfloor> \<le> interpolate vs q" using assms by (intro interpolate_bounds(1)) auto
  ultimately show ?thesis by linarith
next
  case False
  have e: "\<lfloor>p\<rfloor> = \<lfloor>q\<rfloor>" "\<lceil>p\<rceil> = \<lceil>q\<rceil>" using False assms(3) by linarith+
  note i = interpolate_index [OF assms(4,5)]
  have "0 \<le> vs ! nat \<lceil>q\<rceil> - vs ! nat \<lfloor>q\<rfloor>" using sorted_nth_mono [OF assms(1) i(2,1)] by simp
  then show ?thesis using assms(3) by (simp add: interpolate_def Let_def e mult_right_mono)
qed

lemma percentile_mono:
  assumes "0 \<le> f" "f \<le> g" "g \<le> 1" "percentile_cont f c rs = Some x" "percentile_cont g c rs = Some y"
  shows "x \<le> y"
proof -
  let ?vs = "sort (List.map_filter c rs)"
  have "f * of_nat (length ?vs - 1) \<le> g * of_nat (length ?vs - 1)" "g * of_nat (length ?vs - 1) \<le> 1 * of_nat (length ?vs - 1)"
    using assms by (intro mult_right_mono; simp)+
  then show ?thesis using assms by (auto simp: percentile_cont_def Let_def split: if_splits intro!: interpolate_mono)
qed

lemma map_filter_set: "set (List.map_filter f rs) = {k. \<exists>r\<in>set rs. f r = Some k}"
  by (induction rs) (auto split: option.splits)

lemma percentile_defined: "percentile_cont f c rs = None \<longleftrightarrow> (\<forall>r\<in>set rs. c r = None)"
proof -
  have "sort (List.map_filter c rs) = [] \<longleftrightarrow> List.map_filter c rs = []" by (metis set_empty set_sort)
  moreover have "List.map_filter c rs = [] \<longleftrightarrow> (\<forall>r\<in>set rs. c r = None)" using map_filter_set [of c rs] by (auto simp flip: set_empty)
  ultimately show ?thesis by (simp add: percentile_cont_def Let_def)
qed

text \<open>Every percentile lies between values that were measured.\<close>

lemma percentile_measured:
  assumes "0 \<le> f" "f \<le> 1" "percentile_cont f c rs = Some x"
  shows "\<exists>a b. Some a \<in> c ` set rs \<and> Some b \<in> c ` set rs \<and> a \<le> x \<and> x \<le> b"
proof -
  let ?vs = "sort (List.map_filter c rs)" and ?p = "f * of_nat (length (sort (List.map_filter c rs)) - 1)"
  have ne: "?vs \<noteq> []" and x: "x = interpolate ?vs ?p" using assms(3) by (auto simp: percentile_cont_def Let_def split: if_splits)
  have "f * of_nat (length ?vs - 1) \<le> 1 * of_nat (length ?vs - 1)" using assms(2) by (intro mult_right_mono) simp_all
  then have p: "0 \<le> ?p" "?p \<le> of_nat (length ?vs - 1)" using assms(1) by simp_all
  note h = interpolate_index [OF p(2) ne]
  have i: "nat \<lfloor>?p\<rfloor> < length ?vs" using h by linarith
  have m: "v \<in> set (List.map_filter c rs) \<Longrightarrow> Some v \<in> c ` set rs" for v unfolding map_filter_set by (force simp: image_iff)
  have "Some (?vs ! nat \<lfloor>?p\<rfloor>) \<in> c ` set rs" "Some (?vs ! nat \<lceil>?p\<rceil>) \<in> c ` set rs"
    using nth_mem [OF i] nth_mem [OF h(1)] by (auto intro: m simp del: length_sort)
  then show ?thesis using interpolate_bounds [OF sorted_sort p ne] unfolding x by blast
qed

section \<open>Groups\<close>

lemma rollup_partition:
  "sum_list (map ru_RunCount (rollup_rows now window runs deps)) =
   int (length (filter (\<lambda>r. in_rollup now window r \<and> (\<exists>d\<in>set deps. dep_ID d = ir_DeploymentID r)) runs))"
proof -
  let ?rs = "filter (in_rollup now window) runs" and ?key = "rollup_key deps"
  have g: "(\<Sum>k\<leftarrow>ks. int (length (filter (\<lambda>r. ?key r = Some k) rs))) = int (length (filter (\<lambda>r. ?key r \<in> Some ` set ks) rs))"
    if "distinct ks" for ks rs
    using that
  proof (induction ks)
    case (Cons k ks)
    have "length (filter (\<lambda>r. ?key r = Some k \<or> ?key r \<in> Some ` set ks) rs) =
      length (filter (\<lambda>r. ?key r = Some k) rs) + length (filter (\<lambda>r. ?key r \<in> Some ` set ks) rs)"
      using Cons.prems by (induction rs) auto
    then show ?case using Cons by simp
  qed simp
  have k: "?key r \<noteq> None \<longleftrightarrow> (\<exists>d\<in>set deps. dep_ID d = ir_DeploymentID r)" for r
    by (auto simp: rollup_key_def find_None_iff)
  have f: "?key r \<in> Some ` set (remdups (List.map_filter ?key ?rs)) \<longleftrightarrow> (\<exists>d\<in>set deps. dep_ID d = ir_DeploymentID r)" if "r \<in> set ?rs" for r
    unfolding k [symmetric] set_remdups map_filter_set using that by (cases "?key r") auto
  have "sum_list (map ru_RunCount (rollup_rows now window runs deps)) =
    (\<Sum>k\<leftarrow>remdups (List.map_filter ?key ?rs). int (length (filter (\<lambda>r. ?key r = Some k) ?rs)))"
    by (simp add: rollup_rows_def Let_def rollup_row_def comp_def del: filter_filter)
  also have "\<dots> = int (length (filter (\<lambda>r. ?key r \<in> Some ` set (remdups (List.map_filter ?key ?rs))) ?rs))" by (rule g) simp
  also have "filter (\<lambda>r. ?key r \<in> Some ` set (remdups (List.map_filter ?key ?rs))) ?rs = filter (\<lambda>r. \<exists>d\<in>set deps. dep_ID d = ir_DeploymentID r) ?rs"
    using f by (intro filter_cong refl)
  finally show ?thesis by (simp add: conj_commute)
qed

definition ascending :: "rat option \<Rightarrow> rat option \<Rightarrow> rat option \<Rightarrow> bool" where
  "ascending a b c = (case (a, b, c) of (None, None, None) \<Rightarrow> True | (Some x, Some y, Some z) \<Rightarrow> x \<le> y \<and> y \<le> z | _ \<Rightarrow> False)"

lemma percentiles_ascending:
  "ascending (percentile_cont (1 / 2) c rs) (percentile_cont (95 / 100) c rs) (percentile_cont (99 / 100) c rs)"
proof -
  have n: "percentile_cont f c rs = None \<longleftrightarrow> percentile_cont g c rs = None" for f g by (simp add: percentile_defined)
  note m = percentile_mono [of "1 / 2" "95 / 100" c rs] percentile_mono [of "95 / 100" "99 / 100" c rs]
  show ?thesis
    using m n [of "1 / 2" "95 / 100"] n [of "95 / 100" "99 / 100"] by (auto simp: ascending_def split: option.splits)
qed


definition rollup_run :: "string \<Rightarrow> string \<Rightarrow> int \<Rightarrow> int \<Rightarrow> rat \<Rightarrow> InferenceRun" where
  "rollup_run i d started completed ttft = \<lparr>ir_ID = i, ir_DeploymentID = d, ir_ModelID = ''m'', ir_UserID = ''u'', ir_StartedAt = started,
     ir_CompletedAt = Some completed, ir_PromptTokens = 1, ir_CompletionTokens = 4, ir_AllocationID = None, ir_TTFTMs = Some ttft, ir_TPOTMs = None,
     ir_VRAMPeakBytes = None, ir_CostUSD = None\<rparr>"

definition rollup_dep :: "string \<Rightarrow> string option \<Rightarrow> deployment" where
  "rollup_dep i g = \<lparr>dep_ID = i, dep_ModelID = ''m'', dep_UserID = None, dep_AllocationID = None, dep_State = ''ready'', dep_CreatedAt = 0,
     dep_UpdatedAt = 0, dep_GPUModel = g\<rparr>"

text \<open>A deployment without hardware and one whose hardware is the text \<open>unknown\<close> are two groups with one label.\<close>

lemma rollup_label_clash:
  "map (\<lambda>row. (ru_ModelID row, ru_GPUModel row))
     (rollup_rows 10 10 [rollup_run ''1'' ''a'' 5 6 3, rollup_run ''2'' ''b'' 5 6 3] [rollup_dep ''a'' None, rollup_dep ''b'' (Some ''unknown'')])
   = [(''m'', ''unknown''), (''m'', ''unknown'')]"
  by (simp add: rollup_rows_def rollup_row_def in_rollup_def rollup_key_def rollup_run_def rollup_dep_def List.map_filter_simps)


end
