(* ===== verification/Metrics.thy ===== *)
theory Metrics
  imports Telemetry
begin

text \<open>
  The metrics package: the reader of \<^verbatim>\<open>encoding/csv\<close> as the sampler configures it, \<^verbatim>\<open>SampleGPUs\<close>
  (\<^verbatim>\<open>metrics/gpu_sampler.go\<close>), the scrape of the engine (\<^verbatim>\<open>vllm_scraper.go\<close>) and the collectors (\<^verbatim>\<open>gpu.go\<close>,
  \<^verbatim>\<open>engine.go\<close>, \<^verbatim>\<open>inference.go\<close>), and the two parts of \<^verbatim>\<open>telemetry/publisher.go\<close> together. The Prometheus library is a
  parameter: a gauge vector is a record of its two operations, whose law is the locale \<open>gauge_vector\<close>; the parser of the text
  exposition and the HTTP client are functions. Values are doubles of theory \<open>Float64\<close>.
\<close>

section \<open>\<^verbatim>\<open>encoding/csv\<close>\<close>

text \<open>The lines with their newline, \<^verbatim>\<open>\r\n\<close> made \<^verbatim>\<open>\n\<close>; a carriage return before the end of the input is dropped.\<close>

definition csv_lines :: "string \<Rightarrow> string list" where
  "csv_lines s = (let ps = go_split s (CHR 0x0A); cr = (\<lambda>p. if p \<noteq> [] \<and> last p = CHR 0x0D then butlast p else p)
     in map (\<lambda>p. cr p @ [CHR 0x0A]) (butlast ps) @ (if last ps = [] then [] else [cr (last ps)]))"

datatype csv_error = ErrBareQuote | ErrQuote | ErrFieldCount

definition strip_nl :: "string \<Rightarrow> string" where
  "strip_nl s = (if s \<noteq> [] \<and> last s = CHR 0x0A then butlast s else s)"

text \<open>The fields of one record: \<^verbatim>\<open>TrimLeadingSpace\<close> is set and \<^verbatim>\<open>LazyQuotes\<close> is not. The first argument is the text of the quoted
  field that is open, if one is; a quoted field may take further lines.\<close>

function csv_fields :: "string option \<Rightarrow> string \<Rightarrow> string list \<Rightarrow> string list \<Rightarrow> csv_error + string list \<times> string list" where
  "csv_fields None line rest acc = (let t = dropWhile is_space line in
     if t \<noteq> [] \<and> hd t = CHR 0x22 then csv_fields (Some []) (tl t) rest acc
     else let field = takeWhile (\<lambda>c. c \<noteq> CHR '','') t; r = dropWhile (\<lambda>c. c \<noteq> CHR '','') t in
       if CHR 0x22 \<in> set field then Inl ErrBareQuote
       else if r = [] then Inr (acc @ [strip_nl field], rest)
       else csv_fields None (tl r) rest (acc @ [field]))"
| "csv_fields (Some buf) line rest acc =
    (let q = takeWhile (\<lambda>c. c \<noteq> CHR 0x22) line; r = dropWhile (\<lambda>c. c \<noteq> CHR 0x22) line in
     if r \<noteq> [] then
       if tl r = [] \<or> tl r = [CHR 0x0A] then Inr (acc @ [buf @ q], rest)
       else if hd (tl r) = CHR 0x22 then csv_fields (Some (buf @ q @ [CHR 0x22])) (tl (tl r)) rest acc
       else if hd (tl r) = CHR '','' then csv_fields None (tl (tl r)) rest (acc @ [buf @ q])
       else Inl ErrQuote
     else if line = [] then Inl ErrQuote
     else case rest of [] \<Rightarrow> csv_fields (Some (buf @ line)) [] [] acc | l # ls \<Rightarrow> csv_fields (Some (buf @ line)) l ls acc)"
  by pat_completeness auto

lemma tl_dropWhile_less: "dropWhile p xs \<noteq> [] \<Longrightarrow> length (tl (dropWhile p xs)) < length xs"
proof -
  assume "dropWhile p xs \<noteq> []"
  moreover have "length (dropWhile p xs) \<le> length xs" by (rule length_dropWhile_le)
  ultimately show ?thesis by (cases "dropWhile p xs") simp_all
qed

lemma tl_tl_dropWhile_less: "dropWhile p xs \<noteq> [] \<Longrightarrow> length (tl (tl (dropWhile p xs))) < length xs"
  using tl_dropWhile_less [of p xs] by simp

lemma tl_dropWhile_twice_less:
  "dropWhile p (dropWhile q xs) \<noteq> [] \<Longrightarrow> length (tl (dropWhile p (dropWhile q xs))) < length xs"
  using tl_dropWhile_less [of p "dropWhile q xs"] length_dropWhile_le [of q xs] by linarith

termination csv_fields
  by (relation "measures [\<lambda>(m, line, rest, acc). length rest, \<lambda>(m, line, rest, acc). length line]")
    (auto intro: tl_dropWhile_less tl_tl_dropWhile_less tl_dropWhile_twice_less simp del: length_tl dropWhile_eq_Nil_conv)

declare csv_fields.simps [simp del]

lemma csv_fields_rest: "csv_fields m line rest acc = Inr (fs, rest') \<Longrightarrow> length rest' \<le> length rest"
proof (induction m line rest acc rule: csv_fields.induct)
  case (1 line rest acc)
  show ?case using 1(3) 1(1) [OF refl] 1(2) [OF refl _ refl refl] unfolding csv_fields.simps(1) [of line rest acc] Let_def
    by (auto simp del: dropWhile_eq_Nil_conv split: if_splits)
next
  case (2 buf line rest acc)
  show ?case using 2(5) 2(1-2) [OF refl refl] 2(3-4) [OF refl refl] unfolding csv_fields.simps(2) [of buf line rest acc] Let_def
    by (auto simp del: dropWhile_eq_Nil_conv split: if_splits list.splits)
qed

text \<open>\<^verbatim>\<open>ReadAll\<close>: empty lines are skipped, and with \<^verbatim>\<open>FieldsPerRecord = 0\<close> the first record fixes the number of fields.\<close>

function csv_records :: "nat \<Rightarrow> string list \<Rightarrow> csv_error + string list list" where
  "csv_records n [] = Inr []"
| "csv_records n (line # ls) =
    (if line = [] \<or> line = [CHR 0x0A] then csv_records n ls
     else case csv_fields None line ls [] of
       Inl e \<Rightarrow> Inl e
     | Inr (fs, rest) \<Rightarrow>
         if n \<noteq> 0 \<and> length fs \<noteq> n then Inl ErrFieldCount
         else (case csv_records (length fs) rest of Inl e \<Rightarrow> Inl e | Inr rs \<Rightarrow> Inr (fs # rs)))"
  by pat_completeness auto
termination
  by (relation "measure (\<lambda>(n, ls). length ls)") (auto dest: csv_fields_rest)

definition csv_ReadAll :: "string \<Rightarrow> csv_error + string list list" where
  "csv_ReadAll s = csv_records 0 (csv_lines s)"

section \<open>GPU samples\<close>

record GPUReading =
  rd_DeviceIndex :: string
  rd_UtilizationPercent :: f64
  rd_VRAMUsedBytes :: int
  rd_VRAMTotalBytes :: int
  rd_TemperatureCelsius :: f64
  rd_PowerDrawWatts :: f64

datatype sample_error = SampleFailed string | SampleCsv csv_error | SampleRow nat | SampleField string string

definition gpuQueryFields :: string where
  "gpuQueryFields = ''index,utilization.gpu,memory.used,memory.total,temperature.gpu,power.draw''"

definition float_field :: "string \<Rightarrow> string \<Rightarrow> sample_error + f64" where
  "float_field name s = (case ParseFloat (trim_space s) of Inl _ \<Rightarrow> Inl (SampleField name s) | Inr v \<Rightarrow> Inr v)"

definition int_field :: "string \<Rightarrow> string \<Rightarrow> sample_error + int" where
  "int_field name s = (case parse_int (trim_space s) of None \<Rightarrow> Inl (SampleField name s) | Some n \<Rightarrow> Inr n)"

text \<open>One row; the number of mebibytes is multiplied at 64 bits.\<close>

definition gpu_row :: "string list \<Rightarrow> sample_error + GPUReading" where
  "gpu_row fs = (if length fs \<noteq> 6 then Inl (SampleRow (length fs))
     else case float_field ''utilization'' (fs ! 1) of Inl e \<Rightarrow> Inl e
     | Inr util \<Rightarrow> (case int_field ''memory.used'' (fs ! 2) of Inl e \<Rightarrow> Inl e
     | Inr used \<Rightarrow> (case int_field ''memory.total'' (fs ! 3) of Inl e \<Rightarrow> Inl e
     | Inr tot \<Rightarrow> (case float_field ''temperature.gpu'' (fs ! 4) of Inl e \<Rightarrow> Inl e
     | Inr temp \<Rightarrow> (case float_field ''power.draw'' (fs ! 5) of Inl e \<Rightarrow> Inl e
     | Inr watts \<Rightarrow> Inr \<lparr>rd_DeviceIndex = trim_space (fs ! 0), rd_UtilizationPercent = util, rd_VRAMUsedBytes = i64 (used * (1024 * 1024)),
         rd_VRAMTotalBytes = i64 (tot * (1024 * 1024)), rd_TemperatureCelsius = temp, rd_PowerDrawWatts = watts\<rparr>)))))"

fun gpu_rows :: "string list list \<Rightarrow> sample_error + GPUReading list" where
  "gpu_rows [] = Inr []"
| "gpu_rows (fs # rs) = (case gpu_row fs of Inl e \<Rightarrow> Inl e | Inr g \<Rightarrow> (case gpu_rows rs of Inl e \<Rightarrow> Inl e | Inr gs \<Rightarrow> Inr (g # gs)))"

text \<open>The argument is what running \<^verbatim>\<open>nvidia-smi\<close> gave: an error or its output.\<close>

definition SampleGPUs :: "string + string \<Rightarrow> sample_error + GPUReading list" where
  "SampleGPUs out = (case out of
      Inl e \<Rightarrow> Inl (SampleFailed e)
    | Inr s \<Rightarrow> (case csv_ReadAll s of Inl e \<Rightarrow> Inl (SampleCsv e) | Inr records \<Rightarrow> gpu_rows records))"

section \<open>Collectors\<close>

text \<open>A gauge vector of the Prometheus client: \<^verbatim>\<open>WithLabelValues (ls).Set (v)\<close>, and the value a scrape reads.\<close>

record 'g gauge_vec =
  gv_Set :: "string list \<Rightarrow> f64 \<Rightarrow> 'g \<Rightarrow> 'g"
  gv_Get :: "string list \<Rightarrow> 'g \<Rightarrow> f64 option"

record 'g GPUCollectors =
  gc_utilization :: 'g
  gc_vramUsed :: 'g
  gc_vramTotal :: 'g
  gc_temperature :: 'g
  gc_powerDraw :: 'g

definition gpu_labels :: "string \<Rightarrow> (string \<times> string) list \<Rightarrow> GPUReading \<Rightarrow> string list" where
  "gpu_labels node allocs s = [node, rd_DeviceIndex s, case map_of allocs (rd_DeviceIndex s) of None \<Rightarrow> [] | Some a \<Rightarrow> a]"

definition f64_of_int :: "int \<Rightarrow> f64" where
  "f64_of_int n = FFin (fl (of_int n))"

definition gpu_set :: "'g gauge_vec \<Rightarrow> string \<Rightarrow> (string \<times> string) list \<Rightarrow> GPUReading \<Rightarrow> 'g GPUCollectors \<Rightarrow> 'g GPUCollectors" where
  "gpu_set G node allocs s c = (let ls = gpu_labels node allocs s in
     \<lparr>gc_utilization = gv_Set G ls (rd_UtilizationPercent s) (gc_utilization c),
      gc_vramUsed = gv_Set G ls (f64_of_int (rd_VRAMUsedBytes s)) (gc_vramUsed c),
      gc_vramTotal = gv_Set G ls (f64_of_int (rd_VRAMTotalBytes s)) (gc_vramTotal c),
      gc_temperature = gv_Set G ls (rd_TemperatureCelsius s) (gc_temperature c),
      gc_powerDraw = gv_Set G ls (rd_PowerDrawWatts s) (gc_powerDraw c)\<rparr>)"

definition GPU_Update :: "'g gauge_vec \<Rightarrow> string \<Rightarrow> (string \<times> string) list \<Rightarrow> GPUReading list \<Rightarrow> 'g GPUCollectors \<Rightarrow> 'g GPUCollectors" where
  "GPU_Update G node allocs samples c = fold (gpu_set G node allocs) samples c"

text \<open>The scrape of an engine. A metric of the parsed exposition carries a gauge, a counter or something else; the map of names is
  read in the order \<open>names\<close>, an order of \<open>vllmMetricNames\<close>.\<close>

definition vllmMetricNames :: "(string \<times> string) list" where
  "vllmMetricNames = [(''vllm:num_requests_running'', ''redline_engine_requests_running''),
     (''vllm:num_requests_waiting'', ''redline_engine_requests_waiting''),
     (''vllm:gpu_cache_usage_perc'', ''redline_engine_kv_cache_usage_ratio'')]"

record EngineSample =
  es_Name :: string
  es_Value :: f64

record metric =
  mt_Gauge :: "f64 option"
  mt_Counter :: "f64 option"

datatype scrape_error = ScrapeTransport string | ScrapeStatus int | ScrapeParse string

definition metric_value :: "metric \<Rightarrow> f64 option" where
  "metric_value m = (case mt_Gauge m of Some v \<Rightarrow> Some v | None \<Rightarrow> mt_Counter m)"

definition relabel :: "(string \<times> metric list) list \<Rightarrow> string \<times> string \<Rightarrow> EngineSample list" where
  "relabel families p = (case map_of families (fst p) of None \<Rightarrow> []
     | Some ms \<Rightarrow> map (\<lambda>v. \<lparr>es_Name = snd p, es_Value = v\<rparr>) (List.map_filter metric_value ms))"

definition ScrapeVLLMEngineMetrics ::
  "(string \<Rightarrow> string + int \<times> string) \<Rightarrow> (string \<Rightarrow> string + (string \<times> metric list) list) \<Rightarrow> (string \<times> string) list \<Rightarrow> string \<Rightarrow>
   scrape_error + EngineSample list" where
  "ScrapeVLLMEngineMetrics http parse names baseURL = (case http (baseURL @ ''/metrics'') of
      Inl e \<Rightarrow> Inl (ScrapeTransport e)
    | Inr (status, body) \<Rightarrow> if status \<noteq> 200 then Inl (ScrapeStatus status)
        else (case parse body of Inl e \<Rightarrow> Inl (ScrapeParse e) | Inr families \<Rightarrow> Inr (concat (map (relabel families) names))))"

record 'g EngineCollectors =
  ec_requestsRunning :: 'g
  ec_requestsWaiting :: 'g
  ec_kvCacheUsage :: 'g

definition engine_set :: "'g gauge_vec \<Rightarrow> string \<Rightarrow> EngineSample \<Rightarrow> 'g EngineCollectors \<Rightarrow> 'g EngineCollectors" where
  "engine_set G model s c =
     (if es_Name s = ''redline_engine_requests_running'' then c\<lparr>ec_requestsRunning := gv_Set G [model] (es_Value s) (ec_requestsRunning c)\<rparr>
      else if es_Name s = ''redline_engine_requests_waiting'' then c\<lparr>ec_requestsWaiting := gv_Set G [model] (es_Value s) (ec_requestsWaiting c)\<rparr>
      else if es_Name s = ''redline_engine_kv_cache_usage_ratio'' then c\<lparr>ec_kvCacheUsage := gv_Set G [model] (es_Value s) (ec_kvCacheUsage c)\<rparr>
      else c)"

definition Engine_Update :: "'g gauge_vec \<Rightarrow> string \<Rightarrow> EngineSample list \<Rightarrow> 'g EngineCollectors \<Rightarrow> 'g EngineCollectors" where
  "Engine_Update G model samples c = fold (engine_set G model) samples c"

text \<open>The histograms of the request path; \<open>observe\<close> stands for \<^verbatim>\<open>WithLabelValues (\<dots>).Observe (v)\<close>. \<^verbatim>\<open>Duration.Seconds\<close> adds the whole
  seconds and the rounded fraction.\<close>

record 'h InferenceCollectors =
  ic_timeToFirstToken :: 'h
  ic_interTokenLatency :: 'h

definition duration_seconds :: "int \<Rightarrow> rat" where
  "duration_seconds d = (let sec = tdiv d 1000000000; nsec = d - 1000000000 * sec
     in fl (fl (of_int sec) + fl (fl (of_int nsec) / 1000000000)))"

definition Metrics_ObserveTTFT ::
  "(string list \<Rightarrow> rat \<Rightarrow> 'h \<Rightarrow> 'h) \<Rightarrow> string \<Rightarrow> string \<Rightarrow> int \<Rightarrow> 'h InferenceCollectors \<Rightarrow> 'h InferenceCollectors" where
  "Metrics_ObserveTTFT observe model quantization d c =
     c\<lparr>ic_timeToFirstToken := observe [model, quantization] (duration_seconds d) (ic_timeToFirstToken c)\<rparr>"

definition Metrics_ObserveTPOT ::
  "(string list \<Rightarrow> rat \<Rightarrow> 'h \<Rightarrow> 'h) \<Rightarrow> string \<Rightarrow> string \<Rightarrow> int \<Rightarrow> 'h InferenceCollectors \<Rightarrow> 'h InferenceCollectors" where
  "Metrics_ObserveTPOT observe model quantization d c =
     c\<lparr>ic_interTokenLatency := observe [model, quantization] (duration_seconds d) (ic_interTokenLatency c)\<rparr>"

text \<open>The publisher feeds the histograms and the hub of theory \<open>Telemetry\<close>.\<close>

definition Publisher_TTFT ::
  "(string list \<Rightarrow> rat \<Rightarrow> 'h \<Rightarrow> 'h) \<Rightarrow> string \<Rightarrow> string \<Rightarrow> int \<Rightarrow> int \<Rightarrow> 'h InferenceCollectors \<times> hub \<Rightarrow> 'h InferenceCollectors \<times> hub" where
  "Publisher_TTFT observe model quantization d now st =
     (Metrics_ObserveTTFT observe model quantization d (fst st), ObserveTimeToFirstToken model d now (snd st))"

definition Publisher_TPOT ::
  "(string list \<Rightarrow> rat \<Rightarrow> 'h \<Rightarrow> 'h) \<Rightarrow> string \<Rightarrow> string \<Rightarrow> int \<Rightarrow> int \<Rightarrow> 'h InferenceCollectors \<times> hub \<Rightarrow> 'h InferenceCollectors \<times> hub" where
  "Publisher_TPOT observe model quantization d now st =
     (Metrics_ObserveTPOT observe model quantization d (fst st), ObserveInterTokenLatency model d now (snd st))"

text \<open>The adapter of \<^verbatim>\<open>app.go\<close> drops temperature and power, and one tick of the sampling loop publishes what it gives.\<close>

definition sampleGPUs :: "string + string \<Rightarrow> sample_error + GPUSample list" where
  "sampleGPUs out = (case SampleGPUs out of
      Inl e \<Rightarrow> Inl e
    | Inr readings \<Rightarrow> Inr (map (\<lambda>r. \<lparr>gs_DeviceIndex = rd_DeviceIndex r, gs_UtilizationPercent = rd_UtilizationPercent r,
        gs_VRAMUsedBytes = rd_VRAMUsedBytes r, gs_VRAMTotalBytes = rd_VRAMTotalBytes r\<rparr>) readings))"

section \<open>The sampler reads what the driver prints\<close>

text \<open>A field that needs no quotes and is not changed by trimming.\<close>

definition plain_field :: "string \<Rightarrow> bool" where
  "plain_field s \<longleftrightarrow> s \<noteq> [] \<and> \<not> is_space (hd s) \<and> list_all (\<lambda>c. c \<notin> {CHR '','', CHR 0x22, CHR 0x0A, CHR 0x0D}) s"

fun record_text :: "string list \<Rightarrow> string" where
  "record_text [] = []"
| "record_text [f] = f"
| "record_text (f # fs) = f @ '', '' @ record_text fs"

lemma plain_field_takeWhile:
  assumes "plain_field s"
  shows "takeWhile (\<lambda>c. c \<noteq> CHR '','') (s @ CHR '','' # r) = s" "dropWhile (\<lambda>c. c \<noteq> CHR '','') (s @ CHR '','' # r) = CHR '','' # r"
    "takeWhile (\<lambda>c. c \<noteq> CHR '','') (s @ [CHR 0x0A]) = s @ [CHR 0x0A]" "dropWhile (\<lambda>c. c \<noteq> CHR '','') (s @ [CHR 0x0A]) = []"
  using assms by (auto simp: plain_field_def list_all_iff takeWhile_append dropWhile_append)

lemma plain_field_cons:
  assumes "plain_field f"
  obtains c r where "f = c # r" "\<not> is_space c" "c \<noteq> CHR 0x22" "CHR 0x22 \<notin> set r"
  using assms by (cases f) (auto simp: plain_field_def list_all_iff)

lemma csv_fields_print:
  assumes "fs \<noteq> []" "list_all plain_field fs"
  shows "csv_fields None (record_text fs @ [CHR 0x0A]) rest acc = Inr (acc @ fs, rest)"
    "csv_fields None (CHR '' '' # record_text fs @ [CHR 0x0A]) rest acc = Inr (acc @ fs, rest)"
proof -
  have sp: "csv_fields None (CHR '' '' # line) rest acc = csv_fields None line rest acc" for line acc
    by (simp add: csv_fields.simps is_space_def)
  show 1: "csv_fields None (record_text fs @ [CHR 0x0A]) rest acc = Inr (acc @ fs, rest)"
    using assms
  proof (induction fs arbitrary: acc rule: record_text.induct)
    case (2 f)
    then obtain c r where f: "f = c # r" "\<not> is_space c" "c \<noteq> CHR 0x22" "CHR 0x22 \<notin> set r" by (auto elim: plain_field_cons)
    show ?case using plain_field_takeWhile(3,4) [of f] 2 f by (simp add: csv_fields.simps strip_nl_def)
  next
    case (3 f g fs)
    then obtain c r where f: "f = c # r" "\<not> is_space c" "c \<noteq> CHR 0x22" "CHR 0x22 \<notin> set r" by (auto elim: plain_field_cons)
    have "csv_fields None (record_text (f # g # fs) @ [CHR 0x0A]) rest acc =
      csv_fields None (CHR '' '' # record_text (g # fs) @ [CHR 0x0A]) rest (acc @ [f])"
      using plain_field_takeWhile(1,2) [of f "CHR '' '' # record_text (g # fs) @ [CHR 0x0A]"] 3 f
      by (subst csv_fields.simps) simp
    also have "\<dots> = Inr (acc @ f # g # fs, rest)" unfolding sp using 3 by simp
    finally show ?case .
  qed simp
  show "csv_fields None (CHR '' '' # record_text fs @ [CHR 0x0A]) rest acc = Inr (acc @ fs, rest)" unfolding sp by (rule 1)
qed

lemma csv_lines_text:
  assumes "list_all (\<lambda>l. CHR 0x0A \<notin> set l \<and> (l = [] \<or> last l \<noteq> CHR 0x0D)) ls"
  shows "csv_lines (concat (map (\<lambda>l. l @ [CHR 0x0A]) ls)) = map (\<lambda>l. l @ [CHR 0x0A]) ls"
proof -
  have "go_split (concat (map (\<lambda>l. l @ [CHR 0x0A]) ls)) (CHR 0x0A) = ls @ [[]]"
    using assms by (induction ls) (simp_all add: go_split_append)
  then show ?thesis using assms by (auto simp: csv_lines_def Let_def list_all_iff)
qed

lemma record_text_plain:
  assumes "fs \<noteq> []" "list_all plain_field fs"
  shows "CHR 0x0A \<notin> set (record_text fs)" "last (record_text fs) \<noteq> CHR 0x0D" "record_text fs \<noteq> []"
  using assms
proof (induction fs rule: record_text.induct)
  case (2 f)
  { case 1 then show ?case by (auto simp: plain_field_def list_all_iff) next
    case 2 then show ?case using last_in_set [of f] by (auto simp: plain_field_def list_all_iff) next
    case 3 then show ?case by (simp add: plain_field_def) }
next
  case (3 f g fs)
  { case 1 then show ?case using 3 by (auto simp: plain_field_def list_all_iff) next
    case 2 then show ?case using 3 by simp next
    case 3 then show ?case by simp }
qed simp_all

text \<open>Rows of the same width, printed one per line, are read back.\<close>

lemma csv_read_text:
  assumes "list_all (\<lambda>fs. length fs = n \<and> list_all plain_field fs) rows" "0 < n"
  shows "csv_ReadAll (concat (map (\<lambda>fs. record_text fs @ [CHR 0x0A]) rows)) = Inr rows"
proof -
  have ne: "fs \<noteq> []" if "length fs = n" for fs :: "string list" using that assms(2) by auto
  have "csv_records k (map (\<lambda>fs. record_text fs @ [CHR 0x0A]) rows) = Inr rows" if "k = 0 \<or> k = n" for k
    using assms(1) that
  proof (induction rows arbitrary: k)
    case (Cons fs rows)
    then have "fs \<noteq> []" "list_all plain_field fs" using ne by simp_all
    then show ?case using Cons csv_fields_print(1) [of fs _ "[]"] record_text_plain(3) [of fs] by auto
  qed simp
  moreover have "csv_lines (concat (map (\<lambda>l. l @ [CHR 0x0A]) (map record_text rows))) = map (\<lambda>l. l @ [CHR 0x0A]) (map record_text rows)"
    using assms ne record_text_plain by (intro csv_lines_text) (auto simp: list_all_iff)
  ultimately show ?thesis by (simp add: csv_ReadAll_def comp_def)
qed

lemma SampleGPUs_text:
  assumes "list_all (\<lambda>fs. length fs = 6 \<and> list_all plain_field fs) rows"
  shows "SampleGPUs (Inr (concat (map (\<lambda>fs. record_text fs @ [CHR 0x0A]) rows))) = gpu_rows rows"
  using csv_read_text [OF assms] by (simp add: SampleGPUs_def)

lemma gpu_rows_all: "gpu_rows rows = Inr gs \<longleftrightarrow> map gpu_row rows = map Inr gs"
proof (induction rows arbitrary: gs)
  case (Cons fs rows)
  show ?case using Cons.IH [of "tl gs"] by (cases gs) (auto split: sum.splits)
qed auto

text \<open>Up to eight exabytes the number of bytes is exact.\<close>

lemma gpu_row_bytes:
  assumes "gpu_row fs = Inr g" "int_field ''memory.used'' (fs ! 2) = Inr n" "0 \<le> n" "n < 2 ^ 43"
  shows "rd_VRAMUsedBytes g = n * 1048576"
proof -
  have "rd_VRAMUsedBytes g = i64 (n * (1024 * 1024))" using assms(1,2) by (auto simp: gpu_row_def split: if_splits sum.splits)
  also have "\<dots> = n * 1048576" using assms(3,4) by (simp add: i64_id_nonneg)
  finally show ?thesis .
qed

section \<open>Gauges\<close>

locale gauge_vector =
  fixes G :: "'g gauge_vec"
  assumes get_set: "gv_Get G ls (gv_Set G ls' v g) = (if ls = ls' then Some v else gv_Get G ls g)"
begin

text \<open>A series has the value of the last sample with its labels, and keeps its value when no sample has them.\<close>

lemma get_fold:
  "gv_Get G ls (fold (\<lambda>s. gv_Set G (lab s) (val s)) ss g) =
   (case find (\<lambda>s. lab s = ls) (rev ss) of Some s \<Rightarrow> Some (val s) | None \<Rightarrow> gv_Get G ls g)"
proof (induction ss rule: rev_induct)
  case (snoc s ss)
  then show ?case by (auto simp: get_set)
qed simp

lemma gpu_gauges:
  "gc_utilization (GPU_Update G node allocs ss c) = fold (\<lambda>s. gv_Set G (gpu_labels node allocs s) (rd_UtilizationPercent s)) ss (gc_utilization c)"
  "gc_vramUsed (GPU_Update G node allocs ss c) = fold (\<lambda>s. gv_Set G (gpu_labels node allocs s) (f64_of_int (rd_VRAMUsedBytes s))) ss (gc_vramUsed c)"
  by (induction ss arbitrary: c) (simp_all add: GPU_Update_def gpu_set_def Let_def)

lemma stale_series:
  assumes "map_of allocs dev \<noteq> Some old" "old \<noteq> []"
  shows "gv_Get G [node, dev, old] (gc_vramUsed (GPU_Update G node allocs ss c)) = gv_Get G [node, dev, old] (gc_vramUsed c)"
proof -
  have "find (\<lambda>s. gpu_labels node allocs s = [node, dev, old]) (rev ss) = None"
    using assms by (auto simp: find_None_iff gpu_labels_def split: option.splits)
  then show ?thesis by (simp add: gpu_gauges get_fold)
qed

end

definition mem_gauge :: "(string list \<Rightarrow> f64 option) gauge_vec" where
  "mem_gauge = \<lparr>gv_Set = (\<lambda>ls v g. g(ls := Some v)), gv_Get = (\<lambda>ls g. g ls)\<rparr>"

interpretation mg: gauge_vector mem_gauge
  by unfold_locales (simp add: mem_gauge_def)

text \<open>When a device passes from one allocation to another, the series of the first keeps its last reading.\<close>

lemma gpu_series_stale:
  assumes "gv_Get mem_gauge [node, dev, a] (gc_vramUsed c) = Some v" "map_of allocs dev = Some b" "b \<noteq> a" "a \<noteq> []"
  shows "gv_Get mem_gauge [node, dev, a] (gc_vramUsed (GPU_Update mem_gauge node allocs ss c)) = Some v"
  using assms mg.stale_series [of allocs dev a] by simp

end
