(* ===== verification/LiveSocket.thy ===== *)
theory LiveSocket
  imports Telemetry
begin

text \<open>
  The telemetry socket (\<^verbatim>\<open>telemetry/ws_handler.go\<close>) over the hub of theory \<open>Telemetry\<close>. What the handler's \<^verbatim>\<open>select\<close> takes, and
  what other goroutines do with the hub in between, is a list of events; a write or a ping carries its outcome. The WebSocket
  library is only called: whether \<^verbatim>\<open>Accept\<close> succeeds is an argument, and the reading goroutine shows as the cancelled context.
\<close>

section \<open>The handler\<close>

definition HeartbeatInterval :: int where "HeartbeatInterval = 30 * 1000000000"

definition writeTimeout :: int where "writeTimeout = 5 * 1000000000"

datatype hub_op = HubSubscribe | HubUnsubscribe nat | HubPublish Sample | HubReceive nat

fun hub_apply :: "hub_op \<Rightarrow> hub \<Rightarrow> hub" where
  "hub_apply HubSubscribe h = fst (Subscribe h)"
| "hub_apply (HubUnsubscribe j) h = unsubscribe j h"
| "hub_apply (HubPublish s) h = hub_Publish s h"
| "hub_apply (HubReceive j) h = fst (hub_receive j h)"

datatype ws_event = WsDone | WsReady bool | WsHeartbeat bool | WsOther hub_op

datatype ws_exit = AcceptFailed | NormalClosure | ChannelClosed | WriteFailed | PingFailed

text \<open>The loop with its deferred \<^verbatim>\<open>unsubscribe\<close>; no exit at the end of the list means that the handler is still running. A receive
  from an empty open channel does not happen yet; from a channel that was closed it ends the handler.\<close>

fun ws_loop :: "nat \<Rightarrow> ws_event list \<Rightarrow> hub \<Rightarrow> Sample list \<Rightarrow> hub \<times> Sample list \<times> ws_exit option" where
  "ws_loop i [] h sent = (h, sent, None)"
| "ws_loop i (WsDone # es) h sent = (unsubscribe i h, sent, Some NormalClosure)"
| "ws_loop i (WsReady ok # es) h sent = (case hub_receive i h of
      (h', Some s) \<Rightarrow> if ok then ws_loop i es h' (sent @ [s]) else (unsubscribe i h', sent, Some WriteFailed)
    | (h', None) \<Rightarrow> if map_of (hb_subs h) i = None then (unsubscribe i h, sent, Some ChannelClosed) else ws_loop i es h sent)"
| "ws_loop i (WsHeartbeat ok # es) h sent = (if ok then ws_loop i es h sent else (unsubscribe i h, sent, Some PingFailed))"
| "ws_loop i (WsOther op # es) h sent = ws_loop i es (hub_apply op h) sent"

definition ws_Handler :: "bool \<Rightarrow> ws_event list \<Rightarrow> hub \<Rightarrow> hub \<times> Sample list \<times> ws_exit option" where
  "ws_Handler accepted es h = (if \<not> accepted then (h, [], Some AcceptFailed)
     else case Subscribe h of (h', i) \<Rightarrow> ws_loop i es h' [])"

section \<open>Isolation and order\<close>

text \<open>The events that the handler lives to see, and the operations of others among them.\<close>

fun ws_until :: "nat \<Rightarrow> ws_event list \<Rightarrow> hub \<Rightarrow> hub_op list" where
  "ws_until i [] h = []"
| "ws_until i (WsDone # es) h = []"
| "ws_until i (WsReady ok # es) h = (case hub_receive i h of
      (h', Some s) \<Rightarrow> if ok then ws_until i es h' else []
    | (h', None) \<Rightarrow> if map_of (hb_subs h) i = None then [] else ws_until i es h)"
| "ws_until i (WsHeartbeat ok # es) h = (if ok then ws_until i es h else [])"
| "ws_until i (WsOther op # es) h = op # ws_until i es (hub_apply op h)"

definition published :: "hub_op list \<Rightarrow> Sample list" where
  "published ops = List.map_filter (\<lambda>op. case op of HubPublish s \<Rightarrow> Some s | _ \<Rightarrow> None) ops"

lemma unsubscribe_twice [simp]: "unsubscribe i (unsubscribe i h) = unsubscribe i h"
  by (simp add: unsubscribe_def)

lemma unsubscribe_receive: "unsubscribe i (fst (hub_receive i h)) = unsubscribe i h"
proof -
  have "filter (\<lambda>(j, _). j \<noteq> i) (map (\<lambda>(j, buf). (j, if j = i then tl buf else buf)) xs) = filter (\<lambda>(j, _). j \<noteq> i) xs"
    for xs :: "(nat \<times> Sample list) list" by (induction xs) auto
  then show ?thesis by (auto simp: unsubscribe_def hub_receive_def split: option.splits list.splits)
qed

text \<open>What others do commutes with leaving the hub.\<close>

lemma filter_map_keys:
  "filter (\<lambda>(j, _). j \<noteq> i) (map (\<lambda>(j, b). (j, f j b)) xs) = map (\<lambda>(j, b). (j, f j b)) (filter (\<lambda>(j, _). j \<noteq> i) xs)"
  by (induction xs) auto

lemma map_of_filter_other: "j \<noteq> i \<Longrightarrow> map_of (filter (\<lambda>(k, _). k \<noteq> i) xs) j = map_of xs j"
  by (induction xs) auto

lemma unsubscribe_apply:
  assumes "i < hb_next h" "op \<noteq> HubReceive i"
  shows "unsubscribe i (hub_apply op h) = hub_apply op (unsubscribe i h)" "i < hb_next (hub_apply op h)"
proof -
  show "unsubscribe i (hub_apply op h) = hub_apply op (unsubscribe i h)"
  proof (cases op)
    case (HubReceive j)
    then have "j \<noteq> i" using assms(2) by simp
    then show ?thesis using HubReceive map_of_filter_other [of j i "hb_subs h"]
      by (auto simp: unsubscribe_def hub_receive_def filter_map_keys split: option.splits list.splits)
  qed (use assms in \<open>auto simp: unsubscribe_def Subscribe_def hub_Publish_def filter_map_keys conj_commute split: prod.splits intro!: filter_cong\<close>)
  show "i < hb_next (hub_apply op h)"
    using assms by (cases op) (auto simp: unsubscribe_def Subscribe_def hub_Publish_def hub_receive_def split: option.splits list.splits)
qed

text \<open>The number of a subscription is known to its handler only.\<close>

definition foreign :: "nat \<Rightarrow> ws_event list \<Rightarrow> bool" where
  "foreign i es \<longleftrightarrow> WsOther (HubReceive i) \<notin> set es \<and> WsOther (HubUnsubscribe i) \<notin> set es"

lemma ws_loop_hub:
  assumes "foreign i es" "i < hb_next h"
  shows "unsubscribe i (fst (ws_loop i es h sent)) = fold hub_apply (ws_until i es h) (unsubscribe i h)
    \<and> (snd (snd (ws_loop i es h sent)) \<noteq> None \<longrightarrow> fst (ws_loop i es h sent) = fold hub_apply (ws_until i es h) (unsubscribe i h))"
  using assms
proof (induction i es h sent rule: ws_loop.induct)
  case (3 i ok es h sent)
  have n: "hb_next (fst (hub_receive i h)) = hb_next h" by (auto simp: hub_receive_def split: option.splits list.splits)
  obtain h' r where r: "hub_receive i h = (h', r)" by fastforce
  then have u: "unsubscribe i h' = unsubscribe i h" "hb_next h' = hb_next h" using unsubscribe_receive [of i h] n by simp_all
  have f: "foreign i es" using 3(3) by (simp add: foreign_def)
  show ?case
  proof (cases r)
    case None
    then show ?thesis using 3(1) [OF r [symmetric] None] 3(4) f r by simp
  next
    case (Some s)
    then show ?thesis using 3(2) [OF r [symmetric] Some] 3(4) f r u by simp
  qed
next
  case (5 i op es h sent)
  then have op: "op \<noteq> HubReceive i" by (auto simp: foreign_def)
  show ?case using 5 unsubscribe_apply [OF 5(3) op] by (simp add: foreign_def)
qed (auto simp: foreign_def)

lemma map_of_map_pair: "map_of (map (\<lambda>(j, b). (j, f j b)) xs) i = map_option (f i) (map_of xs i)"
  by (induction xs) auto

lemma apply_buffer:
  assumes "map_of (hb_subs h) i = Some b" "op \<noteq> HubReceive i" "op \<noteq> HubUnsubscribe i"
  shows "\<exists>b'. map_of (hb_subs (hub_apply op h)) i = Some b' \<and> subseq b' (b @ published [op])"
  using assms
  by (cases op) (auto simp: Subscribe_def unsubscribe_def hub_Publish_def hub_receive_def map_of_map_pair map_of_filter_other published_def
      split: option.splits list.splits)

lemma ws_loop_order:
  assumes "foreign i es" "map_of (hb_subs h) i = Some b"
  shows "subseq (fst (snd (ws_loop i es h sent))) (sent @ b @ published (ws_until i es h))"
  using assms
proof (induction i es h sent arbitrary: b rule: ws_loop.induct)
  case (3 i ok es h sent)
  have f: "foreign i es" using 3(3) by (simp add: foreign_def)
  show ?case
  proof (cases b)
    case Nil
    then have "hub_receive i h = (h, None)" using 3(4) by (simp add: hub_receive_def)
    then show ?thesis using 3(1) [OF _ refl _ f 3(4)] 3(4) by simp
  next
    case (Cons s b')
    let ?h = "h\<lparr>hb_subs := map (\<lambda>(j, buf). (j, if j = i then tl buf else buf)) (hb_subs h)\<rparr>"
    have r: "hub_receive i h = (?h, Some s)" using 3(4) Cons by (simp add: hub_receive_def)
    have "map_of (hb_subs ?h) i = Some b'" using 3(4) Cons by (simp add: map_of_map_pair)
    moreover have "subseq sent (sent @ xs)" for xs by (rule prefix_imp_subseq) simp
    ultimately show ?thesis using 3(2) [OF r [symmetric] refl _ f] r Cons by simp
  qed
next
  case (5 i op es h sent)
  then have op: "op \<noteq> HubReceive i" "op \<noteq> HubUnsubscribe i" "foreign i es" by (auto simp: foreign_def)
  obtain b' where b': "map_of (hb_subs (hub_apply op h)) i = Some b'" "subseq b' (b @ published [op])"
    using apply_buffer [OF 5(3) op(1,2)] by blast
  have "subseq (fst (snd (ws_loop i es (hub_apply op h) sent))) (sent @ b' @ published (ws_until i es (hub_apply op h)))"
    by (rule 5(1) [OF op(3) b'(1)])
  also have "subseq \<dots> (sent @ (b @ published [op]) @ published (ws_until i es (hub_apply op h)))"
    using b'(2) by (intro list_emb_append_mono) auto
  also have "\<dots> = sent @ b @ published (ws_until i (WsOther op # es) h)" by (simp add: published_def split: hub_op.splits)
  finally show ?case by simp
qed (auto simp: foreign_def)

text \<open>
  C38. A telemetry socket leaves no trace: when its handler has returned, the hub is what the other goroutines alone made of it, with one
  subscription number used up, and while it runs the other subscribers see the same hub. What it wrote is a subsequence, in order, of
  what was published since it subscribed.
\<close>

theorem socket_isolated:
  assumes "hub_ok h" "foreign (hb_next h) es" "ws_Handler True es h = (h', sent, ex)"
  shows "let i = hb_next h; ops = ws_until i es (fst (Subscribe h)); others = fold hub_apply ops (h\<lparr>hb_next := i + 1\<rparr>)
    in unsubscribe i h' = others \<and> (ex \<noteq> None \<longrightarrow> h' = others) \<and> subseq sent (published ops)"
proof -
  let ?i = "hb_next h" and ?h = "fst (Subscribe h)"
  have loop: "ws_loop ?i es ?h [] = (h', sent, ex)" using assms(3) by (simp add: ws_Handler_def Subscribe_def)
  have "filter (\<lambda>(j, _). j \<noteq> ?i) (hb_subs h) = hb_subs h" using assms(1) by (intro filter_True) (auto simp: hub_ok_def)
  then have u: "unsubscribe ?i ?h = h\<lparr>hb_next := ?i + 1\<rparr>" by (simp add: unsubscribe_def Subscribe_def)
  have "map_of (hb_subs h) ?i = None" using assms(1) by (force simp: hub_ok_def map_of_eq_None_iff)
  then have "map_of (hb_subs ?h) ?i = Some []" by (simp add: Subscribe_def map_add_def)
  from ws_loop_order [OF assms(2) this, of "[]"] have "subseq sent (published (ws_until ?i es ?h))" by (simp add: loop)
  moreover have "?i < hb_next ?h" by (simp add: Subscribe_def)
  note hub = ws_loop_hub [OF assms(2) this, of "[]", unfolded loop u fst_conv snd_conv]
  ultimately show ?thesis using hub by (metis (no_types, lifting))
qed

theorem socket_isolated_witness:
  "let s = blank_sample ''m'' 1; t = blank_sample ''m'' 2;
       es = [WsOther (HubPublish s), WsOther HubSubscribe, WsReady True, WsOther (HubPublish t), WsHeartbeat False, WsDone]
   in hub_ok NewHub \<and> foreign 0 es
     \<and> ws_Handler True es NewHub = (\<lparr>hb_subs = [(1, [t])], hb_next = 2\<rparr>, [s], Some PingFailed) \<and> subseq [s] [s, t]"
proof -
  let ?s = "blank_sample ''m'' 1" and ?t = "blank_sample ''m'' 2"
  let ?es = "[WsOther (HubPublish ?s), WsOther HubSubscribe, WsReady True, WsOther (HubPublish ?t), WsHeartbeat False, WsDone]"
  have run: "ws_Handler True ?es NewHub = (\<lparr>hb_subs = [(1, [?t])], hb_next = 2\<rparr>, [?s], Some PingFailed)"
    by (simp add: ws_Handler_def NewHub_def Subscribe_def hub_Publish_def subscriberBufferSize_def hub_receive_def unsubscribe_def)
  have ops: "ws_until 0 ?es (fst (Subscribe NewHub)) = [HubPublish ?s, HubSubscribe, HubPublish ?t]"
    by (simp add: NewHub_def Subscribe_def hub_Publish_def subscriberBufferSize_def hub_receive_def)
  have ok: "hub_ok NewHub" "foreign (hb_next NewHub) ?es" "hb_next NewHub = 0" by (simp_all add: hub_ok_def NewHub_def foreign_def)
  from socket_isolated [OF ok(1,2) run] have "subseq [?s] [?s, ?t]" unfolding ok(3) ops by (simp add: Let_def published_def)
  then show ?thesis using run ok by (simp add: Let_def)
qed

end
