(* ===== verification/Observability.thy ===== *)
theory Observability
  imports Routes Metrics LiveSocket
begin

text \<open>
  The recorders of the chat routes. \<^verbatim>\<open>app.go\<close> gives the chat handlers the publisher of \<^verbatim>\<open>telemetry/publisher.go\<close> as recorder of both
  latencies: what a streamed answer observed (theory \<open>Chat\<close>) goes to the histograms of theory \<open>Metrics\<close> and to the hub that the
  sockets of theory \<open>LiveSocket\<close> read.
\<close>

section \<open>Recording\<close>

text \<open>\<open>clock n\<close> is the time that the \<open>n\<close>-th observation puts into its sample.\<close>

definition record_observation ::
  "(string list \<Rightarrow> rat \<Rightarrow> 'h \<Rightarrow> 'h) \<Rightarrow> int \<Rightarrow> observation \<Rightarrow> 'h InferenceCollectors \<times> hub \<Rightarrow> 'h InferenceCollectors \<times> hub" where
  "record_observation observe now obs st = (case obs of
      Touched _ \<Rightarrow> st
    | ObservedTTFT model quantization d \<Rightarrow> Publisher_TTFT observe model quantization d now st
    | ObservedTPOT model quantization d \<Rightarrow> Publisher_TPOT observe model quantization d now st)"

fun record_all ::
  "(string list \<Rightarrow> rat \<Rightarrow> 'h \<Rightarrow> 'h) \<Rightarrow> (nat \<Rightarrow> int) \<Rightarrow> nat \<Rightarrow> observation list \<Rightarrow> 'h InferenceCollectors \<times> hub \<Rightarrow> 'h InferenceCollectors \<times> hub" where
  "record_all observe clock n [] st = st"
| "record_all observe clock n (x # xs) st = record_all observe clock (Suc n) xs (record_observation observe (clock n) x st)"

text \<open>A chat request with the recorders: the route of theory \<open>Routes\<close>, and what its reply records.\<close>

definition chat_route_recorded ::
  "(string list \<Rightarrow> rat \<Rightarrow> 'h \<Rightarrow> 'h) \<Rightarrow> ('s, 'x) redis_scheme \<Rightarrow> ('y) jwt_scheme \<Rightarrow> gateway \<Rightarrow> chat_call \<Rightarrow> (nat \<Rightarrow> int) \<Rightarrow>
   's gateway_state \<times> 'h InferenceCollectors \<times> hub \<Rightarrow> ('s gateway_state \<times> 'h InferenceCollectors \<times> hub) \<times> int option \<times> chat_reply" where
  "chat_route_recorded observe R J G c clock st = (case chat_route R J G c (fst st) of
      (w, retry, reply) \<Rightarrow> ((w, record_all observe clock 0 (reply_touches reply) (snd st)), retry, reply))"

section \<open>What a dashboard sees\<close>

text \<open>The samples that a list of observations publishes.\<close>

fun latency_samples :: "(nat \<Rightarrow> int) \<Rightarrow> nat \<Rightarrow> observation list \<Rightarrow> Sample list" where
  "latency_samples clock n [] = []"
| "latency_samples clock n (Touched _ # xs) = latency_samples clock (Suc n) xs"
| "latency_samples clock n (ObservedTTFT model q d # xs) =
    (blank_sample model (clock n))\<lparr>sp_TTFTMs := Some (of_int (tdiv d 1000000))\<rparr> # latency_samples clock (Suc n) xs"
| "latency_samples clock n (ObservedTPOT model q d # xs) =
    (blank_sample model (clock n))\<lparr>sp_TPOTMs := Some (of_int (tdiv d 1000000))\<rparr> # latency_samples clock (Suc n) xs"

lemma record_all_hub: "snd (record_all observe clock n xs st) = fold hub_Publish (latency_samples clock n xs) (snd st)"
proof (induction clock n xs arbitrary: st rule: latency_samples.induct)
  case (2 clock n i xs)
  then show ?case by (simp add: record_observation_def)
next
  case (3 clock n model q d xs)
  then show ?case by (simp add: record_observation_def Publisher_TTFT_def ObserveTimeToFirstToken_def)
next
  case (4 clock n model q d xs)
  then show ?case by (simp add: record_observation_def Publisher_TPOT_def ObserveInterTokenLatency_def)
qed simp

lemma publish_all:
  assumes "map_of (hb_subs h) i = Some buf" "length buf + length ss \<le> subscriberBufferSize"
  shows "map_of (hb_subs (fold hub_Publish ss h)) i = Some (buf @ ss)"
  using assms
proof (induction ss arbitrary: h buf)
  case (Cons s ss)
  have "map_of (hb_subs (hub_Publish s h)) i = Some (buf @ [s])"
    using Cons.prems by (simp add: hub_Publish_def map_of_map_pair)
  from Cons.IH [OF this] Cons.prems(2) show ?case by simp
qed simp

text \<open>A subscriber with room receives every latency of the answer, in the order of the tokens; the request itself is not
  affected by the recording.\<close>

lemma recorded_delivers:
  assumes "chat_route_recorded observe R J G c clock (w, m, h) = ((w', m', h'), retry, reply)"
    and "map_of (hb_subs h) i = Some buf" "length buf + length (latency_samples clock 0 (reply_touches reply)) \<le> subscriberBufferSize"
  shows "chat_route R J G c w = (w', retry, reply) \<and> map_of (hb_subs h') i = Some (buf @ latency_samples clock 0 (reply_touches reply))"
proof -
  have r: "chat_route R J G c w = (w', retry, reply)" and h: "record_all observe clock 0 (reply_touches reply) (m, h) = (m', h')"
    using assms(1) by (auto simp: chat_route_recorded_def split: prod.splits)
  then have "h' = fold hub_Publish (latency_samples clock 0 (reply_touches reply)) h" using record_all_hub [of observe clock 0 "reply_touches reply" "(m, h)"] by simp
  with r publish_all [OF assms(2,3)] show ?thesis by simp
qed

section \<open>The time to the first token is recorded once\<close>

definition is_ttft :: "observation \<Rightarrow> bool" where
  "is_ttft x = (case x of ObservedTTFT _ _ _ \<Rightarrow> True | _ \<Rightarrow> False)"

lemma sse_loop_ttft:
  assumes "final_event e" "lim_TTFT L"
  shows "length (filter is_ttft (snd (sse_loop L i model created adm now n (map (content_event j) cs @ [e]) first rec lst))) =
    (if \<not> rec \<and> (\<exists>c \<in> set cs. c \<noteq> []) then 1 else 0)"
proof (induction cs arbitrary: n first rec lst)
  case Nil
  then show ?case using assms(1) by (cases "ev_Err e") (simp_all add: Let_def final_event_def)
next
  case (Cons c cs)
  show ?case using Cons.IH [of "n + 1" False "rec \<or> c \<noteq> []" "if c \<noteq> [] then now n else lst"] assms(2)
    by (auto simp: content_event_def Let_def snd_prefix_obs is_ttft_def)
qed

end
