(* ===== verification/Process.thy ===== *)
theory Process
  imports Operations
begin

text \<open>
  The process: the redaction of log attributes (\<^verbatim>\<open>logging/logging.go\<close>), the command line of the sandbox check
  (\<^verbatim>\<open>sandbox/runsc.go\<close>), the start of the gateway (\<^verbatim>\<open>cmd/gateway/main.go\<close>) and the run of its servers (\<^verbatim>\<open>New\<close>, \<^verbatim>\<open>Migrate\<close>,
  \<^verbatim>\<open>Run\<close> and \<^verbatim>\<open>Close\<close> of \<^verbatim>\<open>app/app.go\<close>, without the routes, which are in theory \<open>Gateway\<close>). The constructors of the database pool
  and of the Nomad client, the network listeners and the HTTP servers are libraries: their outcomes are arguments, and what the
  process does is the list of its actions.
\<close>

section \<open>Logging\<close>

text \<open>\<^verbatim>\<open>(?i)(password|secret|token|api[_-]?key|authorization|credential)\<close> anywhere in the key.\<close>

definition secretKeyPattern :: "string \<Rightarrow> bool" where
  "secretKeyPattern key = list_ex (contains_sub (fold_case key))
     [''password'', ''secret'', ''token'', ''api_key'', ''api-key'', ''apikey'', ''authorization'', ''credential'']"

datatype 'v log_value = StringValue string | AnyValue 'v

definition redact :: "string list \<Rightarrow> string \<times> 'v log_value \<Rightarrow> string \<times> 'v log_value" where
  "redact groups a = (if secretKeyPattern (fst a) then (fst a, StringValue ''[REDACTED]'') else a)"

text \<open>The attributes of a record; the handler of \<^verbatim>\<open>log/slog\<close> calls \<^verbatim>\<open>ReplaceAttr\<close> for the leaves, with the names of the groups around
  them, and never for a group itself.\<close>

datatype 'v log_attr = LogLeaf string "'v log_value" | LogGroup string "'v log_attr list"

fun replace_attrs :: "string list \<Rightarrow> 'v log_attr \<Rightarrow> 'v log_attr" where
  "replace_attrs groups (LogLeaf k v) = (case redact groups (k, v) of (k', v') \<Rightarrow> LogLeaf k' v')"
| "replace_attrs groups (LogGroup k as) = LogGroup k (map (replace_attrs (groups @ [k])) as)"

fun leaves :: "'v log_attr \<Rightarrow> (string \<times> 'v log_value) list" where
  "leaves (LogLeaf k v) = [(k, v)]"
| "leaves (LogGroup k as) = concat (map leaves as)"

datatype log_level = LevelDebug | LevelInfo | LevelWarn | LevelError

definition parseLevel :: "string \<Rightarrow> log_level" where
  "parseLevel level = (let l = to_lower level in
     if l = ''debug'' then LevelDebug else if l = ''warn'' \<or> l = ''warning'' then LevelWarn
     else if l = ''error'' then LevelError else LevelInfo)"

text \<open>A logger travels in the context; \<open>dflt\<close> is \<^verbatim>\<open>slog.Default\<close>.\<close>

definition FromContext :: "'l \<Rightarrow> 'l option \<Rightarrow> 'l" where
  "FromContext dflt ctx = (case ctx of Some logger \<Rightarrow> logger | None \<Rightarrow> dflt)"

lemma leaves_replace: "leaves (replace_attrs groups a) = map (redact []) (leaves a)"
proof (induction groups a rule: replace_attrs.induct)
  case (1 groups k v)
  then show ?case by (simp add: redact_def split: prod.splits)
next
  case (2 groups k as)
  then show ?case by (induction as) simp_all
qed

text \<open>No secret-shaped leaf keeps its value, at any depth, and the other leaves are untouched, also inside a group whose own name is
  secret-shaped.\<close>

lemma redaction_exact:
  "(k, v) \<in> set (leaves (replace_attrs groups a)) \<longleftrightarrow>
   (if secretKeyPattern k then v = StringValue ''[REDACTED]'' \<and> (\<exists>w. (k, w) \<in> set (leaves a)) else (k, v) \<in> set (leaves a))"
  unfolding leaves_replace by (force simp: redact_def image_iff)

section \<open>Sandbox check (\<^verbatim>\<open>runsc.go\<close>)\<close>

definition runsc_args :: "string list \<Rightarrow> string list \<Rightarrow> string list" where
  "runsc_args extraFlags command = [''-rootless'', ''-ignore-cgroups'', ''-network=none''] @ extraFlags @ [''do''] @ command"

text \<open>\<open>exec\<close> runs \<^verbatim>\<open>runsc\<close>: the combined output, and the error if it failed.\<close>

definition runsc_run :: "(string list \<Rightarrow> string \<times> string option) \<Rightarrow> string list \<Rightarrow> string list \<Rightarrow> string \<times> (string list \<times> string \<times> string) option" where
  "runsc_run exec extraFlags command = (case exec (runsc_args extraFlags command) of
      (out, Some e) \<Rightarrow> (out, Some (command, e, out)) | (out, None) \<Rightarrow> (out, None))"

definition runsc_Do :: "(string list \<Rightarrow> string \<times> string option) \<Rightarrow> string list \<Rightarrow> string \<times> (string list \<times> string \<times> string) option" where
  "runsc_Do exec command = runsc_run exec [] command"

definition DoWithNVProxyDebug :: "(string list \<Rightarrow> string \<times> string option) \<Rightarrow> string list \<Rightarrow> string \<times> (string list \<times> string \<times> string) option" where
  "DoWithNVProxyDebug exec command = runsc_run exec [''-nvproxy'', ''-debug'', ''-alsologtostderr''] command"

section \<open>The gateway process\<close>

definition configPath :: "(string \<Rightarrow> string) \<Rightarrow> string" where
  "configPath env = (if env ''REDLINE_CONFIG_FILE'' \<noteq> [] then env ''REDLINE_CONFIG_FILE'' else ''config.yaml'')"

datatype action = OpenPool string | OpenRedis string | OpenNomad string | RunMigrations | Listen string | ServeApi | ServeMetrics
  | StartWorkers | ShutdownApi | ShutdownMetrics | ClosePool | CloseRedis

datatype run_event = ServeEnded "string option" | SignalReceived

record outside =
  os_Getenv :: "string \<Rightarrow> string"
  os_ReadFile :: "string \<Rightarrow> file_read"
  os_yaml :: "string \<Rightarrow> Config \<Rightarrow> Config option"
  os_pool :: "string \<Rightarrow> string option"
  os_nomad :: "string \<Rightarrow> string option"
  os_listen :: "string \<Rightarrow> string option"
  os_event :: run_event
  os_shutdown :: "string option"
  os_metricsShutdown :: "string option"

datatype run_error = RunConfig config_error | RunPool string | RunNomad string | RunLoad migrate_error | RunMigrate migrate_error
  | RunListen string string | RunServe string | RunShutdown string | RunMetricsShutdown string

text \<open>The two constructors of \<^verbatim>\<open>New\<close> that can fail; the Redis client between them connects lazily.\<close>

definition App_New :: "outside \<Rightarrow> Config \<Rightarrow> action list \<times> run_error option" where
  "App_New P cfg = (case os_pool P (cf_DatabaseURL cfg) of
      Some e \<Rightarrow> ([], Some (RunPool e))
    | None \<Rightarrow> (case os_nomad P (cf_NomadAddr cfg) of
        Some e \<Rightarrow> ([OpenPool (cf_DatabaseURL cfg), OpenRedis (cf_RedisAddr cfg)], Some (RunNomad e))
      | None \<Rightarrow> ([OpenPool (cf_DatabaseURL cfg), OpenRedis (cf_RedisAddr cfg), OpenNomad (cf_NomadAddr cfg)], None)))"

definition App_Close :: "action list" where "App_Close = [ClosePool, CloseRedis]"

definition App_Migrate ::
  "(string \<Rightarrow> 's \<Rightarrow> string + 's) \<Rightarrow> migrate_links \<Rightarrow> (string \<times> bool \<times> string option) list option \<Rightarrow> 's schema_state \<Rightarrow>
   's schema_state \<times> run_error option" where
  "App_Migrate run K dir st = (case LoadMigrations dir of
      Inl e \<Rightarrow> (st, Some (RunLoad e))
    | Inr pending \<Rightarrow> (case Migrate run K pending st of (st', _, e) \<Rightarrow> (st', map_option RunMigrate e)))"

text \<open>\<^verbatim>\<open>Run\<close>: the \<^verbatim>\<open>select\<close> ends when a server ended or the signal arrived.\<close>

definition App_Run :: "outside \<Rightarrow> Config \<Rightarrow> action list \<times> run_error option" where
  "App_Run P cfg = (case os_listen P (cf_ListenAddr cfg) of
      Some e \<Rightarrow> ([], Some (RunListen (cf_ListenAddr cfg) e))
    | None \<Rightarrow> (case os_listen P (cf_MetricsListenAddr cfg) of
        Some e \<Rightarrow> ([Listen (cf_ListenAddr cfg)], Some (RunListen (cf_MetricsListenAddr cfg) e))
      | None \<Rightarrow>
          (let up = [Listen (cf_ListenAddr cfg), Listen (cf_MetricsListenAddr cfg), ServeApi, ServeMetrics, StartWorkers]
           in case os_event P of
                ServeEnded e \<Rightarrow> (up, map_option RunServe e)
              | SignalReceived \<Rightarrow> (case os_shutdown P of
                  Some e \<Rightarrow> (up @ [ShutdownApi], Some (RunShutdown e))
                | None \<Rightarrow> (up @ [ShutdownApi, ShutdownMetrics], map_option RunMetricsShutdown (os_metricsShutdown P))))))"

definition process_run ::
  "outside \<Rightarrow> (string \<Rightarrow> 's \<Rightarrow> string + 's) \<Rightarrow> migrate_links \<Rightarrow> (string \<times> bool \<times> string option) list option \<Rightarrow> 's schema_state \<Rightarrow>
   's schema_state \<times> action list \<times> run_error option" where
  "process_run P run K dir st = (case config_Load (os_yaml P) (os_ReadFile P) (os_Getenv P) (configPath (os_Getenv P)) of
      Inl e \<Rightarrow> (st, [], Some (RunConfig e))
    | Inr cfg \<Rightarrow> (case App_New P cfg of
        (as, Some e) \<Rightarrow> (st, as, Some e)
      | (as, None) \<Rightarrow> (case App_Migrate run K dir st of
          (st', Some e) \<Rightarrow> (st', as @ [RunMigrations] @ App_Close, Some e)
        | (st', None) \<Rightarrow> (case App_Run P cfg of (bs, e) \<Rightarrow> (st', as @ [RunMigrations] @ bs @ App_Close, e)))))"

definition exit_code :: "run_error option \<Rightarrow> int" where
  "exit_code e = (if e = None then 0 else 1)"

text \<open>The gateway listens only with a configuration whose two addresses differ and after every migration was applied; the pool and the
  Redis client are closed last whenever \<^verbatim>\<open>New\<close> returned.\<close>

lemma App_New_no_listen: "Listen a \<notin> set (fst (App_New P cfg))"
  by (auto simp: App_New_def split: option.splits)

lemma App_Run_listen: "Listen a \<in> set (fst (App_Run P cfg)) \<Longrightarrow> a = cf_ListenAddr cfg \<or> a = cf_MetricsListenAddr cfg"
  by (auto simp: App_Run_def Let_def split: option.splits run_event.splits)

lemma process_listens:
  assumes "process_run P run K dir st = (st', as, e)" "Listen a \<in> set as"
  shows "\<exists>cfg pending applied. config_Load (os_yaml P) (os_ReadFile P) (os_Getenv P) (configPath (os_Getenv P)) = Inr cfg
    \<and> cf_MetricsListenAddr cfg \<noteq> cf_ListenAddr cfg \<and> (a = cf_ListenAddr cfg \<or> a = cf_MetricsListenAddr cfg)
    \<and> LoadMigrations dir = Inr pending \<and> Migrate run K pending st = (st', applied, None)"
proof -
  obtain cfg where cfg: "config_Load (os_yaml P) (os_ReadFile P) (os_Getenv P) (configPath (os_Getenv P)) = Inr cfg"
    using assms by (auto simp: process_run_def split: sum.splits)
  obtain bs where new: "App_New P cfg = (bs, None)"
    using assms cfg App_New_no_listen [of a P cfg] by (auto simp: process_run_def split: prod.splits option.splits)
  have mig: "App_Migrate run K dir st = (st', None)"
    using assms cfg new App_New_no_listen [of a P cfg] by (auto simp: process_run_def App_Close_def split: prod.splits option.splits)
  have "Listen a \<in> set (fst (App_Run P cfg))"
    using assms cfg new mig App_New_no_listen [of a P cfg] by (auto simp: process_run_def App_Close_def split: prod.splits)
  then have "a = cf_ListenAddr cfg \<or> a = cf_MetricsListenAddr cfg" by (rule App_Run_listen)
  moreover have "\<exists>pending applied. LoadMigrations dir = Inr pending \<and> Migrate run K pending st = (st', applied, None)"
    using mig by (auto simp: App_Migrate_def split: sum.splits prod.splits)
  ultimately show ?thesis using cfg config_Load_valid [OF cfg] by blast
qed

lemma process_closes:
  assumes "process_run P run K dir st = (st', as, e)" "RunMigrations \<in> set as"
  shows "\<exists>bs. as = bs @ [ClosePool, CloseRedis]"
  using assms by (auto simp: process_run_def App_New_def App_Close_def split: sum.splits prod.splits option.splits)

text \<open>A Nomad address that the client refuses leaves the pool open.\<close>

lemma new_leaks_pool:
  assumes "config_Load (os_yaml P) (os_ReadFile P) (os_Getenv P) (configPath (os_Getenv P)) = Inr cfg"
    "os_pool P (cf_DatabaseURL cfg) = None" "os_nomad P (cf_NomadAddr cfg) = Some e"
  shows "process_run P run K dir st = (st, [OpenPool (cf_DatabaseURL cfg), OpenRedis (cf_RedisAddr cfg)], Some (RunNomad e))"
  using assms by (simp add: process_run_def App_New_def)

end
