(* ===== verification/Json.thy ===== *)
theory Json
  imports Encoding
begin

text \<open>
  The part of \<^verbatim>\<open>encoding/json\<close> the gateway uses: values, \<^verbatim>\<open>json.Marshal\<close> (compact, HTML-escaping), the decoder of
  \<^verbatim>\<open>json.Unmarshal\<close> and the matching of member names with struct fields. Strings are byte strings; like the library, the encoder
  and the decoder both replace a byte that is no part of a UTF-8 sequence by U+FFFD. The main lemma is that decoding inverts encoding up to
  that replacement. The parser recurses on fuel, twice the length of its input and one more; lemma
  \<open>json_parse_fuel\<close> shows that more would not change any result.
\<close>

section \<open>UTF-8\<close>

definition cont_byte :: "nat \<Rightarrow> bool" where
  "cont_byte n \<longleftrightarrow> 128 \<le> n \<and> n \<le> 191"

text \<open>The second byte of a sequence, which excludes overlong forms, surrogates and runes above U+10FFFF.\<close>

definition second_byte :: "nat \<Rightarrow> nat \<Rightarrow> bool" where
  "second_byte a b \<longleftrightarrow> cont_byte b \<and> (a = 224 \<longrightarrow> 160 \<le> b) \<and> (a = 237 \<longrightarrow> b \<le> 159) \<and> (a = 240 \<longrightarrow> 144 \<le> b) \<and> (a = 244 \<longrightarrow> b \<le> 143)"

text \<open>The width of the rune a string begins with, 0 when \<^verbatim>\<open>utf8.DecodeRune\<close> reports an error.\<close>

fun wide_width :: "nat \<Rightarrow> string \<Rightarrow> nat" where
  "wide_width a (b # c # d # _) =
     (if 194 \<le> a \<and> a \<le> 223 \<and> cont_byte (of_char b) then 2
      else if 224 \<le> a \<and> a \<le> 239 \<and> second_byte a (of_char b) \<and> cont_byte (of_char c) then 3
      else if 240 \<le> a \<and> a \<le> 244 \<and> second_byte a (of_char b) \<and> cont_byte (of_char c) \<and> cont_byte (of_char d) then 4
      else 0)"
| "wide_width a [b, c] =
     (if 194 \<le> a \<and> a \<le> 223 \<and> cont_byte (of_char b) then 2
      else if 224 \<le> a \<and> a \<le> 239 \<and> second_byte a (of_char b) \<and> cont_byte (of_char c) then 3 else 0)"
| "wide_width a [b] = (if 194 \<le> a \<and> a \<le> 223 \<and> cont_byte (of_char b) then 2 else 0)"
| "wide_width a [] = 0"

definition utf8_width :: "string \<Rightarrow> nat" where
  "utf8_width s = (case s of [] \<Rightarrow> 0 | c # r \<Rightarrow> if (of_char c :: nat) < 128 then 1 else wide_width (of_char c) r)"

text \<open>\<^verbatim>\<open>utf8.EncodeRune\<close>, which encodes a surrogate or a number above U+10FFFF as U+FFFD.\<close>

definition rune_error :: string where
  "rune_error = [CHR 0xEF, CHR 0xBF, CHR 0xBD]"

definition encode_rune :: "nat \<Rightarrow> string" where
  "encode_rune r =
     (if r < 128 then [char_of r]
      else if r < 2048 then [char_of (192 + r div 64), char_of (128 + r mod 64)]
      else if (55296 \<le> r \<and> r \<le> 57343) \<or> 1114111 < r then rune_error
      else if r < 65536 then [char_of (224 + r div 4096), char_of (128 + r div 64 mod 64), char_of (128 + r mod 64)]
      else [char_of (240 + r div 262144), char_of (128 + r div 4096 mod 64), char_of (128 + r div 64 mod 64), char_of (128 + r mod 64)])"

text \<open>What is left of a string after both directions.\<close>

function to_valid :: "string \<Rightarrow> string" where
  "to_valid s = (if s = [] then [] else if utf8_width s = 0 then rune_error @ to_valid (drop 1 s)
     else take (utf8_width s) s @ to_valid (drop (utf8_width s) s))"
  by pat_completeness auto
termination by (relation "measure length") auto

declare to_valid.simps [simp del]

section \<open>Strings\<close>

text \<open>The bytes \<^verbatim>\<open>htmlSafeSet\<close> lets through, and the escapes of the others.\<close>

definition html_safe :: "char \<Rightarrow> bool" where
  "html_safe c \<longleftrightarrow> (let n = of_char c :: nat in 32 \<le> n \<and> n < 128 \<and> n \<notin> {34, 38, 60, 62, 92})"

definition escape_byte :: "char \<Rightarrow> string" where
  "escape_byte c =
     (if html_safe c then [c]
      else if c = CHR 0x22 \<or> c = CHR 0x5C then [CHR 0x5C, c]
      else if c = CHR 0x08 then [CHR 0x5C, CHR ''b'']
      else if c = CHR 0x0C then [CHR 0x5C, CHR ''f'']
      else if c = CHR 0x0A then [CHR 0x5C, CHR ''n'']
      else if c = CHR 0x0D then [CHR 0x5C, CHR ''r'']
      else if c = CHR 0x09 then [CHR 0x5C, CHR ''t'']
      else [CHR 0x5C, CHR ''u'', CHR ''0'', CHR ''0'', hex_digit (of_char c div 16), hex_digit (of_char c mod 16)])"

text \<open>\<^verbatim>\<open>appendString\<close> without the quotes; U+2028 and U+2029 are escaped too.\<close>

function json_escape :: "string \<Rightarrow> string" where
  "json_escape s =
     (if s = [] then []
      else if utf8_width s = 1 then escape_byte (hd s) @ json_escape (drop 1 s)
      else if utf8_width s = 0 then CHR 0x5C # ''ufffd'' @ json_escape (drop 1 s)
      else if take 3 s = [CHR 0xE2, CHR 0x80, CHR 0xA8] then CHR 0x5C # ''u2028'' @ json_escape (drop 3 s)
      else if take 3 s = [CHR 0xE2, CHR 0x80, CHR 0xA9] then CHR 0x5C # ''u2029'' @ json_escape (drop 3 s)
      else take (utf8_width s) s @ json_escape (drop (utf8_width s) s))"
  by pat_completeness auto
termination by (relation "measure length") auto

declare json_escape.simps [simp del]

definition json_quote :: "string \<Rightarrow> string" where
  "json_quote s = CHR 0x22 # json_escape s @ [CHR 0x22]"

definition hex_val :: "char \<Rightarrow> nat option" where
  "hex_val c = (let n = of_char c :: nat in
     if 48 \<le> n \<and> n \<le> 57 then Some (n - 48) else if 97 \<le> n \<and> n \<le> 102 then Some (n - 87) else if 65 \<le> n \<and> n \<le> 70 then Some (n - 55) else None)"

text \<open>\<^verbatim>\<open>getu4\<close>: the number of an escape, with the backslash and the letter still in front.\<close>

definition getu4 :: "string \<Rightarrow> nat option" where
  "getu4 s = (case s of
      b # u # c1 # c2 # c3 # c4 # _ \<Rightarrow>
        if b = CHR 0x5C \<and> u = CHR ''u'' then
          (case (hex_val c1, hex_val c2, hex_val c3, hex_val c4) of
             (Some d1, Some d2, Some d3, Some d4) \<Rightarrow> Some (((d1 * 16 + d2) * 16 + d3) * 16 + d4) | _ \<Rightarrow> None)
        else None
    | _ \<Rightarrow> None)"

text \<open>The rune of an escape and the number of bytes it takes: a surrogate pair is one rune, a lone surrogate is U+FFFD.\<close>

definition escaped_rune :: "string \<Rightarrow> (string \<times> nat) option" where
  "escaped_rune s = (case getu4 s of
      None \<Rightarrow> None
    | Some r \<Rightarrow>
        if 55296 \<le> r \<and> r \<le> 57343 then
          (case getu4 (drop 6 s) of
             Some r2 \<Rightarrow> if r \<le> 56319 \<and> 56320 \<le> r2 \<and> r2 \<le> 57343 then Some (encode_rune (65536 + (r - 55296) * 1024 + (r2 - 56320)), 12) else Some (rune_error, 6)
           | None \<Rightarrow> Some (rune_error, 6))
        else Some (encode_rune r, 6))"

text \<open>One character of a string literal: what it stands for and how many bytes it takes.\<close>

definition unquote_step :: "string \<Rightarrow> (string \<times> nat) option" where
  "unquote_step s = (case s of
      [] \<Rightarrow> None
    | c # r \<Rightarrow>
        if c = CHR 0x5C then
          (case r of
             [] \<Rightarrow> None
           | e # _ \<Rightarrow>
               if e = CHR 0x22 \<or> e = CHR 0x5C \<or> e = CHR ''/'' then Some ([e], 2)
               else if e = CHR ''b'' then Some ([CHR 0x08], 2)
               else if e = CHR ''f'' then Some ([CHR 0x0C], 2)
               else if e = CHR ''n'' then Some ([CHR 0x0A], 2)
               else if e = CHR ''r'' then Some ([CHR 0x0D], 2)
               else if e = CHR ''t'' then Some ([CHR 0x09], 2)
               else escaped_rune s)
        else if (of_char c :: nat) < 32 then None
        else if utf8_width s = 0 then Some (rune_error, 1)
        else Some (take (utf8_width s) s, utf8_width s))"

lemma unquote_step_pos: "unquote_step s = Some (a, k) \<Longrightarrow> 0 < k \<and> s \<noteq> []"
  by (auto simp: unquote_step_def escaped_rune_def split: list.splits if_splits option.splits)

text \<open>The rest of a literal after its opening quote.\<close>

function json_unquote :: "string \<Rightarrow> (string \<times> string) option" where
  "json_unquote s =
     (if s \<noteq> [] \<and> hd s = CHR 0x22 then Some ([], tl s)
      else case unquote_step s of
        None \<Rightarrow> None
      | Some (a, k) \<Rightarrow> (case json_unquote (drop k s) of None \<Rightarrow> None | Some (t, rest) \<Rightarrow> Some (a @ t, rest)))"
  by pat_completeness auto
termination by (relation "measure length") (auto dest!: unquote_step_pos)

declare json_unquote.simps [simp del]

subsection \<open>Decoding a string inverts encoding it\<close>

lemma wide_width_le: "wide_width a r \<le> Suc (length r)"
  by (cases "(a, r)" rule: wide_width.cases) simp_all

lemma wide_width_not_1: "wide_width a r \<noteq> Suc 0"
  by (cases "(a, r)" rule: wide_width.cases) simp_all

lemma wide_width_append: "wide_width a r = Suc k \<Longrightarrow> wide_width a (take k r @ t) = Suc k"
  by (cases "(a, r)" rule: wide_width.cases; cases "(a, t)" rule: wide_width.cases) (auto split: if_splits simp: numeral_eq_Suc)

lemma wide_width_bytes: "wide_width a r = Suc k \<Longrightarrow> c \<in> set (take k r) \<Longrightarrow> 128 \<le> (of_char c :: nat)"
  by (cases "(a, r)" rule: wide_width.cases) (auto split: if_splits simp: numeral_eq_Suc cont_byte_def second_byte_def)

lemma wide_width_3: "224 \<le> a \<Longrightarrow> a \<le> 239 \<Longrightarrow> 0 < wide_width a r \<Longrightarrow> wide_width a r = 3"
  by (cases "(a, r)" rule: wide_width.cases) (auto split: if_splits)

lemma utf8_width_le: "utf8_width s \<le> length s"
  by (auto simp: utf8_width_def wide_width_le split: list.splits)

lemma utf8_width_0_Nil [simp]: "utf8_width [] = 0"
  by (simp add: utf8_width_def)

lemma utf8_width_append: "0 < utf8_width s \<Longrightarrow> utf8_width (take (utf8_width s) s @ t) = utf8_width s"
  by (cases "utf8_width s") (auto simp: utf8_width_def wide_width_append split: list.splits if_splits)

lemma utf8_width_1: "utf8_width s = 1 \<longleftrightarrow> (\<exists>c r. s = c # r \<and> (of_char c :: nat) < 128)"
  by (auto simp: utf8_width_def wide_width_not_1 split: list.splits)

text \<open>The bytes of a wide rune are no ASCII bytes.\<close>

lemma utf8_wide_bytes: "1 < utf8_width s \<Longrightarrow> c \<in> set (take (utf8_width s) s) \<Longrightarrow> 128 \<le> (of_char c :: nat)"
  by (cases "utf8_width s") (auto simp: utf8_width_def dest: wide_width_bytes split: list.splits if_splits)

lemma hex_val_digit: "n < 16 \<Longrightarrow> hex_val (hex_digit n) = Some n"
proof -
  have "\<forall>n \<in> set [0..<16]. hex_val (hex_digit n) = Some n" by code_simp
  then show "n < 16 \<Longrightarrow> ?thesis" by simp
qed

lemma unquote_append:
  assumes "unquote_step (a @ t) = Some (b, length a)" "a \<noteq> []" "hd a \<noteq> CHR 0x22"
  shows "json_unquote (a @ t) = map_option (\<lambda>(u, rest). (b @ u, rest)) (json_unquote t)"
  using assms by (subst json_unquote.simps) (auto split: option.splits)

lemma unquote_escape_byte:
  assumes "(of_char c :: nat) < 128"
  shows "json_unquote (escape_byte c @ t) = map_option (\<lambda>(u, rest). (c # u, rest)) (json_unquote t)"
proof -
  have w: "utf8_width (c # t) = 1" using assms by (simp add: utf8_width_def)
  have s: "unquote_step (escape_byte c @ t) = Some ([c], length (escape_byte c))"
  proof (cases "html_safe c")
    case True
    then have "c \<noteq> CHR 0x5C" "\<not> (of_char c :: nat) < 32" by (auto simp: html_safe_def Let_def)
    then show ?thesis using True w by (simp add: escape_byte_def unquote_step_def)
  next
    case False
    have "of_char c div 16 < (16 :: nat)" "of_char c mod 16 < (16 :: nat)" "hex_val (CHR ''0'') = Some 0"
      using assms by (auto simp: hex_val_def)
    then have "getu4 (CHR 0x5C # CHR ''u'' # CHR ''0'' # CHR ''0'' # hex_digit (of_char c div 16) # hex_digit (of_char c mod 16) # t) = Some (of_char c)"
      by (simp add: getu4_def hex_val_digit)
    then have "escaped_rune (CHR 0x5C # CHR ''u'' # CHR ''0'' # CHR ''0'' # hex_digit (of_char c div 16) # hex_digit (of_char c mod 16) # t) = Some ([c], 6)"
      using assms by (simp add: escaped_rune_def encode_rune_def)
    then show ?thesis using False by (simp add: escape_byte_def unquote_step_def)
  qed
  moreover have "escape_byte c \<noteq> []" by (simp add: escape_byte_def)
  moreover have "hd (escape_byte c) \<noteq> CHR 0x22" by (auto simp: escape_byte_def html_safe_def Let_def)
  ultimately show ?thesis using unquote_append [of "escape_byte c" t "[c]"] by simp
qed

lemma unquote_escaped:
  "json_unquote (CHR 0x5C # CHR ''u'' # CHR ''f'' # CHR ''f'' # CHR ''f'' # CHR ''d'' # t) = map_option (\<lambda>(u, rest). (rune_error @ u, rest)) (json_unquote t)"
  "json_unquote (CHR 0x5C # CHR ''u'' # CHR ''2'' # CHR ''0'' # CHR ''2'' # CHR ''8'' # t) = map_option (\<lambda>(u, rest). ([CHR 0xE2, CHR 0x80, CHR 0xA8] @ u, rest)) (json_unquote t)"
  "json_unquote (CHR 0x5C # CHR ''u'' # CHR ''2'' # CHR ''0'' # CHR ''2'' # CHR ''9'' # t) = map_option (\<lambda>(u, rest). ([CHR 0xE2, CHR 0x80, CHR 0xA9] @ u, rest)) (json_unquote t)"
  using unquote_append [of "CHR 0x5C # ''ufffd''" t rune_error] unquote_append [of "CHR 0x5C # ''u2028''" t "[CHR 0xE2, CHR 0x80, CHR 0xA8]"]
    unquote_append [of "CHR 0x5C # ''u2029''" t "[CHR 0xE2, CHR 0x80, CHR 0xA9]"]
  by (simp_all add: unquote_step_def escaped_rune_def getu4_def hex_val_def encode_rune_def rune_error_def char_of_def bit_Suc_0_iff)

lemma unquote_wide:
  assumes "1 < utf8_width s"
  shows "json_unquote (take (utf8_width s) s @ t) = map_option (\<lambda>(u, rest). (take (utf8_width s) s @ u, rest)) (json_unquote t)"
proof -
  let ?a = "take (utf8_width s) s"
  have a: "?a \<noteq> []" using assms by auto
  then have h: "128 \<le> (of_char (hd ?a) :: nat)" using utf8_wide_bytes [OF assms, of "hd ?a"] hd_in_set by blast
  then have "hd ?a \<noteq> CHR 0x22" "hd ?a \<noteq> CHR 0x5C" by auto
  moreover have "unquote_step (?a @ t) = Some (?a, length ?a)"
  proof -
    have "utf8_width (?a @ t) = utf8_width s" using assms by (simp add: utf8_width_append)
    moreover obtain c r where "?a @ t = c # r" "c = hd ?a" using a by (cases ?a) auto
    ultimately show ?thesis using assms h \<open>hd ?a \<noteq> CHR 0x5C\<close> utf8_width_le [of s]
      by (auto simp: unquote_step_def) (metis append_eq_conv_conj length_take min.absorb2)
  qed
  ultimately show ?thesis using a by (intro unquote_append)
qed

lemma unquote_escape: "json_unquote (json_escape s @ CHR 0x22 # r) = Some (to_valid s, r)"
proof (induction s rule: json_escape.induct)
  case (1 s)
  consider "s = []" | "utf8_width s = 1" | "s \<noteq> []" "utf8_width s = 0" | "1 < utf8_width s" "s \<noteq> []"
    by (metis less_one linorder_neqE_nat utf8_width_0_Nil)
  then show ?case
  proof cases
    case 1
    then show ?thesis by (simp add: json_escape.simps [of "[]"] to_valid.simps [of "[]"] json_unquote.simps)
  next
    case 2
    then obtain c t where s: "s = c # t" "(of_char c :: nat) < 128" using utf8_width_1 [of s] by blast
    then show ?thesis using "1.IH"(1) 2
      by (simp add: json_escape.simps [of "c # t"] to_valid.simps [of "c # t"] unquote_escape_byte)
  next
    case 3
    then show ?thesis using "1.IH"(2) by (simp add: json_escape.simps [of s] to_valid.simps [of s] unquote_escaped)
  next
    case 4
    have w: "utf8_width s = 3" if pre: "take 3 s = [CHR 0xE2, CHR 0x80, x]" for x
    proof -
      obtain c r where "s = c # r" "c = CHR 0xE2" using pre by (cases s) simp_all
      then show ?thesis using 4(1) wide_width_3 [of 226 r] by (simp add: utf8_width_def)
    qed
    show ?thesis
      using 4 "1.IH"(3,4,5) w unquote_wide [OF 4(1)]
      by (simp add: json_escape.simps [of s] to_valid.simps [of s] unquote_escaped)
  qed
qed

section \<open>Values\<close>

text \<open>A number is kept as its literal.\<close>

datatype json = JNull | JBool bool | JNum string | JStr string | JArr "json list" | JObj "(string \<times> json) list"

fun comma_join :: "string list \<Rightarrow> string" where
  "comma_join [] = []"
| "comma_join [s] = s"
| "comma_join (s # t # ts) = s @ CHR '','' # comma_join (t # ts)"

lemma json_member_size [termination_simp]: "m \<in> set ms \<Longrightarrow> size (snd m) < Suc (size_list (size_prod (\<lambda>_. 0) size) ms)"
  by (induction ms) (auto split: prod.splits)

text \<open>\<^verbatim>\<open>json.Marshal\<close>.\<close>

fun json_text :: "json \<Rightarrow> string" where
  "json_text JNull = ''null''"
| "json_text (JBool b) = (if b then ''true'' else ''false'')"
| "json_text (JNum lit) = lit"
| "json_text (JStr s) = json_quote s"
| "json_text (JArr vs) = CHR ''['' # comma_join (map json_text vs) @ '']''"
| "json_text (JObj ms) = CHR ''{'' # comma_join (map (\<lambda>m. json_quote (fst m) @ CHR '':'' # json_text (snd m)) ms) @ ''}''"

fun json_depth :: "json \<Rightarrow> nat" where
  "json_depth (JArr vs) = Suc (fold max (map json_depth vs) 0)"
| "json_depth (JObj ms) = Suc (fold max (map (\<lambda>(k, v). json_depth v) ms) 0)"
| "json_depth _ = 0"

definition json_ws :: "char \<Rightarrow> bool" where
  "json_ws c \<longleftrightarrow> c \<in> {CHR '' '', CHR 0x09, CHR 0x0A, CHR 0x0D}"

definition skip_ws :: "string \<Rightarrow> string" where
  "skip_ws s = dropWhile json_ws s"

definition is_digit :: "char \<Rightarrow> bool" where
  "is_digit c \<longleftrightarrow> digit_val c \<noteq> None"

definition num_char :: "char \<Rightarrow> bool" where
  "num_char c \<longleftrightarrow> is_digit c \<or> c \<in> {CHR ''-'', CHR ''+'', CHR ''.'', CHR ''e'', CHR ''E''}"

text \<open>The grammar of number literals: sign, integer part without leading zeros, fraction, exponent.\<close>

definition exponent_ok :: "string \<Rightarrow> bool" where
  "exponent_ok s = (case s of
      [] \<Rightarrow> True
    | c # r \<Rightarrow> (c = CHR ''e'' \<or> c = CHR ''E'') \<and>
        (let d = (case r of x # t \<Rightarrow> if x = CHR ''+'' \<or> x = CHR ''-'' then t else r | [] \<Rightarrow> []) in d \<noteq> [] \<and> list_all is_digit d))"

definition fraction_ok :: "string \<Rightarrow> bool" where
  "fraction_ok s = (case s of
      c # r \<Rightarrow> if c = CHR ''.'' then takeWhile is_digit r \<noteq> [] \<and> exponent_ok (dropWhile is_digit r) else exponent_ok s
    | [] \<Rightarrow> True)"

definition number_ok :: "string \<Rightarrow> bool" where
  "number_ok s =
     (let t = (case s of c # r \<Rightarrow> if c = CHR ''-'' then r else s | [] \<Rightarrow> []); i = takeWhile is_digit t
      in i \<noteq> [] \<and> (hd i = CHR ''0'' \<longrightarrow> tl i = []) \<and> fraction_ok (dropWhile is_digit t))"

text \<open>The parser: a value, the elements of an array up to its bracket, the members of an object up to its brace.\<close>

fun parse_value :: "nat \<Rightarrow> string \<Rightarrow> (json \<times> string) option"
  and parse_elems :: "nat \<Rightarrow> string \<Rightarrow> (json list \<times> string) option"
  and parse_members :: "nat \<Rightarrow> string \<Rightarrow> ((string \<times> json) list \<times> string) option" where
  "parse_value 0 s = None"
| "parse_value (Suc f) s = (case skip_ws s of
      [] \<Rightarrow> None
    | c # r \<Rightarrow>
        if c = CHR ''{'' then
          (case skip_ws r of
             [] \<Rightarrow> None
           | d # t \<Rightarrow> if d = CHR ''}'' then Some (JObj [], t) else map_option (map_prod JObj id) (parse_members f (d # t)))
        else if c = CHR ''['' then
          (case skip_ws r of
             [] \<Rightarrow> None
           | d # t \<Rightarrow> if d = CHR '']'' then Some (JArr [], t) else map_option (map_prod JArr id) (parse_elems f (d # t)))
        else if c = CHR 0x22 then map_option (map_prod JStr id) (json_unquote r)
        else if has_prefix (c # r) ''null'' then Some (JNull, drop 3 r)
        else if has_prefix (c # r) ''true'' then Some (JBool True, drop 3 r)
        else if has_prefix (c # r) ''false'' then Some (JBool False, drop 4 r)
        else if number_ok (takeWhile num_char (c # r)) then Some (JNum (takeWhile num_char (c # r)), dropWhile num_char (c # r))
        else None)"
| "parse_elems 0 s = None"
| "parse_elems (Suc f) s = (case parse_value f s of
      None \<Rightarrow> None
    | Some (v, r) \<Rightarrow> (case skip_ws r of
        [] \<Rightarrow> None
      | c # t \<Rightarrow> if c = CHR '']'' then Some ([v], t)
                 else if c = CHR '','' then map_option (map_prod ((#) v) id) (parse_elems f t) else None))"
| "parse_members 0 s = None"
| "parse_members (Suc f) s = (case skip_ws s of
      [] \<Rightarrow> None
    | q # r \<Rightarrow> if q \<noteq> CHR 0x22 then None else (case json_unquote r of
        None \<Rightarrow> None
      | Some (k, r1) \<Rightarrow> (case skip_ws r1 of
          [] \<Rightarrow> None
        | d # r2 \<Rightarrow> if d \<noteq> CHR '':'' then None else (case parse_value f r2 of
            None \<Rightarrow> None
          | Some (v, r3) \<Rightarrow> (case skip_ws r3 of
              [] \<Rightarrow> None
            | c # t \<Rightarrow> if c = CHR ''}'' then Some ([(k, v)], t)
                       else if c = CHR '','' then map_option (map_prod ((#) (k, v)) id) (parse_members f t) else None)))))"

text \<open>\<^verbatim>\<open>json.Unmarshal\<close> up to the value: one value and nothing after it, nested at most \<^verbatim>\<open>maxNestingDepth\<close> deep.\<close>

definition json_parse :: "string \<Rightarrow> json option" where
  "json_parse s = (case parse_value (2 * length s + 1) s of
      Some (v, r) \<Rightarrow> if skip_ws r = [] \<and> json_depth v \<le> 10000 then Some v else None
    | None \<Rightarrow> None)"

subsection \<open>The fuel is enough\<close>

lemma skip_ws_length: "length (skip_ws s) \<le> length s"
  by (simp add: skip_ws_def length_dropWhile_le)

lemma json_unquote_length: "json_unquote s = Some (u, r) \<Longrightarrow> length r \<le> length s"
proof (induction s arbitrary: u rule: json_unquote.induct)
  case (1 s)
  then show ?case
    by (subst (asm) (2) json_unquote.simps) (force split: list.splits option.splits if_splits prod.splits)
qed

lemma number_ok_Nil: "\<not> number_ok []"
  by (simp add: number_ok_def Let_def)

text \<open>What is parsed is consumed.\<close>

lemma parse_shorter:
  "parse_value f s = Some (v, r) \<Longrightarrow> length r < length s"
  "parse_elems f s = Some (vs, r) \<Longrightarrow> length r < length s"
  "parse_members f s = Some (ms, r) \<Longrightarrow> length r < length s"
proof (induction f s and f s and f s arbitrary: v r and vs r and ms r rule: parse_value_parse_elems_parse_members.induct)
  case (2 f s)
  obtain c t where c: "skip_ws s = c # t" using "2.prems" by (simp split: list.splits)
  have t: "Suc (length t) \<le> length s" using skip_ws_length [of s] c by simp
  show ?case
  proof (cases "c = CHR ''{'' \<or> c = CHR ''[''")
    case True
    obtain d t' where d: "skip_ws t = d # t'" using "2.prems" True c by (auto split: list.splits)
    have "Suc (length t') \<le> length t" using skip_ws_length [of t] d by simp
    then show ?thesis using "2.prems" "2.IH" True c d t by (fastforce split: if_splits)
  next
    case False
    have "length (dropWhile num_char (c # t)) < length (c # t)" if "number_ok (takeWhile num_char (c # t))"
    proof -
      have "takeWhile num_char (c # t) \<noteq> []" using that by (metis number_ok_Nil)
      then show ?thesis by (metis append_Nil length_greater_0_conv length_append less_add_same_cancel2 takeWhile_dropWhile_id)
    qed
    then show ?thesis using "2.prems" False c t by (auto dest!: json_unquote_length split: if_splits)
  qed
next
  case (4 f s)
  obtain w r1 where w: "parse_value f s = Some (w, r1)" using "4.prems" by (auto split: option.splits)
  have "length r1 < length s" using "4.IH"(1) w by simp
  then show ?case using "4.prems" "4.IH"(2) w skip_ws_length [of r1] by (fastforce split: list.splits if_splits)
next
  case (6 f s)
  obtain c t where c: "skip_ws s = c # t" "c = CHR 0x22" using "6.prems" by (auto split: list.splits if_splits)
  obtain k r1 where k: "json_unquote t = Some (k, r1)" using "6.prems" c by (auto split: option.splits)
  obtain d r2 where d: "skip_ws r1 = d # r2" "d = CHR '':''" using "6.prems" c k by (auto split: list.splits if_splits)
  have l: "length r2 < length s" using skip_ws_length [of s] skip_ws_length [of r1] json_unquote_length [OF k] c d by simp
  obtain w r3 where w: "parse_value f r2 = Some (w, r3)" using "6.prems" c k d by (auto split: option.splits)
  have "length r3 < length r2" using "6.IH"(1) c k d w by simp
  then show ?case using "6.prems" "6.IH"(2) c k d w l skip_ws_length [of r3]
    by (fastforce split: list.splits if_splits)
qed simp_all


lemma parse_fuel:
  "2 * length s + 1 \<le> m \<Longrightarrow> 2 * length s + 1 \<le> n \<Longrightarrow> parse_value m s = parse_value n s"
  "2 * length s + 2 \<le> m \<Longrightarrow> 2 * length s + 2 \<le> n \<Longrightarrow> parse_elems m s = parse_elems n s"
  "2 * length s + 2 \<le> m \<Longrightarrow> 2 * length s + 2 \<le> n \<Longrightarrow> parse_members m s = parse_members n s"
proof (induction "length s" arbitrary: s m n rule: less_induct)
  case less
  note value_IH = less.hyps(1) and elems_IH = less.hyps(2) and members_IH = less.hyps(3)
  have v: "parse_value m s = parse_value n s" if "2 * length s + 1 \<le> m" "2 * length s + 1 \<le> n" for m n
  proof -
    obtain m' n' where mn: "m = Suc m'" "n = Suc n'" using \<open>2 * length s + 1 \<le> m\<close> \<open>2 * length s + 1 \<le> n\<close> by (cases m; cases n) auto
    show ?thesis
    proof (cases "skip_ws s")
      case (Cons c r)
      have "parse_elems m' (d # t) = parse_elems n' (d # t)" "parse_members m' (d # t) = parse_members n' (d # t)" if "skip_ws r = d # t" for d t
      proof -
        have "length (d # t) < length s" using skip_ws_length [of s] skip_ws_length [of r] Cons that by simp
        then show "parse_elems m' (d # t) = parse_elems n' (d # t)" "parse_members m' (d # t) = parse_members n' (d # t)"
          using elems_IH [of "d # t" m' n'] members_IH [of "d # t" m' n'] \<open>2 * length s + 1 \<le> m\<close> \<open>2 * length s + 1 \<le> n\<close> mn by simp_all
      qed
      then show ?thesis by (simp add: mn Cons split: list.split)
    qed (simp add: mn)
  qed
  {
    case 1
    then show ?case by (rule v)
  next
    case 2
    then obtain m' n' where mn: "m = Suc m'" "n = Suc n'" by (cases m; cases n) auto
    have e: "parse_value m' s = parse_value n' s" using v [of m' n'] 2 mn by simp
    have "parse_elems m' t = parse_elems n' t" if "parse_value n' s = Some (w, r)" "skip_ws r = c # t" for w r c t
      using elems_IH [of t m' n'] parse_shorter(1) [OF that(1)] skip_ws_length [of r] that(2) 2 mn by simp
    then show ?case by (auto simp add: mn e split: option.split list.split)
  next
    case 3
    then obtain m' n' where mn: "m = Suc m'" "n = Suc n'" by (cases m; cases n) auto
    have e: "parse_value m' r2 = parse_value n' r2" if "skip_ws s = q # r" "json_unquote r = Some (k, r1)" "skip_ws r1 = d # r2" for q r k r1 d r2
      using value_IH [of r2 m' n'] skip_ws_length [of s] json_unquote_length [OF that(2)] skip_ws_length [of r1] that 3 mn by simp
    have "parse_members m' t = parse_members n' t"
      if "skip_ws s = q # r" "json_unquote r = Some (k, r1)" "skip_ws r1 = d # r2" "parse_value n' r2 = Some (w, r3)" "skip_ws r3 = c # t" for q r k r1 d r2 w r3 c t
      using members_IH [of t m' n'] skip_ws_length [of s] json_unquote_length [OF that(2)] skip_ws_length [of r1]
        parse_shorter(1) [OF that(4)] skip_ws_length [of r3] that 3 mn by simp
    with e show ?case by (auto simp: mn split: option.split prod.split list.split)
  }
qed

text \<open>More fuel never changes what a text is parsed to, so no text is rejected for want of it.\<close>

lemma json_parse_fuel:
  "2 * length s + 1 \<le> n \<Longrightarrow> json_parse s = (case parse_value n s of
      Some (v, r) \<Rightarrow> if skip_ws r = [] \<and> json_depth v \<le> 10000 then Some v else None | None \<Rightarrow> None)"
  using parse_fuel(1) [of s "2 * length s + 1" n] by (simp add: json_parse_def)

subsection \<open>Decoding a value inverts encoding it\<close>

fun json_valid :: "json \<Rightarrow> json" where
  "json_valid JNull = JNull"
| "json_valid (JBool b) = JBool b"
| "json_valid (JNum lit) = JNum lit"
| "json_valid (JStr s) = JStr (to_valid s)"
| "json_valid (JArr vs) = JArr (map json_valid vs)"
| "json_valid (JObj ms) = JObj (map (\<lambda>m. (to_valid (fst m), json_valid (snd m))) ms)"

text \<open>Values whose numbers are literals of the grammar, as the encoder builds them.\<close>

fun json_ok :: "json \<Rightarrow> bool" where
  "json_ok JNull = True"
| "json_ok (JBool b) = True"
| "json_ok (JNum lit) = number_ok lit"
| "json_ok (JStr s) = True"
| "json_ok (JArr vs) = list_all json_ok vs"
| "json_ok (JObj ms) = list_all (\<lambda>m. json_ok (snd m)) ms"

definition num_stop :: "string \<Rightarrow> bool" where
  "num_stop r \<longleftrightarrow> (case r of [] \<Rightarrow> True | c # _ \<Rightarrow> \<not> num_char c)"

lemma skip_ws_Cons [simp]: "\<not> json_ws c \<Longrightarrow> skip_ws (c # s) = c # s"
  by (simp add: skip_ws_def)

lemma json_ws_marks [simp]: "\<not> json_ws (CHR '','')" "\<not> json_ws (CHR '']'')" "\<not> json_ws (CHR ''}'')" "\<not> json_ws (CHR '':'')" "\<not> json_ws (CHR 0x22)"
    "\<not> json_ws (CHR ''['')" "\<not> json_ws (CHR ''{'')" "\<not> json_ws (CHR ''n'')" "\<not> json_ws (CHR ''t'')" "\<not> json_ws (CHR ''f'')"
  by (simp_all add: json_ws_def)

lemma num_stop_marks [simp]: "num_stop []" "num_stop (CHR '','' # s)" "num_stop (CHR '']'' # s)" "num_stop (CHR ''}'' # s)"
  by (simp_all add: num_stop_def num_char_def is_digit_def digit_val_def)

lemma all_num_chars:
  assumes "number_ok s"
  shows "list_all num_char s"
proof -
  have d: "list_all num_char (takeWhile is_digit t)" for t by (auto simp: list_all_iff num_char_def dest: set_takeWhileD)
  have e: "list_all num_char t" if "exponent_ok t" for t
    using that by (auto simp: exponent_ok_def Let_def num_char_def list_all_iff split: list.splits if_splits)
  have f: "list_all num_char t" if "fraction_ok t" for t
  proof (cases t)
    case (Cons c r)
    show ?thesis
    proof (cases "c = CHR ''.''")
      case True
      then have "list_all num_char (dropWhile is_digit r)" using that Cons e by (simp add: fraction_ok_def)
      then have "list_all num_char r" using d by (metis list_all_append takeWhile_dropWhile_id)
      then show ?thesis using Cons True by (simp add: num_char_def)
    qed (use that Cons e [of t] in \<open>simp add: fraction_ok_def\<close>)
  qed simp
  have "list_all num_char t" if "fraction_ok (dropWhile is_digit t)" for t
    using f [OF that] d by (metis list_all_append takeWhile_dropWhile_id)
  then show ?thesis using assms by (auto simp: number_ok_def Let_def num_char_def split: list.splits if_splits)
qed

lemma number_hd:
  assumes "number_ok s"
  obtains c t where "s = c # t" "c = CHR ''-'' \<or> is_digit c"
  using assms by (cases s) (auto simp: number_ok_def Let_def split: if_splits)

lemma takeWhile_stop:
  assumes "list_all num_char s" "num_stop r"
  shows "takeWhile num_char (s @ r) = s" "dropWhile num_char (s @ r) = r"
  using assms by (induction s) (auto simp: num_stop_def split: list.splits)

lemma digit_start: "c = CHR ''-'' \<or> is_digit c \<Longrightarrow> \<not> json_ws c \<and> c \<notin> {CHR ''{'', CHR ''['', CHR 0x22, CHR ''n'', CHR ''t'', CHR ''f'', CHR '']'', CHR ''}''}"
  by (auto simp: json_ws_def is_digit_def digit_val_def Let_def split: if_splits)

lemma text_hd:
  assumes "json_ok v"
  obtains c t where "json_text v = c # t" "\<not> json_ws c" "c \<noteq> CHR '']''"
proof (cases v)
  case (JNum lit)
  obtain c t where "lit = c # t" "c = CHR ''-'' \<or> is_digit c" using assms JNum by (auto elim: number_hd)
  then show ?thesis using that JNum digit_start [of c] by auto
next
  case (JBool b)
  then show ?thesis using that by (cases b) simp_all
qed (use that in \<open>auto simp: json_quote_def\<close>)

lemma parse_elems_text:
  assumes "\<And>v f r. v \<in> set vs \<Longrightarrow> 2 * length (json_text v) \<le> f \<Longrightarrow> num_stop r \<Longrightarrow> parse_value f (json_text v @ r) = Some (json_valid v, r)"
    and "vs \<noteq> []" "2 * length (comma_join (map json_text vs)) < f"
  shows "parse_elems f (comma_join (map json_text vs) @ CHR '']'' # r) = Some (map json_valid vs, r)"
  using assms
proof (induction vs arbitrary: f)
  case (Cons v vs)
  obtain g where f: "f = Suc g" using Cons.prems(3) by (cases f) auto
  show ?case
  proof (cases vs)
    case Nil
    then show ?thesis using Cons.prems f by simp
  next
    case (Cons w ws)
    then have "2 * length (json_text v) \<le> g" "2 * length (comma_join (map json_text vs)) < g" using Cons.prems(3) f by simp_all
    then show ?thesis using Cons.IH [of g] Cons.prems(1) Cons f by simp
  qed
qed simp

lemma parse_members_text:
  assumes "\<And>m f r. m \<in> set ms \<Longrightarrow> 2 * length (json_text (snd m)) \<le> f \<Longrightarrow> num_stop r \<Longrightarrow> parse_value f (json_text (snd m) @ r) = Some (json_valid (snd m), r)"
    and "ms \<noteq> []" "2 * length (comma_join (map (\<lambda>m. json_quote (fst m) @ CHR '':'' # json_text (snd m)) ms)) < f"
  shows "parse_members f (comma_join (map (\<lambda>m. json_quote (fst m) @ CHR '':'' # json_text (snd m)) ms) @ CHR ''}'' # r) =
    Some (map (\<lambda>m. (to_valid (fst m), json_valid (snd m))) ms, r)"
  using assms
proof (induction ms arbitrary: f)
  case (Cons m ms)
  obtain g where f: "f = Suc g" using Cons.prems(3) by (cases f) auto
  show ?case
  proof (cases ms)
    case Nil
    then show ?thesis using Cons.prems f by (simp add: json_quote_def unquote_escape)
  next
    case (Cons w ws)
    then have "2 * length (json_text (snd m)) \<le> g" "2 * length (comma_join (map (\<lambda>m. json_quote (fst m) @ CHR '':'' # json_text (snd m)) ms)) < g"
      using Cons.prems(3) f by simp_all
    then show ?thesis using Cons.IH [of g] Cons.prems(1) Cons f by (simp add: json_quote_def unquote_escape)
  qed
qed simp

lemma comma_join_hd: "xs \<noteq> [] \<Longrightarrow> hd xs = c # t \<Longrightarrow> \<exists>u. comma_join xs = c # u"
  by (cases xs rule: comma_join.cases) auto

lemma parse_text:
  "json_ok v \<Longrightarrow> 2 * length (json_text v) \<le> f \<Longrightarrow> num_stop r \<Longrightarrow> parse_value f (json_text v @ r) = Some (json_valid v, r)"
proof (induction v arbitrary: f r rule: json_text.induct)
  case 1
  then show ?case by (cases f) (simp_all add: has_prefix_def)
next
  case (2 b)
  then show ?case by (cases f; cases b) (simp_all add: has_prefix_def)
next
  case (3 lit)
  then obtain c t where c: "lit = c # t" "c = CHR ''-'' \<or> is_digit c" by (auto elim: number_hd)
  have "takeWhile num_char (lit @ r) = lit" "dropWhile num_char (lit @ r) = r" using 3 all_num_chars by (auto intro: takeWhile_stop)
  then show ?case using 3 c digit_start [OF c(2)] by (cases f) (auto simp: has_prefix_def)
next
  case (4 s)
  then show ?case by (cases f) (simp_all add: json_quote_def unquote_escape)
next
  case (5 vs)
  obtain g where f: "f = Suc g" using 5 by (cases f) auto
  show ?case
  proof (cases "vs = []")
    case False
    then have "json_ok (hd vs)" using 5 by (cases vs) auto
    then obtain c t where "json_text (hd vs) = c # t" "\<not> json_ws c" "c \<noteq> CHR '']''" by (rule text_hd)
    then obtain u where "comma_join (map json_text vs) = c # u" using False comma_join_hd [of "map json_text vs" c t] by (auto simp: hd_map)
    then show ?thesis using parse_elems_text [of vs g r] 5 f False \<open>\<not> json_ws c\<close> \<open>c \<noteq> _\<close> by (auto simp: list_all_iff)
  qed (use f in simp)
next
  case (6 ms)
  obtain g where f: "f = Suc g" using 6 by (cases f) auto
  let ?tx = "\<lambda>m. json_quote (fst m) @ CHR '':'' # json_text (snd m)"
  show ?case
  proof (cases "ms = []")
    case False
    then obtain u where "comma_join (map ?tx ms) = CHR 0x22 # u"
      using comma_join_hd [of "map ?tx ms"] by (auto simp: hd_map json_quote_def)
    then show ?thesis using parse_members_text [of ms g r] 6 f False by (auto simp: list_all_iff)
  qed (use f in simp)
qed

lemma json_round_trip:
  assumes "json_ok v" "json_depth (json_valid v) \<le> 10000"
  shows "json_parse (json_text v) = Some (json_valid v)"
  using parse_text [OF assms(1), of "2 * length (json_text v) + 1" "[]"] assms(2) by (simp add: json_parse_def skip_ws_def)

text \<open>The encoder writes integers that the grammar accepts, and no control byte at all.\<close>

lemma show_nat_hd_not_0: "0 < n \<Longrightarrow> hd (show_nat n) \<noteq> CHR ''0''"
proof (induction n rule: show_nat.induct)
  case (1 n)
  show ?case
  proof (cases "n < 10")
    case True
    then have "n \<in> set [1..<10]" using 1 by auto
    moreover have "\<forall>n \<in> set [1..<10]. digit n \<noteq> CHR ''0''" by code_simp
    ultimately have "digit n \<noteq> CHR ''0''" by blast
    then show ?thesis using True by (subst show_nat.simps) simp
  next
    case False
    then have "0 < n div 10" by (simp add: div_greater_zero_iff)
    then show ?thesis using False 1 by (subst show_nat.simps) simp
  qed
qed

lemma number_ok_itoa [simp]: "number_ok (itoa n)"
proof -
  have d: "takeWhile is_digit (show_nat k) = show_nat k" "dropWhile is_digit (show_nat k) = []" for k
    using digits_of_show_nat by (auto simp: is_digit_def takeWhile_eq_all_conv dropWhile_eq_Nil_conv)
  have z: "hd (show_nat k) = CHR ''0'' \<longrightarrow> tl (show_nat k) = []" for k
    by (cases "k = 0") (simp_all add: show_nat.simps [of 0] show_nat_hd_not_0)
  have m: "hd (show_nat k) \<noteq> CHR ''-''" for k
  proof -
    have "digit_val (hd (show_nat k)) \<noteq> None" using digits_of_show_nat hd_in_set show_nat_not_Nil by blast
    then show ?thesis by auto
  qed
  show ?thesis
  proof (cases "n < 0")
    case True
    then show ?thesis using z by (simp add: number_ok_def itoa_def d fraction_ok_def)
  next
    case False
    obtain c r where s: "show_nat (nat n) = c # r" by (cases "show_nat (nat n)") simp_all
    then have "c \<noteq> CHR ''-''" using m [of "nat n"] by simp
    then show ?thesis using False z [of "nat n"] d [of "nat n"] s by (simp add: number_ok_def itoa_def fraction_ok_def)
  qed
qed

definition printable :: "string \<Rightarrow> bool" where
  "printable s \<longleftrightarrow> list_all (\<lambda>c. 32 \<le> (of_char c :: nat)) s"

lemma printable_simps [simp]: "printable []" "printable (c # s) \<longleftrightarrow> 32 \<le> (of_char c :: nat) \<and> printable s"
    "printable (s @ t) \<longleftrightarrow> printable s \<and> printable t"
  by (auto simp: printable_def)

lemma printable_escape_byte: "(of_char c :: nat) < 128 \<Longrightarrow> printable (escape_byte c)"
proof -
  have h: "n < 16 \<Longrightarrow> 32 \<le> (of_char (hex_digit n) :: nat)" for n
  proof -
    have "\<forall>n \<in> set [0..<16]. 32 \<le> (of_char (hex_digit n) :: nat)" by code_simp
    then show "n < 16 \<Longrightarrow> ?thesis" by simp
  qed
  show "(of_char c :: nat) < 128 \<Longrightarrow> printable (escape_byte c)"
    using h [of "of_char c div 16"] h [of "of_char c mod 16"] by (auto simp: escape_byte_def html_safe_def Let_def)
qed

lemma printable_escape: "printable (json_escape s)"
proof (induction s rule: json_escape.induct)
  case (1 s)
  have "printable (take (utf8_width s) s)" if "utf8_width s \<noteq> 1" "utf8_width s \<noteq> 0"
    using that utf8_wide_bytes [of s] by (fastforce simp: printable_def list_all_iff)
  moreover have "printable (escape_byte (hd s))" if "utf8_width s = 1"
    using that printable_escape_byte [of "hd s"] utf8_width_1 [of s] by fastforce
  ultimately show ?case using 1 by (subst json_escape.simps) simp
qed

lemma printable_join: "(\<And>s. s \<in> set ss \<Longrightarrow> printable s) \<Longrightarrow> printable (comma_join ss)"
  by (induction ss rule: comma_join.induct) auto

lemma printable_text: "json_ok v \<Longrightarrow> printable (json_text v)"
proof (induction v rule: json_text.induct)
  case (3 lit)
  then show ?case using all_num_chars [of lit]
    by (auto simp: printable_def list_all_iff num_char_def is_digit_def digit_val_def Let_def split: if_splits)
qed (auto simp: json_quote_def printable_escape list_all_iff intro!: printable_join)

section \<open>Struct fields\<close>

text \<open>
  \<^verbatim>\<open>json.Unmarshal\<close> decodes the members of an object in order into the fields their names match up to case, and ignores the others. A null
  leaves a string or a number as it is and makes a pointer nil; a value of another kind, or an integer literal outside 64 bits, is an error.
  An array is decoded into fresh elements.
\<close>

definition field :: "string \<Rightarrow> string \<Rightarrow> bool" where
  "field name key \<longleftrightarrow> fold_case key = name"

definition into_string :: "json \<Rightarrow> string \<Rightarrow> string option" where
  "into_string v cur = (case v of JStr s \<Rightarrow> Some s | JNull \<Rightarrow> Some cur | _ \<Rightarrow> None)"

definition into_int :: "json \<Rightarrow> int \<Rightarrow> int option" where
  "into_int v cur = (case v of JNum lit \<Rightarrow> parse_int lit | JNull \<Rightarrow> Some cur | _ \<Rightarrow> None)"

definition into_ptr :: "(json \<Rightarrow> 'a \<Rightarrow> 'a option) \<Rightarrow> 'a \<Rightarrow> json \<Rightarrow> 'a option \<Rightarrow> 'a option option" where
  "into_ptr dec zero v cur = (case v of
      JNull \<Rightarrow> Some None
    | _ \<Rightarrow> map_option Some (dec v (case cur of None \<Rightarrow> zero | Some x \<Rightarrow> x)))"

fun into_fields :: "(string \<Rightarrow> json \<Rightarrow> 'a \<Rightarrow> 'a option) \<Rightarrow> (string \<times> json) list \<Rightarrow> 'a \<Rightarrow> 'a option" where
  "into_fields set_field [] x = Some x"
| "into_fields set_field ((k, v) # ms) x = (case set_field k v x of None \<Rightarrow> None | Some y \<Rightarrow> into_fields set_field ms y)"

definition into_struct :: "(string \<Rightarrow> json \<Rightarrow> 'a \<Rightarrow> 'a option) \<Rightarrow> json \<Rightarrow> 'a \<Rightarrow> 'a option" where
  "into_struct set_field v cur = (case v of JObj ms \<Rightarrow> into_fields set_field ms cur | JNull \<Rightarrow> Some cur | _ \<Rightarrow> None)"

definition into_slice :: "(json \<Rightarrow> 'a \<Rightarrow> 'a option) \<Rightarrow> 'a \<Rightarrow> json \<Rightarrow> 'a list \<Rightarrow> 'a list option" where
  "into_slice dec zero v cur = (case v of JArr vs \<Rightarrow> those (map (\<lambda>e. dec e zero) vs) | JNull \<Rightarrow> Some [] | _ \<Rightarrow> None)"

end
