(* ===== verification/EventText.thy ===== *)
theory EventText
  imports Chat Json
begin

text \<open>
  The bytes of a streamed answer: the wire types of a chunk (\<^verbatim>\<open>api/chat.go\<close>) and of the engine's responses
  (\<^verbatim>\<open>inference/vllm.go\<close>) as their struct tags give them, the frames that \<^verbatim>\<open>writeSSEChunk\<close> writes, and the line scanner
  of \<^verbatim>\<open>bufio\<close> with its limit. The two ends meet: \<^verbatim>\<open>consumeStream\<close> reads what \<^verbatim>\<open>streamChatCompletion\<close> wrote.
\<close>

section \<open>Writing (\<^verbatim>\<open>chat.go\<close>, \<^verbatim>\<open>handler.go\<close>)\<close>

definition member_int :: "string \<Rightarrow> int \<Rightarrow> string \<times> json" where
  "member_int k n = (k, JNum (itoa n))"

text \<open>A string field with \<^verbatim>\<open>omitempty\<close>.\<close>

definition omitempty :: "string \<Rightarrow> string \<Rightarrow> (string \<times> json) list" where
  "omitempty k s = (if s = [] then [] else [(k, JStr s)])"

definition delta_json :: "ChatCompletionChunkDelta \<Rightarrow> json" where
  "delta_json d = JObj (omitempty ''role'' (dl_Role d) @ omitempty ''content'' (dl_Content d))"

definition chunk_choice_json :: "ChatCompletionChunkChoice \<Rightarrow> json" where
  "chunk_choice_json c = JObj [member_int ''index'' (cc_Index c), (''delta'', delta_json (cc_Delta c)),
     (''finish_reason'', case cc_FinishReason c of None \<Rightarrow> JNull | Some r \<Rightarrow> JStr r)]"

definition usage_json :: "ChatCompletionUsage \<Rightarrow> json" where
  "usage_json u = JObj [member_int ''prompt_tokens'' (cu_PromptTokens u), member_int ''completion_tokens'' (cu_CompletionTokens u),
     member_int ''total_tokens'' (cu_TotalTokens u)]"

definition chunk_json :: "ChatCompletionChunk \<Rightarrow> json" where
  "chunk_json c = JObj ([(''id'', JStr (ck_ID c)), (''object'', JStr (ck_Object c)), member_int ''created'' (ck_Created c), (''model'', JStr (ck_Model c)),
     (''choices'', JArr (map chunk_choice_json (ck_Choices c)))] @ (case ck_Usage c of None \<Rightarrow> [] | Some u \<Rightarrow> [(''usage'', usage_json u)]))"

text \<open>\<^verbatim>\<open>json.Marshal\<close> has no error on strings, integers and structs of these, so the early return of \<^verbatim>\<open>writeSSEChunk\<close> is never taken.\<close>

definition writeSSEChunk :: "ChatCompletionChunk \<Rightarrow> string" where
  "writeSSEChunk chunk = ''data: '' @ json_text (chunk_json chunk) @ [CHR 0x0A, CHR 0x0A]"

fun sse_text :: "sse \<Rightarrow> string" where
  "sse_text (SseData chunk) = writeSSEChunk chunk"
| "sse_text SseDone = ''data: [DONE]'' @ [CHR 0x0A, CHR 0x0A]"

definition stream_text :: "sse list \<Rightarrow> string" where
  "stream_text out = concat (map sse_text out)"

section \<open>Reading (\<^verbatim>\<open>vllm.go\<close>)\<close>

definition set_vllmMessage :: "string \<Rightarrow> json \<Rightarrow> Message \<Rightarrow> Message option" where
  "set_vllmMessage k v m =
     (if field ''role'' k then map_option (\<lambda>s. m\<lparr>msg_Role := s\<rparr>) (into_string v (msg_Role m))
      else if field ''content'' k then map_option (\<lambda>s. m\<lparr>msg_Content := s\<rparr>) (into_string v (msg_Content m))
      else Some m)"

definition set_vllmUsage :: "string \<Rightarrow> json \<Rightarrow> Usage \<Rightarrow> Usage option" where
  "set_vllmUsage k v u =
     (if field ''prompt_tokens'' k then map_option (\<lambda>n. u\<lparr>us_PromptTokens := n\<rparr>) (into_int v (us_PromptTokens u))
      else if field ''completion_tokens'' k then map_option (\<lambda>n. u\<lparr>us_CompletionTokens := n\<rparr>) (into_int v (us_CompletionTokens u))
      else Some u)"

definition empty_message :: Message where
  "empty_message = \<lparr>msg_Role = [], msg_Content = []\<rparr>"

definition empty_choice :: vllmChoice where
  "empty_choice = \<lparr>vc_Message = None, vc_Delta = None, vc_FinishReason = None\<rparr>"

text \<open>The index of a choice is decoded, and can fail to be, but nothing reads it.\<close>

definition set_vllmChoice :: "string \<Rightarrow> json \<Rightarrow> vllmChoice \<Rightarrow> vllmChoice option" where
  "set_vllmChoice k v c =
     (if field ''index'' k then map_option (\<lambda>_. c) (into_int v 0)
      else if field ''message'' k then map_option (\<lambda>m. c\<lparr>vc_Message := m\<rparr>) (into_ptr (into_struct set_vllmMessage) empty_message v (vc_Message c))
      else if field ''delta'' k then map_option (\<lambda>m. c\<lparr>vc_Delta := m\<rparr>) (into_ptr (into_struct set_vllmMessage) empty_message v (vc_Delta c))
      else if field ''finish_reason'' k then map_option (\<lambda>r. c\<lparr>vc_FinishReason := r\<rparr>) (into_ptr into_string [] v (vc_FinishReason c))
      else Some c)"

definition set_vllmChatResponse :: "string \<Rightarrow> json \<Rightarrow> vllmChatResponse \<Rightarrow> vllmChatResponse option" where
  "set_vllmChatResponse k v r =
     (if field ''choices'' k then map_option (\<lambda>cs. r\<lparr>vs_Choices := cs\<rparr>) (into_slice (into_struct set_vllmChoice) empty_choice v (vs_Choices r))
      else if field ''usage'' k then map_option (\<lambda>u. r\<lparr>vs_Usage := u\<rparr>) (into_ptr (into_struct set_vllmUsage) no_usage v (vs_Usage r))
      else Some r)"

definition decode_vllmChatResponse :: "string \<Rightarrow> vllmChatResponse option" where
  "decode_vllmChatResponse s = (case json_parse s of
      None \<Rightarrow> None
    | Some v \<Rightarrow> into_struct set_vllmChatResponse v \<lparr>vs_Choices = [], vs_Usage = None\<rparr>)"

text \<open>\<^verbatim>\<open>bufio.Scanner\<close> with its default buffer: lines without their end, and an error at a line of 64 KiB or more.\<close>

definition MaxScanTokenSize :: nat where "MaxScanTokenSize = 65536"

definition drop_cr :: "string \<Rightarrow> string" where
  "drop_cr l = (if l \<noteq> [] \<and> last l = CHR 0x0D then butlast l else l)"

function scan_lines :: "string \<Rightarrow> string list \<times> string option" where
  "scan_lines s =
     (if s = [] then ([], None)
      else let l = takeWhile (\<lambda>c. c \<noteq> CHR 0x0A) s; r = dropWhile (\<lambda>c. c \<noteq> CHR 0x0A) s in
        if MaxScanTokenSize \<le> length l then ([], Some ''bufio.Scanner: token too long'')
        else (case scan_lines (drop 1 r) of (ls, e) \<Rightarrow> (drop_cr l # ls, e)))"
  by pat_completeness auto
termination
proof (relation "measure length")
  fix s l r :: string
  assume "s \<noteq> []" "r = dropWhile (\<lambda>c. c \<noteq> CHR 0x0A) s"
  then show "(drop 1 r, s) \<in> measure length" using length_dropWhile_le [of "\<lambda>c. c \<noteq> CHR 0x0A" s] by (cases s) auto
qed simp

declare scan_lines.simps [simp del]

section \<open>The lines of the text\<close>

lemma scan_line:
  assumes "CHR 0x0A \<notin> set l" "length l < MaxScanTokenSize" "l = [] \<or> last l \<noteq> CHR 0x0D"
  shows "scan_lines (l @ CHR 0x0A # rest) = (case scan_lines rest of (ls, e) \<Rightarrow> (l # ls, e))"
proof -
  have "takeWhile (\<lambda>c. c \<noteq> CHR 0x0A) (l @ CHR 0x0A # rest) = l" "dropWhile (\<lambda>c. c \<noteq> CHR 0x0A) (l @ CHR 0x0A # rest) = CHR 0x0A # rest"
    using assms(1) by (auto simp: takeWhile_append dropWhile_append)
  then show ?thesis using assms(2,3) by (subst scan_lines.simps) (auto simp: Let_def drop_cr_def)
qed

fun sse_line :: "sse \<Rightarrow> string" where
  "sse_line (SseData chunk) = ''data: '' @ json_text (chunk_json chunk)"
| "sse_line SseDone = ''data: [DONE]''"

lemma sse_text_line: "sse_text x = sse_line x @ [CHR 0x0A, CHR 0x0A]"
  by (cases x) (simp_all add: writeSSEChunk_def)

lemma chunk_json_ok: "json_ok (chunk_json c)"
  by (auto simp: chunk_json_def member_int_def usage_json_def chunk_choice_json_def delta_json_def omitempty_def list_all_iff split: option.splits)

lemma chunk_text_ends: "\<exists>p. json_text (chunk_json c) = CHR ''{'' # p @ ''}''"
  by (simp add: chunk_json_def)

lemma sse_line_ends: "sse_line x \<noteq> []" "hd (sse_line x) = CHR ''d''" "last (sse_line x) \<in> {CHR ''}'', CHR '']''}" "printable (sse_line x)"
proof -
  show "sse_line x \<noteq> []" "hd (sse_line x) = CHR ''d''" by (cases x; simp)+
  show "last (sse_line x) \<in> {CHR ''}'', CHR '']''}"
  proof (cases x)
    case (SseData c)
    then show ?thesis using chunk_text_ends [of c] by auto
  qed simp
  show "printable (sse_line x)" using printable_text [OF chunk_json_ok] by (cases x) simp_all
qed

lemma scan_stream_text:
  assumes "\<And>x. x \<in> set out \<Longrightarrow> length (sse_line x) < MaxScanTokenSize"
  shows "scan_lines (stream_text out) = (concat (map (\<lambda>x. [sse_line x, []]) out), None)"
  using assms
proof (induction out)
  case Nil
  then show ?case by (simp add: stream_text_def scan_lines.simps)
next
  case (Cons x out)
  have "CHR 0x0A \<notin> set (sse_line x)" "last (sse_line x) \<noteq> CHR 0x0D"
    using sse_line_ends(3,4) [of x] by (auto simp: printable_def list_all_iff)
  then have "scan_lines (sse_line x @ CHR 0x0A # [] @ CHR 0x0A # stream_text out) = (case scan_lines (stream_text out) of (ls, e) \<Rightarrow> (sse_line x # [] # ls, e))"
    using Cons.prems [of x] by (simp only: scan_line list.set_intros simp_thms) (subst scan_line; simp add: MaxScanTokenSize_def split: prod.splits)
  then show ?case using Cons by (simp add: stream_text_def sse_text_line)
qed

section \<open>What a reader decodes\<close>

lemma to_valid_Nil [simp]: "to_valid [] = []"
  by (simp add: to_valid.simps)

lemma to_valid_eq_Nil [simp]: "to_valid s = [] \<longleftrightarrow> s = []"
  by (subst to_valid.simps) (auto simp: rune_error_def)

lemma to_valid_ascii: "list_all (\<lambda>c. (of_char c :: nat) < 128) s \<Longrightarrow> to_valid s = s"
proof (induction s)
  case (Cons c s)
  then have "utf8_width (c # s) = 1" by (simp add: utf8_width_def)
  then show ?case using Cons by (subst to_valid.simps) simp
qed simp

definition wire_choice :: "ChatCompletionChunkChoice \<Rightarrow> vllmChoice" where
  "wire_choice c = \<lparr>vc_Message = None, vc_Delta = Some \<lparr>msg_Role = to_valid (dl_Role (cc_Delta c)), msg_Content = to_valid (dl_Content (cc_Delta c))\<rparr>,
     vc_FinishReason = map_option to_valid (cc_FinishReason c)\<rparr>"

definition wire_usage :: "ChatCompletionUsage \<Rightarrow> Usage" where
  "wire_usage u = \<lparr>us_PromptTokens = cu_PromptTokens u, us_CompletionTokens = cu_CompletionTokens u\<rparr>"

definition wire_chunk :: "ChatCompletionChunk \<Rightarrow> vllmChatResponse" where
  "wire_chunk c = \<lparr>vs_Choices = map wire_choice (ck_Choices c), vs_Usage = map_option wire_usage (ck_Usage c)\<rparr>"

text \<open>Integers of a chunk fit the fields they are read into.\<close>

definition chunk_ints :: "ChatCompletionChunk \<Rightarrow> bool" where
  "chunk_ints c \<longleftrightarrow> (\<forall>ch \<in> set (ck_Choices c). is_i64 (cc_Index ch)) \<and>
     (case ck_Usage c of None \<Rightarrow> True | Some u \<Rightarrow> is_i64 (cu_PromptTokens u) \<and> is_i64 (cu_CompletionTokens u))"

lemmas wire_fields = field_def lower_char_def to_valid_ascii into_string_def into_int_def

lemma read_delta:
  "into_struct set_vllmMessage (json_valid (delta_json d)) empty_message = Some \<lparr>msg_Role = to_valid (dl_Role d), msg_Content = to_valid (dl_Content d)\<rparr>"
  by (simp add: delta_json_def omitempty_def into_struct_def set_vllmMessage_def empty_message_def wire_fields)

lemma read_choice:
  assumes "is_i64 (cc_Index c)"
  shows "into_struct set_vllmChoice (json_valid (chunk_choice_json c)) empty_choice = Some (wire_choice c)"
proof -
  have "\<exists>ms. json_valid (delta_json (cc_Delta c)) = JObj ms" by (simp add: delta_json_def)
  then have "into_ptr (into_struct set_vllmMessage) empty_message (json_valid (delta_json (cc_Delta c))) None =
      Some (Some \<lparr>msg_Role = to_valid (dl_Role (cc_Delta c)), msg_Content = to_valid (dl_Content (cc_Delta c))\<rparr>)"
    using read_delta [of "cc_Delta c"] by (auto simp: into_ptr_def)
  moreover have "into_ptr into_string [] (json_valid (case cc_FinishReason c of None \<Rightarrow> JNull | Some r \<Rightarrow> JStr r)) None = Some (map_option to_valid (cc_FinishReason c))"
    by (auto simp: into_ptr_def into_string_def split: option.splits)
  ultimately show ?thesis using assms
    by (simp add: chunk_choice_json_def member_int_def into_struct_def set_vllmChoice_def empty_choice_def wire_choice_def field_def lower_char_def to_valid_ascii into_int_def)
qed

lemma read_usage:
  assumes "is_i64 (cu_PromptTokens u)" "is_i64 (cu_CompletionTokens u)"
  shows "into_ptr (into_struct set_vllmUsage) no_usage (json_valid (usage_json u)) None = Some (Some (wire_usage u))"
  using assms by (simp add: usage_json_def member_int_def into_ptr_def into_struct_def set_vllmUsage_def wire_usage_def no_usage_def wire_fields)

lemma fold_max_le: "(\<And>x. x \<in> set xs \<Longrightarrow> x \<le> n) \<Longrightarrow> m \<le> n \<Longrightarrow> fold max xs m \<le> (n :: nat)"
  by (induction xs arbitrary: m) auto

lemma chunk_depth: "json_depth (json_valid (chunk_json c)) \<le> 10000"
proof -
  have d: "json_depth (json_valid (delta_json d)) = 1" for d by (simp add: delta_json_def omitempty_def)
  have "json_depth (json_valid (chunk_choice_json ch)) \<le> 2" for ch
    by (simp add: chunk_choice_json_def member_int_def d split: option.splits)
  then have "fold max (map (\<lambda>x. json_depth (json_valid (chunk_choice_json x))) (ck_Choices c)) 0 \<le> 2" by (intro fold_max_le) auto
  then show ?thesis by (simp add: chunk_json_def member_int_def usage_json_def comp_def split: option.splits)
qed

lemma read_chunk:
  assumes "chunk_ints c"
  shows "decode_vllmChatResponse (json_text (chunk_json c)) = Some (wire_chunk c)"
proof -
  have "into_slice (into_struct set_vllmChoice) empty_choice (json_valid (JArr (map chunk_choice_json (ck_Choices c)))) [] = Some (map wire_choice (ck_Choices c))"
    using assms by (simp add: into_slice_def chunk_ints_def comp_def read_choice those_map_Some)
  moreover have "into_ptr (into_struct set_vllmUsage) no_usage (json_valid (usage_json u)) None = Some (Some (wire_usage u))" if "ck_Usage c = Some u" for u
    using assms that read_usage by (simp add: chunk_ints_def)
  ultimately have "into_struct set_vllmChatResponse (json_valid (chunk_json c)) \<lparr>vs_Choices = [], vs_Usage = None\<rparr> = Some (wire_chunk c)"
    by (cases "ck_Usage c") (simp_all add: chunk_json_def member_int_def into_struct_def set_vllmChatResponse_def wire_chunk_def field_def lower_char_def to_valid_ascii)
  then show ?thesis using json_round_trip [OF chunk_json_ok chunk_depth] by (simp add: decode_vllmChatResponse_def)
qed

lemma consume_frame:
  assumes "chunk_ints c"
  shows "consume_loop decode_vllmChatResponse cancelled fin i (sse_line (SseData c) # [] # lines) fr u =
    (let u' = (case ck_Usage c of None \<Rightarrow> u | Some w \<Rightarrow> wire_usage w) in case ck_Choices c of
       [] \<Rightarrow> consume_loop decode_vllmChatResponse cancelled fin i lines fr u'
     | ch # _ \<Rightarrow> (if dl_Content (cc_Delta ch) \<noteq> [] then [content_event i (to_valid (dl_Content (cc_Delta ch)))] else []) @
         consume_loop decode_vllmChatResponse cancelled fin i lines (case cc_FinishReason ch of None \<Rightarrow> fr | Some r \<Rightarrow> to_valid r) u')"
proof -
  let ?l = "sse_line (SseData c)" and ?p = "json_text (chunk_json c)"
  obtain p where p: "?p = CHR ''{'' # p @ ''}''" using chunk_text_ends by blast
  have l: "trim_space ?l = ?l" unfolding trim_space_def
    using sse_line_ends [of "SseData c"] by (intro trim_ends) (auto simp: is_space_def)
  have "trim_space (CHR '' '' # ?p) = trim_space ?p" by (simp add: trim_space_def trim_def is_space_def)
  also have "\<dots> = ?p" unfolding trim_space_def by (intro trim_ends) (simp_all add: p is_space_def)
  finally have t: "trim_space (drop 5 ?l) = ?p" by simp
  have d: "has_prefix ?l ''data:''" "?l \<noteq> []" "?p \<noteq> ''[DONE]''" by (simp_all add: has_prefix_def p)
  have "consume_loop decode_vllmChatResponse cancelled fin i ([] # lines) fr' u' = consume_loop decode_vllmChatResponse cancelled fin i lines fr' u'" for fr' u'
    by (simp add: trim_space_def trim_def)
  note facts = this d l t assms
  show ?thesis
    by (subst consume_loop.simps(2), cases "ck_Choices c"; cases "ck_Usage c")
       (simp_all add: Let_def read_chunk wire_chunk_def wire_choice_def facts del: sse_line.simps consume_loop.simps(2) split: option.splits)
qed

lemma consume_done: "consume_loop decode_vllmChatResponse cancelled fin i (sse_line SseDone # lines) fr u = [done_event i fr u]"
  by (simp add: trim_space_def trim_def is_space_def has_prefix_def)

lemma content_chunk_ints [simp]: "content_chunk j model created first c = SseData k \<Longrightarrow> chunk_ints k"
  by (auto simp: content_chunk_def chunk_ints_def is_i64_def)

lemma read_content_chunks:
  "consume_loop decode_vllmChatResponse cancelled fin i (concat (map (\<lambda>x. [sse_line x, []]) (content_chunks j model created first cs)) @ rest) fr u =
     map (content_event i) (map to_valid (filter (\<lambda>c. c \<noteq> []) cs)) @ consume_loop decode_vllmChatResponse cancelled fin i rest fr u"
proof (induction cs arbitrary: first)
  case (Cons c cs)
  obtain k where k: "content_chunk j model created first c = SseData k" by (simp add: content_chunk_def)
  show ?case using Cons k consume_frame [OF content_chunk_ints [OF k], of cancelled fin i _ fr u]
    by (auto simp: content_chunk_def simp del: sse_line.simps consume_loop.simps(2))
qed simp

lemma wire_chat_usage [simp]: "wire_usage (chat_usage u) = u"
  by (simp add: wire_usage_def chat_usage_def)

lemma read_stream_tail:
  assumes "final_event e" "is_i64 (us_PromptTokens (ev_Usage e))" "is_i64 (us_CompletionTokens (ev_Usage e))"
  shows "consume_loop decode_vllmChatResponse cancelled None i (concat (map (\<lambda>x. [sse_line x, []]) (stream_tail j model created e))) [] no_usage =
    [if ev_Err e = None then done_event i (to_valid (ev_FinishReason e)) (ev_Usage e) else done_event i [] no_usage]"
proof (cases "ev_Err e")
  case None
  obtain k where k: "finish_chunk j model created (ev_FinishReason e) (ev_Usage e) = SseData k" by (simp add: finish_chunk_def)
  have "chunk_ints k" using k assms(2,3) by (auto simp: finish_chunk_def chunk_ints_def chat_usage_def is_i64_def)
  then show ?thesis using None k consume_frame [of k cancelled None i _ "[]" no_usage] consume_done
    by (auto simp: stream_tail_def finish_chunk_def simp del: sse_line.simps consume_loop.simps(2))
qed (simp add: stream_tail_def)

section \<open>Properties\<close>

text \<open>
  C34. A streamed answer survives the wire. For any backend that keeps the contract of streams, with usage counts of 64 bits and frames that
  fit the scanner's buffer, scanning the bytes the chat endpoint writes raises no error, and reading them as the gateway reads
  an engine gives the content events of the backend in order, without the empty ones, and one final event with its finish reason and usage; bytes outside
  UTF-8 come back as U+FFFD. A stream that broke off with an error is read as one that finished, with an empty reason and no usage: on the
  wire nothing tells the two apart.
\<close>

theorem stream_text_round_trip:
  assumes "be_stream B (lim_GenerationTimeout L) (toBackendRequest i req) = Inr evs" "stream_contract i evs"
    and "streamChatCompletion B L E i req = ChatSSE out obs"
    and "\<forall>ev \<in> set evs. is_i64 (us_PromptTokens (ev_Usage ev)) \<and> is_i64 (us_CompletionTokens (ev_Usage ev))"
    and "\<forall>x \<in> set out. length (sse_text x) < MaxScanTokenSize + 2"
  shows "\<exists>lines. scan_lines (stream_text out) = (lines, None)
    \<and> consumeStream decode_vllmChatResponse cancelled lines None r =
        map (content_event (cq_RequestID r)) (map to_valid (filter (\<lambda>c. c \<noteq> []) (map ev_Content evs)))
        @ [if ev_Err (last evs) = None then done_event (cq_RequestID r) (to_valid (ev_FinishReason (last evs))) (ev_Usage (last evs))
           else done_event (cq_RequestID r) [] no_usage]"
proof -
  obtain cs e where evs: "evs = map (content_event i) cs @ [e]" and e: "final_event e" "ev_Content e = []"
    using assms(2) unfolding stream_contract_def by (auto simp: final_event_def done_event_def error_event_def)
  have "en_flusher E" using assms(3) by (auto simp: streamChatCompletion_def split: if_splits)
  then have out: "out = content_chunks i (ch_Model req) (en_created E) True cs @ stream_tail i (ch_Model req) (en_created E) e"
    using assms(1,3) sse_loop_sse [OF e(1), of L i "ch_Model req" "en_created E" "en_admitted E" "en_now E" 0 i cs True False 0]
    by (auto simp: streamChatCompletion_def evs split: prod.splits)
  have "filter (\<lambda>c. c \<noteq> []) (map ev_Content evs) = filter (\<lambda>c. c \<noteq> []) cs"
    using e(2) by (simp add: evs comp_def content_event_def)
  moreover have "scan_lines (stream_text out) = (concat (map (\<lambda>x. [sse_line x, []]) out), None)"
    using assms(5) by (intro scan_stream_text) (auto simp: sse_text_line)
  ultimately show ?thesis using read_stream_tail [OF e(1), of cancelled "cq_RequestID r" i "ch_Model req" "en_created E"] assms(4)
    by (simp add: consumeStream_def out read_content_chunks evs)
qed

definition stream_example :: backend where
  "stream_example = \<lparr>be_complete = (\<lambda>_ _. Inl ErrCancelled), be_stream = (\<lambda>_ q. Inr [content_event (cq_RequestID q) (''hi'' @ [CHR 0x22, CHR 0x0A, CHR 0xC3, CHR 0xA9]),
     content_event (cq_RequestID q) [], done_event (cq_RequestID q) ''stop'' \<lparr>us_PromptTokens = 3, us_CompletionTokens = 1\<rparr>])\<rparr>"

definition limits_example :: ChatCompletionsLimits where
  "limits_example = \<lparr>lim_MaxSequenceLength = 0, lim_GenerationTimeout = 0, lim_TTFT = False, lim_TPOT = False, lim_Quantization = [], lim_Watchdog = False\<rparr>"

theorem stream_text_round_trip_witness:
  "\<exists>out obs lines. streamChatCompletion stream_example limits_example \<lparr>en_flusher = True, en_admitted = 0, en_created = 1, en_now = int\<rparr> ''r'' (chat_request_example None) = ChatSSE out obs
    \<and> scan_lines (stream_text out) = (lines, None)
    \<and> consumeStream decode_vllmChatResponse False lines None (toBackendRequest ''s'' (chat_request_example None)) =
        [content_event ''s'' (''hi'' @ [CHR 0x22, CHR 0x0A, CHR 0xC3, CHR 0xA9]), done_event ''s'' ''stop'' \<lparr>us_PromptTokens = 3, us_CompletionTokens = 1\<rparr>]"
proof -
  let ?E = "\<lparr>en_flusher = True, en_admitted = 0, en_created = 1, en_now = int\<rparr>"
  let ?c = "''hi'' @ [CHR 0x22, CHR 0x0A, CHR 0xC3, CHR 0xA9]" and ?u = "\<lparr>us_PromptTokens = 3, us_CompletionTokens = 1\<rparr>"
  let ?evs = "[content_event ''r'' ?c, content_event ''r'' [], done_event ''r'' ''stop'' ?u]"
  obtain out obs where run: "streamChatCompletion stream_example limits_example ?E ''r'' (chat_request_example None) = ChatSSE out obs"
    by (simp add: streamChatCompletion_def stream_example_def content_event_def done_event_def split: prod.splits)
  then have out: "out = [content_chunk ''r'' ''m'' 1 True ?c, content_chunk ''r'' ''m'' 1 False [], finish_chunk ''r'' ''m'' 1 ''stop'' ?u, SseDone]"
    by (auto simp: streamChatCompletion_def stream_example_def content_event_def done_event_def toBackendRequest_def chat_request_example_def content_chunk_def finish_chunk_def)
  have "\<forall>x \<in> set out. length (sse_text x) < 300" unfolding out by code_simp
  then have fit: "\<forall>x \<in> set out. length (sse_text x) < MaxScanTokenSize + 2" by (auto simp: MaxScanTokenSize_def)
  have "stream_contract ''r'' ?evs" by simp
  then have "\<exists>lines. scan_lines (stream_text out) = (lines, None) \<and> consumeStream decode_vllmChatResponse False lines None (toBackendRequest ''s'' (chat_request_example None)) =
      [content_event ''s'' (to_valid ?c), done_event ''s'' ''stop'' ?u]"
    using stream_text_round_trip [of stream_example limits_example "''r''" "chat_request_example None" ?evs ?E out obs False "toBackendRequest ''s'' (chat_request_example None)"] run fit
    by (simp add: stream_example_def toBackendRequest_def content_event_def done_event_def is_i64_def to_valid_ascii no_usage_def)
  moreover have "to_valid ?c = ?c" by code_simp
  ultimately show ?thesis using run by (intro exI [of _ out] exI [of _ obs]) simp
qed

end
