(* ===== verification/WorkerPool.thy ===== *)
theory WorkerPool
  imports JobQueue
begin

text \<open>
  The worker pool (\<^verbatim>\<open>queue/workerpool.go\<close>) with a handler that has a state of its own: one job, the loop of one worker, and
  \<^verbatim>\<open>Run\<close>, whose workers take and finish jobs in any interleaving until each has left its loop.
\<close>

section \<open>A worker\<close>

definition process ::
  "('s, 'x) redis_scheme \<Rightarrow> queue \<Rightarrow> (queue_job \<Rightarrow> 't \<Rightarrow> 't \<times> ('e + unit)) \<Rightarrow> rerr link \<Rightarrow> queue_job \<Rightarrow> 't \<times> 's \<Rightarrow> 't \<times> 's" where
  "process R q handler l job st = (case st of (t, s) \<Rightarrow> (case handler job t of
      (t', Inr _) \<Rightarrow> (t', fst (Ack R q l (qj_ID job) s))
    | (t', Inl _) \<Rightarrow> (t', fst (Nack R q l (qj_ID job) s))))"

text \<open>A round of the loop: the handler as it behaves then, what the dequeue meets, the link of the last call.\<close>

record ('s, 't, 'e) worker_round =
  wr_handler :: "queue_job \<Rightarrow> 't \<Rightarrow> 't \<times> ('e + unit)"
  wr_polls :: "'s poll list"
  wr_link :: "rerr link"

fun worker :: "('s, 'x) redis_scheme \<Rightarrow> queue \<Rightarrow> ('s, 't, 'e) worker_round list \<Rightarrow> 't \<times> 's \<Rightarrow> ('t \<times> 's) \<times> worker_exit" where
  "worker R q [] st = (st, WorkerBusy)"
| "worker R q (w # ws) (t, s) = (case Dequeue R q (wr_polls w) s of
      (s', Waiting) \<Rightarrow> ((t, s'), WorkerBusy)
    | (s', DequeueFailed e) \<Rightarrow> ((t, s'), if e = ErrEmpty then WorkerStopped else WorkerDequeueError e)
    | (s', Dequeued job) \<Rightarrow> worker R q ws (process R q (wr_handler w) (wr_link w) job (t, s')))"

text \<open>On a handler without state it is the worker of \<open>JobQueue\<close>.\<close>

lemma worker_stateless:
  "worker R q (map (\<lambda>(ps, l). \<lparr>wr_handler = (\<lambda>job t. (t, case h job of None \<Rightarrow> Inr () | Some e \<Rightarrow> Inl e)), wr_polls = ps, wr_link = l\<rparr>) rounds) (t, s) =
     (case workerLoop R q h rounds s of (s', e) \<Rightarrow> ((t, s'), e))"
proof (induction rounds arbitrary: s)
  case (Cons r rounds)
  obtain ps l where "r = (ps, l)" by fastforce
  then show ?case using Cons
    by (auto simp: process_def worker_process_def split: dequeue_outcome.splits prod.splits option.splits)
qed simp

section \<open>The pool\<close>

datatype worker_state = Idle | Busy queue_job | Left worker_exit

record ('s, 't) pool =
  po_workers :: "worker_state list"
  po_tables :: 't
  po_server :: 's

text \<open>What can happen next: a worker dequeues, a worker with a job runs the handler and makes the final call, or somebody else acts on the
  tables and the server. \<open>Finish\<close> works on a context of its own, so it is possible after a shutdown too.\<close>

datatype ('s, 't, 'e) pool_action =
    Take nat "'s poll list"
  | Finish nat "queue_job \<Rightarrow> 't \<Rightarrow> 't \<times> ('e + unit)" "rerr link"
  | Outside "'t \<times> 's \<Rightarrow> 't \<times> 's"

datatype pool_event = Taken nat queue_job | Finished nat queue_job

definition pool_start :: "int \<Rightarrow> 't \<Rightarrow> 's \<Rightarrow> ('s, 't) pool" where
  "pool_start concurrency t s = \<lparr>po_workers = replicate (nat (NewWorkerPool concurrency)) Idle, po_tables = t, po_server = s\<rparr>"

definition worker_at :: "nat \<Rightarrow> ('s, 't) pool \<Rightarrow> worker_state option" where
  "worker_at w P = (if w < length (po_workers P) then Some (po_workers P ! w) else None)"

definition set_worker :: "nat \<Rightarrow> worker_state \<Rightarrow> ('s, 't) pool \<Rightarrow> ('s, 't) pool" where
  "set_worker w x P = P\<lparr>po_workers := (po_workers P)[w := x]\<rparr>"

fun pool_step :: "('s, 'x) redis_scheme \<Rightarrow> queue \<Rightarrow> ('s, 't, 'e) pool_action \<Rightarrow> ('s, 't) pool \<Rightarrow> ('s, 't) pool \<times> pool_event list" where
  "pool_step R q (Take w ps) P = (case worker_at w P of
      Some Idle \<Rightarrow> (case Dequeue R q ps (po_server P) of
         (s', Waiting) \<Rightarrow> (P\<lparr>po_server := s'\<rparr>, [])
       | (s', DequeueFailed e) \<Rightarrow> (set_worker w (Left (if e = ErrEmpty then WorkerStopped else WorkerDequeueError e)) (P\<lparr>po_server := s'\<rparr>), [])
       | (s', Dequeued job) \<Rightarrow> (set_worker w (Busy job) (P\<lparr>po_server := s'\<rparr>), [Taken w job]))
    | _ \<Rightarrow> (P, []))"
| "pool_step R q (Finish w handler l) P = (case worker_at w P of
      Some (Busy job) \<Rightarrow> (case process R q handler l job (po_tables P, po_server P) of
         (t', s') \<Rightarrow> (set_worker w Idle (P\<lparr>po_tables := t', po_server := s'\<rparr>), [Finished w job]))
    | _ \<Rightarrow> (P, []))"
| "pool_step R q (Outside f) P = (case f (po_tables P, po_server P) of (t', s') \<Rightarrow> (P\<lparr>po_tables := t', po_server := s'\<rparr>, []))"

fun WorkerPool_Run :: "('s, 'x) redis_scheme \<Rightarrow> queue \<Rightarrow> ('s, 't, 'e) pool_action list \<Rightarrow> ('s, 't) pool \<Rightarrow> ('s, 't) pool \<times> pool_event list" where
  "WorkerPool_Run R q [] P = (P, [])"
| "WorkerPool_Run R q (a # as) P = (case pool_step R q a P of (P', evs) \<Rightarrow> (case WorkerPool_Run R q as P' of (P'', evs') \<Rightarrow> (P'', evs @ evs')))"

text \<open>\<^verbatim>\<open>wg.Wait\<close> returns when every worker has left its loop.\<close>

definition pool_returned :: "('s, 't) pool \<Rightarrow> bool" where
  "pool_returned P \<longleftrightarrow> (\<forall>x \<in> set (po_workers P). \<exists>e. x = Left e)"

section \<open>Shutdown\<close>

text \<open>The jobs in the hands of the workers.\<close>

fun in_hand :: "worker_state \<Rightarrow> queue_job list" where
  "in_hand (Busy job) = [job]"
| "in_hand _ = []"

fun taken_job :: "pool_event \<Rightarrow> queue_job list" where
  "taken_job (Taken w job) = [job]"
| "taken_job (Finished w job) = []"

fun finished_job :: "pool_event \<Rightarrow> queue_job list" where
  "finished_job (Finished w job) = [job]"
| "finished_job (Taken w job) = []"

definition pool_hands :: "('s, 't) pool \<Rightarrow> queue_job multiset" where
  "pool_hands P = (\<Sum>x \<leftarrow> po_workers P. mset (in_hand x))"

lemma hands_set_worker:
  assumes "worker_at w P = Some x"
  shows "pool_hands (set_worker w y P) + mset (in_hand x) = pool_hands P + mset (in_hand y)"
proof -
  have "w < length (po_workers P)" "po_workers P ! w = x" using assms by (auto simp: worker_at_def split: if_splits)
  then have "(\<Sum>z \<leftarrow> (po_workers P)[w := y]. mset (in_hand z)) + mset (in_hand x) = (\<Sum>z \<leftarrow> po_workers P. mset (in_hand z)) + mset (in_hand y)"
  proof (induction "po_workers P" arbitrary: w P)
    case (Cons z zs)
    have "zs = po_workers (P\<lparr>po_workers := zs\<rparr>)" by simp
    from Cons.hyps(1) [OF this] Cons.hyps(2) [symmetric] Cons.prems show ?case by (cases w) (auto simp: ac_simps)
  qed simp
  then show ?thesis by (simp add: pool_hands_def set_worker_def)
qed

lemma pool_step_conserves:
  assumes "pool_step R q a P = (P', evs)"
  shows "pool_hands P + mset (concat (map taken_job evs)) = pool_hands P' + mset (concat (map finished_job evs)) \<and> length (po_workers P') = length (po_workers P)"
proof -
  have same: "pool_hands (P\<lparr>po_server := s\<rparr>) = pool_hands P" "pool_hands (P\<lparr>po_tables := t\<rparr>) = pool_hands P"
    "worker_at w (P\<lparr>po_server := s\<rparr>) = worker_at w P" "worker_at w (P\<lparr>po_tables := t\<rparr>) = worker_at w P"
    "length (po_workers (set_worker w y P)) = length (po_workers P)" for s t w y P
    by (simp_all add: pool_hands_def worker_at_def set_worker_def)
  show ?thesis
  proof (cases a)
    case (Take w ps)
    then show ?thesis using assms hands_set_worker [of w "P\<lparr>po_server := s\<rparr>" for s]
      by (fastforce simp: same split: option.splits worker_state.splits prod.splits dequeue_outcome.splits)
  next
    case (Finish w handler l)
    show ?thesis
    proof (cases "\<exists>job. worker_at w P = Some (Busy job)")
      case True
      then obtain job where job: "worker_at w P = Some (Busy job)" by blast
      obtain t' s' where p: "process R q handler l job (po_tables P, po_server P) = (t', s')" by fastforce
      show ?thesis using assms Finish job p hands_set_worker [of w "P\<lparr>po_tables := t', po_server := s'\<rparr>" "Busy job" Idle] by (auto simp: same)
    qed (use assms Finish in \<open>auto split: option.splits worker_state.splits\<close>)
  qed (use assms in \<open>auto simp: same split: prod.splits\<close>)
qed

lemma pool_run_conserves:
  "WorkerPool_Run R q as P = (P', evs) \<Longrightarrow>
     pool_hands P + mset (concat (map taken_job evs)) = pool_hands P' + mset (concat (map finished_job evs)) \<and> length (po_workers P') = length (po_workers P)"
proof (induction as arbitrary: P evs)
  case (Cons a as)
  obtain P1 e1 where 1: "pool_step R q a P = (P1, e1)" by fastforce
  obtain e2 where 2: "WorkerPool_Run R q as P1 = (P', e2)" "evs = e1 @ e2" using Cons.prems 1 by (auto split: prod.splits)
  show ?case using pool_step_conserves [OF 1] Cons.IH [OF 2(1)] 2(2)
    by (simp add: add.assoc [symmetric])
qed simp

lemma size_hands: "size (pool_hands P) \<le> length (po_workers P)"
proof -
  have "size (\<Sum>x \<leftarrow> xs. mset (in_hand x)) \<le> length xs" for xs
  proof (induction xs)
    case (Cons x xs)
    then show ?case by (cases x) simp_all
  qed simp
  then show ?thesis by (simp add: pool_hands_def)
qed

lemma returned_hands: "pool_returned P \<Longrightarrow> pool_hands P = {#}"
proof -
  have "(\<forall>x \<in> set xs. \<exists>e. x = Left e) \<Longrightarrow> (\<Sum>x \<leftarrow> xs. mset (in_hand x)) = {#}" for xs by (induction xs) auto
  then show "pool_returned P \<Longrightarrow> ?thesis" by (simp add: pool_hands_def pool_returned_def)
qed

text \<open>
  Shutdown abandons no job: in every interleaving of the workers with each other and with the rest of the system, the jobs taken from the queue are
  those the handler has finished and those in the hands of a worker, at most one per worker and so at most the configured concurrency;
  when \<^verbatim>\<open>Run\<close> returns, every job taken was handled and acknowledged or given back.
\<close>

lemma pool_drains:
  assumes "WorkerPool_Run R q as (pool_start concurrency t s) = (P, evs)"
  shows "mset (concat (map taken_job evs)) = mset (concat (map finished_job evs)) + pool_hands P
    \<and> int (size (pool_hands P)) \<le> max 1 concurrency
    \<and> (pool_returned P \<longrightarrow> mset (concat (map taken_job evs)) = mset (concat (map finished_job evs)))"
proof -
  have "sum_list (replicate n ({#} :: queue_job multiset)) = {#}" for n by (induction n) simp_all
  then have "pool_hands (pool_start concurrency t s) = {#}" by (simp add: pool_hands_def pool_start_def)
  moreover have "int (length (po_workers (pool_start concurrency t s))) \<le> max 1 concurrency" by (simp add: pool_start_def NewWorkerPool_def)
  ultimately show ?thesis using pool_run_conserves [OF assms] size_hands [of P] returned_hands [of P] by (simp add: add.commute)
qed

end
