(* ===== verification/Pipeline.thy ===== *)
theory Pipeline
  imports Ingestion Handlers QueueProtocol WorkerPool
begin

text \<open>
  Ingestion from end to end: the request handler of \<^verbatim>\<open>POST /v1/ingestions\<close> writes a job row and enqueues its id, and the workers of
  \<^verbatim>\<open>queue/workerpool.go\<close> run \<^verbatim>\<open>ingestionJobHandler\<close> (\<^verbatim>\<open>app/app.go\<close>) on what they dequeue. The handler works
  on the job and model tables, and each of its runs may meet another upstream.
\<close>

section \<open>The ingestion queue\<close>

definition ingestion_handler ::
  "('j, 'x) orchestrator_scheme \<Rightarrow> (string \<Rightarrow> parsed_url option) \<Rightarrow> (reference_error \<Rightarrow> string) \<Rightarrow> pgerr link \<Rightarrow> queue_job \<Rightarrow> ingest_state \<Rightarrow>
   ingest_state \<times> (handler_error + unit)" where
  "ingestion_handler K parse text l job st = ingestionJobHandler K parse text l (qj_Payload job) st"

text \<open>A round in which Redis and the job table answer. What the upstream and the model table do is open.\<close>

definition orch_up :: "('j, 'x) orchestrator_scheme \<Rightarrow> bool" where
  "orch_up K \<longleftrightarrow> or_start K = Up \<and> or_done K = Up \<and> or_verify K = Up \<and> or_complete K = Up \<and> or_fail K = Up"

definition poll_up :: "int \<Rightarrow> 's poll" where
  "poll_up now = \<lparr>poll_env = (\<lambda>s. s), poll_done = False, poll_link = Up, poll_now = now, poll_ctx_err = False, poll_done_wait = False\<rparr>"

definition ingestion_round ::
  "('j, 'x) orchestrator_scheme \<Rightarrow> (string \<Rightarrow> parsed_url option) \<Rightarrow> (reference_error \<Rightarrow> string) \<Rightarrow> int \<Rightarrow> ('s, ingest_state, handler_error) worker_round" where
  "ingestion_round K parse text now = \<lparr>wr_handler = ingestion_handler K parse text Up, wr_polls = [poll_up now], wr_link = Up\<rparr>"

section \<open>One run of a job\<close>

definition row_failed :: "string \<Rightarrow> ingestion_jobs \<Rightarrow> bool" where
  "row_failed i jobs \<longleftrightarrow> job_row i (\<lambda>j. job_State j = IngestionStateFailed \<and> job_ErrorMessage j \<noteq> None) jobs"

definition row_cached :: "string \<Rightarrow> ingestion_jobs \<Rightarrow> model_row list \<Rightarrow> bool" where
  "row_cached i jobs models \<longleftrightarrow> (\<exists>m \<in> set models. job_row i (\<lambda>j. job_State j = IngestionStateCached \<and> job_ModelID j = Some (mdl_ID m)) jobs)"

lemma only_job_row:
  assumes "only_job i jobs jobs'" "job_row k (\<lambda>j. job_RepoURL j = u) jobs"
  shows "job_row k (\<lambda>j. job_RepoURL j = u) jobs'"
  using assms by (fastforce simp: only_job_def job_row_def list_all2_conv_all_nth in_set_conv_nth)

lemma job_row_imp: "job_row i P jobs \<Longrightarrow> (\<And>j. P j \<Longrightarrow> Q j) \<Longrightarrow> job_row i Q jobs"
  by (auto simp: job_row_def)

text \<open>The outcome of the handler: an error leaves a failed row, a rejected reference too, but without an error for the queue.\<close>

lemma handler_outcome:
  assumes "orch_up K" "job_row i (\<lambda>j. job_RepoURL j = u) jobs"
    and "ingestionJobHandler K parse text Up i (jobs, models) = ((jobs', models'), res)"
  shows "only_job i jobs jobs' \<and> set models \<subseteq> set models' \<and>
    (case (ParseReference parse u, res) of
       (Inl _, Inr _) \<Rightarrow> row_failed i jobs' | (Inl _, Inl _) \<Rightarrow> False
     | (Inr _, Inr _) \<Rightarrow> row_cached i jobs' models' | (Inr _, Inl _) \<Rightarrow> row_failed i jobs')"
proof -
  obtain rec where find: "find (\<lambda>j. job_ID j = i) jobs = Some rec" using job_row_find [OF assms(2)] by blast
  then have rec: "job_ID rec = i" "job_RepoURL rec = u" using assms(2) by (auto simp: job_row_def dest: find_SomeD)
  show ?thesis
  proof (cases "ParseReference parse u")
    case (Inl e)
    have "\<exists>j'. IngestionJob_Fail Up (or_now K) i (text e) jobs = (j', Inr ()) \<and> only_job i jobs j' \<and> row_failed i j'"
      unfolding IngestionJob_Fail_def row_failed_def using assms(2) by (rule job_update_Up) simp_all
    then show ?thesis using assms(1,3) Inl find rec
      by (auto simp: ingestionJobHandler_def IngestionJob_GetByID_def query_row_Up orch_up_def)
  next
    case (Inr r)
    let ?run = "Orchestrator_Run K i (r\<lparr>ref_Revision := job_Revision rec\<rparr>) (jobs, models)"
    obtain st' res' where run: "?run = (st', res')" by fastforce
    have "st' = (jobs', models')" "res = map_sum HandlerIngest id res'" using assms(3) Inr find rec run
      by (auto simp: ingestionJobHandler_def IngestionJob_GetByID_def query_row_Up split: sum.splits)
    moreover have "job_row i (\<lambda>_. True) jobs" using assms(2) by (rule job_row_imp) simp
    ultimately show ?thesis using ingestion_terminal [of K i jobs "r\<lparr>ref_Revision := job_Revision rec\<rparr>" models] assms(1) Inr run
      by (auto simp: run_recorded_def orch_up_def row_failed_def row_cached_def elim: job_row_imp split: sum.splits)
  qed
qed

section \<open>One round of the worker\<close>

text \<open>The queue holds just the job \<open>i\<close>, tried \<open>a\<close> times; the queue is at rest.\<close>

definition q_holds :: "('s, 'x) redis_scheme \<Rightarrow> queue \<Rightarrow> string \<Rightarrow> int \<Rightarrow> string list \<Rightarrow> 's \<Rightarrow> bool" where
  "q_holds R q i a dead s \<longleftrightarrow> q_typed R q s \<and> q_pending R q s = [i] \<and> q_processing R q s = [] \<and> q_dead R q s = dead
     \<and> q_record R q s i ''payload'' = Some i \<and> q_record R q s i ''attempts'' = Some (itoa a) \<and> 0 \<le> a \<and> a < MaxAttempts (q_opts q)"

definition q_idle :: "('s, 'x) redis_scheme \<Rightarrow> queue \<Rightarrow> string list \<Rightarrow> 's \<Rightarrow> bool" where
  "q_idle R q dead s \<longleftrightarrow> q_typed R q s \<and> q_pending R q s = [] \<and> q_processing R q s = [] \<and> q_dead R q s = dead"

context redis_server
begin

lemma holds_dequeue:
  assumes "q_config q" "q_holds R q i a dead s"
  shows "\<exists>s'. Dequeue R q [poll_up now] s = (s', Dequeued \<lparr>qj_ID = i, qj_Payload = i, qj_Attempts = a\<rparr>) \<and> q_typed R q s'
    \<and> q_pending R q s' = [] \<and> q_processing R q s' = [i] \<and> q_dead R q s' = dead \<and> q_record R q s' = q_record R q s"
proof -
  let ?d = "visibility_deadline q now"
  have t: "q_typed R q s" and p: "q_pending R q s = [] @ [i]" using assms(2) by (simp_all add: q_holds_def)
  note d = dequeue_job [OF t p, of ?d]
  have "is_i64 a" using assms by (simp add: q_config_def q_holds_def is_i64_def)
  then have "tryDequeue R q Up now s = (fst (dequeueScript R q ?d s), Inr (Some \<lparr>qj_ID = i, qj_Payload = i, qj_Attempts = a\<rparr>))"
    using assms(2) d(3) by (simp add: tryDequeue_def dequeue_result_def opt_reply_def q_holds_def)
  then show ?thesis using d(1,2) assms(2) by (auto simp: poll_up_def q_view_eq_iff v_dequeue_def q_holds_def)
qed

lemma holds_ack:
  assumes "q_typed R q s" "q_pending R q s = []" "q_processing R q s = [i]" "q_dead R q s = dead"
  shows "q_idle R q dead (fst (Ack R q Up i s))"
  using ack_view [OF assms(1), of i] assms by (auto simp: Ack_def q_view_eq_iff v_ack_def v_drop_def q_idle_def)

lemma holds_nack:
  assumes "q_config q" "q_typed R q s" "q_pending R q s = []" "q_processing R q s = [i]" "q_dead R q s = dead"
    and "q_record R q s i ''payload'' = Some i" "q_record R q s i ''attempts'' = Some (itoa a)" "0 \<le> a" "a < MaxAttempts (q_opts q)"
  shows "if a + 1 = MaxAttempts (q_opts q) then q_idle R q (i # dead) (fst (Nack R q Up i s)) else q_holds R q i (a + 1) dead (fst (Nack R q Up i s))"
proof -
  have b: "is_i64 (a + 1)" "is_i64 a" using assms(1,8,9) by (simp_all add: q_config_def is_i64_def)
  then have n: "int_of_value (q_record R q s i ''attempts'') = Some a" by (simp add: assms(7) int_of_value_def)
  show ?thesis using nack_view(1,2) [OF assms(2) n b(1), of "MaxAttempts (q_opts q)"] assms(3-)
    by (auto simp: Nack_def q_view_eq_iff v_nack_def v_drop_def Let_def q_idle_def q_holds_def)
qed

lemma round_step:
  assumes "q_config q" "q_holds R q i a dead s"
    and "ingestionJobHandler K parse text Up i t = (t', res)"
  shows "\<exists>s'. (\<forall>ws. worker R q (ingestion_round K parse text now # ws) (t, s) = worker R q ws (t', s')) \<and>
    (case res of Inr _ \<Rightarrow> q_idle R q dead s'
     | Inl _ \<Rightarrow> if a + 1 = MaxAttempts (q_opts q) then q_idle R q (i # dead) s' else q_holds R q i (a + 1) dead s')"
proof -
  obtain s1 where s1: "Dequeue R q [poll_up now] s = (s1, Dequeued \<lparr>qj_ID = i, qj_Payload = i, qj_Attempts = a\<rparr>)" "q_typed R q s1"
    "q_pending R q s1 = []" "q_processing R q s1 = [i]" "q_dead R q s1 = dead" "q_record R q s1 = q_record R q s"
    using holds_dequeue [OF assms(1,2)] by blast
  note run = s1(1) assms(3) ingestion_round_def process_def ingestion_handler_def
  show ?thesis
  proof (cases res)
    case (Inr x)
    then show ?thesis using holds_ack [OF s1(2-5)] by (intro exI [of _ "fst (Ack R q Up i s1)"]) (simp add: run del: Dequeue.simps)
  next
    case (Inl x)
    then show ?thesis using holds_nack [OF assms(1) s1(2-5), of a] assms(2) s1(6)
      by (intro exI [of _ "fst (Nack R q Up i s1)"]) (simp add: run q_holds_def del: Dequeue.simps)
  qed
qed

text \<open>Runs until the job has left the queue.\<close>

lemma runs_settle:
  assumes "q_config q" "q_holds R q i a dead s" "job_row i (\<lambda>j. job_RepoURL j = u) jobs" "\<forall>k \<in> set ks. orch_up (fst k)"
    and "int (length ks) = MaxAttempts (q_opts q) - a"
  shows "\<exists>n jobs' models' s'. 0 < n \<and> n \<le> length ks
    \<and> worker R q (map (\<lambda>(K, now). ingestion_round K parse text now) (take n ks)) ((jobs, models), s) = (((jobs', models'), s'), WorkerBusy)
    \<and> only_job i jobs jobs' \<and> set models \<subseteq> set models'
    \<and> (case ParseReference parse u of
         Inl _ \<Rightarrow> n = 1 \<and> row_failed i jobs' \<and> q_idle R q dead s'
       | Inr _ \<Rightarrow> row_cached i jobs' models' \<and> q_idle R q dead s' \<or> n = length ks \<and> row_failed i jobs' \<and> q_idle R q (i # dead) s')"
  using assms(2-)
proof (induction ks arbitrary: a s jobs models)
  case Nil
  then show ?case by (simp add: q_holds_def)
next
  case (Cons k ks)
  obtain K now where k: "k = (K, now)" by fastforce
  obtain jobs1 models1 res where h: "ingestionJobHandler K parse text Up i (jobs, models) = ((jobs1, models1), res)" by (metis prod.exhaust)
  have up: "orch_up K" using Cons.prems(3) k by simp
  note out = handler_outcome [OF up Cons.prems(2) h]
  obtain s1 where step: "\<forall>ws. worker R q (ingestion_round K parse text now # ws) ((jobs, models), s) = worker R q ws ((jobs1, models1), s1)"
    and q1: "case res of Inr _ \<Rightarrow> q_idle R q dead s1
     | Inl _ \<Rightarrow> if a + 1 = MaxAttempts (q_opts q) then q_idle R q (i # dead) s1 else q_holds R q i (a + 1) dead s1"
    using round_step [OF assms(1) Cons.prems(1) h] by blast
  note s1 = step [rule_format]
  have one: "worker R q (map (\<lambda>(K, now). ingestion_round K parse text now) (take 1 (k # ks))) ((jobs, models), s) = (((jobs1, models1), s1), WorkerBusy)"
    using s1 [of "[]"] k by simp
  consider (stop) "case res of Inr _ \<Rightarrow> True | Inl _ \<Rightarrow> a + 1 = MaxAttempts (q_opts q)"
    | (again) e where "res = Inl e" "a + 1 \<noteq> MaxAttempts (q_opts q)" by (cases res) auto
  then show ?case
  proof cases
    case stop
    have "ks = []" if "a + 1 = MaxAttempts (q_opts q)" using Cons.prems(4) that by (cases ks) auto
    then show ?thesis using stop one out q1
      by (intro exI [of _ 1] exI [of _ jobs1] exI [of _ models1] exI [of _ s1]) (auto split: sum.splits)
  next
    case again
    have u: "job_row i (\<lambda>j. job_RepoURL j = u) jobs1" using out Cons.prems(2) only_job_row by blast
    obtain r where r: "ParseReference parse u = Inr r" using out again(1) by (auto split: sum.splits)
    have held: "q_holds R q i (a + 1) dead s1" and ups: "\<forall>k \<in> set ks. orch_up (fst k)" and len: "int (length ks) = MaxAttempts (q_opts q) - (a + 1)"
      using q1 again Cons.prems(3,4) by simp_all
    obtain n jobs' models' s' where n: "0 < n" "n \<le> length ks"
      "worker R q (map (\<lambda>(K, now). ingestion_round K parse text now) (take n ks)) ((jobs1, models1), s1) = (((jobs', models'), s'), WorkerBusy)"
      "only_job i jobs1 jobs'" "set models1 \<subseteq> set models'"
      "row_cached i jobs' models' \<and> q_idle R q dead s' \<or> n = length ks \<and> row_failed i jobs' \<and> q_idle R q (i # dead) s'"
      using Cons.IH [OF held u ups len, of models1] unfolding r sum.case by blast
    then show ?thesis using out r s1 k
      by (intro exI [of _ "Suc n"] exI [of _ jobs'] exI [of _ models'] exI [of _ s']) (auto intro: only_job_trans)
  qed
qed

end

section \<open>Properties\<close>

lemma storage_error_not_body: "WriteStorageError rid e \<noteq> RespBody c v"
  by (cases e) (simp_all add: WriteStorageError_def apierror_Write_def)

lemma create_ingestion_accepted:
  assumes "CreateIngestionHandler R q l l1 l2 i now rid (Some (repo, revision)) (jobs, s) = ((jobs1, s1), RespBody 201 view)"
  obtains job where "IngestionJob_Create l i now (trim_space repo) (if revision = [] then ''main'' else revision) jobs = (jobs1, Inr job)"
    "Enqueue R q l1 l2 (job_ID job) (job_ID job) s = (s1, Inr ())"
  using assms by (auto simp: CreateIngestionHandler_def apierror_Write_def storage_error_not_body Let_def split: if_splits prod.splits sum.splits)

lemma accepted_holds:
  assumes "redis_server R" "q_config q" "q_idle R q dead s"
    and "CreateIngestionHandler R q l l1 l2 i now rid (Some (repo, revision)) (jobs, s) = ((jobs1, s1), RespBody 201 view)"
  shows "job_row i (\<lambda>j. job_RepoURL j = trim_space repo) jobs1" "q_holds R q i 0 dead s1"
proof -
  obtain job where created: "IngestionJob_Create l i now (trim_space repo) (if revision = [] then ''main'' else revision) jobs = (jobs1, Inr job)"
    and enq: "Enqueue R q l1 l2 (job_ID job) (job_ID job) s = (s1, Inr ())"
    using assms(4) by (rule create_ingestion_accepted)
  have id: "job_ID job = i" and row: "job_row i (\<lambda>j. job_RepoURL j = trim_space repo) jobs1"
    using created by (auto simp: IngestionJob_Create_def insert_row_Inr job_row_def list_ex_iff)
  then show "job_row i (\<lambda>j. job_RepoURL j = trim_space repo) jobs1" by simp
  have t: "q_typed R q s" using assms(3) by (simp add: q_idle_def)
  note rec = redis_server.enqueue_record [OF assms(1) t, of i i]
  note push = redis_server.enqueue_push [OF assms(1) rec(2), of i]
  have "s1 = LPUSH R (pendingKey q) i (HSET R (jobKey q i) [(''payload'', i), (''attempts'', itoa 0)] s)"
    using enq id by (auto simp: Enqueue_def roundtrip_Inr split: prod.splits sum.splits)
  then show "q_holds R q i 0 dead s1" using rec push assms(2,3)
    by (auto simp: q_view_eq_iff v_push_def v_record_def q_idle_def q_holds_def q_config_def)
qed


definition cached_example :: "tensorEntry orchestrator" where
  "cached_example = orchestrator_example\<lparr>or_upstream := (or_upstream orchestrator_example)\<lparr>up_config := (\<lambda>_. Some \<lparr>mc_ModelType = ''llama'', mc_Architectures = [],
     mc_NumHiddenLayers = 1, mc_NumAttentionHeads = 1, mc_NumKeyValueHeads = 1, mc_HiddenSize = 1, mc_MaxPositionEmbeddings = 1\<rparr>)\<rparr>\<rparr>"

definition accepted_example :: "ingestion_jobs \<times> mem" where
  "accepted_example = fst (CreateIngestionHandler mem_redis queue_example Up Up Up ''j'' 1 ''r'' (Some ('' o/n '', [])) ([], mem_empty))"

definition rounds_example :: "nat \<Rightarrow> (ingest_state \<times> mem) \<times> worker_exit" where
  "rounds_example n = worker mem_redis queue_example (map (\<lambda>(K, now). ingestion_round K (\<lambda>_. None) (\<lambda>_. ''bad reference'') now)
     (take n [(orchestrator_example, 10), (cached_example, 20)])) ((fst accepted_example, []), snd accepted_example)"

lemma example_idle: "q_idle mem_redis queue_example [] mem_empty"
  by (simp add: q_idle_def queue_example_typed) (simp add: queue_views m_list_def mem_empty_def)

lemma example_accepted:
  "CreateIngestionHandler mem_redis queue_example Up Up Up ''j'' 1 ''r'' (Some ('' o/n '', [])) ([], mem_empty) =
     ((fst accepted_example, snd accepted_example), RespBody 201 \<lparr>jv_ID = ''j'', jv_RepoURL = ''o/n'', jv_Revision = ''main'',
     jv_State = IngestionStateQueued, jv_BytesTotal = 0, jv_BytesDownloaded = 0, jv_ErrorMessage = [], jv_ModelID = []\<rparr>)"
  by (auto simp: accepted_example_def CreateIngestionHandler_def IngestionJob_Create_def insert_row_def Enqueue_def trim_space_def trim_def is_space_def ingestionJobView_def)

text \<open>
  A failed row is not the end of a job. The upstream breaks the first run, the second one succeeds: after the first round a client reads
  \<^verbatim>\<open>failed\<close>, after the second \<^verbatim>\<open>cached\<close>, with the error message of the first.
\<close>

lemma failed_then_cached:
  "map (\<lambda>j. (job_State j, job_ErrorMessage j)) (fst (fst (fst (rounds_example 1)))) = [(IngestionStateFailed, Some ''error'')]"
  "map (\<lambda>j. (job_State j, job_ErrorMessage j)) (fst (fst (fst (rounds_example 2)))) = [(IngestionStateCached, Some ''error'')]"
proof -
  have n: "le_nat (le_bytes 8 2) = 2" by (simp add: le_nat_bytes)
  obtain h where h: "FetchHeader json_example fetch_example \<lparr>hl_MaxHeaderBytes = 0, hl_MaxTensorCount = 0\<rparr> = Inr h"
    by (simp add: FetchHeader_def ReadHeaderLength_def fetch_example_def safetensorsHeaderPrefixBytes_def limits_normalize_def
        DefaultMaxHeaderBytes_def DefaultMaxTensorCount_def n decodeHeader_def json_example_def metadataKey_def validateTensorEntry_def
        validDtypes_def maxShapeRank_def)
  note run = Orchestrator_Run_def FetchManifest_def fetchRevisionSHA_def fetchFileTree_def getJSON_def orchestrator_example_def cached_example_def
        EnforceQuota_def DefaultQuota_def quota_normalize_def FindExistingArtifact_def Model_GetByRevisionSHA_def query_row_def
        findWeightFile_def has_suffix_def orch_download_def IngestionJob_UpdateProgress_def IngestionJob_UpdateState_def IngestionJob_Complete_def
        IngestionJob_Fail_def Model_Create_def insert_row_def exec_update_Up orch_register_def FetchConfig_def FetchLicense_def orch_fail_def Let_def i64_def h
        ingestionJobHandler_def IngestionJob_GetByID_def
  have p: "ParseReference (\<lambda>_. None) ''o/n'' = Inr \<lparr>ref_Owner = ''o'', ref_Name = ''n'', ref_Revision = ''main''\<rparr>" by code_simp
  let ?job = "\<lambda>st e. \<lparr>job_ID = ''j'', job_RepoURL = ''o/n'', job_Revision = ''main'', job_State = st, job_BytesTotal = 12, job_BytesDownloaded = 12,
      job_ErrorMessage = e, job_ModelID = None, job_CreatedAt = 1, job_UpdatedAt = 7\<rparr>"
  obtain e where first: "ingestionJobHandler orchestrator_example (\<lambda>_. None) (\<lambda>_. ''bad reference'') Up ''j'' (fst accepted_example, []) = (([?job IngestionStateFailed (Some ''error'')], []), Inl e)"
    by (simp add: run p accepted_example_def CreateIngestionHandler_def IngestionJob_Create_def Enqueue_def trim_space_def trim_def is_space_def)
  have second: "\<exists>models'. ingestionJobHandler cached_example (\<lambda>_. None) (\<lambda>_. ''bad reference'') Up ''j'' ([?job IngestionStateFailed (Some ''error'')], []) =
      (([(?job IngestionStateCached (Some ''error''))\<lparr>job_ModelID := Some ''m1''\<rparr>], models'), Inr ())"
    by (simp add: run p)
  then obtain models' where second: "ingestionJobHandler cached_example (\<lambda>_. None) (\<lambda>_. ''bad reference'') Up ''j'' ([?job IngestionStateFailed (Some ''error'')], []) =
      (([(?job IngestionStateCached (Some ''error''))\<lparr>job_ModelID := Some ''m1''\<rparr>], models'), Inr ())" by blast
  note held = accepted_holds(2) [OF mem.redis_server_axioms queue_example_config example_idle example_accepted]
  have two: "MaxAttempts (q_opts queue_example) = 2" by code_simp
  obtain s1 where s1: "\<forall>ws. worker mem_redis queue_example (ingestion_round orchestrator_example (\<lambda>_. None) (\<lambda>_. ''bad reference'') 10 # ws) ((fst accepted_example, []), snd accepted_example)
      = worker mem_redis queue_example ws (([?job IngestionStateFailed (Some ''error'')], []), s1)" "q_holds mem_redis queue_example ''j'' 1 [] s1"
    using mem.round_step [OF queue_example_config held first, of 10] two by auto
  obtain s2 where s2: "worker mem_redis queue_example [ingestion_round cached_example (\<lambda>_. None) (\<lambda>_. ''bad reference'') 20] (([?job IngestionStateFailed (Some ''error'')], []), s1)
      = ((([(?job IngestionStateCached (Some ''error''))\<lparr>job_ModelID := Some ''m1''\<rparr>], models'), s2), WorkerBusy)"
    using mem.round_step [OF queue_example_config s1(2) second, of 20] by (elim exE conjE allE [of _ "[]"]) (rule that, simp only: worker.simps(1))
  show "map (\<lambda>j. (job_State j, job_ErrorMessage j)) (fst (fst (fst (rounds_example 1)))) = [(IngestionStateFailed, Some ''error'')]"
    using s1(1) [rule_format, of "[]"] by (simp add: rounds_example_def del: worker.simps(2))
  show "map (\<lambda>j. (job_State j, job_ErrorMessage j)) (fst (fst (fst (rounds_example 2)))) = [(IngestionStateCached, Some ''error'')]"
    using s1(1) s2 by (simp add: rounds_example_def del: worker.simps(2))
qed


end
