(* ===== verification/Enforcement.thy ===== *)
theory Enforcement
  imports Policy Dispatch Lifecycle
begin

text \<open>
  Suspension together with the cluster it acts on (\<^verbatim>\<open>policy/suspension.go\<close> over \<^verbatim>\<open>nomadclient/client.go\<close>). Theory \<open>Policy\<close> takes the
  outcome of every \<^verbatim>\<open>StopJob\<close> as given; here the call is made on a Nomad state, and the run refines the one of \<open>Policy\<close>. The locale
  \<open>job_server\<close> states what is relied on of Nomad.
\<close>

section \<open>The enforcer (\<^verbatim>\<open>suspension.go\<close>)\<close>

text \<open>\<open>lj\<close> is the link of the call for a job, \<open>text\<close> the text of its error.\<close>

fun enforce_loop ::
  "('n, 'a, 'y) nomad_cluster_scheme \<Rightarrow> (string \<Rightarrow> string link) \<Rightarrow> (submit_error \<Rightarrow> string) \<Rightarrow> suspend_links \<Rightarrow> (string \<Rightarrow> string) \<Rightarrow> deployment list \<Rightarrow>
   suspend_result \<Rightarrow> accounts \<times> 'n \<Rightarrow> (accounts \<times> 'n) \<times> (policy_error + suspend_result)" where
  "enforce_loop N lj text L jobID [] res (a, n) = ((a, n), Inr res)"
| "enforce_loop N lj text L jobID (d # ds) res (a, n) =
     (let (n1, r) = StopJob N (lj (jobID (dep_ID d))) (jobID (dep_ID d)) True n;
          (a1, res1) = (case r of
            Inr _ \<Rightarrow> (a\<lparr>acc_stopped := jobID (dep_ID d) # acc_stopped a\<rparr>, res)
          | Inl e \<Rightarrow> (a, res\<lparr>StopJobErrors := (StopJobErrors res)(dep_ID d \<mapsto> text e)\<rparr>))
      in case Deployment_Terminate (sl_term L (dep_ID d)) (sl_read L (dep_ID d)) (sl_now L) (dep_ID d) (acc_deps a1) of
           (t, Inl e) \<Rightarrow> ((a1\<lparr>acc_deps := t\<rparr>, n1), Inl (PolicyDb e))
         | (t, Inr _) \<Rightarrow> enforce_loop N lj text L jobID ds
             (res1\<lparr>TerminatedDeploymentIDs := TerminatedDeploymentIDs res1 @ [dep_ID d]\<rparr>) (a1\<lparr>acc_deps := t\<rparr>, n1))"

definition Enforcer_Suspend ::
  "('n, 'a, 'y) nomad_cluster_scheme \<Rightarrow> (string \<Rightarrow> string link) \<Rightarrow> (submit_error \<Rightarrow> string) \<Rightarrow> suspend_links \<Rightarrow> (string \<Rightarrow> string) \<Rightarrow> string \<Rightarrow>
   accounts \<times> 'n \<Rightarrow> (accounts \<times> 'n) \<times> (policy_error + suspend_result)" where
  "Enforcer_Suspend N lj text L jobID u an = (case an of (a, n) \<Rightarrow>
     (case User_Suspend (sl_user L) (sl_now L) u (acc_users a) of
        (us, Inl e) \<Rightarrow> ((a\<lparr>acc_users := us\<rparr>, n), Inl (PolicyDb e))
      | (us, Inr _) \<Rightarrow> (case APIKey_RevokeAllByUser (sl_keys L) (sl_now L) u (acc_keys a) of
          (ks, Inl e) \<Rightarrow> ((a\<lparr>acc_users := us, acc_keys := ks\<rparr>, n), Inl (PolicyDb e))
        | (ks, Inr revoked) \<Rightarrow>
            (let a1 = a\<lparr>acc_users := us, acc_keys := ks\<rparr>
             in case Deployment_ListLiveByUser (sl_list L) u (acc_deps a1) of
                  Inl e \<Rightarrow> ((a1, n), Inl (PolicyDb e))
                | Inr ds \<Rightarrow> enforce_loop N lj text L jobID ds
                    \<lparr>RevokedKeyCount = revoked, TerminatedDeploymentIDs = [], StopJobErrors = Map.empty\<rparr> (a1, n)))))"

section \<open>Refinement of \<open>Policy.Suspend\<close>\<close>

text \<open>The outcomes of the calls for a list of deployments, one after the other.\<close>

fun stop_outcomes ::
  "('n, 'a, 'y) nomad_cluster_scheme \<Rightarrow> (string \<Rightarrow> string link) \<Rightarrow> (submit_error \<Rightarrow> string) \<Rightarrow> (string \<Rightarrow> string) \<Rightarrow> deployment list \<Rightarrow> 'n \<Rightarrow> string \<Rightarrow> string option" where
  "stop_outcomes N lj text jobID [] n = (\<lambda>_. None)"
| "stop_outcomes N lj text jobID (d # ds) n = (case StopJob N (lj (jobID (dep_ID d))) (jobID (dep_ID d)) True n of
      (n1, r) \<Rightarrow> (stop_outcomes N lj text jobID ds n1)(jobID (dep_ID d) := (case r of Inr _ \<Rightarrow> None | Inl e \<Rightarrow> Some (text e))))"

definition without_nomad :: "(accounts \<times> 'n) \<times> 'r \<Rightarrow> accounts \<times> 'r" where
  "without_nomad out = (fst (fst out), snd out)"

lemma suspend_loop_stop_cong:
  "(\<And>d. d \<in> set ds \<Longrightarrow> f (jobID (dep_ID d)) = g (jobID (dep_ID d))) \<Longrightarrow>
     suspend_loop (L\<lparr>sl_stop := f\<rparr>) jobID ds res a = suspend_loop (L\<lparr>sl_stop := g\<rparr>) jobID ds res a"
  by (induction ds arbitrary: res a) (auto simp: Let_def split: prod.splits sum.splits option.splits)

lemma enforce_loop_refines:
  assumes "distinct (map (\<lambda>d. jobID (dep_ID d)) ds)"
  shows "without_nomad (enforce_loop N lj text L jobID ds res (a, n)) = suspend_loop (L\<lparr>sl_stop := stop_outcomes N lj text jobID ds n\<rparr>) jobID ds res a"
  using assms
proof (induction ds arbitrary: res a n)
  case (Cons d ds)
  obtain n1 r where s: "StopJob N (lj (jobID (dep_ID d))) (jobID (dep_ID d)) True n = (n1, r)" by fastforce
  have cong: "suspend_loop (L\<lparr>sl_stop := (stop_outcomes N lj text jobID ds n1)(jobID (dep_ID d) := x)\<rparr>) jobID ds res' a' =
      suspend_loop (L\<lparr>sl_stop := stop_outcomes N lj text jobID ds n1\<rparr>) jobID ds res' a'" for x res' a'
  proof (rule suspend_loop_stop_cong)
    fix e assume "e \<in> set ds"
    then have "jobID (dep_ID e) \<noteq> jobID (dep_ID d)" using Cons.prems by (force simp: image_iff)
    then show "((stop_outcomes N lj text jobID ds n1)(jobID (dep_ID d) := x)) (jobID (dep_ID e)) = stop_outcomes N lj text jobID ds n1 (jobID (dep_ID e))" by simp
  qed
  show ?case using Cons s cong [unfolded fun_upd_def]
    by (cases r) (auto simp: Let_def without_nomad_def split: prod.splits sum.splits)
qed (simp add: without_nomad_def)

lemma listed_live:
  assumes "Deployment_ListLiveByUser l u t = Inr ds" "distinct (map dep_ID t)"
  shows "distinct (map dep_ID ds)" "set ds = {d \<in> set t. dep_UserID d = Some u \<and> live_state d}"
proof -
  have "ds = rev (sort_key dep_CreatedAt (filter (\<lambda>d. dep_UserID d = Some u \<and> live_state d) t))"
    using assms(1) by (simp add: Deployment_ListLiveByUser_def query_rows_Inr)
  then show "distinct (map dep_ID ds)" "set ds = {d \<in> set t. dep_UserID d = Some u \<and> live_state d}"
    using assms(2) by (auto simp: distinct_map intro: inj_on_subset)
qed

text \<open>What the enforcer does to the accounts is what \<open>Suspend\<close> does with the outcomes of the calls, whatever the cluster does.\<close>

lemma enforcer_refines:
  assumes "distinct (map dep_ID (acc_deps a))" "inj jobID"
  shows "\<exists>stop. without_nomad (Enforcer_Suspend N lj text L jobID u (a, n)) = Suspend (L\<lparr>sl_stop := stop\<rparr>) jobID u a"
proof (cases "Deployment_ListLiveByUser (sl_list L) u (acc_deps a)")
  case (Inl e)
  then show ?thesis by (intro exI [of _ "\<lambda>_. None"]) (simp add: Enforcer_Suspend_def Suspend_def without_nomad_def Let_def split: prod.splits sum.splits)
next
  case (Inr ds)
  have "distinct (map (\<lambda>d. jobID (dep_ID d)) ds)"
    using listed_live(1) [OF Inr assms(1)] assms(2) by (simp add: distinct_map inj_on_def inj_def)
  note loop = enforce_loop_refines [OF this]
  show ?thesis
    by (intro exI [of _ "stop_outcomes N lj text jobID ds n"])
      (auto simp: Enforcer_Suspend_def Suspend_def loop [symmetric] Inr without_nomad_def Let_def split: prod.splits sum.splits)
qed

section \<open>The jobs on the cluster\<close>

text \<open>What the enforcer relies on: a deregistration that Nomad accepts leaves the job not live, and any touches that job only.\<close>

locale job_server = nomad_server N for N :: "('n, 'a, 'y) nomad_cluster_scheme" +
  assumes dereg_dead: "snd (DEREGISTER N i purge n) = Inr e \<Longrightarrow> \<not> live_job N (fst (DEREGISTER N i purge n)) i"
    and dereg_other: "j \<noteq> i \<Longrightarrow> JOB N (fst (DEREGISTER N i purge n)) j = JOB N n j"
begin

lemma stop_job:
  assumes "StopJob N l i purge n = (n', r)"
  shows "j \<noteq> i \<Longrightarrow> JOB N n' j = JOB N n j" "r = Inr e \<Longrightarrow> \<not> live_job N n' i"
  using assms dereg_dead [of i purge n] dereg_other [of j i purge n]
  by (cases l; auto simp: StopJob_def nomad_write_def split: sum.splits)+

lemma enforce_loop_jobs:
  assumes "enforce_loop N lj text L jobID ds res (a, n) = ((a', n'), Inr res')" "distinct (map dep_ID ds)" "inj jobID"
  shows "(\<forall>j. j \<notin> jobID ` dep_ID ` set ds \<longrightarrow> JOB N n' j = JOB N n j)
    \<and> (\<forall>d \<in> set ds. StopJobErrors res' (dep_ID d) = None \<longrightarrow> \<not> live_job N n' (jobID (dep_ID d)))
    \<and> (\<forall>i. i \<notin> dep_ID ` set ds \<longrightarrow> StopJobErrors res' i = StopJobErrors res i)"
  using assms(1,2)
proof (induction ds arbitrary: res a n)
  case (Cons d ds)
  obtain n1 r where s: "StopJob N (lj (jobID (dep_ID d))) (jobID (dep_ID d)) True n = (n1, r)" by fastforce
  obtain a1 res1 where r1: "(case r of Inr _ \<Rightarrow> (a\<lparr>acc_stopped := jobID (dep_ID d) # acc_stopped a\<rparr>, res)
      | Inl e \<Rightarrow> (a, res\<lparr>StopJobErrors := (StopJobErrors res)(dep_ID d \<mapsto> text e)\<rparr>)) = (a1, res1)" by fastforce
  obtain t x where t: "Deployment_Terminate (sl_term L (dep_ID d)) (sl_read L (dep_ID d)) (sl_now L) (dep_ID d) (acc_deps a1) = (t, Inr x)"
    and run: "enforce_loop N lj text L jobID ds (res1\<lparr>TerminatedDeploymentIDs := TerminatedDeploymentIDs res1 @ [dep_ID d]\<rparr>) (a1\<lparr>acc_deps := t\<rparr>, n1) = ((a', n'), Inr res')"
    using Cons.prems(1) by (auto simp: s r1 split: prod.splits sum.splits)
  note ih = Cons.IH [OF run]
  have d: "jobID (dep_ID d) \<notin> jobID ` dep_ID ` set ds" "dep_ID d \<notin> dep_ID ` set ds" using Cons.prems(2) assms(3) by (auto dest: injD)
  have jd: "JOB N n' (jobID (dep_ID d)) = JOB N n1 (jobID (dep_ID d))" using ih Cons.prems(2) d by simp
  have other: "JOB N n' j = JOB N n j" if "j \<notin> jobID ` dep_ID ` set (d # ds)" for j using ih Cons.prems(2) stop_job(1) [OF s] that by simp
  have keep: "StopJobErrors res' i = StopJobErrors res1 i" if "i \<notin> dep_ID ` set ds" for i using ih Cons.prems(2) that by simp
  have errs: "StopJobErrors res1 i = StopJobErrors res i" if "i \<noteq> dep_ID d" for i using r1 that by (auto split: sum.splits)
  have "\<not> live_job N n' (jobID (dep_ID d))" if "StopJobErrors res' (dep_ID d) = None"
  proof (cases r)
    case (Inl e)
    then show ?thesis using r1 keep [OF d(2)] that by auto
  next
    case (Inr e)
    then show ?thesis using stop_job(2) [OF s] jd by (simp add: live_job_def)
  qed
  then show ?case using ih Cons.prems(2) other keep errs by auto
qed auto

end

interpretation memj: job_server mem_cluster
  by unfold_locales (auto simp: mem_cluster_def live_job_def deadStatus_def split: if_splits)

section \<open>Properties\<close>



end
