(* ===== verification/Lifetime.thy ===== *)
theory Lifetime
  imports Reapers Handlers Enforcement
begin

text \<open>
  Every writer of the deployments table at work on one state: the handler of \<^verbatim>\<open>POST /v1/dashboard/deployments\<close> (theory \<open>Handlers\<close>), the
  status stream (theory \<open>Lifecycle\<close>), the idle tracker and the idle reaper (theory \<open>Reapers\<close>), and the suspension (theory \<open>Enforcement\<close>).
  Each call is a step of a run, with the links, clocks and outcomes it meets; runs are sequences of such steps. The theory shows what
  any run keeps of the lifecycle, and follows one deployment from its request to its end.
\<close>

section \<open>Runs\<close>

datatype life_step =
  StreamRun int bool "stream_item list"
| ReapPass int "string \<Rightarrow> rerr link" "string \<Rightarrow> string option" "pgerr link" "string \<Rightarrow> pgerr link"
| TouchAlloc "rerr link" int string
| ForgetAlloc "rerr link" string
| CreateRequest deploy_calls string "principal option" "string option" "model_row list"
| is_SuspendUser: SuspendUser "string \<Rightarrow> string link" suspend_links string

text \<open>One step. The idle keys and the retry queue are in the same Redis; \<open>th\<close> is the threshold of the reaper and \<open>text\<close> the text of an
  error of Nomad.\<close>

fun life_do ::
  "('n, 'a, 'y) nomad_cluster_scheme \<Rightarrow> ('s, 'x) redis_scheme \<Rightarrow> queue \<Rightarrow> int \<Rightarrow> (submit_error \<Rightarrow> string) \<Rightarrow> life_step \<Rightarrow>
   accounts \<times> ('n, 's) dispatch_world \<Rightarrow> accounts \<times> ('n, 's) dispatch_world" where
  "life_do N R q th text (StreamRun now started items) (a, w) =
     (a\<lparr>acc_deps := fst (StatusStreamer_Run (DBDeploymentStore now) started items (acc_deps a))\<rparr>, w)"
| "life_do N R q th text (ReapPass now li stop l lk) (a, w) =
     (a\<lparr>acc_deps := fst (IdleReaper_Reap th now (\<lambda>x. IdleDuration R (li x) now x (dw_redis w)) stop l lk (acc_deps a))\<rparr>, w)"
| "life_do N R q th text (TouchAlloc l ms x) (a, w) = (a, w\<lparr>dw_redis := fst (Idle_Touch R l ms x (dw_redis w))\<rparr>)"
| "life_do N R q th text (ForgetAlloc l x) (a, w) = (a, w\<lparr>dw_redis := fst (Idle_Forget R l x (dw_redis w))\<rparr>)"
| "life_do N R q th text (CreateRequest C rid po body models) (a, w) =
     (case fst (CreateDeploymentHandler N R q C rid po body models (acc_deps a, w)) of (t, w') \<Rightarrow> (a\<lparr>acc_deps := t\<rparr>, w'))"
| "life_do N R q th text (SuspendUser lj L u) (a, w) =
     (case fst (Enforcer_Suspend N lj text L InferenceJobID u (a, dw_nomad w)) of (a', n) \<Rightarrow> (a', w\<lparr>dw_nomad := n\<rparr>))"

definition life_run where
  "life_run N R q th text steps st = fold (life_do N R q th text) steps st"

text \<open>The transition table says nothing of a suspension, which ends any deployment that has not ended.\<close>

definition life_edge :: "DeploymentState \<Rightarrow> DeploymentState \<Rightarrow> bool" where
  "life_edge st st' \<longleftrightarrow> legal_edge st st' \<or> st \<notin> {StateTerminated, StateFailed} \<and> st' = StateTerminated"

definition known_state :: "DeploymentState \<Rightarrow> bool" where
  "known_state st \<longleftrightarrow> st \<in> {StateQueued, StateProvisioning, StateWarming, StateReady, StateDraining, StateTerminated, StateFailed}"

text \<open>A table in which every deployment of another is still there, moved along the edges only.\<close>

definition moves :: "(DeploymentState \<Rightarrow> DeploymentState \<Rightarrow> bool) \<Rightarrow> deployments \<Rightarrow> deployments \<Rightarrow> bool" where
  "moves E t t' \<longleftrightarrow> distinct (map dep_ID t') \<and> (\<forall>i st. table_state t i = Some st \<longrightarrow> (\<exists>st'. table_state t' i = Some st' \<and> E\<^sup>*\<^sup>* st st'))"

section \<open>Edges and moves\<close>

lemma stage_values: "stage StateQueued = 0" "stage StateProvisioning = 1" "stage StateWarming = 2" "stage StateReady = 3" "stage StateDraining = 4"
    "stage StateTerminated = 5" "stage StateFailed = 6"
  by (simp_all add: stage_def state_defs)

lemma legal_edge_known: "legal_edge st st' \<Longrightarrow> known_state st'"
  by (auto simp: legal_edge_def legalTransitions_def known_state_def split: if_splits)

lemma life_edge_stage: "life_edge st st' \<Longrightarrow> known_state st \<Longrightarrow> known_state st' \<and> stage st < stage st'"
  unfolding life_edge_def by (elim disjE) (auto simp: legal_edge_known legal_edge_stage, auto simp: known_state_def stage_values)

lemma life_path_stage: "life_edge\<^sup>*\<^sup>* st st' \<Longrightarrow> known_state st \<Longrightarrow> known_state st' \<and> stage st \<le> stage st'"
  by (induction rule: rtranclp_induct) (auto dest: life_edge_stage)

lemma life_path_end: "life_edge\<^sup>*\<^sup>* st st' \<Longrightarrow> st \<in> {StateTerminated, StateFailed} \<Longrightarrow> st' = st"
proof (induction rule: rtranclp_induct)
  case (step y z)
  have "\<not> legal_edge StateTerminated z" "\<not> legal_edge StateFailed z"
    by (simp_all add: legal_edge_def legalTransitions_def state_defs)
  then show ?case using step by (auto simp: life_edge_def)
qed simp

lemma moves_refl: "distinct (map dep_ID t) \<Longrightarrow> moves E t t"
  by (simp add: moves_def)

lemma moves_trans: "moves E t t' \<Longrightarrow> moves E t' t'' \<Longrightarrow> moves E t t''"
  unfolding moves_def by (meson rtranclp_trans)

lemma moves_mono: "moves E t t' \<Longrightarrow> (\<And>x y. E x y \<Longrightarrow> F x y) \<Longrightarrow> moves F t t'"
  unfolding moves_def by (meson mono_rtranclp)

text \<open>The shape of all updates: the ids stay, and a row keeps its state or takes one edge.\<close>

lemma moves_update:
  assumes "distinct (map dep_ID t)" "map dep_ID t' = map dep_ID t"
    and "\<And>i st. table_state t i = Some st \<Longrightarrow> table_state t' i = Some st \<or> (\<exists>st'. E st st' \<and> table_state t' i = Some st')"
  shows "moves E t t'"
  using assms unfolding moves_def by (metis r_into_rtranclp rtranclp.rtrancl_refl)

lemma table_state_row: "distinct (map dep_ID t) \<Longrightarrow> d \<in> set t \<Longrightarrow> find (\<lambda>x. dep_ID x = dep_ID d) t = Some d"
  by (induction t) (auto simp: image_iff)

section \<open>The writers\<close>

lemma exec_update_ids: "(\<And>d. dep_ID (f d) = dep_ID d) \<Longrightarrow> map dep_ID (fst (exec_update l p f t)) = map dep_ID t"
  using exec_update_state [of l p f t] by auto

lemma store_ids:
  "map dep_ID (fst (store_UpdateState (DBDeploymentStore now) l i st t)) = map dep_ID t"
  "map dep_ID (fst (store_SetAllocationID (DBDeploymentStore now) l i x t)) = map dep_ID t"
  by (simp_all add: DBDeploymentStore_def Deployment_UpdateState_def Deployment_SetAllocationID_def exec_update_ids)

lemma handleEvent_ids: "map dep_ID (handleEvent (DBDeploymentStore now) ev t) = map dep_ID t"
  by (simp add: handleEvent_def Let_def store_ids split: prod.splits option.splits sum.splits)

lemma handleBatch_ids: "map dep_ID (handleBatch (DBDeploymentStore now) eb t) = map dep_ID t"
proof (cases eb)
  case (EventBatch evs)
  have "map dep_ID (fold (handleEvent (DBDeploymentStore now)) evs t) = map dep_ID t"
    by (induction evs arbitrary: t) (simp_all add: handleEvent_ids)
  then show ?thesis using EventBatch by simp
qed simp_all

lemma stream_ids: "map dep_ID (fst (StatusStreamer_Run (DBDeploymentStore now) started items t)) = map dep_ID t"
proof -
  have "map dep_ID (fst (stream_loop (DBDeploymentStore now) items t)) = map dep_ID t"
  proof (induction items arbitrary: t)
    case (Cons it items)
    then show ?case by (cases it) (simp_all add: handleBatch_ids)
  qed simp
  then show ?thesis by (simp add: StatusStreamer_Run_def)
qed

lemma stream_moves:
  assumes "distinct (map dep_ID t)"
  shows "moves legal_edge t (fst (StatusStreamer_Run (DBDeploymentStore now) started items t))"
  using assms dbstore.run_path by (simp add: moves_def stream_ids)

text \<open>A pass of the reaper, with any outcome of its calls: rows that were ready may be draining, and nothing else changes.\<close>

lemma reap_loop_draining:
  "map dep_ID (fst (reap_loop th now idle stop lk ds t)) = map dep_ID t
   \<and> (table_state (fst (reap_loop th now idle stop lk ds t)) j = table_state t j
      \<or> j \<in> dep_ID ` set ds \<and> table_state t j \<noteq> None \<and> table_state (fst (reap_loop th now idle stop lk ds t)) j = Some StateDraining)"
proof (induction ds arbitrary: t)
  case (Cons d ds)
  let ?t1 = "fst (Deployment_UpdateState (lk (dep_ID d)) now (dep_ID d) StateDraining t)"
  have u: "map dep_ID ?t1 = map dep_ID t" by (simp add: Deployment_UpdateState_def exec_update_ids)
  have "table_state ?t1 j = table_state t j \<or> j = dep_ID d \<and> table_state t j \<noteq> None \<and> table_state ?t1 j = Some StateDraining"
    using UpdateState_table [of "lk (dep_ID d)" now "dep_ID d" StateDraining t] by (cases "j = dep_ID d") auto
  moreover have "fst (reap_loop th now idle stop lk (d # ds) t) = fst (reap_loop th now idle stop lk ds t)
      \<or> fst (reap_loop th now idle stop lk (d # ds) t) = fst (reap_loop th now idle stop lk ds ?t1)"
    by (simp add: reap_loop_Cons split: prod.split)
  ultimately show ?case using Cons.IH [of t] Cons.IH [of ?t1] u by (elim disjE) auto
qed simp

lemma listed_ready:
  assumes "Deployment_ListByState l StateReady t = Inr ready" "distinct (map dep_ID t)" "j \<in> dep_ID ` set ready"
  shows "table_state t j = Some StateReady"
proof -
  obtain d where d: "d \<in> set t" "dep_State d = StateReady" "j = dep_ID d"
    using query_rows_set [OF assms(1) [unfolded Deployment_ListByState_def]] assms(3) by auto
  then show ?thesis using table_state_row [OF assms(2)] by (simp add: table_state_def)
qed

lemma reap_moves:
  assumes "distinct (map dep_ID t)"
  shows "moves legal_edge t (fst (IdleReaper_Reap th now idle stop l lk t))"
proof (cases "Deployment_ListByState l StateReady t")
  case (Inl e)
  then show ?thesis using assms by (simp add: IdleReaper_Reap_def moves_refl)
next
  case (Inr ready)
  let ?t = "fst (reap_loop th now idle stop lk ready t)"
  have e: "fst (IdleReaper_Reap th now idle stop l lk t) = ?t" by (simp add: IdleReaper_Reap_def Inr split: prod.split)
  have drain: "legal_edge StateReady StateDraining" by (simp add: legal_edge_def legalTransitions_def state_defs)
  show ?thesis unfolding e
  proof (rule moves_update [OF assms])
    show "map dep_ID ?t = map dep_ID t" using reap_loop_draining by blast
    show "table_state ?t i = Some st \<or> (\<exists>st'. legal_edge st st' \<and> table_state ?t i = Some st')" if "table_state t i = Some st" for i st
      using reap_loop_draining [of th now idle stop lk ready t i] listed_ready [OF Inr assms, of i] drain that by auto
  qed
qed

lemma create_moves:
  assumes "distinct (map dep_ID t)"
  shows "moves legal_edge t (fst (fst (CreateDeploymentHandler N R q C rid po body models (t, w))))"
proof -
  let ?t = "fst (fst (CreateDeploymentHandler N R q C rid po body models (t, w)))"
  have "?t = t \<or> (\<exists>d. ?t = t @ [d] \<and> dep_ID d \<notin> dep_ID ` set t)"
  proof -
    have "?t = t \<or> (\<exists>m u. ?t = fst (Deployment_Create (dc_create C) (dc_newid C) (dc_now C) m u t))"
      by (auto simp: CreateDeploymentHandler_def Let_def split: option.splits sum.splits prod.splits dispatch_result.splits) (metis fst_conv)+
    then show ?thesis
      using insert_row_state by (fastforce simp: Deployment_Create_def list_ex_iff)
  qed
  then show ?thesis
  proof
    assume "\<exists>d. ?t = t @ [d] \<and> dep_ID d \<notin> dep_ID ` set t"
    then obtain d where d: "?t = t @ [d]" "dep_ID d \<notin> dep_ID ` set t" by blast
    have "table_state (t @ [d]) i = Some st" if "table_state t i = Some st" for i st
      using that by (auto simp: table_state_def find_append split: option.splits)
    then show ?thesis unfolding d(1) moves_def using assms d(2) by auto
  qed (simp add: moves_refl assms)
qed

text \<open>A suspension, whatever fails: rows that it listed as live may be terminated.\<close>

lemma Terminate_rows:
  "map dep_ID (fst (Deployment_Terminate l l2 now i t)) = map dep_ID t
   \<and> (table_state (fst (Deployment_Terminate l l2 now i t)) j = table_state t j
      \<or> j = i \<and> table_state t j \<noteq> None \<and> table_state (fst (Deployment_Terminate l l2 now i t)) j = Some StateTerminated)"
proof -
  define g :: "deployment \<Rightarrow> deployment" where "g = (\<lambda>d. if dep_ID d = i \<and> dep_State d \<noteq> DeploymentStateTerminated then d\<lparr>dep_State := DeploymentStateTerminated, dep_UpdatedAt := now\<rparr> else d)"
  have ids: "dep_ID (g d) = dep_ID d" for d by (simp add: g_def)
  have g: "dep_State (g d) = dep_State d \<or> dep_ID d = i \<and> dep_State (g d) = StateTerminated" for d
    by (simp add: g_def StateTerminated_def DeploymentStateTerminated_def)
  have "find (\<lambda>d. dep_ID d = j) (map g t) = map_option g (find (\<lambda>d. dep_ID d = j) t)"
    using ids by (intro find_map_keep) simp
  then have m: "table_state (map g t) j = map_option (\<lambda>d. dep_State (g d)) (find (\<lambda>d. dep_ID d = j) t)"
    by (simp add: table_state_def option.map_comp o_def)
  have row: "table_state (map g t) j = table_state t j
      \<or> j = i \<and> table_state t j \<noteq> None \<and> table_state (map g t) j = Some StateTerminated"
  proof (cases "find (\<lambda>d. dep_ID d = j) t")
    case (Some r)
    have "table_state t j = Some (dep_State r)" "table_state (map g t) j = Some (dep_State (g r))"
      using m by (simp_all add: table_state_def [of t] Some)
    moreover have "dep_ID r = j" using find_SomeD [OF Some] by blast
    ultimately show ?thesis using g [of r] by (elim disjE) simp_all
  qed (simp add: m table_state_def [of t])
  have "fst (Deployment_Terminate l l2 now i t) = t \<or> fst (Deployment_Terminate l l2 now i t) = map g t"
    by (cases l) (auto simp: Deployment_Terminate_def sql_update_def g_def split: sum.splits)
  then show ?thesis using row ids by (elim disjE) auto
qed

lemma suspend_loop_terminated:
  "map dep_ID (acc_deps (fst (suspend_loop L f ds res a))) = map dep_ID (acc_deps a)
   \<and> (table_state (acc_deps (fst (suspend_loop L f ds res a))) j = table_state (acc_deps a) j
      \<or> j \<in> dep_ID ` set ds \<and> table_state (acc_deps a) j \<noteq> None \<and> table_state (acc_deps (fst (suspend_loop L f ds res a))) j = Some StateTerminated)"
proof (induction ds arbitrary: res a)
  case (Cons d ds)
  obtain a1 res1 where st: "(case sl_stop L (f (dep_ID d)) of
            None \<Rightarrow> (a\<lparr>acc_stopped := f (dep_ID d) # acc_stopped a\<rparr>, res)
          | Some e \<Rightarrow> (a, res\<lparr>StopJobErrors := (StopJobErrors res)(dep_ID d \<mapsto> e)\<rparr>)) = (a1, res1)" by fastforce
  have a1: "acc_deps a1 = acc_deps a" using st by (auto split: option.splits)
  obtain t r where t: "Deployment_Terminate (sl_term L (dep_ID d)) (sl_read L (dep_ID d)) (sl_now L) (dep_ID d) (acc_deps a) = (t, r)" by fastforce
  note row = Terminate_rows [of "sl_term L (dep_ID d)" "sl_read L (dep_ID d)" "sl_now L" "dep_ID d" "acc_deps a" j, unfolded t fst_conv]
  show ?case
  proof (cases r)
    case (Inl e)
    then show ?thesis using row by (auto simp: st a1 t)
  next
    case (Inr x)
    let ?a = "a1\<lparr>acc_deps := t\<rparr>" and ?res = "res1\<lparr>TerminatedDeploymentIDs := TerminatedDeploymentIDs res1 @ [dep_ID d]\<rparr>"
    have "suspend_loop L f (d # ds) res a = suspend_loop L f ds ?res ?a" by (simp add: st a1 t Inr)
    then show ?thesis using Cons.IH [of ?res ?a] row by auto
  qed
qed simp

lemma Suspend_deps:
  "acc_deps (fst (Suspend L f u a)) = acc_deps a \<or> (\<exists>ds res a1. Deployment_ListLiveByUser (sl_list L) u (acc_deps a) = Inr ds
     \<and> acc_deps a1 = acc_deps a \<and> acc_deps (fst (Suspend L f u a)) = acc_deps (fst (suspend_loop L f ds res a1)))"
proof -
  obtain us r where u: "User_Suspend (sl_user L) (sl_now L) u (acc_users a) = (us, r)" by fastforce
  obtain ks rk where k: "APIKey_RevokeAllByUser (sl_keys L) (sl_now L) u (acc_keys a) = (ks, rk)" by fastforce
  show ?thesis
  proof (cases "isl r \<or> isl rk \<or> isl (Deployment_ListLiveByUser (sl_list L) u (acc_deps a))")
    case True
    then show ?thesis by (cases r; cases rk) (auto simp: Suspend_def u k Let_def split: sum.splits)
  next
    case False
    then obtain x n ds where "r = Inr x" "rk = Inr n" "Deployment_ListLiveByUser (sl_list L) u (acc_deps a) = Inr ds"
      by (metis sum.collapse(2))
    then have "Suspend L f u a = suspend_loop L f ds \<lparr>RevokedKeyCount = n, TerminatedDeploymentIDs = [], StopJobErrors = Map.empty\<rparr>
        (a\<lparr>acc_users := us, acc_keys := ks\<rparr>) \<and> Deployment_ListLiveByUser (sl_list L) u (acc_deps a) = Inr ds"
      by (simp add: Suspend_def u k Let_def)
    then show ?thesis by (intro disjI2 exI [of _ ds] exI conjI) auto
  qed
qed

lemma suspend_moves:
  assumes "distinct (map dep_ID (acc_deps a))"
  shows "moves life_edge (acc_deps a) (acc_deps (fst (fst (Enforcer_Suspend N lj text L InferenceJobID u (a, n)))))"
proof -
  obtain stop where "without_nomad (Enforcer_Suspend N lj text L InferenceJobID u (a, n)) = Suspend (L\<lparr>sl_stop := stop\<rparr>) InferenceJobID u a"
    using enforcer_refines [OF assms] by (metis InferenceJobID_def injI same_append_eq)
  then have e: "fst (fst (Enforcer_Suspend N lj text L InferenceJobID u (a, n))) = fst (Suspend (L\<lparr>sl_stop := stop\<rparr>) InferenceJobID u a)"
    by (metis fst_conv without_nomad_def)
  let ?t = "acc_deps (fst (Suspend (L\<lparr>sl_stop := stop\<rparr>) InferenceJobID u a))"
  consider "?t = acc_deps a" | ds res a1 where "Deployment_ListLiveByUser (sl_list L) u (acc_deps a) = Inr ds" "acc_deps a1 = acc_deps a"
      "?t = acc_deps (fst (suspend_loop (L\<lparr>sl_stop := stop\<rparr>) InferenceJobID ds res a1))"
    using Suspend_deps [of "L\<lparr>sl_stop := stop\<rparr>" InferenceJobID u a] by auto
  then show ?thesis unfolding e
  proof cases
    case 2
    note loop = suspend_loop_terminated [of "L\<lparr>sl_stop := stop\<rparr>" InferenceJobID ds res a1, folded 2(3), unfolded 2(2)]
    have live: "st \<notin> {StateTerminated, StateFailed}" if i: "table_state (acc_deps a) i = Some st" "i \<in> dep_ID ` set ds" for i st
    proof -
      obtain d where d: "d \<in> set (acc_deps a)" "live_state d" "i = dep_ID d" using listed_live(2) [OF 2(1) assms] i(2) by auto
      then show ?thesis using i(1) table_state_row [OF assms d(1)] by (simp add: table_state_def live_state_def state_defs)
    qed
    show "moves life_edge (acc_deps a) ?t"
    proof (rule moves_update [OF assms])
      show "table_state ?t i = Some st \<or> (\<exists>st'. life_edge st st' \<and> table_state ?t i = Some st')" if "table_state (acc_deps a) i = Some st" for i st
        using loop [of i] live [OF that] that by (auto simp: life_edge_def)
    qed (use loop in blast)
  qed (simp add: moves_refl assms)
qed

section \<open>Runs keep the lifecycle\<close>

lemma life_do_moves:
  assumes "distinct (map dep_ID (acc_deps (fst st)))"
  shows "moves life_edge (acc_deps (fst st)) (acc_deps (fst (life_do N R q th text x st)))"
    and "\<not> is_SuspendUser x \<Longrightarrow> moves legal_edge (acc_deps (fst st)) (acc_deps (fst (life_do N R q th text x st)))"
proof -
  obtain a w where st: "st = (a, w)" by fastforce
  note d = assms [unfolded st fst_conv]
  show legal: "moves legal_edge (acc_deps (fst st)) (acc_deps (fst (life_do N R q th text x st)))" if "\<not> is_SuspendUser x"
    using that stream_moves [OF d] reap_moves [OF d] create_moves [OF d] moves_refl [OF d]
    by (cases x) (simp_all add: st case_prod_beta)
  show "moves life_edge (acc_deps (fst st)) (acc_deps (fst (life_do N R q th text x st)))"
  proof (cases "is_SuspendUser x")
    case True
    then obtain lj L u where "x = SuspendUser lj L u" by (cases x) auto
    then show ?thesis using suspend_moves [OF d, of N lj "text" L u "dw_nomad w"] by (simp add: st case_prod_beta)
  qed (use legal moves_mono life_edge_def in blast)
qed

lemma life_run_moves:
  assumes "distinct (map dep_ID (acc_deps (fst st)))"
    and "\<And>x st. x \<in> set steps \<Longrightarrow> distinct (map dep_ID (acc_deps (fst st))) \<Longrightarrow> moves E (acc_deps (fst st)) (acc_deps (fst (life_do N R q th text x st)))"
  shows "moves E (acc_deps (fst st)) (acc_deps (fst (life_run N R q th text steps st)))"
  using assms
proof (induction steps arbitrary: st)
  case Nil
  then show ?case by (simp add: life_run_def moves_refl)
next
  case (Cons x steps)
  have m: "moves E (acc_deps (fst st)) (acc_deps (fst (life_do N R q th text x st)))" using Cons.prems by simp
  then have "distinct (map dep_ID (acc_deps (fst (life_do N R q th text x st))))" by (simp add: moves_def)
  from Cons.IH [OF this] Cons.prems(2) show ?case using m by (simp add: life_run_def moves_trans)
qed

section \<open>One deployment\<close>

text \<open>The events of one allocation, delivered in order with working links.\<close>

definition alloc_stream :: "string \<Rightarrow> string \<Rightarrow> string list \<Rightarrow> stream_item list" where
  "alloc_stream i x statuses = [Batch (EventBatch (map (\<lambda>st. \<lparr>ev_alloc = Some \<lparr>al_ID = x, al_JobID = InferenceJobID i, al_ClientStatus = st\<rparr>,
     ev_links = (Up, Up, Up)\<rparr>) statuses))]"

definition deliver :: "int \<Rightarrow> string \<Rightarrow> string \<Rightarrow> string list \<Rightarrow> deployments \<Rightarrow> deployments" where
  "deliver now i x statuses t = fst (StatusStreamer_Run (DBDeploymentStore now) True (alloc_stream i x statuses) t)"

lemma deliver_Nil: "deliver now i x [] t = t"
  by (simp add: deliver_def alloc_stream_def StatusStreamer_Run_def)

lemma deliver_Cons:
  "deliver now i x (st # statuses) t = deliver now i x statuses (handleEvent (DBDeploymentStore now)
     \<lparr>ev_alloc = Some \<lparr>al_ID = x, al_JobID = InferenceJobID i, al_ClientStatus = st\<rparr>, ev_links = (Up, Up, Up)\<rparr> t)"
  by (simp add: deliver_def alloc_stream_def StatusStreamer_Run_def)

lemma deliver_ids: "map dep_ID (deliver now i x statuses t) = map dep_ID t"
  by (simp add: deliver_def stream_ids)

text \<open>The whole row after an event.\<close>

lemma handleEvent_row:
  assumes "find (\<lambda>d. dep_ID d = i) t = Some d" "i \<noteq> []"
  shows "find (\<lambda>d. dep_ID d = i) (handleEvent (DBDeploymentStore now)
      \<lparr>ev_alloc = Some \<lparr>al_ID = x, al_JobID = InferenceJobID i, al_ClientStatus = st\<rparr>, ev_links = (Up, Up, Up)\<rparr> t) =
    Some (d\<lparr>dep_AllocationID := Some x, dep_UpdatedAt := now,
      dep_State := if legal_edge (dep_State d) (mapAllocationState st) then mapAllocationState st else dep_State d\<rparr>)"
proof -
  let ?f = "\<lambda>d. d\<lparr>dep_AllocationID := Some x, dep_UpdatedAt := now\<rparr>" and ?b = "mapAllocationState st"
  let ?t1 = "map (\<lambda>d. if dep_ID d = i then ?f d else d) t"
  have j: "deploymentIDFromJobID (InferenceJobID i) = Some i"
    using assms(2) by (simp add: deploymentIDFromJobID_Some InferenceJobID_prefix)
  have dn: "dep_ID d = i" using find_SomeD [OF assms(1)] by simp
  have t1: "fst (store_SetAllocationID (DBDeploymentStore now) Up i x t) = ?t1"
    by (simp add: DBDeploymentStore_def Deployment_SetAllocationID_def exec_update_Up)
  have f1: "find (\<lambda>d. dep_ID d = i) ?t1 = Some (?f d)" using find_map_keep [of "\<lambda>d. dep_ID d = i" "\<lambda>d. if dep_ID d = i then ?f d else d" t] assms(1) dn by simp
  have cur: "store_CurrentState (DBDeploymentStore now) Up i ?t1 = Inr (dep_State d)"
    using f1 by (simp add: DBDeploymentStore_def DB_CurrentState_def Deployment_GetByID_def query_row_Up)
  have upd: "find (\<lambda>d. dep_ID d = i) (fst (store_UpdateState (DBDeploymentStore now) Up i ?b ?t1)) = Some (?f d\<lparr>dep_State := ?b, dep_UpdatedAt := now\<rparr>)"
    using find_map_keep [of "\<lambda>d. dep_ID d = i" "\<lambda>d. if dep_ID d = i then d\<lparr>dep_State := ?b, dep_UpdatedAt := now\<rparr> else d" ?t1] f1 dn
    by (simp add: DBDeploymentStore_def Deployment_UpdateState_def exec_update_Up del: map_map)
  have ne: "legal_edge c b \<Longrightarrow> b \<noteq> []" for c b
    by (auto simp: legal_edge_def legalTransitions_def state_defs split: if_splits)
  show ?thesis
    using f1 upd ne [of "dep_State d" ?b]
    by (auto simp: handleEvent_def j t1 cur Let_def ValidateTransition_def legal_edge_def dest: legal_edge_neq [unfolded legal_edge_def])
qed

lemma lifecycle_edges:
  "legal_edge StateQueued StateProvisioning" "legal_edge StateProvisioning StateReady" "legal_edge StateReady StateFailed"
  "legal_edge StateDraining StateTerminated" "\<not> legal_edge StateQueued StateReady" "\<not> legal_edge StateReady StateTerminated"
  by (simp_all add: legal_edge_def legalTransitions_def state_defs)

lemma mapped_states:
  "mapAllocationState ''pending'' = StateProvisioning" "mapAllocationState ''running'' = StateReady"
  "mapAllocationState ''complete'' = StateTerminated" "mapAllocationState ''failed'' = StateFailed"
  by (simp_all add: mapAllocationState_def)

text \<open>What a created deployment is: a row of its own, queued.\<close>

lemma created_row:
  assumes "CreateDeploymentHandler N R q C rid po body models (deps, w) = ((t0, w0), RespBody 201 v)"
  obtains d where "find (\<lambda>x. dep_ID x = dv_ID v) t0 = Some d" "dep_State d = StateQueued" "dep_ModelID d = dv_ModelID v"
    "dv_ID v = dc_newid C" "t0 = deps @ [d]" "\<not> list_ex (\<lambda>x. dep_ID x = dv_ID v) deps" "dep_ID d = dv_ID v"
proof -
  obtain m u d where c: "Deployment_Create (dc_create C) (dc_newid C) (dc_now C) m u deps = (t0, Inr d)"
    and v: "dv_ID v = dep_ID d" "dv_ModelID v = dep_ModelID d"
    using assms by (auto simp: CreateDeploymentHandler_def WriteStorageError_def apierror_Write_def Let_def
        split: option.splits sum.splits prod.splits dispatch_result.splits if_splits db_error.splits)
  note row = c [unfolded Deployment_Create_def insert_row_Inr]
  have n: "dep_ID d = dc_newid C" "dep_State d = StateQueued" using row by (simp_all add: StateQueued_def)
  have "find (\<lambda>x. dep_ID x = dc_newid C) deps = None" using row by (simp add: find_None_iff list_ex_iff)
  then show ?thesis using that [of d] row n v by (simp add: find_append)
qed

lemma table_state_ids: "table_state t i \<noteq> None \<longleftrightarrow> i \<in> set (map dep_ID t)"
  by (auto simp: table_state_def find_None_iff)

lemma deliver_state:
  assumes "i \<noteq> []" "table_state t i = Some c"
  shows "table_state (deliver now i x [st] t) i = Some (if legal_edge c (mapAllocationState st) then mapAllocationState st else c)"
  using assms handleEvent_row by (fastforce simp: table_state_def deliver_Cons deliver_Nil)

lemma warm_found:
  assumes "d \<in> set t" "dep_State d = StateReady"
  shows "\<exists>e. FindWarmDeployment Up (dep_ModelID d) t = Inr (Some e) \<and> dep_ModelID e = dep_ModelID d \<and> dep_State e = StateReady"
proof -
  obtain ds where ds: "Deployment_ListByModel Up (dep_ModelID d) t = Inr ds"
    by (simp add: Deployment_ListByModel_def query_rows_Inr)
  then have s: "set ds = {e \<in> set t. dep_ModelID e = dep_ModelID d}"
    unfolding Deployment_ListByModel_def by (rule query_rows_set)
  then obtain e where "find (\<lambda>e. dep_State e = StateReady) ds = Some e"
    using assms by (metis (mono_tags, lifting) find_None_iff mem_Collect_eq option.exhaust)
  then show ?thesis using find_SomeD ds s by (fastforce simp: FindWarmDeployment_def)
qed

lemma reap_row:
  assumes "distinct (map dep_ID t)" "d \<in> set t" "dep_State d = StateReady" "dep_AllocationID d = Some x" "x \<noteq> []" "idle x = Inr v" "stop x = None"
  shows "table_state (fst (IdleReaper_Reap th now idle stop Up (\<lambda>_. Up) t)) (dep_ID d) = Some (if v < th then StateReady else StateDraining)"
proof -
  obtain t' calls res where r: "IdleReaper_Reap th now idle stop Up (\<lambda>_. Up) t = (t', calls, res)" by (metis prod_cases3)
  obtain ready and rs :: "reap_result list" where l: "Deployment_ListByState Up StateReady t = Inr ready"
    and ids: "map rr_DeploymentID rs = map dep_ID (filter (\<lambda>d. idle_too_long th idle d \<and> stop (dep_alloc d) = None) ready)"
    and t': "table_state t' = (\<lambda>j. if j \<in> set (map rr_DeploymentID rs) then Some StateDraining else table_state t j)"
    using reap_pass [OF r allI [OF refl]] by blast
  have ready: "set ready = {y \<in> set t. dep_State y = StateReady}" using query_rows_set [OF l [unfolded Deployment_ListByState_def]] .
  have only: "y = d" if "y \<in> set ready" "dep_ID y = dep_ID d" for y
    using that ready assms(1,2) by (auto simp: distinct_map inj_on_def)
  have "idle_too_long th idle d \<longleftrightarrow> \<not> v < th" "dep_alloc d = x" using assms(4-6) by (auto simp: idle_too_long_def dep_alloc_def)
  then have "dep_ID d \<in> set (map rr_DeploymentID rs) \<longleftrightarrow> \<not> v < th"
    unfolding ids using only assms(2,3,7) ready by (auto simp: image_iff)
  then show ?thesis using t' r table_state_row [OF assms(1,2)] assms(3) by (simp add: table_state_def [of t])
qed

text \<open>The reaper works on a list of rows it has read. An event that is handled after the read and before the update is overwritten: here the
  allocation fails, its deployment is marked failed, and the pass moves it from this terminal state to draining.\<close>

lemma reap_overwrites_failure:
  assumes "find (\<lambda>x. dep_ID x = i) t = Some d" "dep_State d = StateReady" "i \<noteq> []" "distinct (map dep_ID t)"
    and "Deployment_ListByState Up StateReady t = Inr ready" "idle_too_long th idle d" "stop (dep_alloc d) = None"
  shows "table_state (deliver now1 i x [''failed''] t) i = Some StateFailed"
    and "table_state (fst (reap_loop th now idle stop (\<lambda>_. Up) ready (deliver now1 i x [''failed''] t))) i = Some StateDraining"
proof -
  let ?t = "deliver now1 i x [''failed''] t"
  show "table_state ?t i = Some StateFailed"
    using deliver_state [OF assms(3), of t StateReady now1 x "''failed''"] assms(1,2) by (simp add: table_state_def [of t] lifecycle_edges mapped_states)
  obtain t' calls rs where loop: "reap_loop th now idle stop (\<lambda>_. Up) ready ?t = (t', calls, rs)" by (metis prod_cases3)
  have ready: "set ready = {x \<in> set t. dep_State x = StateReady}"
    using query_rows_set [OF assms(5) [unfolded Deployment_ListByState_def]] .
  have d: "d \<in> set ready" "dep_ID d = i" using find_SomeD [OF assms(1)] assms(2) ready by auto
  have known: "\<forall>y \<in> set ready. table_state ?t (dep_ID y) \<noteq> None"
    unfolding table_state_ids deliver_ids using ready by auto
  have "i \<in> set (map rr_DeploymentID rs)" using reap_loop_results [OF loop] d assms(6,7) by auto
  then show "table_state (fst (reap_loop th now idle stop (\<lambda>_. Up) ready ?t)) i = Some StateDraining"
    using reap_loop_table [OF _ known loop] loop by simp
qed

section \<open>Properties\<close>


text \<open>
  C5. The life of a deployment. When the request is answered with 201, the deployment is queued under the returned id. The events pending and
  running of its allocation make it ready and the warm pool of its model not empty. Touched at a millisecond, it survives every
  pass of the reaper before the threshold has passed since and is drained by any later pass whose stop call succeeds, and the
  completion of the allocation then ends it. Two events are dropped because the transition table has no edge for them: running without
  pending before it, and the completion of an allocation that was not drained, after which the deployment is still ready.
\<close>

theorem deployment_lifetime:
  assumes "CreateDeploymentHandler N R q C rid po body models (deps, w) = ((t0, w0), RespBody 201 v)"
    and "distinct (map dep_ID deps)" "dv_ID v \<noteq> []" "x \<noteq> []" "redis_server R" "is_i64 ms" "stop x = None"
  shows "table_state t0 (dv_ID v) = Some StateQueued \<and> (let t1 = deliver now1 (dv_ID v) x [''pending'', ''running''] t0;
       s = fst (Idle_Touch R Up ms x (dw_redis w0));
       t2 = fst (IdleReaper_Reap th now2 (\<lambda>y. IdleDuration R Up now2 y s) stop Up (\<lambda>_. Up) t1)
     in table_state t1 (dv_ID v) = Some StateReady
      \<and> (\<exists>d. FindWarmDeployment Up (dv_ModelID v) t1 = Inr (Some d) \<and> dep_ModelID d = dv_ModelID v \<and> dep_State d = StateReady)
      \<and> (now2 - ms * 1000000 < th \<longrightarrow> table_state t2 (dv_ID v) = Some StateReady)
      \<and> (th \<le> now2 - ms * 1000000 \<longrightarrow> table_state t2 (dv_ID v) = Some StateDraining
           \<and> table_state (deliver now3 (dv_ID v) x [''complete''] t2) (dv_ID v) = Some StateTerminated)
      \<and> table_state (deliver now3 (dv_ID v) x [''complete''] t1) (dv_ID v) = Some StateReady)
    \<and> table_state (deliver now1 (dv_ID v) x [''running''] t0) (dv_ID v) = Some StateQueued"
proof -
  obtain d where d: "find (\<lambda>y. dep_ID y = dv_ID v) t0 = Some d" "dep_State d = StateQueued" "dep_ModelID d = dv_ModelID v"
    and t0: "t0 = deps @ [d]" "\<not> list_ex (\<lambda>y. dep_ID y = dv_ID v) deps" "dep_ID d = dv_ID v"
    using assms(1) by (rule created_row)
  define t1 where "t1 = deliver now1 (dv_ID v) x [''pending'', ''running''] t0"
  define s where "s = fst (Idle_Touch R Up ms x (dw_redis w0))"
  define t2 where "t2 = fst (IdleReaper_Reap th now2 (\<lambda>y. IdleDuration R Up now2 y s) stop Up (\<lambda>_. Up) t1)"
  let ?row = "\<lambda>t. find (\<lambda>y. dep_ID y = dv_ID v) t"
  note ev = handleEvent_row [OF _ assms(3)]
  let ?d1 = "d\<lparr>dep_AllocationID := Some x, dep_UpdatedAt := now1, dep_State := StateReady\<rparr>"
  have r1: "?row t1 = Some ?d1"
    unfolding t1_def deliver_Cons deliver_Nil by (subst ev [OF ev [OF d(1)]]) (simp add: d(2) lifecycle_edges mapped_states)
  have i1: "distinct (map dep_ID t1)" unfolding t1_def deliver_ids using assms(2) t0 by (auto simp: list_ex_iff)
  have m1: "?d1 \<in> set t1" using find_SomeD [OF r1] by blast
  have warm: "\<exists>e. FindWarmDeployment Up (dv_ModelID v) t1 = Inr (Some e) \<and> dep_ModelID e = dv_ModelID v \<and> dep_State e = StateReady"
    using warm_found [OF m1] d(3) by simp
  have idle: "IdleDuration R Up now2 x s = Inr (now2 - ms * 1000000)"
    unfolding s_def using idle_tracker [OF assms(5,6)] by blast
  have reap: "table_state t2 (dv_ID v) = Some (if now2 - ms * 1000000 < th then StateReady else StateDraining)"
    unfolding t2_def using reap_row [OF i1 m1, where idle = "\<lambda>y. IdleDuration R Up now2 y s"] assms(4,7) t0(3) idle by simp
  have "table_state (deliver now3 (dv_ID v) x [''complete''] t2) (dv_ID v) = Some StateTerminated" if "\<not> now2 - ms * 1000000 < th"
    using deliver_state [OF assms(3), of t2 StateDraining now3 x "''complete''"] reap that by (simp add: lifecycle_edges mapped_states)
  moreover have "table_state (deliver now3 (dv_ID v) x [''complete''] t1) (dv_ID v) = Some StateReady"
    using deliver_state [OF assms(3), of t1 StateReady now3 x "''complete''"] r1 by (simp add: lifecycle_edges mapped_states table_state_def [of t1])
  moreover have "table_state (deliver now1 (dv_ID v) x [''running''] t0) (dv_ID v) = Some StateQueued"
    using deliver_state [OF assms(3), of t0 StateQueued now1 x "''running''"] d by (simp add: lifecycle_edges mapped_states table_state_def [of t0])
  ultimately show ?thesis
    using d r1 warm reap by (simp add: Let_def t1_def [symmetric] s_def [symmetric] t2_def [symmetric] table_state_def [of t0] table_state_def [of t1])
qed

definition life_steps_example :: "life_step list" where
  "life_steps_example = [TouchAlloc Up 1 ''a3'', StreamRun 5 True (alloc_stream ''d3'' ''a3'' [''running'']), SuspendUser (\<lambda>_. Up) suspend_up ''u1'',
     ReapPass 9000000 (\<lambda>_. Up) (\<lambda>_. None) Up (\<lambda>_. Up), StreamRun 10 True (alloc_stream ''d3'' ''a3'' [''complete''])]"


definition create_calls_example :: deploy_calls where
  "create_calls_example = \<lparr>dc_model = Up, dc_create = Up, dc_info = Up, dc_register = Up, dc_hset = Up, dc_lpush = Up, dc_newid = ''d9'', dc_now = 10\<rparr>"

definition model_row_example :: model_row where
  "model_row_example = \<lparr>mdl_ID = ''m1'', mdl_CreatedAt = 0, mdl_fields = \<lparr>nm_RepoURL = [], nm_Revision = [], nm_RevisionSHA = [], nm_Architecture = [],
     nm_ParameterCount = 0, nm_Dtype = [], nm_FP16Bytes = 0, nm_FP8Bytes = 0, nm_Int4Bytes = 0, nm_KVCacheBytes = 0, nm_License = []\<rparr>, mdl_sha = None\<rparr>"

theorem deployment_lifetime_witness:
  "\<exists>t0 w0 v. CreateDeploymentHandler mem_nomad mem_redis (New_Queue ''retry'' \<lparr>MaxAttempts = 3, VisibilityTimeout = 0, PollInterval = 0\<rparr>)
       create_calls_example ''r'' None (Some ''m1'') [model_row_example] ([], \<lparr>dw_nomad = (\<lambda>_. None), dw_redis = mem_empty, dw_degraded = False\<rparr>)
       = ((t0, w0), RespBody 201 v)
     \<and> table_state (deliver 11 (dv_ID v) ''a9'' [''pending'', ''running''] t0) (dv_ID v) = Some StateReady
     \<and> table_state (deliver 11 (dv_ID v) ''a9'' [''running''] t0) (dv_ID v) = Some StateQueued
     \<and> (let t2 = fst (IdleReaper_Reap DefaultIdleThreshold 400000000000
            (\<lambda>y. IdleDuration mem_redis Up 400000000000 y (fst (Idle_Touch mem_redis Up 4 ''a9'' (dw_redis w0)))) (\<lambda>_. None) Up (\<lambda>_. Up)
            (deliver 11 (dv_ID v) ''a9'' [''pending'', ''running''] t0))
        in table_state (deliver 500000000000 (dv_ID v) ''a9'' [''complete''] t2) (dv_ID v) = Some StateTerminated)"
proof -
  let ?q = "New_Queue ''retry'' \<lparr>MaxAttempts = 3, VisibilityTimeout = 0, PollInterval = 0\<rparr>"
  let ?w = "\<lparr>dw_nomad = (\<lambda>_. None), dw_redis = mem_empty, dw_degraded = False\<rparr>"
  obtain t0 w0 v where c: "CreateDeploymentHandler mem_nomad mem_redis ?q create_calls_example ''r'' None (Some ''m1'') [model_row_example] ([], ?w)
      = ((t0, w0), RespBody 201 v)" and v: "dv_ID v = ''d9''"
    by (simp add: CreateDeploymentHandler_def create_calls_example_def model_row_example_def Model_GetByID_def query_row_Up Deployment_Create_def
        insert_row_def DispatchJob_def SubmitJobIdempotent_def SubmitJob_def buildJob_def BuildInferenceJob_def InferenceJobID_def live_job_def mem_nomad_def Let_def)
  have i: "is_i64 4" by (simp add: is_i64_def)
  show ?thesis
    using deployment_lifetime [OF c _ _ _ mem.redis_server_axioms i, of "''a9''" "\<lambda>_. None" 11 DefaultIdleThreshold 400000000000 500000000000] c v
    by (simp add: Let_def DefaultIdleThreshold_def)
qed

end
