(* ===== verification/Connections.thy ===== *)
theory Connections
  imports Operations
begin

text \<open>
  What the process is wired from: the Postgres pool (\<^verbatim>\<open>db/pool.go\<close>), the Redis client (\<^verbatim>\<open>redisclient/client.go\<close>), the embedded migration
  files (\<^verbatim>\<open>db/migrations/embed.go\<close>), and the registry of metric collectors (\<^verbatim>\<open>metrics/registry.go\<close>) with the collectors registered
  in it. pgx, go-redis and the Prometheus client are parameters; the locale \<open>collector_registry\<close> states what the constructors of
  collectors rely on.
\<close>

section \<open>Postgres (\<^verbatim>\<open>pool.go\<close>)\<close>

text \<open>A parsed data source name: the two settings the gateway overrides, and the rest.\<close>

record 'c pgx_config =
  px_MaxConns :: int
  px_ConnectTimeout :: int
  px_rest :: 'c

datatype pool_error = PoolParseDSN string | PoolCreate string

text \<open>\<open>create\<close> is the error of \<^verbatim>\<open>pgxpool.NewWithConfig\<close>, if any; a pool is known by the configuration it was made with.\<close>

definition db_NewPool ::
  "(string \<Rightarrow> string + 'c pgx_config) \<Rightarrow> ('c pgx_config \<Rightarrow> string option) \<Rightarrow> string \<Rightarrow> int \<Rightarrow> int \<Rightarrow> pool_error + 'c pgx_config" where
  "db_NewPool parse create dsn maxConns connectTimeout = (case parse dsn of
      Inl e \<Rightarrow> Inl (PoolParseDSN e)
    | Inr cfg \<Rightarrow> (let cfg' = cfg\<lparr>px_MaxConns := maxConns, px_ConnectTimeout := connectTimeout\<rparr> in
        case create cfg' of Some e \<Rightarrow> Inl (PoolCreate e) | None \<Rightarrow> Inr cfg'))"

definition Pool_HealthCheck :: "string option \<Rightarrow> string option" where
  "Pool_HealthCheck ping = map_option (\<lambda>e. ''db: ping: '' @ e) ping"

section \<open>Redis (\<^verbatim>\<open>client.go\<close>)\<close>

record redis_Options =
  ro_Addr :: string
  ro_Password :: string
  ro_DB :: int
  ro_PoolSize :: int
  ro_MaxRetries :: int
  ro_DialTimeout :: int

text \<open>\<open>mk\<close> is \<^verbatim>\<open>redis.NewClient\<close> on the six fields it is given; every other option keeps its zero value.\<close>

definition Redis_NewClient :: "(string \<Rightarrow> string \<Rightarrow> int \<Rightarrow> int \<Rightarrow> int \<Rightarrow> int \<Rightarrow> 'r) \<Rightarrow> redis_Options \<Rightarrow> 'r" where
  "Redis_NewClient mk opts = mk (ro_Addr opts) (ro_Password opts) (ro_DB opts) (ro_PoolSize opts) (ro_MaxRetries opts) (ro_DialTimeout opts)"

definition Redis_HealthCheck :: "string option \<Rightarrow> string option" where
  "Redis_HealthCheck ping = map_option (\<lambda>e. ''redis: ping: '' @ e) ping"

section \<open>Wiring (\<^verbatim>\<open>app.go\<close>)\<close>

definition app_pool :: "(string \<Rightarrow> string + 'c pgx_config) \<Rightarrow> ('c pgx_config \<Rightarrow> string option) \<Rightarrow> Config \<Rightarrow> pool_error + 'c pgx_config" where
  "app_pool parse create cfg = db_NewPool parse create (cf_DatabaseURL cfg) (cf_DBMaxConns cfg) (cf_DBConnectTimeout cfg)"

definition app_redis :: "Config \<Rightarrow> redis_Options" where
  "app_redis cfg = \<lparr>ro_Addr = cf_RedisAddr cfg, ro_Password = cf_RedisPassword cfg, ro_DB = cf_RedisDB cfg, ro_PoolSize = cf_RedisPoolSize cfg,
     ro_MaxRetries = cf_RedisMaxRetries cfg, ro_DialTimeout = cf_RedisDialTimeout cfg\<rparr>"

definition app_readyz :: "string option \<Rightarrow> string option \<Rightarrow> health_report response" where
  "app_readyz pg redis = ReadinessHandler [(''postgres'', Pool_HealthCheck pg), (''redis'', Redis_HealthCheck redis)]"

section \<open>Embedded migrations (\<^verbatim>\<open>embed.go\<close>)\<close>

definition migration_files :: "string list" where
  "migration_files =
     [''001_add_users_and_orgs.sql'', ''002_add_api_keys.sql'', ''003_add_models_and_deployments.sql'', ''004_add_telemetry_history.sql'',
      ''005_add_refresh_tokens.sql'', ''006_add_vram_precision_variants.sql'', ''007_add_model_revision_sha.sql'', ''008_add_ingestion_jobs.sql'',
      ''009_add_run_telemetry_summary.sql'', ''010_add_deployment_gpu_model.sql'', ''011_add_run_cost.sql'', ''012_add_telemetry_hourly_aggregates.sql'',
      ''013_add_user_password_hash.sql'', ''014_add_model_license.sql'', ''015_add_benchmark_runs.sql'', ''016_add_user_tos_and_suspension.sql'',
      ''017_add_deployment_owner.sql'']"

text \<open>The directory as \<^verbatim>\<open>fs.ReadDir\<close> lists it; \<open>content\<close> is the text of a file.\<close>

definition migrations_FS :: "(string \<Rightarrow> string) \<Rightarrow> (string \<times> bool \<times> string option) list" where
  "migrations_FS content = map (\<lambda>f. (f, False, Some (content f))) migration_files"

section \<open>Metric collectors (\<^verbatim>\<open>registry.go\<close>, \<^verbatim>\<open>inference.go\<close>, \<^verbatim>\<open>gpu.go\<close>, \<^verbatim>\<open>engine.go\<close>)\<close>

record collector =
  cl_Name :: string
  cl_Labels :: "string list"

text \<open>The Prometheus registry: \<open>pr_register\<close> is \<open>None\<close> when it reports an error.\<close>

record 'r prometheus =
  pr_empty :: 'r
  pr_register :: "collector \<Rightarrow> 'r \<Rightarrow> 'r option"
  pr_names :: "'r \<Rightarrow> string list"

definition NewRegistry :: "('r, 'x) prometheus_scheme \<Rightarrow> 'r" where
  "NewRegistry P = pr_empty P"

text \<open>\<open>None\<close> is the panic of \<^verbatim>\<open>MustRegister\<close>.\<close>

fun MustRegister :: "('r, 'x) prometheus_scheme \<Rightarrow> collector list \<Rightarrow> 'r \<Rightarrow> 'r option" where
  "MustRegister P [] r = Some r"
| "MustRegister P (c # cs) r = (case pr_register P c r of None \<Rightarrow> None | Some r' \<Rightarrow> MustRegister P cs r')"

definition ttft_collector :: collector where
  "ttft_collector = \<lparr>cl_Name = ''redline_time_to_first_token_seconds'', cl_Labels = [''model'', ''quantization'']\<rparr>"

definition tpot_collector :: collector where
  "tpot_collector = \<lparr>cl_Name = ''redline_inter_token_latency_seconds'', cl_Labels = [''model'', ''quantization'']\<rparr>"

definition NewInferenceCollectors :: "('r, 'x) prometheus_scheme \<Rightarrow> 'r \<Rightarrow> 'r option" where
  "NewInferenceCollectors P reg = (case MustRegister P [ttft_collector] reg of None \<Rightarrow> None | Some reg' \<Rightarrow> MustRegister P [tpot_collector] reg')"

definition gpu_collectors :: "collector list" where
  "gpu_collectors = map (\<lambda>name. \<lparr>cl_Name = name, cl_Labels = [''node'', ''device'', ''allocation'']\<rparr>)
     [''redline_gpu_utilization_percent'', ''redline_gpu_vram_used_bytes'', ''redline_gpu_vram_total_bytes'', ''redline_gpu_temperature_celsius'', ''redline_gpu_power_draw_watts'']"

definition NewGPUCollectors :: "('r, 'x) prometheus_scheme \<Rightarrow> 'r \<Rightarrow> 'r option" where
  "NewGPUCollectors P reg = MustRegister P gpu_collectors reg"

definition engine_collectors :: "collector list" where
  "engine_collectors = map (\<lambda>name. \<lparr>cl_Name = name, cl_Labels = [''model'']\<rparr>)
     [''redline_engine_requests_running'', ''redline_engine_requests_waiting'', ''redline_engine_kv_cache_usage_ratio'']"

definition NewEngineCollectors :: "('r, 'x) prometheus_scheme \<Rightarrow> 'r \<Rightarrow> 'r option" where
  "NewEngineCollectors P reg = MustRegister P engine_collectors reg"

section \<open>Facts\<close>

text \<open>The overrides reach the pool whatever the data source name says, and only a parse or a creation error stops it.\<close>

lemma app_pool_settings:
  "app_pool parse create cfg = Inr pool \<Longrightarrow> px_MaxConns pool = cf_DBMaxConns cfg \<and> px_ConnectTimeout pool = cf_DBConnectTimeout cfg
     \<and> (\<exists>c. parse (cf_DatabaseURL cfg) = Inr c \<and> px_rest pool = px_rest c)"
  by (auto simp: app_pool_def db_NewPool_def Let_def split: sum.splits option.splits)

text \<open>The gateway is ready exactly when both services answer a ping, and the report names the one that does not.\<close>

lemma app_readyz_exact:
  "\<exists>report. app_readyz pg redis = RespBody (if pg = None \<and> redis = None then 200 else 503) report"
  by (cases pg; cases redis) (simp_all add: app_readyz_def ReadinessHandler_def Evaluate_def Pool_HealthCheck_def Redis_HealthCheck_def Let_def)

lemma load_files:
  assumes "list_all (\<lambda>f. has_suffix f ''.sql'' \<and> (\<exists>p. parseMigrationFilename f = Inr p)) fs"
  shows "load_loop (map (\<lambda>f. (f, False, Some (content f))) fs) =
    Inr (map (\<lambda>f. case parseMigrationFilename f of Inr (v, n) \<Rightarrow> \<lparr>mg_Version = v, mg_Name = n, mg_SQL = content f\<rparr>) fs)"
  using assms by (induction fs) auto

lemma ascending_no_duplicate: "sorted_wrt (<) (map mg_Version ms) \<Longrightarrow> duplicate_version ms = None"
  by (induction ms rule: duplicate_version.induct) auto

text \<open>The files of the repository load: every name is well formed, and the versions are 1 to 17, each once, in the order of the directory.\<close>

lemma embedded_migrations_load:
  "\<exists>ms. LoadMigrations (Some (migrations_FS content)) = Inr ms \<and> map mg_Version ms = [1..17] \<and> map mg_SQL ms = map content migration_files"
proof -
  let ?mg = "\<lambda>f. case parseMigrationFilename f of Inr (v, n) \<Rightarrow> \<lparr>mg_Version = v, mg_Name = n, mg_SQL = content f\<rparr>"
  have ok: "list_all (\<lambda>f. has_suffix f ''.sql'' \<and> (case parseMigrationFilename f of Inr p \<Rightarrow> True | Inl _ \<Rightarrow> False)) migration_files" by code_simp
  then have p: "list_all (\<lambda>f. has_suffix f ''.sql'' \<and> (\<exists>p. parseMigrationFilename f = Inr p)) migration_files"
    unfolding list_all_iff by (metis old.sum.exhaust old.sum.simps(5))
  have "map (\<lambda>f. case parseMigrationFilename f of Inr (v, n) \<Rightarrow> v | Inl _ \<Rightarrow> 0) migration_files = [1..17]" by code_simp
  moreover have "map mg_Version (map ?mg migration_files) = map (\<lambda>f. case parseMigrationFilename f of Inr (v, n) \<Rightarrow> v | Inl _ \<Rightarrow> 0) migration_files"
    using p by (auto simp: list_all_iff split: prod.splits)
  ultimately have v: "map mg_Version (map ?mg migration_files) = [1..17]" by simp
  moreover have "map mg_SQL (map ?mg migration_files) = map content migration_files" using p by (auto simp: list_all_iff split: prod.splits)
  moreover have "sort_key mg_Version (map ?mg migration_files) = map ?mg migration_files"
    by (rule sort_key_id_if_sorted) (simp only: v, simp)
  moreover have "duplicate_version (map ?mg migration_files) = None" by (rule ascending_no_duplicate) (simp only: v, code_simp)
  ultimately show ?thesis using load_files [OF p, of content] by (simp add: LoadMigrations_def migrations_FS_def Let_def)
qed

section \<open>Registration of the collectors\<close>

text \<open>The syntax of metric names and of label names, which are not reserved.\<close>

definition name_start :: "char \<Rightarrow> bool" where
  "name_start c \<longleftrightarrow> (let n = of_char c :: nat in (65 \<le> n \<and> n \<le> 90) \<or> (97 \<le> n \<and> n \<le> 122) \<or> n = 95)"

definition name_ok :: "string \<Rightarrow> bool" where
  "name_ok s = (case s of [] \<Rightarrow> False | c # r \<Rightarrow> name_start c \<and> list_all (\<lambda>c. name_start c \<or> digit_val c \<noteq> None) r)"

definition collector_ok :: "collector \<Rightarrow> bool" where
  "collector_ok c \<longleftrightarrow> name_ok (cl_Name c) \<and> list_all (\<lambda>l. name_ok l \<and> \<not> has_prefix l ''__'') (cl_Labels c) \<and> distinct (cl_Labels c)"

text \<open>A registry accepts a well-formed collector whose name is new, and refuses a name it has.\<close>

lemma collectors_distinct:
  "list_all collector_ok (ttft_collector # tpot_collector # gpu_collectors @ engine_collectors)"
  "distinct (map cl_Name (ttft_collector # tpot_collector # gpu_collectors @ engine_collectors))"
  by code_simp+

locale collector_registry =
  fixes P :: "'r prometheus"
  assumes empty_names: "pr_names P (pr_empty P) = []"
    and register_new: "collector_ok c \<Longrightarrow> cl_Name c \<notin> set (pr_names P r) \<Longrightarrow>
      \<exists>r'. pr_register P c r = Some r' \<and> pr_names P r' = cl_Name c # pr_names P r"
    and register_known: "cl_Name c \<in> set (pr_names P r) \<Longrightarrow> pr_register P c r = None"
begin

lemma must_register:
  assumes "list_all collector_ok cs" "distinct (map cl_Name cs)" "set (map cl_Name cs) \<inter> set (pr_names P r) = {}"
  shows "\<exists>r'. MustRegister P cs r = Some r' \<and> pr_names P r' = rev (map cl_Name cs) @ pr_names P r"
  using assms
proof (induction cs arbitrary: r)
  case (Cons c cs)
  obtain r1 where r1: "pr_register P c r = Some r1" "pr_names P r1 = cl_Name c # pr_names P r" using register_new [of c r] Cons.prems by auto
  have "\<exists>r'. MustRegister P cs r1 = Some r' \<and> pr_names P r' = rev (map cl_Name cs) @ pr_names P r1"
    using Cons.prems r1 by (intro Cons.IH) auto
  then show ?case using r1 by auto
qed simp

lemma must_register_again:
  assumes "c \<in> set cs" "cl_Name c \<in> set (pr_names P r)" "list_all collector_ok cs"
  shows "MustRegister P cs r = None"
  using assms
proof (induction cs arbitrary: r)
  case (Cons d cs)
  show ?case
  proof (cases "cl_Name d \<in> set (pr_names P r)")
    case True
    then show ?thesis by (simp add: register_known)
  next
    case False
    then obtain r1 where r1: "pr_register P d r = Some r1" "pr_names P r1 = cl_Name d # pr_names P r" using register_new [of d r] Cons.prems by auto
    have "c \<in> set cs" using Cons.prems False by auto
    then show ?thesis using Cons.IH [of r1] Cons.prems r1 by simp
  qed
qed simp

text \<open>Startup does not panic: the inference, GPU and engine collectors register on a fresh registry, and none of them a second time.\<close>

lemma collectors_register:
  "\<exists>r1 r2 r3. NewInferenceCollectors P (NewRegistry P) = Some r1 \<and> NewGPUCollectors P r1 = Some r2 \<and> NewEngineCollectors P r2 = Some r3
     \<and> NewInferenceCollectors P r3 = None \<and> NewGPUCollectors P r3 = None \<and> NewEngineCollectors P r3 = None"
proof -
  note fresh = collectors_distinct
  obtain r0 where r0: "MustRegister P [ttft_collector] (NewRegistry P) = Some r0" "pr_names P r0 = [cl_Name ttft_collector]"
    using must_register [of "[ttft_collector]" "NewRegistry P"] fresh by (auto simp: NewRegistry_def empty_names)
  obtain r1 where r1: "MustRegister P [tpot_collector] r0 = Some r1" "pr_names P r1 = [cl_Name tpot_collector, cl_Name ttft_collector]"
    using must_register [of "[tpot_collector]" r0] fresh r0(2) by auto
  obtain r2 where r2: "MustRegister P gpu_collectors r1 = Some r2" "pr_names P r2 = rev (map cl_Name gpu_collectors) @ pr_names P r1"
    using must_register [of gpu_collectors r1] fresh r1(2) by auto
  obtain r3 where r3: "MustRegister P engine_collectors r2 = Some r3" "pr_names P r3 = rev (map cl_Name engine_collectors) @ pr_names P r2"
    using must_register [of engine_collectors r2] fresh r1(2) r2(2) by (auto simp: Int_commute)
  have "hd gpu_collectors \<in> set gpu_collectors" "hd engine_collectors \<in> set engine_collectors"
    by (simp_all add: gpu_collectors_def engine_collectors_def)
  then have "MustRegister P gpu_collectors r3 = None" "MustRegister P engine_collectors r3 = None" "MustRegister P [ttft_collector] r3 = None"
    using fresh(1) r1(2) r2(2) r3(2) by (auto intro: must_register_again simp: register_known)
  then show ?thesis using r0(1) r1(1) r2(1) r3(1)
    by (auto simp: NewInferenceCollectors_def NewGPUCollectors_def NewEngineCollectors_def simp del: MustRegister.simps)
qed

end

definition mem_prometheus :: "string list prometheus" where
  "mem_prometheus = \<lparr>pr_empty = [], pr_register = (\<lambda>c r. if collector_ok c \<and> cl_Name c \<notin> set r then Some (cl_Name c # r) else None), pr_names = (\<lambda>r. r)\<rparr>"

interpretation mem_reg: collector_registry mem_prometheus
  by unfold_locales (auto simp: mem_prometheus_def)

end
