(* ===== verification/Spec2Isabelle.thy ===== *)
theory Spec2Isabelle
  imports GpuBinding Lifecycle Reapers QueueProtocol Placement Failures Dispatch Policy LocalCache Lora Resilience
    Isolation Ingestion ArtifactStore Middleware Rollups Observability Process EventText Pipeline Lifetime Connections
begin

text \<open>
  Redline is a gateway, written in Go, that deploys language models as sandboxed jobs on a Nomad cluster and serves
  chat completions from them. This development models its packages under \<^verbatim>\<open>src/internal\<close> as HOL functions
  and proves what makes them correct. The theories follow the packages; every definition keeps the name of the
  Go function where HOL allows it, a method \<^verbatim>\<open>M\<close> of a type \<^verbatim>\<open>T\<close> is called \<open>M\<close> or \<open>T_M\<close>, a loop in the body of a
  function is a function of its own, and the fields of a struct are the fields of a record with a short prefix.

  \<^bold>\<open>The program and the theories.\<close>

  \<^item> A request passes the middleware chain (\<^verbatim>\<open>router\<close>, \<^verbatim>\<open>httpmw\<close>; theory \<open>Middleware\<close>), is authenticated by an API
    key or a session token (\<^verbatim>\<open>auth\<close>, \<^verbatim>\<open>httpmw\<close>; theories \<open>Encoding\<close>, \<open>Http\<close>, \<open>Auth\<close>), is rate limited
    (\<^verbatim>\<open>ratelimit\<close>; theory \<open>RateLimit\<close>) and checked for abuse (\<^verbatim>\<open>policy\<close>; theory \<open>Policy\<close>, and
    \<open>Enforcement\<close> for a suspension with the cluster it acts on), and
    reaches a handler of \<^verbatim>\<open>api\<close> (theories \<open>Handlers\<close>, \<open>Chat\<close>, \<open>Operations\<close>, \<open>Telemetry\<close>). The composition in \<^verbatim>\<open>app/app.go\<close> is in
    theories \<open>Routes\<close> (the chat routes) and \<open>Gateway\<close> (the route table, every other route, and \<open>app_Handler\<close>, the handler of
    the whole API on the state that all requests share); theory \<open>Isolation\<close> has the properties of that handler.
  \<^item> The handlers read and write the tables of PostgreSQL through the repositories of \<^verbatim>\<open>db\<close> (theories \<open>Database\<close>,
    \<open>Telemetry\<close>, \<open>Operations\<close>). A table is the list of its rows; a repository method is a function from a table to
    a table and a result, with its \<^verbatim>\<open>WHERE\<close> clause and the mapping of errors.
  \<^item> Shared short-lived state is in Redis (theory \<open>Redis\<close>): the job queue and its workers (\<^verbatim>\<open>queue\<close>; theories
    \<open>JobQueue\<close>, \<open>QueueProtocol\<close>, \<open>WorkerPool\<close>), the binding of GPUs to tenants (\<^verbatim>\<open>scheduler/gpubinding.go\<close>; theory
    \<open>GpuBinding\<close>), the idle keys, the limiter's windows, the violation counters.
  \<^item> An ingestion (\<^verbatim>\<open>ingest\<close>, \<^verbatim>\<open>cache\<close>) checks a repository reference and the safetensors header (theory
    \<open>ArtifactHeader\<close>), runs the orchestrator over the job and model tables (theory \<open>Ingestion\<close>) and streams the
    artifact into the object store while it is verified (theory \<open>ArtifactStore\<close>). Theory \<open>Pipeline\<close> composes the request handler, the
    queue, the workers and the orchestrator.
  \<^item> A deployment is sized and placed (\<^verbatim>\<open>ingest/vram.go\<close>, \<^verbatim>\<open>quant\<close>, \<^verbatim>\<open>scheduler\<close>; theory \<open>Placement\<close>), built as
    a Nomad job and submitted (\<^verbatim>\<open>nomadclient\<close>, \<^verbatim>\<open>netsec\<close>; theory \<open>Dispatch\<close>), followed through its life by the status
    stream (theory \<open>Lifecycle\<close>), classified and retried when it fails (theory \<open>Failures\<close>), and collected when it
    is idle or unknown (theory \<open>Reapers\<close>). Theory \<open>Lifetime\<close> runs all writers of the deployments table on one state.
  \<^item> Completions come from a backend of \<^verbatim>\<open>inference\<close> (theory \<open>Inference\<close>); the bytes of a streamed answer, as the chat endpoint
    writes and the vLLM client reads them, are in theory \<open>EventText\<close>, over the JSON codec of theory \<open>Json\<close>; weights and adapters are kept on the node
    (\<^verbatim>\<open>localcache\<close>, \<^verbatim>\<open>lora\<close>; theories \<open>LocalCache\<close>, \<open>Lora\<close>), and stuck requests are requeued (\<^verbatim>\<open>resilience\<close>;
    theory \<open>Resilience\<close>).
  \<^item> Around them: live telemetry, retention and cost (\<^verbatim>\<open>telemetry\<close>, \<^verbatim>\<open>billing\<close>; theory \<open>Telemetry\<close>), the telemetry socket
    (theory \<open>LiveSocket\<close>), the rollup query (theory \<open>Rollups\<close>), the GPU sampler, the engine scrape and the collectors
    (\<^verbatim>\<open>metrics\<close>; theory \<open>Metrics\<close>), configuration, migrations, health, the model catalogue and the benchmark suite (theory
    \<open>Operations\<close>), the recorders of the chat routes (theory \<open>Observability\<close>), the start and stop of the process with its logger (\<^verbatim>\<open>cmd/gateway\<close>, \<^verbatim>\<open>logging\<close>; theory \<open>Process\<close>),
    and what it is wired from: the database pool, the Redis client, the embedded migrations, the health checks and the metrics
    registry (theory \<open>Connections\<close>).

  Theory \<open>Prelude\<close> has the collections of simplification rules, the error type and the generic lemmas; theory \<open>Float64\<close> has
  rounding to doubles and \<^verbatim>\<open>ParseFloat\<close>, where a result of the program depends on them.

  \<^bold>\<open>Interfaces.\<close> What one component relies on is a locale, proved about once and interpreted on the model of
  the provider: \<open>redis_server\<close>, \<open>redis_expiry\<close> and \<open>redis_frame\<close> (the Redis commands, their expiry, and that a command
  leaves other keys alone, interpreted on the in-memory server \<open>mem_redis\<close>),
  \<open>deployment_state_store\<close> (the store of the status stream, interpreted on the repository of theory \<open>Database\<close>),
  \<open>nomad_server\<close> and its extensions \<open>allocation_server\<close> and \<open>job_server\<close> (the job registry, the allocations and the deregistration,
  interpreted on a registry that implements the documented calls), \<open>stream_source\<close> (the events of a backend stream, interpreted on the mock and on the vLLM
  client), \<open>gauge_vector\<close> (a labelled gauge, interpreted on finite maps), and \<open>collector_registry\<close> (the registration of collectors, interpreted on
  the list of the registered ones).

  \<^bold>\<open>What the lemmas show.\<close>

  \<^item> \<open>GpuBinding\<close>: over any interleaving of bind, release and zeroing calls, a GPU never serves a tenant while another
    tenant's data may be on it; the life of one binding.
  \<^item> \<open>Lifecycle\<close>, \<open>Reapers\<close>, \<open>Failures\<close>: the states a stream of events can reach, the effect of each event, exactly
    which deployments and allocations a pass of a reaper stops, and how failures are classified.
  \<^item> \<open>Lifetime\<close>: what any run of the writers of the deployments table keeps of the lifecycle, the life of one deployment from its
    request to its end, and the race between a pass of the reaper and an event.
  \<^item> \<open>QueueProtocol\<close>: the scripts refine an abstract queue; no job is lost or duplicated over runs of
    producers, workers and reaper; first in first out delivery; the number of attempts; what a late acknowledgement does. \<open>WorkerPool\<close>: a pool that is
    shut down finishes every job it has taken. \<open>Pipeline\<close>: an accepted ingestion leaves the queue after at most the configured number of
    attempts, cached or failed.
  \<^item> \<open>Placement\<close>, \<open>Dispatch\<close>: the footprint is exact below the 64-bit bound, best fit, minimal engine arguments,
    a submitted job is in the server or in the retry queue, and its sandbox settings.
  \<^item> \<open>RateLimit\<close>, \<open>Policy\<close>, \<open>Enforcement\<close>, \<open>Auth\<close>, \<open>Handlers\<close> and this theory: the bound of the sliding window, the escalation
    ladder, suspension and what it leaves of the jobs on the cluster, the round trip of generated keys through their textual hash, the single use of refresh
    tokens, the gate of the administrative route, and what a suspension leaves open.
  \<^item> \<open>Routes\<close>, \<open>Gateway\<close>, \<open>Isolation\<close>: the bound of the limiter through the whole chat route with failing calls; the route table is
    unambiguous; a request without credentials has no effect; a session reaches no other account, but for the
    revocation of keys; the request that suspends an account for churn still deploys.
  \<^item> \<open>ArtifactHeader\<close>, \<open>Ingestion\<close>, \<open>ArtifactStore\<close>: what an accepted header guarantees, that an ingestion ends in
    a terminal state, that the parallel chunked upload stores the source's bytes under every schedule of its parts, that
    only verified bytes stay in the store, and that the retry loop makes a bounded number of attempts.
  \<^item> \<open>Inference\<close>, \<open>Chat\<close>, \<open>Middleware\<close>: cancellation by request id, readiness is reached, the shape of an event
    stream, admission and its arithmetic, and the composition of the middleware. \<open>Json\<close>, \<open>EventText\<close>: JSON text is read back to the value it was
    written from, and the bytes of a streamed answer to its events, up to invalid UTF-8.
  \<^item> \<open>LocalCache\<close>, \<open>Lora\<close>, \<open>Resilience\<close>, \<open>Telemetry\<close>, \<open>Operations\<close>: the capacity invariant, residency, the sweep and that the
    reaper's loop finds every stuck request, retention against a reference definition, and that each migration is applied exactly once.
  \<^item> \<open>LiveSocket\<close>, \<open>Observability\<close>, \<open>Rollups\<close>, \<open>Metrics\<close>, \<open>Process\<close>, \<open>Float64\<close>: a subscriber with room gets every latency of an answer, the
    first token's once; a socket leaves no trace in the hub and delivers in order; a rollup counts
    every run once and its percentiles ascend; the sampler reads back what the driver prints, and a series outlives its
    allocation; the gateway listens only after its migrations; \<open>Connections\<close>: the embedded migrations are the versions 1 to 17, and every
    collector is registered once; nine tenths of a footprint and the FP8 threshold are
    exact in spite of rounding.

  \<^bold>\<open>How the model abstracts.\<close>

  \<^item> Integers whose overflow matters are 64-bit words or have the wrap-around written out; the others are \<open>int\<close>
    or \<open>nat\<close>. Floating point values are rationals or reals, without rounding and \<^verbatim>\<open>NaN\<close>, except where theory \<open>Float64\<close> is used: in the
    FP8 check, the reduced footprint and the metrics.
  \<^item> Clocks, random sources and the order in which Go walks a map are arguments. A call over the network has a
    link argument: it succeeds, it fails before its effect, or its effect happens and the answer is lost.
  \<^item> Goroutines are explicit interleavings: runs of atomic steps for the Redis scripts, a schedule of the parts for
    an upload, a list of received items for a channel.
  \<^item> Argon2, bcrypt, SHA-256, JWT, URL parsing, YAML decoding, the decoding of request bodies and manifests, the S3 client, the Nomad server, the engine's HTTP
    answers and the effect of a migration script are parameters; where a theorem relies on one of them, the documented
    behaviour is a named hypothesis and the theorem has a witness with a concrete instance.
  \<^item> Loops are structural recursion or have a termination proof. A service loop that ends only with its context
    (the queue worker, the status stream, the tickers) is a function of the list of its rounds. Two loops may run
    forever and are partial functions in the option monad: the listing of uploaded parts and the readiness
    probe; that they return is proved, for markers that grow up to a bound and for a probe that succeeds
    or a context that ends. One definition uses fuel, the JSON parser of theory \<open>Json\<close>: twice the length of the input and one more, and
    lemma \<open>json_parse_fuel\<close> shows that more fuel changes no result. The bounds of the libraries are kept: a nesting depth of 10000 and a line of 65536 bytes.

  \<^bold>\<open>Not modelled.\<close> The interfaces and constructors that only store their arguments (\<^verbatim>\<open>db/repositories.go\<close> and the \<^verbatim>\<open>New\<close> functions
  without checks or defaults). Bodies of responses other than the chunks of a streamed answer are values: their JSON text is not modelled. The
  goroutines that \<^verbatim>\<open>Run\<close> starts are one action of theory \<open>Process\<close>; what they do is in the theories of their packages. The pools and tickers
  have no model of time beyond the clock arguments of the calls. The hub is part of the state of the chat routes in theory
  \<open>Observability\<close> and not of \<open>app_Handler\<close>, and requests to \<open>app_Handler\<close> are interleaved as wholes, except where a theory above
  interleaves single calls (Redis scripts, token rotation, uploads, the hub, the worker pool, the reaper).
\<close>


text \<open>A user with password and an active key; every call succeeds.\<close>

definition suspended_example :: accounts where
  "suspended_example = \<lparr>acc_users = [\<lparr>usr_ID = ''u1'', usr_Email = ''a@b'', usr_PasswordHash = ''h'', usr_TOSAcceptedAt = None,
     usr_SuspendedAt = None, usr_CreatedAt = 0, usr_UpdatedAt = 0\<rparr>], acc_keys = [], acc_deps = [], acc_stopped = []\<rparr>"


end
